(* ===== verification/Prelude.thy ===== *)
theory Prelude
  imports Main "HOL-Library.Word" "HOL-Library.Multiset"
begin

text \<open>
  Vocabulary shared by the components: machine integers, time points, C++ exceptions,
  stateful operations that keep the state they reached when they throw, a Hoare-style
  judgement for them, and a few lemmas on words and lists.
\<close>

unbundle bit_operations_syntax

section \<open>Machine types\<close>

type_synonym u8 = "8 word"
type_synonym u32 = "32 word"
type_synonym u64 = "64 word"

text \<open>A \<open>std::chrono::steady_clock\<close> reading and a difference of two, in nanosecond ticks.\<close>
type_synonym TimePoint = int
type_synonym duration = int

section \<open>Exceptions and stateful operations\<close>

text \<open>
  The exception classes the sources throw, with their messages. \<open>External_exception\<close> is
  whatever a caller-supplied callback throws.
\<close>
datatype exn =
    Invalid_argument string
  | Logic_error string
  | Overflow_error string
  | Out_of_range string
  | Runtime_error string
  | External_exception string

text \<open>
  An operation maps a state to a result and a state. A throwing operation also returns the
  state it had reached: C++ does not roll assignments back.
\<close>
type_synonym ('s, 'a) operation = "'s \<Rightarrow> (exn + 'a) \<times> 's"

definition ok :: "'a \<Rightarrow> ('s, 'a) operation" where
  "ok x s = (Inr x, s)"

definition throw :: "exn \<Rightarrow> ('s, 'a) operation" where
  "throw e s = (Inl e, s)"

definition bind_op :: "('s, 'a) operation \<Rightarrow> ('a \<Rightarrow> ('s, 'b) operation) \<Rightarrow> ('s, 'b) operation" where
  "bind_op m k s = (case m s of (Inl e, s') \<Rightarrow> (Inl e, s') | (Inr x, s') \<Rightarrow> k x s')"

definition then_op :: "('s, 'a) operation \<Rightarrow> ('s, 'b) operation \<Rightarrow> ('s, 'b) operation" where
  "then_op m k = bind_op m (\<lambda>_. k)"

definition modify_op :: "('s \<Rightarrow> 's) \<Rightarrow> ('s, unit) operation" where
  "modify_op f s = (Inr (), f s)"

text \<open>Statements in sequence: the first that throws ends the block.\<close>
fun seq_ops :: "('s, unit) operation list \<Rightarrow> ('s, unit) operation" where
  "seq_ops [] = ok ()"
| "seq_ops (m # ms) = then_op m (seq_ops ms)"

text \<open>A range-for loop whose body may throw.\<close>
fun for_each :: "('a \<Rightarrow> ('s, unit) operation) \<Rightarrow> 'a list \<Rightarrow> ('s, unit) operation" where
  "for_each body [] = ok ()"
| "for_each body (x # xs) = then_op (body x) (for_each body xs)"

named_theorems op_defs \<open>definitions of the operation combinators\<close>
declare ok_def [op_defs] throw_def [op_defs] bind_op_def [op_defs] then_op_def [op_defs]
  modify_op_def [op_defs]

lemma then_simps [simp]:
  "then_op (modify_op f) m s = m (f s)" "then_op (ok x) m s = m s"
  by (simp_all add: op_defs)

lemma then_assoc: "then_op (then_op a b) c = then_op a (then_op b c)"
  by (rule ext) (simp add: then_op_def bind_op_def split: prod.splits sum.splits)

lemma run_simps:
  "modify_op f s = (Inr (), f s)" "ok y s = (Inr y, s)" "throw e s = (Inl e, s)"
  by (simp_all add: op_defs)

subsection \<open>A Hoare-style judgement\<close>

text \<open>
  \<open>triple P m Q E\<close>: from a state satisfying \<open>P\<close>, \<open>m\<close> returns normally with \<open>Q\<close>, or throws in a
  state satisfying \<open>E\<close>. With \<open>E\<close> the constant false predicate it says that \<open>m\<close> does not throw.
\<close>
definition triple ::
  "('s \<Rightarrow> bool) \<Rightarrow> ('s, 'a) operation \<Rightarrow> ('a \<Rightarrow> 's \<Rightarrow> bool) \<Rightarrow> (exn \<Rightarrow> 's \<Rightarrow> bool) \<Rightarrow> bool" where
  "triple P m Q E \<longleftrightarrow> (\<forall>s. P s \<longrightarrow> (case m s of (Inl e, s') \<Rightarrow> E e s' | (Inr x, s') \<Rightarrow> Q x s'))"

named_theorems triple_intros \<open>rules of the operation judgement\<close>

lemma tripleI:
  assumes "\<And>s e s'. P s \<Longrightarrow> m s = (Inl e, s') \<Longrightarrow> E e s'"
    and "\<And>s x s'. P s \<Longrightarrow> m s = (Inr x, s') \<Longrightarrow> Q x s'"
  shows "triple P m Q E"
  using assms by (fastforce simp: triple_def split: prod.splits sum.splits)

lemma triple_Inr: "triple P m Q E \<Longrightarrow> P s \<Longrightarrow> m s = (Inr x, s') \<Longrightarrow> Q x s'"
  by (fastforce simp: triple_def)

lemma triple_Inl: "triple P m Q E \<Longrightarrow> P s \<Longrightarrow> m s = (Inl e, s') \<Longrightarrow> E e s'"
  by (fastforce simp: triple_def)

lemma triple_weaken:
  assumes "triple P m Q E" and "\<And>s. P' s \<Longrightarrow> P s"
    and "\<And>x s. Q x s \<Longrightarrow> Q' x s" and "\<And>e s. E e s \<Longrightarrow> E' e s"
  shows "triple P' m Q' E'"
  using assms by (fastforce simp: triple_def split: prod.splits sum.splits)

lemma triple_ok [triple_intros]: "(\<And>s. P s \<Longrightarrow> Q x s) \<Longrightarrow> triple P (ok x) Q E"
  by (simp add: triple_def ok_def)

lemma triple_throw [triple_intros]: "(\<And>s. P s \<Longrightarrow> E e s) \<Longrightarrow> triple P (throw e) Q E"
  by (simp add: triple_def throw_def)

lemma triple_modify [triple_intros]: "(\<And>s. P s \<Longrightarrow> Q () (f s)) \<Longrightarrow> triple P (modify_op f) Q E"
  by (simp add: triple_def modify_op_def)

lemma triple_bind:
  assumes "triple P m R E" and "\<And>x. triple (R x) (k x) Q E"
  shows "triple P (bind_op m k) Q E"
  using assms by (fastforce simp: triple_def bind_op_def split: prod.splits sum.splits)

lemma triple_then:
  assumes "triple P m (\<lambda>_. R) E" and "triple R k Q E"
  shows "triple P (then_op m k) Q E"
  unfolding then_op_def by (rule triple_bind [OF assms(1)]) (rule assms(2))

text \<open>An invariant kept by the body is kept by the loop.\<close>
lemma triple_for_each:
  assumes "\<And>x. x \<in> set xs \<Longrightarrow> triple I (body x) (\<lambda>_. I) E"
  shows "triple I (for_each body xs) (\<lambda>_. I) E"
  using assms
proof (induction xs)
  case Nil
  then show ?case by (simp add: triple_ok)
next
  case (Cons x xs)
  then show ?case by (auto intro!: triple_then [where R = I])
qed

text \<open>The same with an invariant that also says what is left to do.\<close>
lemma triple_for_each_rest:
  assumes "\<And>x rest. triple (I (x # rest)) (body x) (\<lambda>_. I rest) E"
  shows "triple (I xs) (for_each body xs) (\<lambda>_. I []) E"
proof (induction xs)
  case Nil
  then show ?case by (simp add: triple_ok)
next
  case (Cons x xs)
  then show ?case by (auto intro!: triple_then [where R = "I xs"] assms)
qed

lemma triple_state: "(\<And>s0. P s0 \<Longrightarrow> triple (\<lambda>s. s = s0) m Q E) \<Longrightarrow> triple P m Q E"
  by (simp add: triple_def)

lemma triple_seq_ops:
  assumes "\<And>m. m \<in> set ms \<Longrightarrow> triple I m (\<lambda>_. I) E"
  shows "triple I (seq_ops ms) (\<lambda>_. I) E"
  using assms
proof (induction ms)
  case Nil
  then show ?case by (simp add: triple_ok)
next
  case (Cons m ms)
  then show ?case by (auto intro!: triple_then [where R = I])
qed

section \<open>Words\<close>

lemma unat_add_lt: "unat (a::'a::len word) + unat b < 2 ^ LENGTH('a) \<Longrightarrow> unat (a + b) = unat a + unat b"
  by (simp add: unat_word_ariths)

lemma unat_sub_le: "(b::'a::len word) \<le> a \<Longrightarrow> unat (a - b) = unat a - unat b"
  by (simp add: unat_sub_if_size word_le_nat_alt)

lemma unat_inc:
  assumes "(x::'a::len word) < y"
  shows "unat (x + 1) = Suc (unat x)"
proof -
  have "unat x + 1 \<le> unat y" using assms by (simp add: word_less_nat_alt)
  also have "unat y < 2 ^ LENGTH('a)" by (rule unsigned_less)
  finally show ?thesis using unat_add_lt [of x 1] by (simp add: unat_1)
qed

lemma unat_pow2_64: "k < 64 \<Longrightarrow> unat ((2::u64) ^ k) = 2 ^ k"
  by transfer (simp add: take_bit_of_exp nat_power_eq)

lemma unat_u32_lt: "unat (a::u32) < 2 ^ 32"
  using unsigned_less [of a] by simp

lemma unat_u64_lt: "unat (a::u64) < 2 ^ 64"
  using unsigned_less [of a] by simp

text \<open>Zero extension of a 32-bit value, \<open>static_cast<std::uint64_t>(x)\<close>, and its truncation.\<close>
definition u64_of_u32 :: "u32 \<Rightarrow> u64" where
  "u64_of_u32 x = ucast x"

definition u32_of_u64 :: "u64 \<Rightarrow> u32" where
  "u32_of_u64 x = ucast x"

lemma unat_u64_of_u32 [simp]: "unat (u64_of_u32 x) = unat x"
  by (simp add: u64_of_u32_def unsigned_ucast_eq take_bit_nat_eq_self unat_u32_lt
      order.strict_trans [OF unat_u32_lt])

lemma unat_u32_of_u64: "unat (u32_of_u64 x) = unat x mod 2 ^ 32"
  by (simp add: u32_of_u64_def unsigned_ucast_eq take_bit_eq_mod)

lemma unat_u32_of_u64_small: "unat x < 2 ^ 32 \<Longrightarrow> unat (u32_of_u64 x) = unat x"
  by (simp add: unat_u32_of_u64)

text \<open>\<open>std::numeric_limits<std::uint32_t>::max()\<close>.\<close>
definition u32_max :: u32 where
  "u32_max = 0xFFFFFFFF"

lemma unat_u32_max [simp]: "unat u32_max = 2 ^ 32 - 1"
  by (simp add: u32_max_def)

section \<open>Lists\<close>

text \<open>Update of the first element that satisfies a predicate (the target of a found pointer).\<close>
fun update_first :: "('a \<Rightarrow> bool) \<Rightarrow> ('a \<Rightarrow> 'a) \<Rightarrow> 'a list \<Rightarrow> 'a list" where
  "update_first p f [] = []"
| "update_first p f (x # xs) = (if p x then f x # xs else x # update_first p f xs)"

fun remove_first :: "('a \<Rightarrow> bool) \<Rightarrow> 'a list \<Rightarrow> 'a list" where
  "remove_first p [] = []"
| "remove_first p (x # xs) = (if p x then xs else x # remove_first p xs)"

lemma length_update_first [simp]: "length (update_first p f xs) = length xs"
  by (induction xs) auto

lemma map_update_first:
  "(\<And>x. p x \<Longrightarrow> g (f x) = g x) \<Longrightarrow> map g (update_first p f xs) = map g xs"
  by (induction xs) auto

lemma update_first_split:
  "find p xs = Some x \<Longrightarrow> \<exists>as bs. xs = as @ x # bs \<and> (\<forall>a\<in>set as. \<not> p a) \<and> p x
     \<and> update_first p f xs = as @ f x # bs \<and> remove_first p xs = as @ bs"
proof (induction xs)
  case Nil
  then show ?case by simp
next
  case (Cons y xs)
  show ?case
  proof (cases "p y")
    case True
    with Cons.prems show ?thesis by (intro exI [of _ "[]"] exI [of _ xs]) simp
  next
    case False
    with Cons obtain as bs where "xs = as @ x # bs" "\<forall>a\<in>set as. \<not> p a" "p x"
      "update_first p f xs = as @ f x # bs" "remove_first p xs = as @ bs"
      by auto
    with False show ?thesis by (intro exI [of _ "y # as"] exI [of _ bs]) simp
  qed
qed

lemma length_filter_update_first:
  assumes "find p xs = Some x"
  shows "length (filter P (update_first p f xs)) + (if P x then 1 else 0) =
    length (filter P xs) + (if P (f x) then 1 else 0)"
  using update_first_split [OF assms, of f] by auto

lemma set_update_first: "set (update_first p f xs) \<subseteq> set xs \<union> f ` {x \<in> set xs. p x}"
  by (induction xs) auto

lemma set_update_firstD:
  "y \<in> set (update_first p f xs) \<Longrightarrow> y \<in> set xs \<or> (\<exists>x. find p xs = Some x \<and> y = f x)"
  by (induction xs) (auto split: if_splits)

lemma set_remove_first: "set (remove_first p xs) \<subseteq> set xs"
  by (induction xs) auto

lemma remove_first_none: "find p xs = None \<Longrightarrow> remove_first p xs = xs"
  by (induction xs) (auto split: if_splits)

lemma update_first_none: "find p xs = None \<Longrightarrow> update_first p f xs = xs"
  by (induction xs) (auto split: if_splits)

lemma find_SomeD: "find p xs = Some x \<Longrightarrow> x \<in> set xs \<and> p x"
  by (induction xs) (auto split: if_splits)

lemma find_unique_key:
  "distinct (map k xs) \<Longrightarrow> x \<in> set xs \<Longrightarrow> find (\<lambda>y. k y = k x) xs = Some x"
  by (induction xs) force+

lemma find_None_key: "find (\<lambda>y. k y = i) xs = None \<longleftrightarrow> i \<notin> k ` set xs"
  by (induction xs) auto

lemma distinct_submset:
  assumes "mset ys \<subseteq># mset xs" "distinct xs"
  shows "distinct ys"
proof -
  have "count (mset ys) a = (if a \<in> set ys then 1 else 0)" for a
  proof (cases "a \<in> set ys")
    case True
    have "count (mset ys) a \<le> count (mset xs) a" using assms(1) by (rule mset_subset_eq_count)
    also have "\<dots> \<le> 1" using assms(2) by (simp add: distinct_count_atmost_1)
    finally have "count (mset ys) a \<le> 1" .
    then have "count (mset ys) a = 0 \<or> count (mset ys) a = 1" by linarith
    then show ?thesis using True by (auto simp: count_eq_zero_iff)
  qed (simp add: count_eq_zero_iff)
  then show ?thesis by (simp add: distinct_count_atmost_1)
qed

end
