(* ===== verification/SPSC.thy ===== *)
theory SPSC
  imports Prelude
begin

text \<open>
  The bounded single-producer single-consumer ring of \<open>src/runtime/spsc.hpp\<close>: the class's
  fields, its constructor's capacity check, \<open>try_emplace\<close>, \<open>try_pop\<close>, \<open>empty\<close>,
  \<open>size_approx\<close> and the destructor's loop. The two indices are 64-bit words that are never
  reduced: only the slot number is masked, so they may wrap around. A slot of raw storage is
  \<open>None\<close> until an object is constructed in it and again after its destruction.

  The representation invariant says which slots hold objects. Under it the ring implements a
  bounded FIFO list (\<open>contents\<close>), for every capacity the constructor accepts and across the
  wrap-around of the indices; the locale \<open>bounded_fifo\<close> states that contract, and its clients
  use nothing else. Interleavings of the two threads are in theory \<open>SPSC_Threads\<close>.
\<close>

section \<open>The ring\<close>

record 'a SPSCQueue =
  q_capacity :: u64
  q_mask :: u64
  q_storage :: "u64 \<Rightarrow> 'a option"
  read_index :: u64
  write_index :: u64

text \<open>\<open>SPSCQueue::validate_capacity\<close>.\<close>
definition validate_capacity :: "u64 \<Rightarrow> exn + u64" where
  "validate_capacity cap =
     (if cap < 2 \<or> cap AND (cap - 1) \<noteq> 0
      then Inl (Invalid_argument ''SPSCQueue capacity must be a power of two and at least two'')
      else Inr cap)"

text \<open>The constructor: a validated capacity, its mask, raw storage, both indices zero.\<close>
definition empty_ring :: "u64 \<Rightarrow> 'a SPSCQueue" where
  "empty_ring c = \<lparr>q_capacity = c, q_mask = c - 1, q_storage = (\<lambda>_. None),
                   read_index = 0, write_index = 0\<rparr>"

definition new_queue :: "u64 \<Rightarrow> exn + 'a SPSCQueue" where
  "new_queue cap = (case validate_capacity cap of Inl e \<Rightarrow> Inl e | Inr c \<Rightarrow> Inr (empty_ring c))"

text \<open>\<open>SPSCQueue::slot\<close>: the storage position of an index.\<close>
definition slot :: "'a SPSCQueue \<Rightarrow> u64 \<Rightarrow> u64" where
  "slot q index = index AND q_mask q"

text \<open>\<open>SPSCQueue::try_emplace\<close> (and both \<open>try_push\<close> overloads, which call it).\<close>
definition try_push :: "'a \<Rightarrow> 'a SPSCQueue \<Rightarrow> bool \<times> 'a SPSCQueue" where
  "try_push v q =
     (let write = write_index q; read = read_index q in
      if write - read \<ge> q_capacity q then (False, q)
      else (True, q\<lparr>q_storage := (q_storage q)(slot q write := Some v),
                    write_index := write + 1\<rparr>))"

text \<open>
  \<open>SPSCQueue::try_pop\<close>: \<open>None\<close> is the \<open>false\<close> return. The popped object is moved out and
  destroyed, then the index is published. Reading a slot with no object in it would be
  undefined behaviour; here it would also give \<open>None\<close>, and \<open>try_pop_empty_iff\<close> below shows
  that under the invariant it never happens.
\<close>
definition try_pop :: "'a SPSCQueue \<Rightarrow> 'a option \<times> 'a SPSCQueue" where
  "try_pop q =
     (let read = read_index q; write = write_index q in
      if read = write then (None, q)
      else (q_storage q (slot q read),
            q\<lparr>q_storage := (q_storage q)(slot q read := None), read_index := read + 1\<rparr>))"

definition queue_empty :: "'a SPSCQueue \<Rightarrow> bool" where
  "queue_empty q \<longleftrightarrow> read_index q = write_index q"

definition size_approx :: "'a SPSCQueue \<Rightarrow> u64" where
  "size_approx q = write_index q - read_index q"

text \<open>
  The destructor's loop \<open>for (i = read; i < write; ++i) slot(i)->~T();\<close>. It compares the raw
  indices, so it visits nothing when \<open>write\<close> has wrapped past zero and \<open>read\<close> has not.
\<close>
function destroy_from :: "u64 \<Rightarrow> u64 \<Rightarrow> 'a SPSCQueue \<Rightarrow> 'a SPSCQueue" where
  "destroy_from i write q =
     (if i < write
      then destroy_from (i + 1) write (q\<lparr>q_storage := (q_storage q)(slot q i := None)\<rparr>)
      else q)"
  by pat_completeness auto
termination
  by (relation "measure (\<lambda>(i, write, q). unat write - unat i)")
    (auto simp: unat_inc word_less_nat_alt)

declare destroy_from.simps [simp del]

definition destroy_queue :: "'a SPSCQueue \<Rightarrow> 'a SPSCQueue" where
  "destroy_queue q = destroy_from (read_index q) (write_index q) q"

section \<open>Index arithmetic\<close>

lemma unat_and_mask64:
  assumes "k \<le> 64"
  shows "unat ((x::u64) AND (2 ^ k - 1)) = unat x mod 2 ^ k"
proof -
  have "x AND (2 ^ k - 1) = take_bit k x"
    by (simp add: take_bit_eq_mask mask_eq_exp_minus_1)
  moreover have "unat (take_bit k x) = take_bit k (unat x)"
    by (rule unsigned_take_bit_eq)
  ultimately show ?thesis by (simp only: take_bit_eq_mod)
qed

lemma mod_add_of_nat64:
  assumes "k \<le> 64"
  shows "unat ((r::u64) + of_nat i) mod 2 ^ k = (unat r + i) mod 2 ^ k"
proof -
  have dvd: "(2::nat) ^ k dvd 2 ^ 64" using assms by (rule le_imp_power_dvd)
  have "unat (r + of_nat i) = (unat r + i) mod 2 ^ 64"
    by (simp add: unat_word_ariths unat_of_nat mod_add_right_eq)
  then show ?thesis by (simp only: mod_mod_cancel [OF dvd])
qed

lemma mod_add_inj_le:
  fixes r :: nat
  assumes "i \<le> j" "j < n" "(r + i) mod n = (r + j) mod n"
  shows "i = j"
proof -
  have "n dvd (r + j) - (r + i)"
    using assms by (metis add_le_cancel_left mod_eq_dvd_iff_nat)
  then have "n dvd j - i" by simp
  then show ?thesis using assms(1,2) by (auto dest: dvd_imp_le)
qed

lemma mod_add_inj:
  fixes r :: nat
  assumes "i < n" "j < n" "(r + i) mod n = (r + j) mod n"
  shows "i = j"
  using mod_add_inj_le [of i j n r] mod_add_inj_le [of j i n r] assms
  by (metis nat_le_linear)

section \<open>The representation invariant and the abstract list\<close>

text \<open>The number of published and not yet popped objects.\<close>
definition live :: "'a SPSCQueue \<Rightarrow> nat" where
  "live q = unat (write_index q - read_index q)"

definition ring_slot :: "'a SPSCQueue \<Rightarrow> nat \<Rightarrow> u64" where
  "ring_slot q i = slot q (read_index q + of_nat i)"

definition spsc_geometry :: "'a SPSCQueue \<Rightarrow> bool" where
  "spsc_geometry q \<longleftrightarrow> (\<exists>k. 1 \<le> k \<and> k < 64 \<and> q_capacity q = 2 ^ k) \<and> q_mask q = q_capacity q - 1"

definition spsc_inv :: "'a SPSCQueue \<Rightarrow> bool" where
  "spsc_inv q \<longleftrightarrow> spsc_geometry q \<and> live q \<le> unat (q_capacity q) \<and>
     (\<forall>i < unat (q_capacity q). (q_storage q (ring_slot q i) \<noteq> None) = (i < live q))"

definition contents :: "'a SPSCQueue \<Rightarrow> 'a list" where
  "contents q = map (\<lambda>i. the (q_storage q (ring_slot q i))) [0..<live q]"

lemma length_contents [simp]: "length (contents q) = live q"
  by (simp add: contents_def)

lemma ring_slot_unat:
  assumes "spsc_geometry q"
  shows "unat (slot q x) = unat x mod unat (q_capacity q)"
proof -
  from assms obtain k where k: "k < 64" "q_capacity q = 2 ^ k" and m: "q_mask q = q_capacity q - 1"
    by (auto simp: spsc_geometry_def)
  then show ?thesis by (simp add: slot_def unat_and_mask64 unat_pow2_64)
qed

lemma ring_slot_inj:
  assumes g: "spsc_geometry q" and "i < unat (q_capacity q)" "j < unat (q_capacity q)"
    and eq: "slot q (r + of_nat i) = slot q (r + of_nat j)"
  shows "i = j"
proof -
  from g obtain k where k: "k < 64" "q_capacity q = 2 ^ k"
    by (auto simp: spsc_geometry_def)
  have "unat (r + of_nat i) mod 2 ^ k = unat (r + of_nat j) mod 2 ^ k"
    using eq ring_slot_unat [OF g] k by (metis unat_pow2_64)
  then have "(unat r + i) mod 2 ^ k = (unat r + j) mod 2 ^ k"
    using k by (simp add: mod_add_of_nat64)
  then show ?thesis using assms(2,3) k by (intro mod_add_inj [of i "2 ^ k" j]) (auto simp: unat_pow2_64)
qed

lemma capacity_bounds:
  assumes "spsc_geometry q"
  shows "2 \<le> unat (q_capacity q)" and "unat (q_capacity q) < 2 ^ 64"
proof -
  from assms obtain k where k: "1 \<le> k" "k < 64" "q_capacity q = 2 ^ k"
    by (auto simp: spsc_geometry_def)
  then have "unat (q_capacity q) = 2 ^ k" by (simp add: unat_pow2_64)
  moreover have "(2::nat) ^ 1 \<le> 2 ^ k" using k(1) by (rule power_increasing) simp
  ultimately show "2 \<le> unat (q_capacity q)" by simp
  show "unat (q_capacity q) < 2 ^ 64" by (rule unat_u64_lt)
qed

text \<open>Indices one capacity apart share a slot.\<close>
lemma slot_add_capacity:
  assumes g: "spsc_geometry q"
  shows "slot q (r + of_nat (unat (q_capacity q))) = slot q r"
proof -
  from g obtain k where k: "k < 64" "q_capacity q = 2 ^ k" by (auto simp: spsc_geometry_def)
  then have "unat (r + of_nat (unat (q_capacity q))) mod 2 ^ k = unat r mod 2 ^ k"
    by (simp only: mod_add_of_nat64 [OF less_imp_le] unat_pow2_64 mod_add_self2)
  then have "unat (slot q (r + of_nat (unat (q_capacity q)))) = unat (slot q r)"
    using k by (simp only: ring_slot_unat [OF g] unat_pow2_64)
  then show ?thesis by (simp only: word_unat_eq_iff)
qed

lemma ring_slot_live: "ring_slot q (live q) = slot q (write_index q)"
  by (simp add: ring_slot_def live_def)

lemma ring_slot_0: "ring_slot q 0 = slot q (read_index q)"
  by (simp add: ring_slot_def)

lemma ring_slot_eq_iff:
  assumes "spsc_geometry q" "i < unat (q_capacity q)" "j < unat (q_capacity q)"
  shows "ring_slot q i = ring_slot q j \<longleftrightarrow> i = j"
  using ring_slot_inj [OF assms] by (auto simp: ring_slot_def)

section \<open>The operations refine a bounded FIFO list\<close>

lemma try_push_full_iff: "fst (try_push v q) = (live q < unat (q_capacity q))"
  by (simp add: try_push_def live_def Let_def word_le_nat_alt not_le)

lemma try_push_full: "\<not> live q < unat (q_capacity q) \<Longrightarrow> try_push v q = (False, q)"
  by (simp add: try_push_def live_def Let_def word_le_nat_alt not_le)

definition pushed :: "'a \<Rightarrow> 'a SPSCQueue \<Rightarrow> 'a SPSCQueue" where
  "pushed v q = q\<lparr>q_storage := (q_storage q)(slot q (write_index q) := Some v),
                  write_index := write_index q + 1\<rparr>"

lemma try_push_ok: "live q < unat (q_capacity q) \<Longrightarrow> try_push v q = (True, pushed v q)"
  by (simp add: try_push_def live_def Let_def word_le_nat_alt not_le pushed_def)

lemma pushed_fields [simp]:
  "q_capacity (pushed v q) = q_capacity q" "q_mask (pushed v q) = q_mask q"
  "read_index (pushed v q) = read_index q" "slot (pushed v q) = slot q"
  "ring_slot (pushed v q) = ring_slot q" "spsc_geometry (pushed v q) = spsc_geometry q"
  by (simp_all add: pushed_def slot_def ring_slot_def spsc_geometry_def fun_eq_iff)

lemma live_pushed:
  assumes "live q < unat (q_capacity q)"
  shows "live (pushed v q) = Suc (live q)"
proof -
  have "write_index q - read_index q < q_capacity q"
    using assms by (simp add: live_def word_less_nat_alt)
  then have "unat (write_index q - read_index q + 1) = Suc (unat (write_index q - read_index q))"
    by (rule unat_inc)
  then show ?thesis by (simp add: live_def pushed_def algebra_simps)
qed

lemma storage_pushed:
  assumes "spsc_geometry q" "live q < unat (q_capacity q)" "i < unat (q_capacity q)"
  shows "q_storage (pushed v q) (ring_slot q i) = (if i = live q then Some v else q_storage q (ring_slot q i))"
  using ring_slot_eq_iff [OF assms(1,3,2)] ring_slot_live [of q] by (auto simp: pushed_def)

lemma spsc_inv_pushed:
  assumes "spsc_inv q" "live q < unat (q_capacity q)"
  shows "spsc_inv (pushed v q)"
  using assms by (auto simp: spsc_inv_def live_pushed storage_pushed)

lemma contents_pushed:
  assumes "spsc_inv q" "live q < unat (q_capacity q)"
  shows "contents (pushed v q) = contents q @ [v]"
  using assms by (auto simp: contents_def live_pushed spsc_inv_def storage_pushed)

definition popped :: "'a SPSCQueue \<Rightarrow> 'a SPSCQueue" where
  "popped q = q\<lparr>q_storage := (q_storage q)(slot q (read_index q) := None),
                read_index := read_index q + 1\<rparr>"

lemma live_0_iff: "live q = 0 \<longleftrightarrow> read_index q = write_index q"
  by (auto simp: live_def unat_eq_0)

lemma try_pop_empty: "live q = 0 \<Longrightarrow> try_pop q = (None, q)"
  by (simp add: try_pop_def live_0_iff)

lemma try_pop_nonempty:
  "live q \<noteq> 0 \<Longrightarrow> try_pop q = (q_storage q (ring_slot q 0), popped q)"
  by (simp add: try_pop_def live_0_iff popped_def ring_slot_0 Let_def)

lemma popped_fields [simp]:
  "q_capacity (popped q) = q_capacity q" "q_mask (popped q) = q_mask q"
  "write_index (popped q) = write_index q" "slot (popped q) = slot q"
  "spsc_geometry (popped q) = spsc_geometry q"
  by (simp_all add: popped_def slot_def spsc_geometry_def fun_eq_iff)

lemma live_popped: "live q \<noteq> 0 \<Longrightarrow> live (popped q) = live q - 1"
  by (auto simp: live_def popped_def diff_diff_eq [symmetric] unat_minus_one unat_eq_0)

lemma ring_slot_popped: "ring_slot (popped q) i = ring_slot q (Suc i)"
  by (simp add: ring_slot_def popped_def slot_def algebra_simps)

lemma storage_popped:
  assumes "spsc_geometry q" "i < unat (q_capacity q)"
  shows "q_storage (popped q) (ring_slot q i) = (if i = 0 then None else q_storage q (ring_slot q i))"
  using ring_slot_eq_iff [OF assms(1,2), of 0] capacity_bounds(1) [OF assms(1)] ring_slot_0 [of q]
  by (auto simp: popped_def)

lemma spsc_inv_popped:
  assumes inv: "spsc_inv q" and ne: "live q \<noteq> 0"
  shows "spsc_inv (popped q)"
proof -
  have g: "spsc_geometry q" and le: "live q \<le> unat (q_capacity q)"
    using inv by (auto simp: spsc_inv_def)
  have wrap: "ring_slot q (unat (q_capacity q)) = ring_slot q 0"
    using slot_add_capacity [OF g] by (simp add: ring_slot_def)
  have "(q_storage (popped q) (ring_slot q (Suc i)) \<noteq> None) = (Suc i < live q)"
    if i: "i < unat (q_capacity q)" for i
  proof (cases "Suc i = unat (q_capacity q)")
    case True
    then show ?thesis using wrap le storage_popped [OF g, of 0] i by auto
  next
    case False
    with i show ?thesis using inv by (auto simp: storage_popped [OF g] spsc_inv_def)
  qed
  then show ?thesis using g le ne by (auto simp: spsc_inv_def live_popped ring_slot_popped)
qed

lemma contents_popped:
  assumes inv: "spsc_inv q" and ne: "live q \<noteq> 0"
  shows "contents q = the (q_storage q (ring_slot q 0)) # contents (popped q)"
proof -
  have g: "spsc_geometry q" and le: "live q \<le> unat (q_capacity q)"
    using inv by (auto simp: spsc_inv_def)
  have "[0..<live q] = 0 # map Suc [0..<live q - 1]"
    using ne by (metis Suc_pred' map_Suc_upt neq0_conv upt_conv_Cons)
  then show ?thesis using ne le
    by (auto simp: contents_def live_popped ring_slot_popped storage_popped [OF g])
qed

lemma front_slot:
  assumes "spsc_inv q" "live q \<noteq> 0"
  shows "q_storage q (ring_slot q 0) = Some (hd (contents q))"
proof -
  have "0 < unat (q_capacity q)" using assms by (auto simp: spsc_inv_def dest: capacity_bounds(1))
  then have "q_storage q (ring_slot q 0) \<noteq> None" using assms by (auto simp: spsc_inv_def)
  then show ?thesis using contents_popped [OF assms] by auto
qed

text \<open>Under the invariant \<open>false\<close> means empty: no pop reads a slot without an object.\<close>
lemma try_pop_empty_iff: "spsc_inv q \<Longrightarrow> fst (try_pop q) = None \<longleftrightarrow> contents q = []"
  by (cases "live q = 0") (auto simp: try_pop_empty try_pop_nonempty front_slot contents_def)

section \<open>Construction\<close>

text \<open>The bit test of \<open>validate_capacity\<close> accepts exactly the powers of two.\<close>
lemma pow2_of_and_pred_nat:
  assumes "0 < (x::nat)" and "x AND (x - 1) = 0"
  shows "\<exists>k. x = 2 ^ k"
proof -
  obtain k where k: "2 ^ k \<le> x" "x < 2 ^ (k + 1)"
    using ex_power_ivl1 [of 2 x] assms(1) by auto
  have "x = 2 ^ k"
  proof (rule ccontr)
    assume "x \<noteq> 2 ^ k"
    then have "x div 2 ^ k = 1" "(x - 1) div 2 ^ k = 1"
      using k by (auto intro!: div_nat_eqI)
    then have "bit x k" "bit (x - 1) k" by (simp_all add: bit_iff_odd)
    then have "bit (x AND (x - 1)) k" by (simp only: bit_and_iff)
    then show False using assms(2) by simp
  qed
  then show ?thesis by blast
qed

lemma and_pred_pow2: "k < 64 \<Longrightarrow> (2::u64) ^ k AND (2 ^ k - 1) = 0"
  by (simp flip: mask_eq_exp_minus_1 take_bit_eq_mask add: take_bit_eq_mod)

lemma validate_capacity_iff:
  "(\<exists>c. validate_capacity cap = Inr c) \<longleftrightarrow> (\<exists>k. 1 \<le> k \<and> k < 64 \<and> cap = 2 ^ k)"
proof
  assume "\<exists>c. validate_capacity cap = Inr c"
  then have ge: "2 \<le> cap" and z: "cap AND (cap - 1) = 0"
    by (auto simp: validate_capacity_def split: if_splits)
  have nz: "2 \<le> unat cap" using ge by (simp add: word_le_nat_alt)
  have "unat (cap - 1) = unat cap - 1"
    using ge by (intro unat_minus_one) auto
  then have "unat cap AND (unat cap - 1) = 0"
    using z by (metis unsigned_and_eq unsigned_0)
  then obtain k where k: "unat cap = 2 ^ k"
    using pow2_of_and_pred_nat [of "unat cap"] nz by auto
  have "(2::nat) ^ k < 2 ^ 64" using k unat_u64_lt [of cap] by simp
  then have k64: "k < 64" by (rule power_less_imp_less_exp [rotated]) simp
  then have "cap = 2 ^ k" using k unat_pow2_64 [of k] by (simp only: word_unat_eq_iff)
  moreover have "1 \<le> k" using k nz by (cases k) auto
  ultimately show "\<exists>k. 1 \<le> k \<and> k < 64 \<and> cap = 2 ^ k" using k64 by blast
next
  assume "\<exists>k. 1 \<le> k \<and> k < 64 \<and> cap = 2 ^ k"
  then obtain k where k: "1 \<le> k" "k < 64" "cap = 2 ^ k" by blast
  have "(2::nat) ^ 1 \<le> 2 ^ k" using k(1) by (rule power_increasing) simp
  then have "\<not> cap < 2" using k by (simp add: word_less_nat_alt unat_pow2_64)
  then show "\<exists>c. validate_capacity cap = Inr c"
    using k and_pred_pow2 [of k] by (simp add: validate_capacity_def)
qed

lemma validate_capacity_Inr: "validate_capacity cap = Inr c \<Longrightarrow> c = cap"
  by (auto simp: validate_capacity_def split: if_splits)

lemma new_queue_inv:
  assumes "new_queue cap = Inr q"
  shows "spsc_inv q" "contents q = []" "q_capacity q = cap"
proof -
  obtain c where c: "validate_capacity cap = Inr c" using assms
    by (auto simp: new_queue_def split: sum.splits)
  then have "c = cap" by (rule validate_capacity_Inr)
  with assms c have q: "q = \<lparr>q_capacity = cap, q_mask = cap - 1, q_storage = (\<lambda>_. None),
      read_index = 0, write_index = 0\<rparr>"
    by (simp add: new_queue_def empty_ring_def)
  have "\<exists>k. 1 \<le> k \<and> k < 64 \<and> cap = 2 ^ k" using c validate_capacity_iff by blast
  then show "spsc_inv q" "contents q = []" "q_capacity q = cap"
    by (auto simp: q spsc_inv_def spsc_geometry_def live_def contents_def)
qed

lemma new_queue_Inr: "new_queue cap = Inr q \<Longrightarrow> q = empty_ring cap"
  by (auto simp: new_queue_def dest: validate_capacity_Inr split: sum.splits)

section \<open>The contract as a locale\<close>

text \<open>
  What the producers and consumers of a channel rely on. The clients are the message
  channels of the handoff: each pushes from one side and drains from the other.
\<close>
locale bounded_fifo =
  fixes push :: "'a \<Rightarrow> 'q \<Rightarrow> bool \<times> 'q"
    and pop :: "'q \<Rightarrow> 'a option \<times> 'q"
    and items :: "'q \<Rightarrow> 'a list"
    and room :: "'q \<Rightarrow> nat"
    and inv :: "'q \<Rightarrow> bool"
  assumes items_room: "inv q \<Longrightarrow> length (items q) \<le> room q"
    and push_full: "inv q \<Longrightarrow> length (items q) = room q \<Longrightarrow> push x q = (False, q)"
    and push_room: "inv q \<Longrightarrow> length (items q) < room q \<Longrightarrow>
      \<exists>q'. push x q = (True, q') \<and> inv q' \<and> items q' = items q @ [x] \<and> room q' = room q"
    and pop_empty: "inv q \<Longrightarrow> items q = [] \<Longrightarrow> pop q = (None, q)"
    and pop_nonempty: "inv q \<Longrightarrow> items q = x # xs \<Longrightarrow>
      \<exists>q'. pop q = (Some x, q') \<and> inv q' \<and> items q' = xs \<and> room q' = room q"
begin

lemma push_cases:
  assumes "inv q"
  obtains "push x q = (False, q)" "length (items q) = room q"
  | q' where "push x q = (True, q')" "inv q'" "items q' = items q @ [x]" "room q' = room q"
  using assms push_full push_room items_room by (metis nat_less_le)

lemma pop_cases:
  assumes "inv q"
  obtains "pop q = (None, q)" "items q = []"
  | x q' where "pop q = (Some x, q')" "inv q'" "items q = x # items q'" "room q' = room q"
  using assms pop_empty pop_nonempty by (metis list.exhaust)

lemma push_inv: "inv q \<Longrightarrow> inv (snd (push x q))"
  using push_cases [of q x] by (metis snd_conv)

lemma pop_inv: "inv q \<Longrightarrow> inv (snd (pop q))"
  using pop_cases [of q] by (metis snd_conv)

end

interpretation ring: bounded_fifo try_push try_pop contents "\<lambda>q. unat (q_capacity q)" spsc_inv
proof unfold_locales
  fix q :: "'a SPSCQueue" and x :: 'a and xs
  show "spsc_inv q \<Longrightarrow> length (contents q) \<le> unat (q_capacity q)"
    by (simp add: spsc_inv_def)
  show "spsc_inv q \<Longrightarrow> length (contents q) = unat (q_capacity q) \<Longrightarrow> try_push x q = (False, q)"
    by (simp add: try_push_full)
  show "spsc_inv q \<Longrightarrow> length (contents q) < unat (q_capacity q) \<Longrightarrow> \<exists>q'. try_push x q = (True, q') \<and>
      spsc_inv q' \<and> contents q' = contents q @ [x] \<and> unat (q_capacity q') = unat (q_capacity q)"
    by (simp add: try_push_ok spsc_inv_pushed contents_pushed)
  show "spsc_inv q \<Longrightarrow> contents q = [] \<Longrightarrow> try_pop q = (None, q)"
    by (metis length_contents length_0_conv try_pop_empty)
  show "spsc_inv q \<Longrightarrow> contents q = x # xs \<Longrightarrow> \<exists>q'. try_pop q = (Some x, q') \<and> spsc_inv q' \<and>
      contents q' = xs \<and> unat (q_capacity q') = unat (q_capacity q)"
    using front_slot [of q] contents_popped [of q] spsc_inv_popped [of q] length_contents [of q]
    by (cases "live q = 0") (auto simp: try_pop_nonempty contents_def)
qed

section \<open>Draining a channel\<close>

lemma live_try_pop: "try_pop q = (Some x, q') \<Longrightarrow> live q' < live q"
  by (cases "live q = 0") (auto simp: try_pop_empty try_pop_nonempty live_popped)

text \<open>
  The consumer's loop \<open>while (queue.try_pop(message)) body(message);\<close> with a body that acts
  on the rest of the state and may throw: the message that made it throw has been popped,
  the later ones stay queued.
\<close>
function drain :: "('a \<Rightarrow> ('s, unit) operation) \<Rightarrow> 'a SPSCQueue \<Rightarrow> 's \<Rightarrow> (exn + unit) \<times> 'a SPSCQueue \<times> 's" where
  "drain body q s =
     (case try_pop q of
        (None, q') \<Rightarrow> (Inr (), q', s)
      | (Some x, q') \<Rightarrow>
          (case body x s of
             (Inl e, s') \<Rightarrow> (Inl e, q', s')
           | (Inr _, s') \<Rightarrow> drain body q' s'))"
  by pat_completeness auto
termination
  by (relation "measure (\<lambda>(body, q, s). live q)") (auto dest!: live_try_pop [OF sym])

declare drain.simps [simp del]

text \<open>
  Under the invariant the loop runs its body over the queued messages in order, and empties
  the queue unless the body throws.
\<close>
lemma drain_spec:
  assumes "spsc_inv q" and "drain body q s = (r, q', s')"
  shows "for_each body (contents q) s = (r, s') \<and> spsc_inv q' \<and> q_capacity q' = q_capacity q \<and>
    (case r of Inr _ \<Rightarrow> contents q' = [] | Inl _ \<Rightarrow> (\<exists>pre x. contents q = pre @ x # contents q'))"
  using assms
proof (induction body q s rule: drain.induct)
  case (1 body q s)
  show ?case
  proof (rule ring.pop_cases [OF "1.prems"(1)])
    assume "try_pop q = (None, q)" "contents q = []"
    then show ?thesis using "1.prems" by (auto simp: drain.simps [of body q s] ok_def)
  next
    fix x q1
    assume p: "try_pop q = (Some x, q1)" "spsc_inv q1" "contents q = x # contents q1"
      "unat (q_capacity q1) = unat (q_capacity q)"
    show ?thesis
    proof (cases "body x s")
      case (Pair res s1)
      show ?thesis
      proof (cases res)
        case (Inl e)
        with Pair p "1.prems"(2) show ?thesis
          by (auto simp: drain.simps [of body q s] op_defs word_unat_eq_iff)
      next
        case (Inr u)
        with Pair p "1.prems"(2) have d: "drain body q1 s1 = (r, q', s')"
          by (simp add: drain.simps [of body q s])
        have "for_each body (contents q1) s1 = (r, s') \<and> spsc_inv q' \<and> q_capacity q' = q_capacity q1 \<and>
          (case r of Inr _ \<Rightarrow> contents q' = [] | Inl _ \<Rightarrow> (\<exists>pre x. contents q1 = pre @ x # contents q'))"
          by (rule "1.IH" [OF p(1) [symmetric] refl _ Inr p(2) d]) (use Pair in auto)
        then show ?thesis using Pair Inr p
          by (auto simp: op_defs word_unat_eq_iff split: sum.splits intro: exI [of _ "x # _"])
      qed
    qed
  qed
qed

section \<open>Runs of operations\<close>

text \<open>Any sequence of non-blocking operations, with the value each returned.\<close>
datatype 'a queue_op = Push 'a | Pop
datatype 'a queue_result = Pushed bool | Popped "'a option"

fun queue_run :: "'a queue_op list \<Rightarrow> 'a SPSCQueue \<Rightarrow> 'a queue_result list \<times> 'a SPSCQueue" where
  "queue_run [] q = ([], q)"
| "queue_run (Push v # ops) q =
     (let (b, q1) = try_push v q; (rs, q2) = queue_run ops q1 in (Pushed b # rs, q2))"
| "queue_run (Pop # ops) q =
     (let (x, q1) = try_pop q; (rs, q2) = queue_run ops q1 in (Popped x # rs, q2))"

text \<open>The specification: a list that holds at most \<open>n\<close> elements.\<close>
fun fifo_run :: "nat \<Rightarrow> 'a queue_op list \<Rightarrow> 'a list \<Rightarrow> 'a queue_result list \<times> 'a list" where
  "fifo_run n [] xs = ([], xs)"
| "fifo_run n (Push v # ops) xs =
     (if length xs < n then (let (rs, ys) = fifo_run n ops (xs @ [v]) in (Pushed True # rs, ys))
      else (let (rs, ys) = fifo_run n ops xs in (Pushed False # rs, ys)))"
| "fifo_run n (Pop # ops) [] = (let (rs, ys) = fifo_run n ops [] in (Popped None # rs, ys))"
| "fifo_run n (Pop # ops) (x # xs) = (let (rs, ys) = fifo_run n ops xs in (Popped (Some x) # rs, ys))"

lemma queue_run_refines:
  assumes "spsc_inv q"
  shows "\<exists>q'. queue_run ops q = (fst (fifo_run (unat (q_capacity q)) ops (contents q)), q') \<and>
    spsc_inv q' \<and> contents q' = snd (fifo_run (unat (q_capacity q)) ops (contents q))"
  using assms
proof (induction ops arbitrary: q)
  case Nil
  then show ?case by simp
next
  case (Cons opn ops)
  show ?case
  proof (cases opn)
    case (Push v)
    show ?thesis
    proof (rule ring.push_cases [OF Cons.prems, of v])
      assume "try_push v q = (False, q)" "length (contents q) = unat (q_capacity q)"
      then show ?thesis using Cons.IH [OF Cons.prems] Push
        by (auto simp: Let_def split: prod.splits)
    next
      fix q1
      assume "try_push v q = (True, q1)" "spsc_inv q1" "contents q1 = contents q @ [v]"
        "unat (q_capacity q1) = unat (q_capacity q)"
      then show ?thesis using Cons.IH [of q1] Push ring.items_room [of q1]
        by (auto simp: Let_def split: prod.splits)
    qed
  next
    case Pop
    show ?thesis
    proof (rule ring.pop_cases [OF Cons.prems])
      assume "try_pop q = (None, q)" "contents q = []"
      then show ?thesis using Cons.IH [OF Cons.prems] Pop
        by (auto simp: Let_def split: prod.splits)
    next
      fix x q1
      assume "try_pop q = (Some x, q1)" "spsc_inv q1" "contents q = x # contents q1"
        "unat (q_capacity q1) = unat (q_capacity q)"
      then show ?thesis using Cons.IH [of q1] Pop
        by (auto simp: Let_def split: prod.splits)
    qed
  qed
qed

section \<open>Destruction\<close>

lemma destroy_from_storage:
  "i \<le> w \<Longrightarrow> q_storage (destroy_from i w q) s =
     (if \<exists>n < unat w - unat i. s = slot q (i + of_nat n) then None else q_storage q s)"
proof (induction i w q rule: destroy_from.induct)
  case (1 i w q)
  show ?case
  proof (cases "i < w")
    case False
    with "1.prems" show ?thesis by (simp add: destroy_from.simps)
  next
    case True
    let ?q = "q\<lparr>q_storage := (q_storage q)(slot q i := None)\<rparr>"
    have inc: "unat (i + 1) = Suc (unat i)" using True by (rule unat_inc)
    have le: "i + 1 \<le> w" using True inc by (simp add: word_le_nat_alt word_less_nat_alt)
    have sl: "slot ?q = slot q" by (simp add: slot_def fun_eq_iff)
    have shift: "(\<exists>n < unat w - unat i. s = slot q (i + of_nat n)) \<longleftrightarrow>
        s = slot q i \<or> (\<exists>n < unat w - unat (i + 1). s = slot q (i + 1 + of_nat n))"
    proof -
      have "unat w - unat i = Suc (unat w - unat (i + 1))"
        using inc True by (simp add: word_less_nat_alt)
      then show ?thesis by (auto simp: Ex_less_Suc2 algebra_simps)
    qed
    show ?thesis using True "1.IH" [OF True le] sl shift
      by (auto simp: destroy_from.simps [of i w q])
  qed
qed

text \<open>
  The destructor destroys every queued object exactly when the indices have not wrapped
  apart: with \<open>write\<close> wrapped past zero and \<open>read\<close> not, its loop runs zero times.
\<close>
theorem destroy_queue_clears_iff:
  assumes inv: "spsc_inv q"
  shows "(\<forall>i < unat (q_capacity q). q_storage (destroy_queue q) (ring_slot q i) = None) \<longleftrightarrow>
    contents q = [] \<or> read_index q < write_index q"
proof (cases "read_index q < write_index q")
  case True
  have live: "live q = unat (write_index q) - unat (read_index q)"
    using True by (simp add: live_def unat_sub_le less_imp_le)
  have "q_storage (destroy_queue q) (ring_slot q i) = None" if "i < unat (q_capacity q)" for i
    using that inv True live
    by (cases "i < live q") (auto simp: destroy_queue_def destroy_from_storage less_imp_le
        ring_slot_def spsc_inv_def)
  then show ?thesis using True by blast
next
  case False
  then have d: "destroy_queue q = q" by (simp add: destroy_queue_def destroy_from.simps)
  have cap: "live q \<le> unat (q_capacity q)" using inv by (simp add: spsc_inv_def)
  show ?thesis
  proof (cases "live q = 0")
    case True
    then show ?thesis using inv d by (auto simp: spsc_inv_def contents_def)
  next
    case ne: False
    then have "contents q \<noteq> []" by (metis length_0_conv length_contents)
    moreover have "q_storage q (ring_slot q 0) \<noteq> None" using front_slot [OF inv ne] by simp
    ultimately show ?thesis using False d ne cap by (metis le_zero_eq neq0_conv)
  qed
qed

section \<open>Sequential behaviour\<close>

text \<open>
  C40. Any sequence of \<open>try_push\<close> and \<open>try_pop\<close> calls returns what a FIFO list of at most
  \<open>capacity\<close> elements returns, whatever the indices are, so also across their wrap-around
  at two to the power 64, and leaves the ring holding that list.
\<close>
theorem spsc_sequential_refines:
  assumes "spsc_inv q"
  shows "fst (queue_run ops q) = fst (fifo_run (unat (q_capacity q)) ops (contents q))
    \<and> contents (snd (queue_run ops q)) = snd (fifo_run (unat (q_capacity q)) ops (contents q))
    \<and> spsc_inv (snd (queue_run ops q))"
  using queue_run_refines [OF assms, of ops] by auto

text \<open>A ring of two whose indices are about to wrap.\<close>
definition wrapping_ring :: "nat SPSCQueue" where
  "wrapping_ring = (empty_ring 2)\<lparr>read_index := 0xFFFFFFFFFFFFFFFF, write_index := 0xFFFFFFFFFFFFFFFF\<rparr>"

lemma wrapping_ring_inv:
  "spsc_inv wrapping_ring" "contents wrapping_ring = []" "q_capacity wrapping_ring = 2"
  by (auto simp: wrapping_ring_def empty_ring_def spsc_inv_def spsc_geometry_def live_def contents_def
      intro: exI [of _ 1])

theorem spsc_sequential_refines_witness:
  "fst (queue_run [Push 5, Push 6, Push 7, Pop, Push 8, Pop, Pop, Pop] wrapping_ring)
     = [Pushed True, Pushed True, Pushed False, Popped (Some 5), Pushed True,
        Popped (Some 6), Popped (Some 8), Popped None]"
  using spsc_sequential_refines [OF wrapping_ring_inv(1),
      of "[Push 5, Push 6, Push 7, Pop, Push 8, Pop, Pop, Pop]"]
  by (simp add: wrapping_ring_inv)

theorem destroy_queue_clears_iff_witness:
  "spsc_inv (snd (try_push 5 wrapping_ring)) \<and>
   \<not> (\<forall>i < 2. q_storage (destroy_queue (snd (try_push 5 wrapping_ring)))
        (ring_slot (snd (try_push 5 wrapping_ring)) i) = None)"
proof -
  let ?q = "snd (try_push 5 wrapping_ring)"
  have inv: "spsc_inv ?q" using wrapping_ring_inv(1) by (rule ring.push_inv)
  have q: "q_capacity ?q = 2" "read_index ?q = 0xFFFFFFFFFFFFFFFF" "write_index ?q = 0"
    by (simp_all add: try_push_def wrapping_ring_def empty_ring_def Let_def word_le_nat_alt)
  have "live ?q = 1" by (simp add: live_def q)
  then have "contents ?q \<noteq> []" by (metis length_contents list.size(3) zero_neq_one)
  then show ?thesis using destroy_queue_clears_iff [OF inv] inv q by simp
qed

end
