(* ===== verification/SPSC_Threads.thy ===== *)
theory SPSC_Threads
  imports SPSC
begin

text \<open>
  The ring of theory \<open>SPSC\<close> used by two threads at once. Each operation of
  \<open>src/runtime/spsc.hpp\<close> is split at its atomic accesses: the producer loads its own index,
  loads the consumer's index, constructs the object in its slot, and stores its index; the
  consumer loads its index, loads the producer's index, moves the object out and destroys it,
  and stores its index. Any interleaving of these steps is a run.

  Each thread is the only writer of its own index, so it loads that one exactly. An acquire
  load of the other thread's index may return any value that index has held since the last
  one this thread saw: \<open>seen_read\<close> and \<open>seen_write\<close> record how far the view of each thread
  has advanced. \<open>sent\<close> and \<open>received\<close> are the histories of published pushes and pops.
\<close>

section \<open>Interleaved steps\<close>

datatype 'a producer_pc =
    P_idle
  | P_loaded 'a u64 \<comment> \<open>own index loaded, the consumer's not yet\<close>
  | P_checked 'a u64 \<comment> \<open>not full: about to construct in the slot of this index\<close>
  | P_built 'a u64 \<comment> \<open>constructed: about to publish\<close>

datatype 'a consumer_pc =
    C_idle
  | C_loaded u64
  | C_checked u64 \<comment> \<open>not empty: about to move out of the slot of this index\<close>
  | C_moved u64 "'a option" \<comment> \<open>moved out and destroyed: about to publish\<close>

record 'a spsc_sys =
  queue :: "'a SPSCQueue"
  ppc :: "'a producer_pc"
  cpc :: "'a consumer_pc"
  seen_read :: nat
  seen_write :: nat
  sent :: "'a list"
  received :: "'a option list"

inductive spsc_step :: "'a spsc_sys \<Rightarrow> 'a spsc_sys \<Rightarrow> bool" where
  p_load_write: "ppc s = P_idle \<Longrightarrow>
    spsc_step s (s\<lparr>ppc := P_loaded v (write_index (queue s))\<rparr>)"
| p_load_read_full: "ppc s = P_loaded v w \<Longrightarrow> seen_read s \<le> n \<Longrightarrow> n \<le> length (received s) \<Longrightarrow>
    w - of_nat n \<ge> q_capacity (queue s) \<Longrightarrow>
    spsc_step s (s\<lparr>ppc := P_idle, seen_read := n\<rparr>)"
| p_load_read_room: "ppc s = P_loaded v w \<Longrightarrow> seen_read s \<le> n \<Longrightarrow> n \<le> length (received s) \<Longrightarrow>
    \<not> w - of_nat n \<ge> q_capacity (queue s) \<Longrightarrow>
    spsc_step s (s\<lparr>ppc := P_checked v w, seen_read := n\<rparr>)"
| p_construct: "ppc s = P_checked v w \<Longrightarrow>
    spsc_step s (s\<lparr>queue := (queue s)\<lparr>q_storage := (q_storage (queue s))(slot (queue s) w := Some v)\<rparr>,
                   ppc := P_built v w\<rparr>)"
| p_store_write: "ppc s = P_built v w \<Longrightarrow>
    spsc_step s (s\<lparr>queue := (queue s)\<lparr>write_index := w + 1\<rparr>, ppc := P_idle, sent := sent s @ [v]\<rparr>)"
| c_load_read: "cpc s = C_idle \<Longrightarrow>
    spsc_step s (s\<lparr>cpc := C_loaded (read_index (queue s))\<rparr>)"
| c_load_write_empty: "cpc s = C_loaded r \<Longrightarrow> seen_write s \<le> n \<Longrightarrow> n \<le> length (sent s) \<Longrightarrow>
    r = of_nat n \<Longrightarrow> spsc_step s (s\<lparr>cpc := C_idle, seen_write := n\<rparr>)"
| c_load_write_item: "cpc s = C_loaded r \<Longrightarrow> seen_write s \<le> n \<Longrightarrow> n \<le> length (sent s) \<Longrightarrow>
    r \<noteq> of_nat n \<Longrightarrow> spsc_step s (s\<lparr>cpc := C_checked r, seen_write := n\<rparr>)"
| c_move: "cpc s = C_checked r \<Longrightarrow>
    spsc_step s (s\<lparr>queue := (queue s)\<lparr>q_storage := (q_storage (queue s))(slot (queue s) r := None)\<rparr>,
                   cpc := C_moved r (q_storage (queue s) (slot (queue s) r))\<rparr>)"
| c_store_read: "cpc s = C_moved r x \<Longrightarrow>
    spsc_step s (s\<lparr>queue := (queue s)\<lparr>read_index := r + 1\<rparr>, cpc := C_idle, received := received s @ [x]\<rparr>)"

inductive_cases spsc_stepE: "spsc_step s t"

definition spsc_start :: "'a SPSCQueue \<Rightarrow> 'a spsc_sys" where
  "spsc_start q = \<lparr>queue = q, ppc = P_idle, cpc = C_idle, seen_read = 0, seen_write = 0,
                    sent = [], received = []\<rparr>"

inductive spsc_reachable :: "u64 \<Rightarrow> 'a spsc_sys \<Rightarrow> bool" for cap where
  start: "new_queue cap = Inr q \<Longrightarrow> spsc_reachable cap (spsc_start q)"
| step: "spsc_reachable cap s \<Longrightarrow> spsc_step s t \<Longrightarrow> spsc_reachable cap t"

section \<open>The invariant\<close>

definition index_inv :: "'a spsc_sys \<Rightarrow> bool" where
  "index_inv s \<longleftrightarrow> spsc_geometry (queue s) \<and>
     write_index (queue s) = of_nat (length (sent s)) \<and>
     read_index (queue s) = of_nat (length (received s)) \<and>
     seen_read s \<le> length (received s) \<and>
     length (received s) \<le> seen_write s \<and>
     seen_write s \<le> length (sent s) \<and>
     length (sent s) \<le> seen_read s + unat (q_capacity (queue s))"

fun producer_inv :: "'a producer_pc \<Rightarrow> 'a spsc_sys \<Rightarrow> bool" where
  "producer_inv P_idle s = True"
| "producer_inv (P_loaded v w) s = (w = of_nat (length (sent s)))"
| "producer_inv (P_checked v w) s = (w = of_nat (length (sent s)) \<and>
     length (sent s) < seen_read s + unat (q_capacity (queue s)))"
| "producer_inv (P_built v w) s = (w = of_nat (length (sent s)) \<and>
     length (sent s) < seen_read s + unat (q_capacity (queue s)))"

fun consumer_inv :: "'a consumer_pc \<Rightarrow> 'a spsc_sys \<Rightarrow> bool" where
  "consumer_inv C_idle s = True"
| "consumer_inv (C_loaded r) s = (r = of_nat (length (received s)))"
| "consumer_inv (C_checked r) s = (r = of_nat (length (received s)) \<and> length (received s) < seen_write s)"
| "consumer_inv (C_moved r x) s = (r = of_nat (length (received s)) \<and> length (received s) < seen_write s \<and>
     x = Some (sent s ! length (received s)))"

text \<open>What the slot of the \<open>i\<close>-th pushed object holds, for \<open>i\<close> in the window of one capacity.\<close>
definition expected_slot :: "'a spsc_sys \<Rightarrow> nat \<Rightarrow> 'a option" where
  "expected_slot s i =
     (if i < length (sent s)
      then (case cpc s of C_moved _ _ \<Rightarrow> if i = length (received s) then None else Some (sent s ! i)
            | _ \<Rightarrow> Some (sent s ! i))
      else (case ppc s of P_built v _ \<Rightarrow> if i = length (sent s) then Some v else None
            | _ \<Rightarrow> None))"

definition storage_inv :: "'a spsc_sys \<Rightarrow> bool" where
  "storage_inv s \<longleftrightarrow> (\<forall>i. length (received s) \<le> i \<and> i < length (received s) + unat (q_capacity (queue s)) \<longrightarrow>
     q_storage (queue s) (slot (queue s) (of_nat i)) = expected_slot s i)"

definition history_inv :: "'a spsc_sys \<Rightarrow> bool" where
  "history_inv s \<longleftrightarrow> received s = map Some (take (length (received s)) (sent s))"

definition sys_inv :: "'a spsc_sys \<Rightarrow> bool" where
  "sys_inv s \<longleftrightarrow> index_inv s \<and> producer_inv (ppc s) s \<and> consumer_inv (cpc s) s \<and> storage_inv s \<and> history_inv s"

lemma window_slot_inj:
  assumes g: "spsc_geometry q" and "b \<le> i" "i < b + unat (q_capacity q)" "b \<le> j" "j < b + unat (q_capacity q)"
  shows "slot q (of_nat i) = slot q (of_nat j) \<longleftrightarrow> i = j"
proof -
  have "slot q (of_nat b + of_nat (i - b)) = slot q (of_nat b + of_nat (j - b)) \<longrightarrow> i - b = j - b"
    using ring_slot_inj [OF g, of "i - b" "j - b" "of_nat b"] assms(2-5) by auto
  moreover have "of_nat b + of_nat (i - b) = (of_nat i :: u64)" "of_nat b + of_nat (j - b) = (of_nat j :: u64)"
    using assms(2,4) by (simp_all flip: of_nat_add)
  ultimately show ?thesis using assms(2,4) by auto
qed

lemma slot_wrap:
  "spsc_geometry q \<Longrightarrow> slot q (of_nat (b + unat (q_capacity q))) = slot q (of_nat b)"
  using slot_add_capacity [of q "of_nat b"] by simp

text \<open>Differences of a stale view are small, so the wrapped subtraction is the true distance.\<close>
lemma unat_of_nat_diff:
  assumes "n \<le> m" "m - n < 2 ^ 64"
  shows "unat ((of_nat m :: u64) - of_nat n) = m - n"
proof -
  have "(of_nat m :: u64) - of_nat n = of_nat (m - n)" using assms(1) by simp
  then show ?thesis using assms(2) by (simp add: unat_of_nat)
qed

lemma of_nat_eq_window:
  assumes "n \<le> m" "m - n < 2 ^ 64"
  shows "(of_nat n :: u64) = of_nat m \<longleftrightarrow> n = m"
proof
  assume "(of_nat n :: u64) = of_nat m"
  then have "unat ((of_nat m :: u64) - of_nat n) = 0" by simp
  then show "n = m" using unat_of_nat_diff [OF assms] assms by simp
qed simp

lemma sys_inv_start:
  assumes "new_queue cap = Inr q"
  shows "sys_inv (spsc_start q)"
proof -
  have inv: "spsc_inv q" "contents q = []" using new_queue_inv [OF assms] by auto
  have z: "read_index q = 0" "write_index q = 0" "q_storage q = (\<lambda>_. None)"
    using assms by (auto simp: new_queue_def empty_ring_def split: sum.splits)
  show ?thesis using inv z
    by (auto simp: sys_inv_def spsc_start_def index_inv_def storage_inv_def history_inv_def
        expected_slot_def spsc_inv_def)
qed

lemmas sys_inv_defs = sys_inv_def index_inv_def storage_inv_def history_inv_def expected_slot_def

lemma slot_upd [simp]:
  "slot (q\<lparr>q_storage := st\<rparr>) = slot q" "slot (q\<lparr>write_index := w\<rparr>) = slot q"
  "slot (q\<lparr>read_index := r\<rparr>) = slot q"
  by (simp_all add: slot_def fun_eq_iff)

lemma geometry_upd [simp]:
  "spsc_geometry (q\<lparr>q_storage := st\<rparr>) = spsc_geometry q" "spsc_geometry (q\<lparr>write_index := w\<rparr>) = spsc_geometry q"
  "spsc_geometry (q\<lparr>read_index := r\<rparr>) = spsc_geometry q"
  by (simp_all add: spsc_geometry_def)

text \<open>Facts every step uses: the distances between the indices are below one capacity.\<close>
lemma index_inv_bounds:
  assumes "index_inv s"
  shows "length (received s) \<le> length (sent s)"
    and "length (sent s) \<le> length (received s) + unat (q_capacity (queue s))"
    and "2 \<le> unat (q_capacity (queue s))" and "unat (q_capacity (queue s)) < 2 ^ 64"
  using assms capacity_bounds [of "queue s"] by (auto simp: index_inv_def)

lemma producer_distance:
  assumes "index_inv s" "seen_read s \<le> n" "n \<le> length (received s)"
  shows "unat (of_nat (length (sent s)) - of_nat n :: u64) = length (sent s) - n"
  using assms index_inv_bounds [OF assms(1)]
  by (intro unat_of_nat_diff) (auto simp: index_inv_def)

lemma consumer_empty_iff:
  assumes "index_inv s" "seen_write s \<le> n" "n \<le> length (sent s)"
  shows "(of_nat (length (received s)) :: u64) = of_nat n \<longleftrightarrow> n = length (received s)"
proof -
  have "length (received s) \<le> n" using assms by (auto simp: index_inv_def)
  moreover have "n - length (received s) < 2 ^ 64"
    using assms(3) index_inv_bounds [OF assms(1)] by simp
  ultimately show ?thesis using of_nat_eq_window by metis
qed

text \<open>The producer's target slot is inside the window, past every queued object.\<close>
lemma producer_slot_window:
  assumes "index_inv s" "length (sent s) < seen_read s + unat (q_capacity (queue s))"
  shows "length (received s) \<le> length (sent s)"
    and "length (sent s) < length (received s) + unat (q_capacity (queue s))"
  using assms index_inv_bounds [OF assms(1)] by (auto simp: index_inv_def)

lemma sys_inv_p_construct:
  assumes inv: "sys_inv s" and pc: "ppc s = P_checked v w"
  shows "sys_inv (s\<lparr>queue := (queue s)\<lparr>q_storage := (q_storage (queue s))(slot (queue s) w := Some v)\<rparr>,
                   ppc := P_built v w\<rparr>)" (is "sys_inv ?t")
proof -
  have i: "index_inv s" and w: "w = of_nat (length (sent s))"
    and room: "length (sent s) < seen_read s + unat (q_capacity (queue s))"
    using inv pc by (auto simp: sys_inv_def)
  have g: "spsc_geometry (queue s)" using i by (simp add: index_inv_def)
  note win = producer_slot_window [OF i room]
  have "storage_inv ?t"
    unfolding storage_inv_def
  proof (intro allI impI, elim conjE)
    fix j
    assume j: "length (received ?t) \<le> j" "j < length (received ?t) + unat (q_capacity (queue ?t))"
    then have "slot (queue s) (of_nat j) = slot (queue s) (of_nat (length (sent s))) \<longleftrightarrow> j = length (sent s)"
      using win by (intro window_slot_inj [OF g]) auto
    then show "q_storage (queue ?t) (slot (queue ?t) (of_nat j)) = expected_slot ?t j"
      using inv j pc
      by (auto simp: sys_inv_def storage_inv_def expected_slot_def w split: consumer_pc.splits)
  qed
  then show ?thesis using inv pc by (cases "cpc s") (auto simp: sys_inv_def index_inv_def history_inv_def)
qed

lemma sys_inv_c_move:
  assumes inv: "sys_inv s" and pc: "cpc s = C_checked r"
  shows "sys_inv (s\<lparr>queue := (queue s)\<lparr>q_storage := (q_storage (queue s))(slot (queue s) r := None)\<rparr>,
                   cpc := C_moved r (q_storage (queue s) (slot (queue s) r))\<rparr>)" (is "sys_inv ?t")
proof -
  have i: "index_inv s" and r: "r = of_nat (length (received s))"
    and item: "length (received s) < seen_write s"
    using inv pc by (auto simp: sys_inv_def)
  have g: "spsc_geometry (queue s)" and lt: "length (received s) < length (sent s)"
    using i item by (auto simp: index_inv_def)
  note b = index_inv_bounds [OF i]
  have front: "q_storage (queue s) (slot (queue s) r) = Some (sent s ! length (received s))"
    using inv pc r lt b by (auto simp: sys_inv_def storage_inv_def expected_slot_def)
  have "storage_inv ?t"
    unfolding storage_inv_def
  proof (intro allI impI, elim conjE)
    fix j
    assume j: "length (received ?t) \<le> j" "j < length (received ?t) + unat (q_capacity (queue ?t))"
    then have "slot (queue s) (of_nat j) = slot (queue s) (of_nat (length (received s))) \<longleftrightarrow> j = length (received s)"
      using b by (intro window_slot_inj [OF g]) auto
    then show "q_storage (queue ?t) (slot (queue ?t) (of_nat j)) = expected_slot ?t j"
      using inv j pc lt
      by (auto simp: sys_inv_def storage_inv_def expected_slot_def r split: producer_pc.splits)
  qed
  then show ?thesis using inv pc front
    by (cases "ppc s") (auto simp: sys_inv_def index_inv_def history_inv_def)
qed

lemma sys_inv_p_store:
  assumes inv: "sys_inv s" and pc: "ppc s = P_built v w"
  shows "sys_inv (s\<lparr>queue := (queue s)\<lparr>write_index := w + 1\<rparr>, ppc := P_idle, sent := sent s @ [v]\<rparr>)"
    (is "sys_inv ?t")
proof -
  have i: "index_inv s" and w: "w = of_nat (length (sent s))"
    and room: "length (sent s) < seen_read s + unat (q_capacity (queue s))"
    using inv pc by (auto simp: sys_inv_def)
  note win = producer_slot_window [OF i room]
  have le: "length (received s) \<le> length (sent s)" using index_inv_bounds(1) [OF i] .
  have sw: "seen_write s \<le> length (sent s)" using i by (simp add: index_inv_def)
  have "index_inv ?t" using i room by (auto simp: index_inv_def w)
  moreover have "storage_inv ?t"
    using inv pc sw by (auto simp: sys_inv_def storage_inv_def expected_slot_def nth_append
        split: consumer_pc.splits)
  moreover have "history_inv ?t" using inv le by (auto simp: sys_inv_def history_inv_def)
  moreover have "consumer_inv (cpc ?t) ?t"
    using inv i by (cases "cpc s") (auto simp: sys_inv_def index_inv_def nth_append)
  ultimately show ?thesis by (simp add: sys_inv_def)
qed

lemma sys_inv_c_store:
  assumes inv: "sys_inv s" and pc: "cpc s = C_moved r x"
  shows "sys_inv (s\<lparr>queue := (queue s)\<lparr>read_index := r + 1\<rparr>, cpc := C_idle, received := received s @ [x]\<rparr>)"
    (is "sys_inv ?t")
proof -
  let ?R = "length (received s)" and ?C = "unat (q_capacity (queue s))"
  have i: "index_inv s" and r: "r = of_nat ?R" and x: "x = Some (sent s ! ?R)"
    and item: "?R < seen_write s"
    using inv pc by (auto simp: sys_inv_def)
  have g: "spsc_geometry (queue s)" and lt: "?R < length (sent s)"
    using i item by (auto simp: index_inv_def)
  note b = index_inv_bounds [OF i]
  have "index_inv ?t" using i item by (auto simp: index_inv_def r)
  moreover have "storage_inv ?t"
    unfolding storage_inv_def
  proof (intro allI impI, elim conjE)
    fix j
    assume j: "length (received ?t) \<le> j" "j < length (received ?t) + unat (q_capacity (queue ?t))"
    show "q_storage (queue ?t) (slot (queue ?t) (of_nat j)) = expected_slot ?t j"
    proof (cases "j = ?R + ?C")
      case True
      have "q_storage (queue s) (slot (queue s) (of_nat ?R)) = expected_slot s ?R"
        using inv b(3) by (simp add: sys_inv_def storage_inv_def)
      moreover have "ppc s = P_built v w \<Longrightarrow> length (sent s) < ?R + ?C" for v w
        using inv i by (auto simp: sys_inv_def index_inv_def)
      ultimately show ?thesis using True b slot_wrap [OF g, of ?R] pc lt
        by (auto simp: expected_slot_def split: producer_pc.splits)
    next
      case False
      then show ?thesis using inv j pc
        by (auto simp: sys_inv_def storage_inv_def expected_slot_def split: producer_pc.splits)
    qed
  qed
  moreover have "history_inv ?t" using inv x lt
    by (simp add: sys_inv_def history_inv_def take_Suc_conv_app_nth)
  moreover have "producer_inv (ppc ?t) ?t"
    using inv by (cases "ppc s") (auto simp: sys_inv_def)
  ultimately show ?thesis by (simp add: sys_inv_def)
qed

lemma sys_inv_step:
  assumes "spsc_step s t" and inv: "sys_inv s"
  shows "sys_inv t"
  using assms(1)
proof cases
  case (p_load_write v)
  then show ?thesis using inv
    by (cases "cpc s") (auto simp: sys_inv_defs)
next
  case (p_load_read_full v w n)
  then show ?thesis using inv
    by (cases "cpc s") (auto simp: sys_inv_defs)
next
  case (p_load_read_room v w n)
  then have "length (sent s) - n < unat (q_capacity (queue s))"
    using inv producer_distance [of s n] by (auto simp: sys_inv_def word_le_nat_alt)
  then show ?thesis using inv p_load_read_room
    by (cases "cpc s") (auto simp: sys_inv_defs)
next
  case (p_construct v w)
  then show ?thesis using sys_inv_p_construct [OF inv] by simp
next
  case (p_store_write v w)
  then show ?thesis using sys_inv_p_store [OF inv] by simp
next
  case c_load_read
  then show ?thesis using inv by (cases "ppc s") (auto simp: sys_inv_defs)
next
  case (c_load_write_empty r n)
  then show ?thesis using inv by (cases "ppc s") (auto simp: sys_inv_defs)
next
  case (c_load_write_item r n)
  then have "length (received s) < n"
    using inv consumer_empty_iff [of s n] by (auto simp: sys_inv_def index_inv_def)
  then show ?thesis using inv c_load_write_item by (cases "ppc s") (auto simp: sys_inv_defs)
next
  case (c_move r)
  then show ?thesis using sys_inv_c_move [OF inv] by simp
next
  case (c_store_read r x)
  then show ?thesis using sys_inv_c_store [OF inv] by simp
qed

lemma reachable_sys_inv: "spsc_reachable cap s \<Longrightarrow> sys_inv s"
  by (induction rule: spsc_reachable.induct) (auto intro: sys_inv_start sys_inv_step)

lemma step_capacity: "spsc_step s t \<Longrightarrow> q_capacity (queue t) = q_capacity (queue s)"
  by (erule spsc_stepE) auto

lemma reachable_capacity: "spsc_reachable cap s \<Longrightarrow> q_capacity (queue s) = cap"
  by (induction rule: spsc_reachable.induct)
    (auto simp: spsc_start_def step_capacity new_queue_inv(3))

section \<open>Schedules\<close>

text \<open>The steps as a function of the thread's choice, so that a schedule can be executed.\<close>
datatype 'a action =
    Start_push 'a
  | Load_read nat
  | Construct
  | Store_write
  | Start_pop
  | Load_write nat
  | Move
  | Store_read

fun do_action :: "'a action \<Rightarrow> 'a spsc_sys \<Rightarrow> 'a spsc_sys option" where
  "do_action (Start_push v) s =
     (case ppc s of P_idle \<Rightarrow> Some (s\<lparr>ppc := P_loaded v (write_index (queue s))\<rparr>) | _ \<Rightarrow> None)"
| "do_action (Load_read n) s =
     (case ppc s of
        P_loaded v w \<Rightarrow>
          if seen_read s \<le> n \<and> n \<le> length (received s)
          then if w - of_nat n \<ge> q_capacity (queue s) then Some (s\<lparr>ppc := P_idle, seen_read := n\<rparr>)
               else Some (s\<lparr>ppc := P_checked v w, seen_read := n\<rparr>)
          else None
      | _ \<Rightarrow> None)"
| "do_action Construct s =
     (case ppc s of
        P_checked v w \<Rightarrow>
          Some (s\<lparr>queue := (queue s)\<lparr>q_storage := (q_storage (queue s))(slot (queue s) w := Some v)\<rparr>,
                  ppc := P_built v w\<rparr>)
      | _ \<Rightarrow> None)"
| "do_action Store_write s =
     (case ppc s of
        P_built v w \<Rightarrow> Some (s\<lparr>queue := (queue s)\<lparr>write_index := w + 1\<rparr>, ppc := P_idle, sent := sent s @ [v]\<rparr>)
      | _ \<Rightarrow> None)"
| "do_action Start_pop s =
     (case cpc s of C_idle \<Rightarrow> Some (s\<lparr>cpc := C_loaded (read_index (queue s))\<rparr>) | _ \<Rightarrow> None)"
| "do_action (Load_write n) s =
     (case cpc s of
        C_loaded r \<Rightarrow>
          if seen_write s \<le> n \<and> n \<le> length (sent s)
          then if r = of_nat n then Some (s\<lparr>cpc := C_idle, seen_write := n\<rparr>)
               else Some (s\<lparr>cpc := C_checked r, seen_write := n\<rparr>)
          else None
      | _ \<Rightarrow> None)"
| "do_action Move s =
     (case cpc s of
        C_checked r \<Rightarrow>
          Some (s\<lparr>queue := (queue s)\<lparr>q_storage := (q_storage (queue s))(slot (queue s) r := None)\<rparr>,
                  cpc := C_moved r (q_storage (queue s) (slot (queue s) r))\<rparr>)
      | _ \<Rightarrow> None)"
| "do_action Store_read s =
     (case cpc s of
        C_moved r x \<Rightarrow> Some (s\<lparr>queue := (queue s)\<lparr>read_index := r + 1\<rparr>, cpc := C_idle, received := received s @ [x]\<rparr>)
      | _ \<Rightarrow> None)"

fun run_actions :: "'a action list \<Rightarrow> 'a spsc_sys \<Rightarrow> 'a spsc_sys option" where
  "run_actions [] s = Some s"
| "run_actions (a # as) s = (case do_action a s of None \<Rightarrow> None | Some t \<Rightarrow> run_actions as t)"

lemma do_action_step: "do_action a s = Some t \<Longrightarrow> spsc_step s t"
  by (cases a) (auto split: producer_pc.splits consumer_pc.splits if_splits intro: spsc_step.intros)

lemma step_do_action: "spsc_step s t \<Longrightarrow> \<exists>a. do_action a s = Some t"
proof (erule spsc_stepE, goal_cases)
  case (1 v) then show ?case by (auto intro: exI [of _ "Start_push v"])
next
  case (2 v w n) then show ?case by (auto intro: exI [of _ "Load_read n"])
next
  case (3 v w n) then show ?case by (auto intro: exI [of _ "Load_read n"])
next
  case (4 v w) then show ?case by (auto intro: exI [of _ Construct])
next
  case (5 v w) then show ?case by (auto intro: exI [of _ Store_write])
next
  case 6 then show ?case by (auto intro: exI [of _ Start_pop])
next
  case (7 n) then show ?case by (auto intro: exI [of _ "Load_write n"])
next
  case (8 r n) then show ?case by (auto intro: exI [of _ "Load_write n"])
next
  case (9 r) then show ?case by (auto intro: exI [of _ Move])
next
  case (10 r x) then show ?case by (auto intro: exI [of _ Store_read])
qed

lemma run_actions_reachable:
  "spsc_reachable cap s \<Longrightarrow> run_actions as s = Some t \<Longrightarrow> spsc_reachable cap t"
  by (induction as arbitrary: s)
    (auto split: option.splits intro: spsc_reachable.step dest: do_action_step)

section \<open>What the interleavings guarantee\<close>

text \<open>
  C37. In every reachable state of the two threads the values the consumer received are the
  first values the producer published, in order, each once and each read from a live object,
  and at most one capacity of them is outstanding.
\<close>
theorem spsc_threads_fifo:
  assumes "spsc_reachable cap s"
  shows "received s = map Some (take (length (received s)) (sent s))
    \<and> length (received s) \<le> length (sent s)
    \<and> length (sent s) \<le> length (received s) + unat cap"
proof -
  have inv: "sys_inv s" by (rule reachable_sys_inv [OF assms])
  then have "index_inv s" by (simp add: sys_inv_def)
  from index_inv_bounds [OF this] inv reachable_capacity [OF assms] show ?thesis
    by (simp add: sys_inv_def history_inv_def)
qed

lemma consumer_slot_live:
  assumes inv: "sys_inv s" and pc: "cpc s = C_checked r"
  shows "q_storage (queue s) (slot (queue s) r) \<noteq> None"
proof -
  have "index_inv s" using inv by (simp add: sys_inv_def)
  from index_inv_bounds [OF this] inv pc show ?thesis
    by (auto simp: sys_inv_def index_inv_def storage_inv_def expected_slot_def)
qed

lemma producer_slot_raw:
  assumes inv: "sys_inv s" and pc: "ppc s = P_checked v w"
  shows "q_storage (queue s) (slot (queue s) w) = None"
proof -
  have "index_inv s" and "length (sent s) < seen_read s + unat (q_capacity (queue s))"
    using inv pc by (auto simp: sys_inv_def)
  from producer_slot_window [OF this] inv pc show ?thesis
    by (auto simp: sys_inv_def storage_inv_def expected_slot_def)
qed

text \<open>
  C39. Freedom from data races on the slots: whenever the producer is about to construct and
  the consumer is about to move out, they are at different slots, the producer's is raw
  storage and the consumer's holds an object.
\<close>
theorem spsc_slots_race_free:
  assumes "spsc_reachable cap s" and "ppc s = P_checked v w" and "cpc s = C_checked r"
  shows "slot (queue s) w \<noteq> slot (queue s) r
    \<and> q_storage (queue s) (slot (queue s) w) = None
    \<and> q_storage (queue s) (slot (queue s) r) \<noteq> None"
  using producer_slot_raw [OF reachable_sys_inv [OF assms(1)] assms(2)]
    consumer_slot_live [OF reachable_sys_inv [OF assms(1)] assms(3)] by auto

text \<open>A schedule on a ring of two: one push completes, then both threads are about to access.\<close>
definition demo_schedule :: "nat action list" where
  "demo_schedule = [Start_push 7, Load_read 0, Construct, Store_write,
     Start_push 8, Load_read 0, Start_pop, Load_write 1]"

definition demo_queue :: "nat SPSCQueue" where
  "demo_queue = \<lparr>q_capacity = 2, q_mask = 1, q_storage = (\<lambda>_. None), read_index = 0, write_index = 0\<rparr>"

lemma demo_reachable:
  "\<exists>s. run_actions demo_schedule (spsc_start demo_queue) = Some s \<and> spsc_reachable 2 s
     \<and> ppc s = P_checked 8 1 \<and> cpc s = C_checked 0 \<and> sent s = [7] \<and> received s = []"
proof -
  have "new_queue 2 = Inr demo_queue" by (simp add: new_queue_def empty_ring_def validate_capacity_def demo_queue_def)
  then have "spsc_reachable 2 (spsc_start demo_queue)" by (rule spsc_reachable.start)
  moreover have "\<exists>s. run_actions demo_schedule (spsc_start demo_queue) = Some s
     \<and> ppc s = P_checked 8 1 \<and> cpc s = C_checked 0 \<and> sent s = [7] \<and> received s = []"
    by (simp add: demo_schedule_def spsc_start_def demo_queue_def word_le_nat_alt)
  ultimately show ?thesis by (blast intro: run_actions_reachable)
qed

theorem spsc_threads_fifo_witness:
  "\<exists>s::nat spsc_sys. spsc_reachable 2 s \<and> sent s = [7]
    \<and> received s = map Some (take (length (received s)) (sent s))"
proof -
  obtain s :: "nat spsc_sys" where s: "spsc_reachable 2 s" "sent s = [7]"
    using demo_reachable by auto
  show ?thesis using s spsc_threads_fifo [OF s(1)] by (intro exI [of _ s]) simp
qed

theorem spsc_slots_race_free_witness:
  "\<exists>s::nat spsc_sys. spsc_reachable 2 s \<and> ppc s = P_checked 8 1 \<and> cpc s = C_checked 0
    \<and> slot (queue s) 1 \<noteq> slot (queue s) 0"
proof -
  obtain s :: "nat spsc_sys" where s: "spsc_reachable 2 s" "ppc s = P_checked 8 1" "cpc s = C_checked 0"
    using demo_reachable by auto
  show ?thesis using s spsc_slots_race_free [OF s] by (intro exI [of _ s]) simp
qed

end
