(* ===== verification/Protocol.thy ===== *)
theory Protocol
  imports Prelude
begin

text \<open>
  The messages the scheduler and the environment threads exchange
  (\<open>src/runtime/protocol.hpp\<close>). A C++ \<open>enum class\<close> over \<open>std::uint8_t\<close> may hold a value
  that no enumerator names; the code tests for that on work kinds, so \<open>WorkKind\<close> has a
  constructor for it.
\<close>

type_synonym RequestId = u32
type_synonym Token = "32 word" \<comment> \<open>a signed 32-bit value, read with \<open>sint\<close>\<close>

datatype WorkKind = Prefill | Decode | Unknown_kind u8

datatype OutputMode = Natural | TraceExact

datatype ErrorCode =
    NoError \<comment> \<open>\<open>ErrorCode::None\<close>\<close>
  | TokenizationFailed
  | ContextCapacityExceeded
  | DecodeFailed
  | SamplingFailed
  | ProtocolViolation
  | EnvironmentStopped

record Admission =
  adm_id :: RequestId
  adm_prompt :: string
  adm_max_output_tokens :: u32
  adm_synthetic_prompt_tokens :: "u32 option"
  adm_output_mode :: OutputMode
  adm_conversation_id :: string

record AdmissionResult =
  ar_id :: RequestId
  ar_prompt_tokens :: u32
  ar_error :: ErrorCode
  ar_cached_prefix_tokens :: u32

record WorkItem =
  work_id :: RequestId
  token_begin :: u32
  token_end :: u32
  work_kind :: WorkKind

text \<open>\<open>WorkItem::token_count\<close>: a 32-bit subtraction, which wraps.\<close>
definition token_count :: "WorkItem \<Rightarrow> u32" where
  "token_count w = token_end w - token_begin w"

record Completion =
  cmp_id :: RequestId
  cmp_prefill_position :: u32
  cmp_decoded_tokens :: u32
  cmp_token :: Token
  cmp_kind :: WorkKind
  cmp_error :: ErrorCode
  cmp_generated_token :: bool
  cmp_eos :: bool

record OutputPiece =
  op_id :: RequestId
  op_token :: Token
  op_text :: string

record Release =
  rel_id :: RequestId

record ReleaseAck =
  ack_id :: RequestId

record RunFatal =
  fatal_error :: ErrorCode

lemma unat_token_count:
  "token_begin w \<le> token_end w \<Longrightarrow> unat (token_count w) = unat (token_end w) - unat (token_begin w)"
  by (simp add: token_count_def unat_sub_le)

end
