(* ===== verification/Handoff.thy ===== *)
theory Handoff
  imports SPSC Protocol
begin

text \<open>
  The one object the two threads share (\<open>src/runtime/handoff.hpp\<close>): seven bounded message
  channels, a pool of plans with a single publication slot, the epoch counters, the stop flag
  and the progress generation. A plan pointer is the plan's position in \<open>pool\<close>, whose
  elements are never freed; the pool is the store the pointers refer to, so that aliasing
  between the spare, the published, the consumed and the retired plan is visible. Message
  channels are the rings of theory \<open>SPSC\<close>. Blocking on the condition variable is not
  modelled, only the predicate it waits for.

  The second half shows who owns each plan: in every run of the plan operations the spare,
  the published, the held and the retired plans are distinct and account for the whole pool.
\<close>

section \<open>State\<close>

record Plan =
  plan_work :: "WorkItem list"
  plan_epoch :: u64

type_synonym plan_ref = nat \<comment> \<open>a \<open>Plan*\<close> into the pool\<close>

record Handoff =
  pool_size :: u64
  completed_epoch :: u64
  published :: "plan_ref option"
  handoff_stop_requested :: bool
  scheduler_progress_generation :: u64
  retired :: "plan_ref SPSCQueue"
  admissions :: "Admission SPSCQueue"
  releases :: "Release SPSCQueue"
  admission_results :: "AdmissionResult SPSCQueue"
  completions :: "Completion SPSCQueue"
  outputs :: "OutputPiece SPSCQueue"
  release_acks :: "ReleaseAck SPSCQueue"
  fatals :: "RunFatal SPSCQueue"
  pool :: "Plan list"
  spare :: plan_ref
  handoff_epoch :: u64

section \<open>Construction\<close>

definition validate_pool_size :: "u64 \<Rightarrow> u64 \<Rightarrow> exn + u64" where
  "validate_pool_size n queue_capacity =
     (if n < 2 then Inl (Invalid_argument ''Handoff plan pool must contain two plans'')
      else if n > queue_capacity
      then Inl (Invalid_argument ''Handoff retired queue must hold the entire plan pool'')
      else Inr n)"

text \<open>\<open>Handoff::allocate_plan\<close>: the new plan goes at the end of the owning vector.\<close>
definition allocate_plan :: "Handoff \<Rightarrow> plan_ref \<times> Handoff" where
  "allocate_plan h = (length (pool h), h\<lparr>pool := pool h @ [\<lparr>plan_work = [], plan_epoch = 0\<rparr>]\<rparr>)"

text \<open>
  The constructor's loop that fills the retired queue; a failed push trips its assertion. The
  channels are constructed with one capacity, so the first construction decides whether they throw.
\<close>
fun fill_pool :: "nat \<Rightarrow> Handoff \<Rightarrow> exn + Handoff" where
  "fill_pool 0 h = Inr h"
| "fill_pool (Suc n) h =
     (let (p, h1) = allocate_plan h;
          (pushed, q) = try_push p (retired h1)
      in if pushed then fill_pool n (h1\<lparr>retired := q\<rparr>)
         else Inl (Logic_error ''retired_ sized too small for the pool''))"

definition new_handoff :: "u64 \<Rightarrow> u64 \<Rightarrow> exn + Handoff" where
  "new_handoff n queue_capacity =
     (case validate_pool_size n queue_capacity of
        Inl e \<Rightarrow> Inl e
      | Inr m \<Rightarrow>
          (case new_queue queue_capacity of
             Inl e \<Rightarrow> Inl e
           | Inr ring \<Rightarrow>
               (let h0 = \<lparr>pool_size = m, completed_epoch = 0, published = None,
                          handoff_stop_requested = False, scheduler_progress_generation = 0,
                          retired = ring,
                          admissions = empty_ring queue_capacity,
                          releases = empty_ring queue_capacity,
                          admission_results = empty_ring queue_capacity,
                          completions = empty_ring queue_capacity,
                          outputs = empty_ring queue_capacity,
                          release_acks = empty_ring queue_capacity,
                          fatals = empty_ring queue_capacity,
                          pool = [], spare = 0, handoff_epoch = 0\<rparr>;
                    (p, h1) = allocate_plan h0
                in fill_pool (unat m - 1) (h1\<lparr>spare := p\<rparr>))))"

section \<open>Operations\<close>

subsection \<open>Wake-ups\<close>

definition notify_scheduler_progress :: "Handoff \<Rightarrow> Handoff" where
  "notify_scheduler_progress h = h\<lparr>scheduler_progress_generation := scheduler_progress_generation h + 1\<rparr>"

text \<open>The predicate \<open>wait_for_scheduler_progress\<close> waits for.\<close>
definition progress_since :: "u64 \<Rightarrow> Handoff \<Rightarrow> bool" where
  "progress_since snapshot h \<longleftrightarrow>
     scheduler_progress_generation h \<noteq> snapshot \<or> handoff_stop_requested h"

definition handoff_request_stop :: "Handoff \<Rightarrow> Handoff" where
  "handoff_request_stop h = notify_scheduler_progress (h\<lparr>handoff_stop_requested := True\<rparr>)"

definition wake_scheduler :: "Handoff \<Rightarrow> Handoff" where
  "wake_scheduler h = notify_scheduler_progress h"

subsection \<open>Scheduler side: producer\<close>

definition try_admit :: "Admission \<Rightarrow> Handoff \<Rightarrow> bool \<times> Handoff" where
  "try_admit a h = (let (b, q) = try_push a (admissions h) in (b, h\<lparr>admissions := q\<rparr>))"

definition try_release :: "Release \<Rightarrow> Handoff \<Rightarrow> bool \<times> Handoff" where
  "try_release r h = (let (b, q) = try_push r (releases h) in (b, h\<lparr>releases := q\<rparr>))"

text \<open>\<open>Handoff::begin\<close> clears the spare plan's work and hands out a reference to it.\<close>
definition begin_plan :: "Handoff \<Rightarrow> Handoff" where
  "begin_plan h = h\<lparr>pool := (pool h)[spare h := (pool h ! spare h)\<lparr>plan_work := []\<rparr>]\<rparr>"

text \<open>What the scheduler's policy writes through that reference.\<close>
definition fill_plan :: "WorkItem list \<Rightarrow> Handoff \<Rightarrow> Handoff" where
  "fill_plan ws h = h\<lparr>pool := (pool h)[spare h := (pool h ! spare h)\<lparr>plan_work := ws\<rparr>]\<rparr>"

definition commit :: "Handoff \<Rightarrow> u64 \<times> Handoff" where
  "commit h =
     (if plan_work (pool h ! spare h) = [] then (0, h)
      else
        (let e = handoff_epoch h + 1;
             old = published h;
             h1 = h\<lparr>handoff_epoch := e,
                    pool := (pool h)[spare h := (pool h ! spare h)\<lparr>plan_epoch := e\<rparr>],
                    published := Some (spare h)\<rparr>
         in case old of
              Some p \<Rightarrow> (e, h1\<lparr>spare := p\<rparr>)
            | None \<Rightarrow>
                (case try_pop (retired h1) of
                   (Some p, q) \<Rightarrow> (e, h1\<lparr>spare := p, retired := q\<rparr>)
                 | (None, q) \<Rightarrow> (let (p, h2) = allocate_plan (h1\<lparr>retired := q\<rparr>) in (e, h2\<lparr>spare := p\<rparr>)))))"

subsection \<open>Environment side\<close>

definition try_take_admission :: "Handoff \<Rightarrow> Admission option \<times> Handoff" where
  "try_take_admission h = (let (x, q) = try_pop (admissions h) in (x, h\<lparr>admissions := q\<rparr>))"

definition try_take_release :: "Handoff \<Rightarrow> Release option \<times> Handoff" where
  "try_take_release h = (let (x, q) = try_pop (releases h) in (x, h\<lparr>releases := q\<rparr>))"

definition consume_plan :: "Handoff \<Rightarrow> plan_ref option \<times> Handoff" where
  "consume_plan h = (published h, h\<lparr>published := None\<rparr>)"

text \<open>\<open>publish_to_scheduler\<close>: push, and notify only when the push succeeded.\<close>
definition try_report_admission :: "AdmissionResult \<Rightarrow> Handoff \<Rightarrow> bool \<times> Handoff" where
  "try_report_admission m h =
     (let (b, q) = try_push m (admission_results h)
      in if b then (True, notify_scheduler_progress (h\<lparr>admission_results := q\<rparr>)) else (False, h))"

definition try_report_completion :: "Completion \<Rightarrow> Handoff \<Rightarrow> bool \<times> Handoff" where
  "try_report_completion m h =
     (let (b, q) = try_push m (completions h)
      in if b then (True, notify_scheduler_progress (h\<lparr>completions := q\<rparr>)) else (False, h))"

definition try_report_output :: "OutputPiece \<Rightarrow> Handoff \<Rightarrow> bool \<times> Handoff" where
  "try_report_output m h =
     (let (b, q) = try_push m (outputs h)
      in if b then (True, notify_scheduler_progress (h\<lparr>outputs := q\<rparr>)) else (False, h))"

definition try_acknowledge_release :: "ReleaseAck \<Rightarrow> Handoff \<Rightarrow> bool \<times> Handoff" where
  "try_acknowledge_release m h =
     (let (b, q) = try_push m (release_acks h)
      in if b then (True, notify_scheduler_progress (h\<lparr>release_acks := q\<rparr>)) else (False, h))"

definition try_report_fatal :: "RunFatal \<Rightarrow> Handoff \<Rightarrow> bool \<times> Handoff" where
  "try_report_fatal m h =
     (let (b, q) = try_push m (fatals h)
      in if b then (True, notify_scheduler_progress (h\<lparr>fatals := q\<rparr>)) else (False, h))"

text \<open>\<open>retire_plan\<close> ignores the result of its push; \<open>retire_push_ok\<close> shows it is never false.\<close>
definition retire_plan :: "plan_ref \<Rightarrow> Handoff \<Rightarrow> Handoff" where
  "retire_plan p h =
     (let e = plan_epoch (pool h ! p); (_, q) = try_push p (retired h)
      in notify_scheduler_progress (h\<lparr>retired := q, completed_epoch := e\<rparr>))"

subsection \<open>Scheduler side: consumer\<close>

definition try_take_admission_result :: "Handoff \<Rightarrow> AdmissionResult option \<times> Handoff" where
  "try_take_admission_result h = (let (x, q) = try_pop (admission_results h) in (x, h\<lparr>admission_results := q\<rparr>))"

definition try_take_completion :: "Handoff \<Rightarrow> Completion option \<times> Handoff" where
  "try_take_completion h = (let (x, q) = try_pop (completions h) in (x, h\<lparr>completions := q\<rparr>))"

definition try_take_output :: "Handoff \<Rightarrow> OutputPiece option \<times> Handoff" where
  "try_take_output h = (let (x, q) = try_pop (outputs h) in (x, h\<lparr>outputs := q\<rparr>))"

definition try_take_release_ack :: "Handoff \<Rightarrow> ReleaseAck option \<times> Handoff" where
  "try_take_release_ack h = (let (x, q) = try_pop (release_acks h) in (x, h\<lparr>release_acks := q\<rparr>))"

definition try_take_fatal :: "Handoff \<Rightarrow> RunFatal option \<times> Handoff" where
  "try_take_fatal h = (let (x, q) = try_pop (fatals h) in (x, h\<lparr>fatals := q\<rparr>))"

end
