(* ===== verification/Handoff_Plans.thy ===== *)
theory Handoff_Plans
  imports Handoff
begin

text \<open>
  Ownership of the pooled plans of theory \<open>Handoff\<close>. A state is the handoff together with
  the plan the environment holds between \<open>consume_plan\<close> and \<open>retire_plan\<close>; a step is one
  call of the scheduler (write the spare plan, commit) or of the environment (consume,
  retire), or any operation on the message channels, in any order.
\<close>

section \<open>Steps\<close>

definition same_plans :: "Handoff \<Rightarrow> Handoff \<Rightarrow> bool" where
  "same_plans h h' \<longleftrightarrow> pool h' = pool h \<and> spare h' = spare h \<and> published h' = published h
     \<and> retired h' = retired h \<and> pool_size h' = pool_size h \<and> handoff_epoch h' = handoff_epoch h
     \<and> completed_epoch h' = completed_epoch h"

inductive plans_step :: "Handoff \<times> plan_ref option \<Rightarrow> Handoff \<times> plan_ref option \<Rightarrow> bool" where
  write_spare: "plans_step (h, held) (fill_plan ws (begin_plan h), held)"
| commit_spare: "plans_step (h, held) (snd (commit h), held)"
| consume: "plans_step (h, None) (snd (consume_plan h), fst (consume_plan h))"
| retire: "plans_step (h, Some p) (retire_plan p h, None)"
| messages: "same_plans h h' \<Longrightarrow> plans_step (h, held) (h', held)"

inductive_cases plans_stepE: "plans_step (h, held) (h', held')"

inductive plans_reachable :: "Handoff \<times> plan_ref option \<Rightarrow> bool" where
  start: "new_handoff n cap = Inr h \<Longrightarrow> plans_reachable (h, None)"
| step: "plans_reachable s \<Longrightarrow> plans_step s t \<Longrightarrow> plans_reachable t"

section \<open>The invariant\<close>

definition opt_list :: "'a option \<Rightarrow> 'a list" where
  "opt_list x = (case x of None \<Rightarrow> [] | Some y \<Rightarrow> [y])"

lemma opt_list_simps [simp]: "opt_list None = []" "opt_list (Some x) = [x]"
  by (simp_all add: opt_list_def)

text \<open>Every place a plan pointer can be.\<close>
definition plan_places :: "Handoff \<Rightarrow> plan_ref option \<Rightarrow> plan_ref list" where
  "plan_places h held = spare h # opt_list (published h) @ opt_list held @ contents (retired h)"

definition plans_inv :: "Handoff \<Rightarrow> plan_ref option \<Rightarrow> bool" where
  "plans_inv h held \<longleftrightarrow> spsc_inv (retired h) \<and> distinct (plan_places h held) \<and>
     set (plan_places h held) = {..<length (pool h)} \<and>
     length (pool h) \<le> Suc (unat (q_capacity (retired h))) \<and>
     unat (pool_size h) \<le> length (pool h) \<and> length (pool h) \<le> max 3 (unat (pool_size h))"

text \<open>As many places are taken as there are plans.\<close>
lemma length_plan_places: "plans_inv h held \<Longrightarrow> length (plan_places h held) = length (pool h)"
  by (metis plans_inv_def distinct_card card_lessThan)

lemma spare_in_pool: "plans_inv h held \<Longrightarrow> spare h < length (pool h)"
  by (auto simp: plans_inv_def plan_places_def)

lemma plans_inv_write: "plans_inv h held \<Longrightarrow> plans_inv (fill_plan ws (begin_plan h)) held"
  by (simp add: plans_inv_def plan_places_def fill_plan_def begin_plan_def)

lemma plans_inv_messages: "plans_inv h held \<Longrightarrow> same_plans h h' \<Longrightarrow> plans_inv h' held"
  by (simp add: plans_inv_def plan_places_def same_plans_def)

lemma plans_inv_consume:
  "plans_inv h None \<Longrightarrow> plans_inv (snd (consume_plan h)) (fst (consume_plan h))"
  by (cases "published h") (auto simp: plans_inv_def plan_places_def consume_plan_def)

lemma retire_room:
  assumes "plans_inv h (Some p)"
  shows "length (contents (retired h)) < unat (q_capacity (retired h))"
  using length_plan_places [OF assms] assms by (auto simp: plans_inv_def plan_places_def)

text \<open>The push whose result \<open>retire_plan\<close> discards always succeeds.\<close>
lemma retire_push_ok: "plans_inv h (Some p) \<Longrightarrow> fst (try_push p (retired h))"
  using retire_room by (simp add: try_push_full_iff)

lemma plans_inv_retire:
  assumes inv: "plans_inv h (Some p)"
  shows "plans_inv (retire_plan p h) None"
proof -
  have s: "spsc_inv (retired h)" using inv by (simp add: plans_inv_def)
  obtain q where q: "try_push p (retired h) = (True, q)" "spsc_inv q"
    "contents q = contents (retired h) @ [p]" "unat (q_capacity q) = unat (q_capacity (retired h))"
    using ring.push_room [OF s retire_room [OF inv]] by blast
  have "retire_plan p h = notify_scheduler_progress
      (h\<lparr>retired := q, completed_epoch := plan_epoch (pool h ! p)\<rparr>)"
    by (simp add: retire_plan_def q)
  then show ?thesis using inv q
    by (auto simp: plans_inv_def plan_places_def notify_scheduler_progress_def)
qed

lemma commit_empty: "plan_work (pool h ! spare h) = [] \<Longrightarrow> commit h = (0, h)"
  by (simp add: commit_def)

text \<open>The state after a commit, by where the next spare plan comes from.\<close>
definition committed :: "Handoff \<Rightarrow> Handoff" where
  "committed h = h\<lparr>handoff_epoch := handoff_epoch h + 1,
     pool := (pool h)[spare h := (pool h ! spare h)\<lparr>plan_epoch := handoff_epoch h + 1\<rparr>],
     published := Some (spare h)\<rparr>"

lemma commit_cases:
  assumes ne: "plan_work (pool h ! spare h) \<noteq> []" and inv: "spsc_inv (retired h)"
  obtains (replaced) p where "published h = Some p"
      "commit h = (handoff_epoch h + 1, (committed h)\<lparr>spare := p\<rparr>)"
    | (recycled) p q where "published h = None" "contents (retired h) = p # contents q"
      "spsc_inv q" "q_capacity q = q_capacity (retired h)"
      "commit h = (handoff_epoch h + 1, (committed h)\<lparr>spare := p, retired := q\<rparr>)"
    | (allocated) "published h = None" "contents (retired h) = []"
      "commit h = (handoff_epoch h + 1, (committed h)\<lparr>
         pool := pool (committed h) @ [\<lparr>plan_work = [], plan_epoch = 0\<rparr>], spare := length (pool h)\<rparr>)"
proof (cases "published h")
  case (Some p)
  with ne have "commit h = (handoff_epoch h + 1, (committed h)\<lparr>spare := p\<rparr>)"
    by (simp add: commit_def committed_def Let_def)
  with Some show ?thesis by (rule replaced)
next
  case None
  show ?thesis
  proof (rule ring.pop_cases [OF inv])
    assume p: "try_pop (retired h) = (None, retired h)" "contents (retired h) = []"
    have "commit h = (handoff_epoch h + 1, (committed h)\<lparr>
         pool := pool (committed h) @ [\<lparr>plan_work = [], plan_epoch = 0\<rparr>], spare := length (pool h)\<rparr>)"
      using ne None p by (simp add: commit_def committed_def Let_def allocate_plan_def)
    with None p(2) show ?thesis by (rule allocated)
  next
    fix p q
    assume p: "try_pop (retired h) = (Some p, q)" "spsc_inv q" "contents (retired h) = p # contents q"
      "unat (q_capacity q) = unat (q_capacity (retired h))"
    have "commit h = (handoff_epoch h + 1, (committed h)\<lparr>spare := p, retired := q\<rparr>)"
      using ne None p by (simp add: commit_def committed_def Let_def)
    moreover have "q_capacity q = q_capacity (retired h)" using p(4) by (simp only: word_unat_eq_iff)
    ultimately show ?thesis using None p by (intro recycled)
  qed
qed

lemma plans_inv_commit:
  assumes inv: "plans_inv h held"
  shows "plans_inv (snd (commit h)) held"
proof (cases "plan_work (pool h ! spare h) = []")
  case True
  then show ?thesis using inv by (simp add: commit_empty)
next
  case ne: False
  have s: "spsc_inv (retired h)" using inv by (simp add: plans_inv_def)
  show ?thesis
  proof (cases rule: commit_cases [OF ne s])
    case (1 p)
    then show ?thesis using inv by (auto simp: plans_inv_def plan_places_def committed_def)
  next
    case (2 p q)
    then show ?thesis using inv by (auto simp: plans_inv_def plan_places_def committed_def)
  next
    case 3
    have "length (pool h) \<le> 2" using length_plan_places [OF inv] 3
      by (cases held) (auto simp: plan_places_def)
    moreover have "2 \<le> unat (q_capacity (retired h))"
      using s by (auto simp: spsc_inv_def dest: capacity_bounds(1))
    ultimately show ?thesis using inv 3
      by (auto simp: plans_inv_def plan_places_def committed_def lessThan_Suc)
  qed
qed

lemma fill_pool_Inr:
  assumes "spsc_inv (retired h)" "length (contents (retired h)) + k \<le> unat (q_capacity (retired h))"
  shows "\<exists>h'. fill_pool k h = Inr h' \<and> spsc_inv (retired h') \<and>
    contents (retired h') = contents (retired h) @ [length (pool h)..<length (pool h) + k] \<and>
    length (pool h') = length (pool h) + k \<and> spare h' = spare h \<and> published h' = published h \<and>
    pool_size h' = pool_size h \<and> q_capacity (retired h') = q_capacity (retired h)"
  using assms
proof (induction k arbitrary: h)
  case 0
  then show ?case by simp
next
  case (Suc k)
  let ?h1 = "snd (allocate_plan h)"
  obtain q where q: "try_push (length (pool h)) (retired h) = (True, q)" "spsc_inv q"
    "contents q = contents (retired h) @ [length (pool h)]"
    "unat (q_capacity q) = unat (q_capacity (retired h))"
    using ring.push_room [OF Suc.prems(1)] Suc.prems(2) by fastforce
  have cap: "q_capacity q = q_capacity (retired h)" using q(4) by (simp only: word_unat_eq_iff)
  have "fill_pool (Suc k) h = fill_pool k (?h1\<lparr>retired := q\<rparr>)"
    by (simp add: allocate_plan_def q)
  moreover have "[length (pool h)..<length (pool h) + Suc k] = length (pool h) # [Suc (length (pool h))..<length (pool h) + Suc k]"
    by (simp add: upt_conv_Cons)
  ultimately show ?case using Suc.IH [of "?h1\<lparr>retired := q\<rparr>"] Suc.prems q cap
    by (auto simp: allocate_plan_def)
qed

lemma validate_pool_size_Inr:
  "validate_pool_size n cap = Inr m \<Longrightarrow> m = n \<and> 2 \<le> unat n \<and> unat n \<le> unat cap"
  by (auto simp: validate_pool_size_def word_less_nat_alt not_less split: if_splits)

lemma new_handoff_fields:
  assumes "new_handoff n cap = Inr h"
  shows "2 \<le> unat n" "unat n \<le> unat cap" "spsc_inv (retired h)" "contents (retired h) = [1..<unat n]"
    "length (pool h) = unat n" "spare h = 0" "published h = None" "pool_size h = n"
    "q_capacity (retired h) = cap"
proof -
  obtain m where m: "validate_pool_size n cap = Inr m"
    using assms by (auto simp: new_handoff_def split: sum.splits)
  obtain r :: "plan_ref SPSCQueue" where r: "new_queue cap = Inr r"
    using assms m by (auto simp: new_handoff_def split: sum.splits)
  note n = validate_pool_size_Inr [OF m]
  note rq = new_queue_inv [OF r]
  obtain h1 where h1: "fill_pool (unat n - 1) h1 = Inr h" "spsc_inv (retired h1)" "contents (retired h1) = []"
    "q_capacity (retired h1) = cap" "length (pool h1) = 1" "spare h1 = 0" "published h1 = None" "pool_size h1 = n"
    using assms m r n rq by (auto simp: new_handoff_def allocate_plan_def Let_def)
  have "length (contents (retired h1)) + (unat n - 1) \<le> unat (q_capacity (retired h1))"
    using h1 conjunct2 [OF conjunct2 [OF n]] by simp
  from fill_pool_Inr [OF h1(2) this] h1(1) show
    "spsc_inv (retired h)" "contents (retired h) = [1..<unat n]" "length (pool h) = unat n"
    "spare h = 0" "published h = None" "pool_size h = n" "q_capacity (retired h) = cap"
    using h1(3-) n by auto
  show "2 \<le> unat n" "unat n \<le> unat cap" using n by auto
qed

lemma fill_pool_epoch: "fill_pool k h = Inr h' \<Longrightarrow> handoff_epoch h' = handoff_epoch h"
  by (induction k arbitrary: h) (auto simp: allocate_plan_def Let_def split: prod.splits if_splits)

lemma new_handoff_epoch: "new_handoff n cap = Inr h \<Longrightarrow> handoff_epoch h = 0"
  by (auto simp: new_handoff_def allocate_plan_def Let_def dest!: fill_pool_epoch split: sum.splits)

lemma plans_inv_new: "new_handoff n cap = Inr h \<Longrightarrow> plans_inv h None"
  using new_handoff_fields [of n cap h] by (auto simp: plans_inv_def plan_places_def)

lemma plans_inv_step: "plans_step (h, held) (h', held') \<Longrightarrow> plans_inv h held \<Longrightarrow> plans_inv h' held'"
  by (erule plans_stepE)
    (auto intro: plans_inv_write plans_inv_commit plans_inv_retire plans_inv_messages
      dest: plans_inv_consume)

lemma plans_reachable_inv: "plans_reachable s \<Longrightarrow> plans_inv (fst s) (snd s)"
proof (induction rule: plans_reachable.induct)
  case (start n cap h)
  then show ?case by (simp add: plans_inv_new)
next
  case (step s t)
  then show ?case using plans_inv_step [of "fst s" "snd s" "fst t" "snd t"] by simp
qed

section \<open>What the pool guarantees\<close>

text \<open>
  C38. In every run from a constructed handoff the spare, published, held and retired plans are
  pairwise distinct and are all the plans there are: no plan is shared between the threads,
  lost or duplicated. The pool never grows past three plans or its configured size.
\<close>
theorem handoff_plans_owned:
  assumes "plans_reachable (h, held)"
  shows "distinct (plan_places h held) \<and> set (plan_places h held) = {..<length (pool h)}
    \<and> unat (pool_size h) \<le> length (pool h) \<and> length (pool h) \<le> max 3 (unat (pool_size h))"
  using plans_reachable_inv [OF assms] by (simp add: plans_inv_def)

text \<open>A pool of three with one plan published, consumed and about to be retired.\<close>
definition demo_work :: WorkItem where
  "demo_work = \<lparr>work_id = 0, token_begin = 0, token_end = 4, work_kind = Prefill\<rparr>"

lemma new_handoff_ok:
  assumes "2 \<le> unat n" "unat n \<le> unat cap" "validate_capacity cap = Inr cap"
  shows "\<exists>h. new_handoff n cap = Inr h"
proof -
  have m: "validate_pool_size n cap = Inr n"
    using assms(1,2) by (simp add: validate_pool_size_def word_less_nat_alt not_less)
  have q: "new_queue cap = Inr (empty_ring cap :: plan_ref SPSCQueue)" by (simp add: new_queue_def assms(3))
  note rq = new_queue_inv [OF q]
  obtain h1 where h1: "new_handoff n cap = fill_pool (unat n - 1) h1" "spsc_inv (retired h1)"
    "contents (retired h1) = []" "q_capacity (retired h1) = cap"
    using m q rq by (auto simp: new_handoff_def allocate_plan_def Let_def)
  have "length (contents (retired h1)) + (unat n - 1) \<le> unat (q_capacity (retired h1))"
    using h1 assms by simp
  from fill_pool_Inr [OF h1(2) this] h1(1) show ?thesis by auto
qed

lemma demo_handoff: "\<exists>h. new_handoff 3 4 = Inr h"
  by (rule new_handoff_ok) (simp_all add: validate_capacity_def)

lemma demo_plans:
  "\<exists>h. plans_reachable (h, Some 0) \<and> spare h = 1 \<and> published h = None \<and> plan_work (pool h ! 0) = [demo_work]
    \<and> contents (retired h) = [2] \<and> length (pool h) = 3 \<and> pool_size h = 3"
proof -
  obtain h0 where h0: "new_handoff 3 4 = Inr h0" using demo_handoff by blast
  note f = new_handoff_fields(3-8) [OF h0]
  have upt: "[1..<unat (3::u64)] = [1, 2]" by (simp add: upt_conv_Cons)
  define h1 where "h1 = fill_plan [demo_work] (begin_plan h0)"
  have h1: "spare h1 = 0" "plan_work (pool h1 ! 0) = [demo_work]" "published h1 = None"
    "retired h1 = retired h0" "length (pool h1) = 3" "pool_size h1 = 3"
    using f(3-6) by (simp_all add: h1_def fill_plan_def begin_plan_def)
  have ne: "plan_work (pool h1 ! spare h1) \<noteq> []" using h1(1,2) by simp
  have c: "contents (retired h1) = [1, 2]" using f(2) h1(4) upt by simp
  have s: "spsc_inv (retired h1)" using f(1) h1(4) by simp
  define h2 where "h2 = snd (commit h1)"
  have h2: "spare h2 = 1 \<and> published h2 = Some 0 \<and> plan_work (pool h2 ! 0) = [demo_work]
    \<and> contents (retired h2) = [2] \<and> length (pool h2) = 3 \<and> pool_size h2 = 3"
  proof (cases rule: commit_cases [OF ne s])
    case (2 p q)
    then show ?thesis using h1 c by (simp add: h2_def committed_def)
  qed (use h1(3) c in simp_all)
  have "plans_reachable (h2, None)"
    unfolding h2_def h1_def by (intro plans_reachable.step [OF _ plans_step.commit_spare]
        plans_reachable.step [OF _ plans_step.write_spare] plans_reachable.start [OF h0])
  then have "plans_reachable (snd (consume_plan h2), fst (consume_plan h2))"
    using plans_step.consume by (rule plans_reachable.step)
  then show ?thesis using h2
    by (intro exI [of _ "snd (consume_plan h2)"]) (simp add: consume_plan_def)
qed

theorem handoff_plans_owned_witness:
  "\<exists>h. plans_reachable (h, Some 0) \<and> plan_places h (Some 0) = [1, 0, 2] \<and> distinct (plan_places h (Some 0))"
proof -
  obtain h where h: "plans_reachable (h, Some 0)" "spare h = 1" "published h = None"
    "contents (retired h) = [2]"
    using demo_plans by auto
  show ?thesis using h handoff_plans_owned [OF h(1)]
    by (intro exI [of _ h]) (simp add: plan_places_def)
qed

text \<open>
  While the environment holds a plan, nothing the scheduler does to the pool (clearing and
  refilling its spare plan, then committing it) and nothing either thread sends changes that
  plan's work or its epoch.
\<close>
theorem held_plan_stable:
  assumes reach: "plans_reachable (h, Some p)" and step: "plans_step (h, Some p) (h', Some p)"
  shows "pool h' ! p = pool h ! p"
proof -
  have inv: "plans_inv h (Some p)" using plans_reachable_inv [OF reach] by simp
  then have ne: "spare h \<noteq> p" and p: "p < length (pool h)"
    by (auto simp: plans_inv_def plan_places_def)
  have s: "spsc_inv (retired h)" using inv by (simp add: plans_inv_def)
  have commit_same: "pool (snd (commit h)) ! p = pool h ! p"
  proof (cases "plan_work (pool h ! spare h) = []")
    case False
    from False s show ?thesis
      by (rule commit_cases) (use ne p in \<open>simp_all add: committed_def nth_append\<close>)
  qed (simp add: commit_empty)
  from step show ?thesis
    by (rule plans_stepE)
      (use ne commit_same in \<open>auto simp: fill_plan_def begin_plan_def same_plans_def\<close>)
qed

theorem held_plan_stable_witness:
  "\<exists>h h'. plans_step (h, Some 0) (h', Some 0) \<and> plan_work (pool h' ! 0) = [demo_work]
     \<and> plan_work (pool h' ! 1) = []"
proof -
  obtain h where h: "plans_reachable (h, Some 0)" "spare h = 1" "plan_work (pool h ! 0) = [demo_work]"
    "length (pool h) = 3"
    using demo_plans by auto
  have st: "plans_step (h, Some 0) (fill_plan [] (begin_plan h), Some 0)"
    by (rule plans_step.write_spare)
  from held_plan_stable [OF h(1) st] h st show ?thesis
    by (intro exI [of _ h] exI [of _ "fill_plan [] (begin_plan h)"])
      (simp add: fill_plan_def begin_plan_def)
qed

text \<open>
  Committing an empty plan publishes nothing and returns epoch 0. Committing a non-empty one
  returns the next epoch, publishes exactly that plan with its work and the epoch stamped on it
  (replacing a plan not yet consumed), and hands the scheduler another plan as its spare.
\<close>
theorem commit_publishes:
  assumes reach: "plans_reachable (h, held)"
  shows "if plan_work (pool h ! spare h) = [] then commit h = (0, h)
    else (let (e, h') = commit h in e = handoff_epoch h + 1 \<and> handoff_epoch h' = e \<and>
      published h' = Some (spare h) \<and> plan_work (pool h' ! spare h) = plan_work (pool h ! spare h) \<and>
      plan_epoch (pool h' ! spare h) = e \<and> spare h' \<noteq> spare h)"
proof (cases "plan_work (pool h ! spare h) = []")
  case ne: False
  have inv: "plans_inv h held" using plans_reachable_inv [OF reach] by simp
  then have s: "spsc_inv (retired h)" by (simp add: plans_inv_def)
  have len: "spare h < length (pool h)" using inv by (rule spare_in_pool)
  have d: "distinct (plan_places h held)" using inv by (simp add: plans_inv_def)
  from ne s show ?thesis
    by (rule commit_cases)
      (use ne len d in \<open>auto simp: committed_def plan_places_def nth_append\<close>)
qed (simp add: commit_empty)

theorem commit_publishes_witness:
  "\<exists>h h'. commit h = (1, h') \<and> published h' = Some 0 \<and> plan_work (pool h' ! 0) = [demo_work]"
proof -
  obtain h0 where h0: "new_handoff 3 4 = Inr h0" using demo_handoff by blast
  let ?h = "fill_plan [demo_work] (begin_plan h0)"
  have r: "plans_reachable (?h, None)"
    by (intro plans_reachable.step [OF _ plans_step.write_spare] plans_reachable.start [OF h0])
  have w: "spare ?h = 0" "plan_work (pool ?h ! 0) = [demo_work]" "handoff_epoch ?h = 0"
    using new_handoff_fields(5-6) [OF h0] new_handoff_epoch [OF h0]
    by (simp_all add: fill_plan_def begin_plan_def)
  show ?thesis using commit_publishes [OF r] w
    by (intro exI [of _ ?h] exI [of _ "snd (commit ?h)"]) (auto simp: Let_def split: prod.splits)
qed

end
