(* ===== verification/Scheduler_State.thy ===== *)
theory Scheduler_State
  imports Handoff
begin

text \<open>
  The scheduler's data (\<open>src/runtime/scheduler.hpp\<close>): the state of one request, the values
  passed to policies and observers, and the members of the class \<open>Scheduler\<close>.

  Callbacks (\<open>std::function\<close> members) are functions on a world \<open>'x\<close>, the caller's own state,
  and may throw; an empty \<open>std::function\<close> is \<open>None\<close>. A terminal observer may also submit
  requests before it returns, so what it does is a resumption (\<open>observer_run\<close>): it either
  returns, or submits and goes on with the id it got or the exception submit threw. A policy is
  the record of the three virtual functions a subclass overrides, over its members \<open>'p\<close>.

  \<open>requests_by_id_\<close> is not a member of its own here: it always maps the id of each node of
  \<open>live_requests_\<close> to that node, so looking an id up in it is looking the id up in the list
  (ids are distinct, \<open>request_ids_distinct\<close> in theory \<open>Scheduler_Inv\<close>). A reference to a
  request is its id. Allocation never fails in the model, so the handlers for
  \<open>std::bad_alloc\<close> are never entered; the recovery flag they set is kept.
\<close>

section \<open>One request\<close>

datatype Stage = PendingAdmission | PrefillStage | DecodeStage | PendingRelease | Terminal

datatype AdmissionOwnership = NotSent | InFlight | EnvironmentOwned

record RequestState =
  req_id :: RequestId
  stage :: Stage
  admission :: AdmissionOwnership
  admission_succeeded :: bool
  prompt_length :: u32
  prefill_position :: u32
  cached_prefix_tokens :: u32
  decoded_count :: u32
  max_output_tokens :: u32
  synthetic_prompt_tokens :: "u32 option"
  output_mode :: OutputMode
  output_token_ids :: "Token list"
  output_text :: string
  arrival_time :: TimePoint
  start_time :: TimePoint
  first_token_time :: TimePoint
  last_token_time :: TimePoint
  finish_time :: TimePoint
  start_recorded :: bool
  first_token_recorded :: bool
  last_token_recorded :: bool
  finish_recorded :: bool
  eog_observed :: bool
  terminal_error :: ErrorCode
  release_sent :: bool

text \<open>\<open>RequestState{}\<close>: every member at its default.\<close>
definition new_request :: RequestState where
  "new_request = \<lparr>req_id = 0, stage = PendingAdmission, admission = NotSent,
     admission_succeeded = False, prompt_length = 0, prefill_position = 0,
     cached_prefix_tokens = 0, decoded_count = 0, max_output_tokens = 0,
     synthetic_prompt_tokens = None, output_mode = Natural, output_token_ids = [],
     output_text = [], arrival_time = 0, start_time = 0, first_token_time = 0,
     last_token_time = 0, finish_time = 0, start_recorded = False,
     first_token_recorded = False, last_token_recorded = False, finish_recorded = False,
     eog_observed = False, terminal_error = NoError, release_sent = False\<rparr>"

definition prefill_done :: "RequestState \<Rightarrow> bool" where
  "prefill_done r \<longleftrightarrow> prefill_position r \<ge> prompt_length r"

section \<open>Values passed to observers and policies\<close>

record SchedulerError =
  err_valid :: bool
  err_code :: ErrorCode
  err_detail :: string
  has_offending_work :: bool
  offending_work :: WorkItem

text \<open>\<open>WorkItem{}\<close> and \<open>SchedulerError{}\<close>.\<close>
definition default_work :: WorkItem where
  "default_work = \<lparr>work_id = 0, token_begin = 0, token_end = 0, work_kind = Prefill\<rparr>"

definition no_error :: SchedulerError where
  "no_error = \<lparr>err_valid = True, err_code = NoError, err_detail = [],
     has_offending_work = False, offending_work = default_work\<rparr>"

record SchedulerWorkloadCounts =
  active_count :: u64
  queued_count :: u64

record BatchOutcome =
  bo_epoch :: u64
  bo_started_at :: TimePoint
  bo_finished_at :: TimePoint
  bo_duration :: duration
  bo_prefill_tokens :: u32
  bo_decode_items :: u32
  bo_work_items :: u32
  bo_success :: bool

datatype PolicyTimingEventKind = FirstToken | LaterToken | TerminalEvent

record PolicyTimingEvent =
  pte_id :: RequestId
  pte_kind :: PolicyTimingEventKind
  pte_timestamp :: TimePoint
  pte_latency :: duration
  pte_error :: ErrorCode

section \<open>Callbacks\<close>

type_synonym thread_id = nat

datatype 'x observer_run =
    Returns "exn + bool" 'x
  | Submits Admission 'x "exn + RequestId \<Rightarrow> 'x \<Rightarrow> 'x observer_run"

type_synonym 'x clock_function = "'x \<Rightarrow> (exn + TimePoint) \<times> 'x"
type_synonym 'x terminal_observer = "RequestState \<Rightarrow> 'x \<Rightarrow> 'x observer_run"
type_synonym 'x workload_observer = "TimePoint \<Rightarrow> SchedulerWorkloadCounts \<Rightarrow> 'x \<Rightarrow> (exn + unit) \<times> 'x"
type_synonym 'x batch_observer = "BatchOutcome \<Rightarrow> 'x \<Rightarrow> (exn + unit) \<times> 'x"

text \<open>
  What a policy can read of the scheduler: the token budget, \<open>policy_now()\<close> and
  \<open>policy_requests()\<close>. \<open>build_plan\<close> appends to the cleared plan it is given; the model
  returns the work it appended.
\<close>
record policy_view =
  pv_token_budget :: u32
  pv_now :: TimePoint
  pv_requests :: "RequestState list"

record 'p Policy =
  build_plan :: "policy_view \<Rightarrow> 'p \<Rightarrow> (exn + WorkItem list) \<times> 'p"
  on_plan_completed :: "policy_view \<Rightarrow> BatchOutcome \<Rightarrow> 'p \<Rightarrow> (exn + unit) \<times> 'p"
  on_request_timing :: "policy_view \<Rightarrow> PolicyTimingEvent \<Rightarrow> 'p \<Rightarrow> (exn + unit) \<times> 'p"

section \<open>The scheduler\<close>

record ('x, 'p) Scheduler =
  token_budget :: u32
  handoff :: Handoff
  live_requests :: "RequestState list"
  completed_history :: "RequestState list"
  inspection_cache :: "RequestState list"
  inspection_cache_valid :: bool
  pending_admissions :: "Admission list"
  terminal_ready :: "RequestId list"
  terminal_marker_recovery_needed :: bool
  next_request_id :: u64
  published_epoch :: u64
  observed_epoch :: u64
  published_plan_start :: TimePoint
  published_prefill_tokens :: u32
  published_decode_items :: u32
  published_work_items :: u32
  published_plan_success :: bool
  stop_requested :: bool
  draining :: bool
  drain_error :: ErrorCode
  last_error :: SchedulerError
  clock :: "'x clock_function"
  decision_clock :: "'x clock_function"
  decision_times_ns :: "u64 list"
  current_time :: TimePoint
  terminal_observer :: "'x terminal_observer option"
  streaming_retirement :: bool
  observer_enabled :: bool
  execution_started :: bool
  workload_observer :: "'x workload_observer option"
  batch_observer :: "'x batch_observer option"
  last_published_counts :: SchedulerWorkloadCounts
  workload_counts :: SchedulerWorkloadCounts
  scheduler_thread :: thread_id
  world :: 'x \<comment> \<open>the state the callbacks act on\<close>
  policy :: 'p \<comment> \<open>the members of the subclass\<close>

type_synonym ('x, 'p, 'a) sched_op = "(('x, 'p) Scheduler, 'a) operation"

text \<open>The constructor; an empty clock is replaced by the system's.\<close>
definition new_scheduler ::
  "'x clock_function \<Rightarrow> Handoff \<Rightarrow> u32 \<Rightarrow> 'x clock_function option \<Rightarrow> 'x \<Rightarrow> 'p \<Rightarrow> exn + ('x, 'p) Scheduler" where
  "new_scheduler system_clock h budget clk x p =
     (if budget = 0 then Inl (Invalid_argument ''Scheduler token budget must be positive'')
      else Inr \<lparr>token_budget = budget, handoff = h, live_requests = [], completed_history = [],
        inspection_cache = [], inspection_cache_valid = False, pending_admissions = [],
        terminal_ready = [], terminal_marker_recovery_needed = False, next_request_id = 0,
        published_epoch = 0, observed_epoch = 0, published_plan_start = 0,
        published_prefill_tokens = 0, published_decode_items = 0, published_work_items = 0,
        published_plan_success = True, stop_requested = False, draining = False,
        drain_error = NoError, last_error = no_error,
        clock = (case clk of Some c \<Rightarrow> c | None \<Rightarrow> system_clock),
        decision_clock = system_clock, decision_times_ns = [], current_time = 0,
        terminal_observer = None, streaming_retirement = False, observer_enabled = False,
        execution_started = False, workload_observer = None, batch_observer = None,
        last_published_counts = \<lparr>active_count = 0, queued_count = 0\<rparr>,
        workload_counts = \<lparr>active_count = 0, queued_count = 0\<rparr>,
        scheduler_thread = 0, world = x, policy = p\<rparr>)"

definition view_of :: "('x, 'p) Scheduler \<Rightarrow> policy_view" where
  "view_of s = \<lparr>pv_token_budget = token_budget s, pv_now = current_time s,
                pv_requests = live_requests s\<rparr>"

text \<open>\<open>Scheduler::find_request\<close>.\<close>
definition find_request :: "RequestId \<Rightarrow> ('x, 'p) Scheduler \<Rightarrow> RequestState option" where
  "find_request i s = find (\<lambda>r. req_id r = i) (live_requests s)"

text \<open>Assignment through a \<open>RequestState &\<close>, and removal from the list.\<close>
definition update_request ::
  "RequestId \<Rightarrow> (RequestState \<Rightarrow> RequestState) \<Rightarrow> ('x, 'p) Scheduler \<Rightarrow> ('x, 'p) Scheduler" where
  "update_request i f s = s\<lparr>live_requests := update_first (\<lambda>r. req_id r = i) f (live_requests s)\<rparr>"

definition erase_request :: "RequestId \<Rightarrow> ('x, 'p) Scheduler \<Rightarrow> ('x, 'p) Scheduler" where
  "erase_request i s = s\<lparr>live_requests := remove_first (\<lambda>r. req_id r = i) (live_requests s)\<rparr>"

text \<open>Invoking a stored callback on the world, and a policy function on the policy's members.\<close>
definition call_world :: "('x \<Rightarrow> (exn + 'a) \<times> 'x) \<Rightarrow> ('x, 'p, 'a) sched_op" where
  "call_world f s = (let (r, x) = f (world s) in (r, s\<lparr>world := x\<rparr>))"

definition call_policy :: "(policy_view \<Rightarrow> 'p \<Rightarrow> (exn + 'a) \<times> 'p) \<Rightarrow> ('x, 'p, 'a) sched_op" where
  "call_policy f s = (let (r, p) = f (view_of s) (policy s) in (r, s\<lparr>policy := p\<rparr>))"

text \<open>\<open>Scheduler::now\<close>.\<close>
definition now :: "('x, 'p, TimePoint) sched_op" where
  "now s = call_world (clock s) s"

end
