(* ===== verification/Scheduler.thy ===== *)
theory Scheduler
  imports Scheduler_State
begin

text \<open>
  The operations of the class \<open>Scheduler\<close> (\<open>src/runtime/scheduler.cpp\<close>), one definition per
  member function, composed as in the source. A void function that throws leaves the state it
  had reached. Loops over \<open>live_requests_\<close> visit the requests by id; their bodies change
  requests in place and never the list's structure.
\<close>

section \<open>Small operations\<close>

definition begin_nonconst_operation :: "('x, 'p) Scheduler \<Rightarrow> ('x, 'p) Scheduler" where
  "begin_nonconst_operation s = s\<lparr>inspection_cache := [], inspection_cache_valid := False\<rparr>"

definition queue_terminal_marker :: "RequestId \<Rightarrow> ('x, 'p, unit) sched_op" where
  "queue_terminal_marker i = modify_op (\<lambda>s. s\<lparr>terminal_ready := terminal_ready s @ [i]\<rparr>)"

definition recover_terminal_markers :: "('x, 'p) Scheduler \<Rightarrow> ('x, 'p) Scheduler" where
  "recover_terminal_markers s =
     (if \<not> terminal_marker_recovery_needed s then s
      else s\<lparr>terminal_ready := fold
               (\<lambda>r ready. if stage r \<noteq> Terminal then ready
                          else if req_id r \<in> set ready then ready else ready @ [req_id r])
               (live_requests s) (terminal_ready s),
             terminal_marker_recovery_needed := False\<rparr>)"

definition publish_workload_counts :: "TimePoint \<Rightarrow> ('x, 'p, unit) sched_op" where
  "publish_workload_counts at s =
     (case workload_observer s of
        None \<Rightarrow> ok () s
      | Some notify \<Rightarrow>
          (let counts = workload_counts s in
           if active_count counts = active_count (last_published_counts s) \<and>
              queued_count counts = queued_count (last_published_counts s)
           then ok () s
           else then_op (call_world (notify at counts))
                  (modify_op (\<lambda>s. s\<lparr>last_published_counts := counts\<rparr>)) s))"

definition finish_iteration :: "bool \<Rightarrow> ('x, 'p, bool) sched_op" where
  "finish_iteration keep_running s =
     then_op (publish_workload_counts (current_time s)) (ok keep_running) s"

text \<open>The workload counters, decremented under their underflow checks.\<close>
definition increment_queued :: "('x, 'p) Scheduler \<Rightarrow> ('x, 'p) Scheduler" where
  "increment_queued s =
     s\<lparr>workload_counts := (workload_counts s)\<lparr>queued_count := queued_count (workload_counts s) + 1\<rparr>\<rparr>"

definition increment_active :: "('x, 'p) Scheduler \<Rightarrow> ('x, 'p) Scheduler" where
  "increment_active s =
     s\<lparr>workload_counts := (workload_counts s)\<lparr>active_count := active_count (workload_counts s) + 1\<rparr>\<rparr>"

definition decrement_queued :: "('x, 'p, unit) sched_op" where
  "decrement_queued s =
     (if queued_count (workload_counts s) = 0
      then throw (Logic_error ''queued workload counter underflow'') s
      else ok () (s\<lparr>workload_counts := (workload_counts s)
                     \<lparr>queued_count := queued_count (workload_counts s) - 1\<rparr>\<rparr>))"

definition decrement_active :: "('x, 'p, unit) sched_op" where
  "decrement_active s =
     (if active_count (workload_counts s) = 0
      then throw (Logic_error ''active workload counter underflow'') s
      else ok () (s\<lparr>workload_counts := (workload_counts s)
                     \<lparr>active_count := active_count (workload_counts s) - 1\<rparr>\<rparr>))"

section \<open>Submission\<close>

definition submitted_request :: "RequestId \<Rightarrow> Admission \<Rightarrow> TimePoint \<Rightarrow> RequestState" where
  "submitted_request i a t =
     new_request\<lparr>req_id := i, max_output_tokens := adm_max_output_tokens a,
       synthetic_prompt_tokens := adm_synthetic_prompt_tokens a,
       output_mode := adm_output_mode a, arrival_time := t\<rparr>"

definition submit_admission :: "thread_id \<Rightarrow> Admission \<Rightarrow> ('x, 'p, RequestId) sched_op" where
  "submit_admission tid a s0 =
     (let s = begin_nonconst_operation s0 in
      if execution_started s \<and> tid \<noteq> scheduler_thread s
      then throw (Logic_error
        ''submit must run on the scheduler-owning thread after execution starts'') s
      else if next_request_id s > u64_of_u32 u32_max
      then throw (Overflow_error ''request ID space exhausted'') s
      else
        (let i = u32_of_u64 (next_request_id s) in
         bind_op now (\<lambda>t.
           then_op (modify_op (\<lambda>s. increment_queued
               (s\<lparr>live_requests := live_requests s @ [submitted_request i a t],
                  pending_admissions := pending_admissions s @ [a\<lparr>adm_id := i\<rparr>]\<rparr>)))
          (then_op (publish_workload_counts t) (ok i)))
         (s\<lparr>next_request_id := next_request_id s + 1\<rparr>)))"

definition submit :: "thread_id \<Rightarrow> string \<Rightarrow> u32 \<Rightarrow> OutputMode \<Rightarrow> string \<Rightarrow> ('x, 'p, RequestId) sched_op" where
  "submit tid prompt max_tokens mode conversation =
     submit_admission tid \<lparr>adm_id = 0, adm_prompt = prompt, adm_max_output_tokens = max_tokens,
       adm_synthetic_prompt_tokens = None, adm_output_mode = mode, adm_conversation_id = conversation\<rparr>"

definition submit_synthetic :: "thread_id \<Rightarrow> u32 \<Rightarrow> u32 \<Rightarrow> OutputMode \<Rightarrow> ('x, 'p, RequestId) sched_op" where
  "submit_synthetic tid prompt_tokens max_tokens mode =
     submit_admission tid \<lparr>adm_id = 0, adm_prompt = [], adm_max_output_tokens = max_tokens,
       adm_synthetic_prompt_tokens = Some prompt_tokens, adm_output_mode = mode,
       adm_conversation_id = []\<rparr>"

section \<open>Configuration\<close>

definition enable_streaming_retirement :: "'x terminal_observer option \<Rightarrow> ('x, 'p, unit) sched_op" where
  "enable_streaming_retirement observer s0 =
     (let s = begin_nonconst_operation s0 in
      if execution_started s \<or> live_requests s \<noteq> [] \<or> completed_history s \<noteq> []
      then throw (Logic_error
        ''streaming retirement must be enabled before requests are submitted'') s
      else case observer of
        None \<Rightarrow> throw (Invalid_argument ''terminal observer must be callable'') s
      | Some f \<Rightarrow> ok () (s\<lparr>streaming_retirement := True, observer_enabled := True,
                           terminal_observer := Some f\<rparr>))"

definition set_workload_observer :: "'x workload_observer option \<Rightarrow> ('x, 'p, unit) sched_op" where
  "set_workload_observer observer s =
     (if execution_started s \<or> live_requests s \<noteq> []
      then throw (Logic_error ''workload observer must be set before execution'') s
      else ok () (s\<lparr>workload_observer := observer\<rparr>))"

definition set_batch_observer :: "'x batch_observer option \<Rightarrow> ('x, 'p, unit) sched_op" where
  "set_batch_observer observer s =
     (if execution_started s
      then throw (Logic_error ''batch observer must be set before execution'') s
      else ok () (s\<lparr>batch_observer := observer\<rparr>))"

definition set_clock :: "'x clock_function option \<Rightarrow> ('x, 'p, unit) sched_op" where
  "set_clock c s =
     (if execution_started s \<or> live_requests s \<noteq> []
      then throw (Logic_error ''clock must be set before execution'') s
      else case c of
        None \<Rightarrow> throw (Invalid_argument ''clock must be callable'') s
      | Some f \<Rightarrow> ok () (s\<lparr>clock := f\<rparr>))"

definition set_decision_clock :: "'x clock_function option \<Rightarrow> ('x, 'p, unit) sched_op" where
  "set_decision_clock c s =
     (if execution_started s
      then throw (Logic_error ''decision clock must be set before execution'') s
      else case c of
        None \<Rightarrow> throw (Invalid_argument ''decision clock must be callable'') s
      | Some f \<Rightarrow> ok () (s\<lparr>decision_clock := f\<rparr>))"

section \<open>Ending requests\<close>

definition pending_release :: "ErrorCode \<Rightarrow> RequestState \<Rightarrow> RequestState" where
  "pending_release e r =
     (if terminal_error r = NoError \<and> e \<noteq> NoError then r\<lparr>terminal_error := e\<rparr> else r)
       \<lparr>stage := PendingRelease\<rparr>"

definition move_to_pending_release :: "RequestId \<Rightarrow> ErrorCode \<Rightarrow> ('x, 'p, unit) sched_op" where
  "move_to_pending_release i e = modify_op (update_request i (pending_release e))"

definition finished :: "TimePoint \<Rightarrow> ErrorCode \<Rightarrow> RequestState \<Rightarrow> RequestState" where
  "finished t e r = r\<lparr>stage := Terminal, admission := NotSent, terminal_error := e,
                      finish_time := t, finish_recorded := True\<rparr>"

definition finish_without_release :: "RequestId \<Rightarrow> ErrorCode \<Rightarrow> ('x, 'p, unit) sched_op" where
  "finish_without_release i e s =
     then_op (modify_op (update_request i (finished (current_time s) e)))
    (then_op decrement_queued (queue_terminal_marker i)) s"

text \<open>The body of the loop of \<open>enter_draining\<close>.\<close>
definition drain_request :: "RequestId \<Rightarrow> ('x, 'p, unit) sched_op" where
  "drain_request i s =
     (case find_request i s of
        None \<Rightarrow> ok () s
      | Some r \<Rightarrow>
          if stage r = Terminal then ok () s
          else
            (let e = (if terminal_error r = NoError then drain_error s else terminal_error r) in
             then_op (modify_op (update_request i (\<lambda>r. r\<lparr>terminal_error := e\<rparr>)))
               (case admission r of
                  NotSent \<Rightarrow> finish_without_release i e
                | InFlight \<Rightarrow> ok ()
                | EnvironmentOwned \<Rightarrow> move_to_pending_release i e) s))"

definition enter_draining :: "ErrorCode \<Rightarrow> ('x, 'p, unit) sched_op" where
  "enter_draining e s =
     (if draining s then ok () s
      else
        then_op (modify_op (\<lambda>s. s\<lparr>draining := True,
            drain_error := (if e = NoError then EnvironmentStopped else e)\<rparr>))
       (then_op (\<lambda>s. for_each drain_request (map req_id (live_requests s)) s)
        (modify_op (\<lambda>s. s\<lparr>pending_admissions := []\<rparr>))) s)"

section \<open>Sending to the environment\<close>

text \<open>The loop of \<open>flush_pending_admissions\<close>, on the admissions still pending.\<close>
fun flush_from :: "Admission list \<Rightarrow> ('x, 'p) Scheduler \<Rightarrow> ('x, 'p) Scheduler" where
  "flush_from [] s = s\<lparr>pending_admissions := []\<rparr>"
| "flush_from (a # as) s =
     (case find_request (adm_id a) s of
        None \<Rightarrow> flush_from as s
      | Some r \<Rightarrow>
          if admission r \<noteq> NotSent \<or> stage r \<noteq> PendingAdmission then flush_from as s
          else
            (let (sent, h) = try_admit a (handoff s) in
             if \<not> sent then s\<lparr>handoff := h, pending_admissions := a # as\<rparr>
             else flush_from as (update_request (adm_id a) (\<lambda>r. r\<lparr>admission := InFlight\<rparr>)
                    (s\<lparr>handoff := h\<rparr>))))"

definition flush_pending_admissions :: "('x, 'p) Scheduler \<Rightarrow> ('x, 'p) Scheduler" where
  "flush_pending_admissions s = flush_from (pending_admissions s) s"

text \<open>
  The loop of \<open>retry_releases\<close>, which only touches the request it is at and the release
  channel. A request whose release does not fit stays as it is.
\<close>
fun retry_from :: "RequestState list \<Rightarrow> Handoff \<Rightarrow> RequestState list \<times> Handoff" where
  "retry_from [] h = ([], h)"
| "retry_from (r # rs) h =
     (if stage r = PendingRelease \<and> \<not> release_sent r
      then (let (sent, h1) = try_release \<lparr>rel_id = req_id r\<rparr> h; (rs', h2) = retry_from rs h1
            in ((if sent then r\<lparr>release_sent := True\<rparr> else r) # rs', h2))
      else (let (rs', h2) = retry_from rs h in (r # rs', h2)))"

definition retry_releases :: "('x, 'p) Scheduler \<Rightarrow> ('x, 'p) Scheduler" where
  "retry_releases s =
     (let (rs, h) = retry_from (live_requests s) (handoff s)
      in s\<lparr>live_requests := rs, handoff := h\<rparr>)"

end
