(* ===== verification/Scheduler_Run.thy ===== *)
theory Scheduler_Run
  imports Scheduler
begin

text \<open>
  One iteration of the scheduler thread (\<open>src/runtime/scheduler.cpp\<close>): the drains of the
  channels from the environment, the retirement of terminal requests, plan validation,
  publication, and \<open>run_once\<close>, \<open>run\<close>, \<open>request_stop\<close>, \<open>all_terminal\<close> and \<open>requests\<close>. A policy is
  the argument \<open>pol\<close>; \<open>tid\<close> is the id of the calling thread.
\<close>

section \<open>Draining the environment's channels\<close>

text \<open>
  \<open>while (handoff_.try_take_...(message)) body\<close>, on one channel of the handoff. The bodies do
  not read the channel they are drained from.
\<close>
definition drain_channel ::
  "(Handoff \<Rightarrow> 'm SPSCQueue) \<Rightarrow> ('m SPSCQueue \<Rightarrow> Handoff \<Rightarrow> Handoff) \<Rightarrow>
   ('m \<Rightarrow> ('x, 'p, unit) sched_op) \<Rightarrow> ('x, 'p, unit) sched_op" where
  "drain_channel get put body s =
     (let (r, q, s') = drain body (get (handoff s)) s
      in (r, s'\<lparr>handoff := put q (handoff s')\<rparr>))"

definition on_admission_result :: "AdmissionResult \<Rightarrow> ('x, 'p, unit) sched_op" where
  "on_admission_result result s =
     (case find_request (ar_id result) s of
        None \<Rightarrow> ok () s
      | Some r \<Rightarrow>
          if stage r = Terminal \<or> admission r \<noteq> InFlight then ok () s
          else if ar_error result \<noteq> NoError
          then finish_without_release (req_id r)
                 (if terminal_error r = NoError then ar_error result else terminal_error r) s
          else
            then_op (modify_op (\<lambda>s. increment_active (update_request (req_id r)
                (\<lambda>r. r\<lparr>admission := EnvironmentOwned, admission_succeeded := True,
                       prompt_length := ar_prompt_tokens result,
                       cached_prefix_tokens := ar_cached_prefix_tokens result,
                       prefill_position := ar_cached_prefix_tokens result\<rparr>) s)))
              (\<lambda>s. if draining s \<or> max_output_tokens r = 0
                   then move_to_pending_release (req_id r)
                          (if draining s then drain_error s else NoError) s
                   else modify_op (update_request (req_id r) (\<lambda>r. r\<lparr>stage := PrefillStage\<rparr>)) s) s)"

definition drain_admission_results :: "('x, 'p, unit) sched_op" where
  "drain_admission_results =
     drain_channel admission_results (\<lambda>q h. h\<lparr>admission_results := q\<rparr>) on_admission_result"

definition on_output :: "OutputPiece \<Rightarrow> ('x, 'p, unit) sched_op" where
  "on_output piece s =
     (case find_request (op_id piece) s of
        None \<Rightarrow> ok () s
      | Some r \<Rightarrow>
          if stage r \<noteq> Terminal
          then modify_op (update_request (op_id piece)
                 (\<lambda>r. r\<lparr>output_text := output_text r @ op_text piece\<rparr>)) s
          else ok () s)"

definition drain_outputs :: "('x, 'p, unit) sched_op" where
  "drain_outputs = drain_channel outputs (\<lambda>q h. h\<lparr>outputs := q\<rparr>) on_output"

text \<open>The token bookkeeping of one completion, before its count is taken over.\<close>
definition record_token :: "TimePoint \<Rightarrow> Token \<Rightarrow> RequestState \<Rightarrow> RequestState" where
  "record_token t tok r =
     (if \<not> first_token_recorded r then r\<lparr>first_token_time := t, first_token_recorded := True\<rparr> else r)
       \<lparr>last_token_time := t, last_token_recorded := True,
        output_token_ids := output_token_ids r @ [tok]\<rparr>"

definition count_tokens :: "TimePoint \<Rightarrow> Completion \<Rightarrow> RequestState \<Rightarrow> RequestState" where
  "count_tokens t c r =
     (if cmp_generated_token c then record_token t (cmp_token c) r else r)
       \<lparr>decoded_count := cmp_decoded_tokens c\<rparr>"

text \<open>The event reported for a generated token; \<open>r\<close> is the request before the bookkeeping.\<close>
definition token_event :: "TimePoint \<Rightarrow> Completion \<Rightarrow> RequestState \<Rightarrow> PolicyTimingEvent" where
  "token_event t c r =
     \<lparr>pte_id = req_id r,
      pte_kind = (if first_token_recorded r then LaterToken else FirstToken),
      pte_timestamp = t,
      pte_latency = (if first_token_recorded r then t - last_token_time r else t - arrival_time r),
      pte_error = cmp_error c\<rparr>"

text \<open>The end of the loop body: end of generation, stop conditions and the next stage.\<close>
definition settle_completion :: "Completion \<Rightarrow> RequestState \<Rightarrow> RequestState" where
  "settle_completion c r0 =
     (let r = r0\<lparr>eog_observed := eog_observed r0 \<or> cmp_eos c\<rparr> in
      if cmp_error c \<noteq> NoError \<or> (cmp_eos c \<and> output_mode r = Natural) \<or>
         decoded_count r \<ge> max_output_tokens r
      then pending_release (cmp_error c) r
      else if stage r \<noteq> PendingRelease
      then r\<lparr>stage := (if prefill_done r then DecodeStage else PrefillStage)\<rparr>
      else r)"

definition on_completion :: "'p Policy \<Rightarrow> Completion \<Rightarrow> ('x, 'p, unit) sched_op" where
  "on_completion pol c s =
     (case find_request (cmp_id c) s of
        None \<Rightarrow> ok () s
      | Some r \<Rightarrow>
          then_op (modify_op (\<lambda>s. if cmp_error c \<noteq> NoError then s\<lparr>published_plan_success := False\<rparr> else s))
            (if stage r = Terminal \<or> admission r \<noteq> EnvironmentOwned then ok ()
             else
               then_op (modify_op (update_request (req_id r)
                   (\<lambda>r. r\<lparr>prefill_position := max (prefill_position r) (cmp_prefill_position c)\<rparr>)))
              (then_op
                (if cmp_decoded_tokens c > decoded_count r
                 then then_op (\<lambda>s. modify_op (update_request (req_id r) (count_tokens (current_time s) c)) s)
                        (if cmp_generated_token c
                         then \<lambda>s. call_policy (\<lambda>v. on_request_timing pol v (token_event (current_time s) c r)) s
                         else ok ())
                 else ok ())
                (modify_op (update_request (req_id r) (settle_completion c))))) s)"

definition drain_completions :: "'p Policy \<Rightarrow> ('x, 'p, unit) sched_op" where
  "drain_completions pol =
     drain_channel completions (\<lambda>q h. h\<lparr>completions := q\<rparr>) (on_completion pol)"

definition terminal_event :: "TimePoint \<Rightarrow> RequestState \<Rightarrow> PolicyTimingEvent" where
  "terminal_event t r = \<lparr>pte_id = req_id r, pte_kind = TerminalEvent, pte_timestamp = t,
     pte_latency = t - arrival_time r, pte_error = terminal_error r\<rparr>"

definition on_release_ack :: "'p Policy \<Rightarrow> ReleaseAck \<Rightarrow> ('x, 'p, unit) sched_op" where
  "on_release_ack pol ack s =
     (case find_request (ack_id ack) s of
        None \<Rightarrow> ok () s
      | Some r \<Rightarrow>
          if stage r \<noteq> PendingRelease \<or> \<not> release_sent r then ok () s
          else
            then_op (\<lambda>s. modify_op (update_request (req_id r) (finished (current_time s) (terminal_error r))) s)
           (then_op (\<lambda>s. call_policy (\<lambda>v. on_request_timing pol v (terminal_event (current_time s) r)) s)
           (then_op decrement_active
           (then_op (if \<not> start_recorded r then decrement_queued else ok ())
              (queue_terminal_marker (req_id r))))) s)"

definition drain_release_acks :: "'p Policy \<Rightarrow> ('x, 'p, unit) sched_op" where
  "drain_release_acks pol =
     drain_channel release_acks (\<lambda>q h. h\<lparr>release_acks := q\<rparr>) (on_release_ack pol)"

definition on_fatal :: "RunFatal \<Rightarrow> ('x, 'p, unit) sched_op" where
  "on_fatal fatal =
     then_op (modify_op (\<lambda>s. s\<lparr>published_plan_success := False\<rparr>))
       (enter_draining (if fatal_error fatal = NoError then EnvironmentStopped else fatal_error fatal))"

definition drain_fatals :: "('x, 'p, unit) sched_op" where
  "drain_fatals = drain_channel fatals (\<lambda>q h. h\<lparr>fatals := q\<rparr>) on_fatal"

section \<open>Retiring terminal requests\<close>

text \<open>Running what a terminal observer does, submissions included.\<close>
primrec run_observer :: "thread_id \<Rightarrow> 'x observer_run \<Rightarrow> ('x, 'p, bool) sched_op" where
  "run_observer tid (Returns res x) = (\<lambda>s. (res, s\<lparr>world := x\<rparr>))"
| "run_observer tid (Submits a x k) =
     (\<lambda>s. let (res, s1) = submit_admission tid a (s\<lparr>world := x\<rparr>) in run_observer tid (k res (world s1)) s1)"

text \<open>The call of \<open>terminal_observer_\<close> inside its catch-all: an exception counts as \<open>false\<close>.\<close>
definition notify_terminal :: "thread_id \<Rightarrow> RequestState \<Rightarrow> ('x, 'p) Scheduler \<Rightarrow> bool \<times> ('x, 'p) Scheduler" where
  "notify_terminal tid r s =
     (case terminal_observer s of
        None \<Rightarrow> (False, s)
      | Some f \<Rightarrow>
          (let (res, s') = run_observer tid (f r (world s)) s
           in (case res of Inl _ \<Rightarrow> False | Inr b \<Rightarrow> b, s')))"

definition observer_failed :: "('x, 'p) Scheduler \<Rightarrow> ('x, 'p) Scheduler" where
  "observer_failed s = s\<lparr>observer_enabled := False,
     last_error := (last_error s)\<lparr>err_valid := False, err_code := EnvironmentStopped,
       err_detail := ''terminal observer failed'', has_offending_work := False\<rparr>\<rparr>"

definition pop_marker :: "('x, 'p) Scheduler \<Rightarrow> ('x, 'p) Scheduler" where
  "pop_marker s = s\<lparr>terminal_ready := tl (terminal_ready s)\<rparr>"

text \<open>What the loop relies on to end: observers touch neither the markers nor the drain flag.\<close>
lemma publish_frame:
  "publish_workload_counts t s = (r, s') \<Longrightarrow>
     terminal_ready s' = terminal_ready s \<and> draining s' = draining s"
  by (auto simp: publish_workload_counts_def call_world_def op_defs Let_def
      split: option.splits if_splits prod.splits sum.splits)

lemma submit_frame:
  "submit_admission tid a s = (r, s') \<Longrightarrow>
     terminal_ready s' = terminal_ready s \<and> draining s' = draining s"
  by (auto simp: submit_admission_def begin_nonconst_operation_def now_def call_world_def op_defs
      increment_queued_def Let_def split: if_splits prod.splits sum.splits dest!: publish_frame)

lemma run_observer_frame:
  "run_observer tid f s = (r, s') \<Longrightarrow>
     terminal_ready s' = terminal_ready s \<and> draining s' = draining s"
proof (induction f arbitrary: s r s')
  case (Submits a x k)
  obtain res s1 where s1: "submit_admission tid a (s\<lparr>world := x\<rparr>) = (res, s1)"
    by (cases "submit_admission tid a (s\<lparr>world := x\<rparr>)")
  with Submits.prems have "run_observer tid (k res (world s1)) s1 = (r, s')" by simp
  from Submits.IH [OF rangeI rangeI this] submit_frame [OF s1] show ?case by simp
qed auto

lemma notify_frame:
  "notify_terminal tid q s = (b, s') \<Longrightarrow>
     terminal_ready s' = terminal_ready s \<and> draining s' = draining s"
  by (auto simp: notify_terminal_def split: option.splits prod.splits dest!: run_observer_frame)

lemma drain_request_draining: "drain_request i s = (r, s') \<Longrightarrow> draining s' = draining s"
  by (auto simp: drain_request_def finish_without_release_def move_to_pending_release_def
      queue_terminal_marker_def decrement_queued_def update_request_def op_defs Let_def
      split: option.splits if_splits AdmissionOwnership.splits)

lemma for_each_drain_draining:
  "for_each drain_request is s = (r, s') \<Longrightarrow> draining s' = draining s"
  by (induction "is" arbitrary: s)
    (auto simp: op_defs split: prod.splits sum.splits dest!: drain_request_draining)

lemma enter_draining_cases:
  assumes "enter_draining e s = (r, s')"
  shows "(draining s \<longrightarrow> r = Inr () \<and> s' = s) \<and> draining s'"
  using assms by (auto simp: enter_draining_def op_defs split: if_splits prod.splits sum.splits
      dest!: for_each_drain_draining)

text \<open>The loop of \<open>retire_terminal_requests\<close>.\<close>
function retire_loop :: "thread_id \<Rightarrow> ('x, 'p) Scheduler \<Rightarrow> (exn + unit) \<times> ('x, 'p) Scheduler" where
  "retire_loop tid s =
     (case terminal_ready s of
        [] \<Rightarrow> (Inr (), s)
      | i # _ \<Rightarrow>
          (case find_request i s of
             None \<Rightarrow> retire_loop tid (pop_marker s)
           | Some r \<Rightarrow>
               if stage r \<noteq> Terminal then retire_loop tid (pop_marker s)
               else if streaming_retirement s then
                 if \<not> observer_enabled s then retire_loop tid (pop_marker s)
                 else
                   (case notify_terminal tid r s of
                      (observed, s1) \<Rightarrow>
                        if \<not> observed then
                          (case enter_draining EnvironmentStopped (observer_failed s1) of
                             (Inl e, s2) \<Rightarrow> (Inl e, s2)
                           | (Inr _, s2) \<Rightarrow> retire_loop tid (pop_marker s2))
                        else
                          (case find_request i s1 of
                             None \<Rightarrow> retire_loop tid (pop_marker s1)
                           | Some r1 \<Rightarrow>
                               if stage r1 \<noteq> Terminal then retire_loop tid (pop_marker s1)
                               else retire_loop tid (pop_marker (erase_request i s1))))
               else retire_loop tid (pop_marker (erase_request i
                      (s\<lparr>completed_history := completed_history s @ [r]\<rparr>)))))"
  by pat_completeness auto
termination
  by (relation "measures [\<lambda>(tid, s). if draining s then 0 else 1, \<lambda>(tid, s). length (terminal_ready s)]")
    (auto simp: pop_marker_def erase_request_def observer_failed_def
      dest!: notify_frame [OF sym] enter_draining_cases [OF sym])

declare retire_loop.simps [simp del]

definition retire_terminal_requests :: "thread_id \<Rightarrow> ('x, 'p, unit) sched_op" where
  "retire_terminal_requests tid s = retire_loop tid (recover_terminal_markers s)"

end
