(* ===== verification/Scheduler_Plan.thy ===== *)
theory Scheduler_Plan
  imports Scheduler
begin

text \<open>
  Plan validation (\<open>Scheduler::validate_plan\<close>) and its specification. The loop reports the
  first offending item; \<open>valid_plan\<close> says without a loop, on unbounded numbers, which plans
  are acceptable for a list of requests.
\<close>

section \<open>The loop\<close>

definition violation :: "WorkItem \<Rightarrow> string \<Rightarrow> SchedulerError" where
  "violation w detail = no_error\<lparr>err_valid := False, err_code := ProtocolViolation,
     err_detail := detail, has_offending_work := True, offending_work := w\<rparr>"

text \<open>The switch on the work kind, for the request the item names: \<open>None\<close> is \<open>break\<close>.\<close>
definition check_kind :: "RequestState \<Rightarrow> WorkItem \<Rightarrow> SchedulerError option" where
  "check_kind r w =
     (case work_kind w of
        Prefill \<Rightarrow>
          if stage r \<noteq> PrefillStage
          then Some (violation w ''prefill work requires a request in prefill'')
          else if token_begin w \<noteq> prefill_position r
          then Some (violation w ''prefill must start at the acknowledged position'')
          else if token_end w > prompt_length r
          then Some (violation w ''prefill work extends past the prompt'')
          else None
      | Decode \<Rightarrow>
          if stage r \<noteq> DecodeStage
          then Some (violation w ''decode work requires a request in decode'')
          else if decoded_count r < 1
          then Some (violation w ''decode work requires an already generated token'')
          else
            (let expected_end = u64_of_u32 (prompt_length r) + u64_of_u32 (decoded_count r) in
             if expected_end > u64_of_u32 u32_max
             then Some (violation w ''decode token position overflows'')
             else if u64_of_u32 (token_begin w) \<noteq> expected_end - 1 \<or> u64_of_u32 (token_end w) \<noteq> expected_end
             then Some (violation w ''decode work must name the exact next range'')
             else None)
      | Unknown_kind _ \<Rightarrow> Some (violation w ''plan contains an unknown work kind''))"

fun validate_from ::
  "(RequestId \<Rightarrow> RequestState option) \<Rightarrow> u32 \<Rightarrow> RequestId list \<Rightarrow> u64 \<Rightarrow> WorkItem list \<Rightarrow> SchedulerError" where
  "validate_from lookup budget seen total_cost [] = no_error"
| "validate_from lookup budget seen total_cost (w # ws) =
     (case lookup (work_id w) of
        None \<Rightarrow> violation w ''plan references an unknown request''
      | Some r \<Rightarrow>
          if token_begin w \<ge> token_end w
          then violation w ''work range must be nonempty and increasing''
          else if work_id w \<in> set seen
          then violation w ''plan contains duplicate work for a request''
          else
            (let cost = u64_of_u32 (token_end w) - u64_of_u32 (token_begin w);
                 total = total_cost + cost in
             if total > u64_of_u32 budget
             then violation w ''plan exceeds the token budget''
             else case check_kind r w of
               Some e \<Rightarrow> e
             | None \<Rightarrow> validate_from lookup budget (work_id w # seen) total ws))"

definition validate_plan :: "WorkItem list \<Rightarrow> ('x, 'p) Scheduler \<Rightarrow> SchedulerError" where
  "validate_plan ws s = validate_from (\<lambda>i. find_request i s) (token_budget s) [] 0 ws"

section \<open>The specification\<close>

definition item_tokens :: "WorkItem \<Rightarrow> nat" where
  "item_tokens w = unat (token_end w) - unat (token_begin w)"

text \<open>An item is acceptable for a request when it names the request's next token range.\<close>
definition valid_item :: "RequestState \<Rightarrow> WorkItem \<Rightarrow> bool" where
  "valid_item r w \<longleftrightarrow> unat (token_begin w) < unat (token_end w) \<and>
     (case work_kind w of
        Prefill \<Rightarrow> stage r = PrefillStage \<and> token_begin w = prefill_position r
                   \<and> unat (token_end w) \<le> unat (prompt_length r)
      | Decode \<Rightarrow> stage r = DecodeStage \<and> 1 \<le> unat (decoded_count r)
                  \<and> unat (token_end w) = unat (prompt_length r) + unat (decoded_count r)
                  \<and> unat (token_begin w) + 1 = unat (token_end w)
      | Unknown_kind _ \<Rightarrow> False)"

definition valid_plan :: "(RequestId \<Rightarrow> RequestState option) \<Rightarrow> u32 \<Rightarrow> WorkItem list \<Rightarrow> bool" where
  "valid_plan lookup budget ws \<longleftrightarrow>
     distinct (map work_id ws) \<and>
     (\<forall>w \<in> set ws. \<exists>r. lookup (work_id w) = Some r \<and> valid_item r w) \<and>
     sum_list (map item_tokens ws) \<le> unat budget"

lemma violation_invalid [simp]: "\<not> err_valid (violation w d)" "violation w d \<noteq> no_error"
  "err_code (violation w d) = ProtocolViolation" "offending_work (violation w d) = w"
  by (simp_all add: violation_def no_error_def)

lemma no_error_valid [simp]: "err_valid no_error"
  by (simp add: no_error_def)

lemma check_kind_spec:
  assumes "unat (token_begin w) < unat (token_end w)"
  shows "check_kind r w = None \<longleftrightarrow> valid_item r w"
proof (cases "work_kind w")
  case Prefill
  then show ?thesis using assms
    by (auto simp: check_kind_def valid_item_def word_le_nat_alt word_less_nat_alt not_less)
next
  case Decode
  let ?e = "u64_of_u32 (prompt_length r) + u64_of_u32 (decoded_count r)"
  have e: "unat ?e = unat (prompt_length r) + unat (decoded_count r)"
    using unat_u32_lt [of "prompt_length r"] unat_u32_lt [of "decoded_count r"]
    by (subst unat_add_lt) simp_all
  have "unat (?e - 1) = unat ?e - 1" if "1 \<le> unat (decoded_count r)"
    using that e by (intro unat_minus_one) auto
  then show ?thesis using assms Decode e unat_u32_lt [of "token_end w"]
    by (auto simp: check_kind_def valid_item_def Let_def word_less_nat_alt word_unat_eq_iff not_less)
qed (simp add: check_kind_def valid_item_def)

lemma check_kind_Some: "check_kind r w = Some e \<Longrightarrow> \<exists>d. e = violation w d"
  by (auto simp: check_kind_def Let_def split: WorkKind.splits if_splits)

lemma unat_total:
  assumes "unat acc \<le> unat (budget :: u32)" and "unat (token_begin w) < unat (token_end w)"
  shows "unat (acc + (u64_of_u32 (token_end w) - u64_of_u32 (token_begin w))) = unat acc + item_tokens w"
proof -
  have d: "unat (u64_of_u32 (token_end w) - u64_of_u32 (token_begin w)) = item_tokens w"
    using assms(2) by (simp add: item_tokens_def unat_sub_le word_le_nat_alt)
  have "item_tokens w < 2 ^ 32" using unat_u32_lt [of "token_end w"] by (simp add: item_tokens_def)
  moreover have "unat acc < 2 ^ 32"
    using assms(1) unat_u32_lt [of budget] by linarith
  ultimately show ?thesis using d by (subst unat_add_lt) simp_all
qed

lemma validate_from_spec:
  assumes "unat acc \<le> unat budget"
  shows "err_valid (validate_from lookup budget seen acc ws) \<longleftrightarrow>
    distinct (map work_id ws) \<and> set (map work_id ws) \<inter> set seen = {} \<and>
    (\<forall>w \<in> set ws. \<exists>r. lookup (work_id w) = Some r \<and> valid_item r w) \<and>
    unat acc + sum_list (map item_tokens ws) \<le> unat budget"
  using assms
proof (induction ws arbitrary: seen acc)
  case Nil
  then show ?case by simp
next
  case (Cons w ws)
  show ?case
  proof (cases "lookup (work_id w)")
    case None
    then show ?thesis by simp
  next
    case (Some r)
    show ?thesis
    proof (cases "unat (token_begin w) < unat (token_end w)")
      case False
      then show ?thesis using Some by (simp add: word_le_nat_alt valid_item_def)
    next
      case lt: True
      let ?acc2 = "acc + (u64_of_u32 (token_end w) - u64_of_u32 (token_begin w))"
      have t: "unat ?acc2 = unat acc + item_tokens w" using Cons.prems lt by (rule unat_total)
      show ?thesis
      proof (cases "check_kind r w")
        case (Some e)
        then have "\<not> valid_item r w" using check_kind_spec [OF lt, of r] by simp
        then show ?thesis using Some \<open>lookup (work_id w) = Some r\<close> lt check_kind_Some [OF Some]
          by (auto simp: Let_def)
      next
        case None
        then have "valid_item r w" using check_kind_spec [OF lt, of r] by simp
        then show ?thesis using None Some lt t Cons.IH [of ?acc2 "work_id w # seen"]
          by (auto simp: Let_def word_less_nat_alt word_le_nat_alt)
      qed
    qed
  qed
qed

lemma validate_plan_spec:
  "err_valid (validate_plan ws s) \<longleftrightarrow> valid_plan (\<lambda>i. find_request i s) (token_budget s) ws"
  using validate_from_spec [of 0 "token_budget s" "\<lambda>i. find_request i s" "[]" ws]
  by (simp add: validate_plan_def valid_plan_def)

end
