(* ===== verification/Scheduler_Once.thy ===== *)
theory Scheduler_Once
  imports Scheduler_Run Scheduler_Plan
begin

text \<open>
  \<open>Scheduler::run_once\<close> and the functions around it (\<open>src/runtime/scheduler.cpp\<close>). The
  iteration is cut at its early returns: \<open>complete_batch\<close> reports a finished epoch, \<open>decide\<close>
  is the part after them that asks the policy for a plan, and \<open>judge_plan\<close> validates and
  publishes it.
\<close>

section \<open>Publishing a plan\<close>

text \<open>The body of the loop over the published work.\<close>
definition start_work :: "WorkItem \<Rightarrow> ('x, 'p, unit) sched_op" where
  "start_work w =
     then_op (modify_op (\<lambda>s. if work_kind w = Prefill
         then s\<lparr>published_prefill_tokens := published_prefill_tokens s + token_count w\<rparr>
         else s\<lparr>published_decode_items := published_decode_items s + 1\<rparr>))
       (\<lambda>s. case find_request (work_id w) s of
              None \<Rightarrow> ok () s
            | Some r \<Rightarrow>
                if start_recorded r then ok () s
                else then_op (modify_op (update_request (work_id w)
                       (\<lambda>r. r\<lparr>start_time := published_plan_start s, start_recorded := True\<rparr>)))
                     decrement_queued s)"

definition publish_plan :: "WorkItem list \<Rightarrow> ('x, 'p, unit) sched_op" where
  "publish_plan ws s =
     (let (e, h) = commit (handoff s); s1 = s\<lparr>handoff := h\<rparr> in
      if e = 0 then ok () s1
      else for_each start_work ws
             (s1\<lparr>published_epoch := e, published_plan_start := current_time s,
                 published_prefill_tokens := 0, published_decode_items := 0,
                 published_work_items := of_nat (length ws), published_plan_success := True\<rparr>))"

definition no_work_error :: "SchedulerError \<Rightarrow> SchedulerError" where
  "no_work_error e = e\<lparr>err_valid := False, err_code := ProtocolViolation,
     err_detail := ''policy produced no work for schedulable requests'', has_offending_work := False\<rparr>"

definition judge_plan :: "bool \<Rightarrow> WorkItem list \<Rightarrow> ('x, 'p, unit) sched_op" where
  "judge_plan release_pending ws s =
     (if ws \<noteq> [] then
        (let validation = validate_plan ws s in
         if \<not> err_valid validation
         then then_op (modify_op (\<lambda>s. s\<lparr>last_error := validation\<rparr>)) (enter_draining ProtocolViolation) s
         else publish_plan ws s)
      else if \<not> release_pending then
        then_op (modify_op (\<lambda>s. s\<lparr>last_error := no_work_error (last_error s)\<rparr>))
       (then_op (enter_draining ProtocolViolation) (modify_op retry_releases)) s
      else ok () s)"

section \<open>Asking the policy\<close>

definition decision_now :: "('x, 'p, TimePoint) sched_op" where
  "decision_now s = call_world (decision_clock s) s"

text \<open>From \<open>handoff_.begin()\<close> on: the two clock readings around \<open>build_plan\<close>.\<close>
definition make_plan :: "'p Policy \<Rightarrow> ('x, 'p, WorkItem list) sched_op" where
  "make_plan pol =
     then_op (modify_op (\<lambda>s. s\<lparr>handoff := begin_plan (handoff s)\<rparr>))
       (bind_op decision_now (\<lambda>t0.
        bind_op (call_policy (build_plan pol)) (\<lambda>ws.
        then_op (modify_op (\<lambda>s. s\<lparr>handoff := fill_plan ws (handoff s)\<rparr>))
       (bind_op decision_now (\<lambda>t1.
          if t1 < t0 then throw (Runtime_error ''scheduler decision clock moved backwards'')
          else then_op (modify_op (\<lambda>s. s\<lparr>decision_times_ns := decision_times_ns s @ [word_of_int (t1 - t0)]\<rparr>))
                 (ok ws))))))"

definition is_schedulable :: "RequestState \<Rightarrow> bool" where
  "is_schedulable r \<longleftrightarrow> stage r = PrefillStage \<or> stage r = DecodeStage"

definition decide :: "'p Policy \<Rightarrow> ('x, 'p, bool) sched_op" where
  "decide pol s =
     (if \<not> list_ex is_schedulable (live_requests s) then finish_iteration True s
      else
        (let release_pending = list_ex (\<lambda>r. stage r = PendingRelease) (live_requests s) in
         bind_op (make_plan pol) (\<lambda>ws.
           then_op (judge_plan release_pending ws) (finish_iteration True)) s))"

section \<open>One iteration\<close>

definition batch_outcome :: "('x, 'p) Scheduler \<Rightarrow> BatchOutcome" where
  "batch_outcome s = \<lparr>bo_epoch = published_epoch s, bo_started_at = published_plan_start s,
     bo_finished_at = current_time s, bo_duration = current_time s - published_plan_start s,
     bo_prefill_tokens = published_prefill_tokens s, bo_decode_items = published_decode_items s,
     bo_work_items = published_work_items s, bo_success = published_plan_success s\<rparr>"

definition complete_batch :: "'p Policy \<Rightarrow> bool \<Rightarrow> ('x, 'p, unit) sched_op" where
  "complete_batch pol plan_done s =
     (if plan_done \<and> published_epoch s \<noteq> 0 \<and> observed_epoch s < published_epoch s
      then
        (let outcome = batch_outcome s in
         then_op (modify_op (\<lambda>s. s\<lparr>observed_epoch := published_epoch s\<rparr>))
        (then_op (call_policy (\<lambda>v. on_plan_completed pol v outcome))
          (\<lambda>s. case batch_observer s of
                 None \<Rightarrow> ok () s
               | Some notify \<Rightarrow> call_world (notify outcome) s)) s)
      else ok () s)"

definition all_terminal :: "('x, 'p) Scheduler \<Rightarrow> bool" where
  "all_terminal s \<longleftrightarrow> pending_admissions s = [] \<and> list_all (\<lambda>r. stage r = Terminal) (live_requests s)"

definition take_messages :: "'p Policy \<Rightarrow> thread_id \<Rightarrow> ('x, 'p, unit) sched_op" where
  "take_messages pol tid =
     seq_ops [drain_admission_results, drain_outputs, drain_completions pol, drain_release_acks pol,
              drain_fatals, modify_op retry_releases, retire_terminal_requests tid]"

text \<open>Everything after \<open>plan_done\<close> has been read.\<close>
definition after_snapshot :: "'p Policy \<Rightarrow> thread_id \<Rightarrow> bool \<Rightarrow> ('x, 'p, bool) sched_op" where
  "after_snapshot pol tid plan_done =
     then_op (take_messages pol tid)
    (then_op (complete_batch pol plan_done)
      (\<lambda>s. if all_terminal s then finish_iteration False s
           else if draining s \<or> \<not> plan_done then finish_iteration True s
           else decide pol s))"

definition start_execution :: "thread_id \<Rightarrow> ('x, 'p) Scheduler \<Rightarrow> ('x, 'p) Scheduler" where
  "start_execution tid s =
     (if \<not> execution_started s then s\<lparr>execution_started := True, scheduler_thread := tid\<rparr> else s)"

definition observe_stop :: "('x, 'p, unit) sched_op" where
  "observe_stop s =
     (if stop_requested s \<and> \<not> draining s then enter_draining EnvironmentStopped s else ok () s)"

definition run_once :: "'p Policy \<Rightarrow> thread_id \<Rightarrow> ('x, 'p, bool) sched_op" where
  "run_once pol tid =
     then_op (modify_op (\<lambda>s. start_execution tid (begin_nonconst_operation s)))
    (bind_op now (\<lambda>t.
       then_op (modify_op (\<lambda>s. s\<lparr>current_time := t\<rparr>))
      (then_op observe_stop
      (then_op (modify_op (\<lambda>s. if draining s then s else flush_pending_admissions s))
        (\<lambda>s. after_snapshot pol tid (completed_epoch (handoff s) \<ge> published_epoch s) s)))))"

section \<open>The other public functions\<close>

definition request_stop :: "('x, 'p) Scheduler \<Rightarrow> ('x, 'p) Scheduler" where
  "request_stop s = s\<lparr>stop_requested := True, handoff := wake_scheduler (handoff s)\<rparr>"

text \<open>
  \<open>Scheduler::run\<close>. Each element of the list is what the environment does to the handoff
  while the scheduler yields before an iteration; the run is over its iterations, and \<open>None\<close>
  when the list ends before the scheduler stops.
\<close>
fun run :: "'p Policy \<Rightarrow> thread_id \<Rightarrow> (Handoff \<Rightarrow> Handoff) list \<Rightarrow> ('x, 'p) Scheduler \<Rightarrow>
    ((exn + unit) \<times> ('x, 'p) Scheduler) option" where
  "run pol tid [] s = None"
| "run pol tid (env # envs) s =
     (case run_once pol tid (s\<lparr>handoff := env (handoff s)\<rparr>) of
        (Inl e, s') \<Rightarrow> Some (Inl e, s')
      | (Inr keep_running, s') \<Rightarrow>
          if keep_running then run pol tid envs s'
          else Some (Inr (), s'\<lparr>handoff := handoff_request_stop (handoff s')\<rparr>))"

text \<open>\<open>Scheduler::requests\<close>, with the cache it fills.\<close>
definition requests :: "('x, 'p, RequestState list) sched_op" where
  "requests s =
     (if streaming_retirement s
      then throw (Logic_error ''requests() is unavailable in streaming mode'') s
      else if inspection_cache_valid s then ok (inspection_cache s) s
      else
        (let cache = sort_key req_id (completed_history s @ live_requests s) in
         ok cache (s\<lparr>inspection_cache := cache, inspection_cache_valid := True\<rparr>)))"

end
