(* ===== verification/Scheduler_Inv.thy ===== *)
theory Scheduler_Inv
  imports Scheduler_Once
begin

text \<open>
  The scheduler's invariant. It is about the scheduler's own members only, so it survives
  whatever the environment puts in the channels: ids are unique, every request's stage agrees
  with who owns it, the workload counters count the requests they name, nothing is
  schedulable while draining, every unsent request is queued for sending and every terminal
  request is marked for retirement.
\<close>

section \<open>The invariant\<close>

text \<open>Submitted, not yet part of a published plan and not terminal.\<close>
definition waiting :: "RequestState \<Rightarrow> bool" where
  "waiting r \<longleftrightarrow> stage r \<noteq> Terminal \<and> \<not> start_recorded r"

definition owned :: "RequestState \<Rightarrow> bool" where
  "owned r \<longleftrightarrow> admission r = EnvironmentOwned"

definition unsent :: "RequestState \<Rightarrow> bool" where
  "unsent r \<longleftrightarrow> stage r \<noteq> Terminal \<and> admission r = NotSent"

definition request_ok :: "RequestState \<Rightarrow> bool" where
  "request_ok r \<longleftrightarrow>
     (stage r = Terminal \<longrightarrow> admission r = NotSent \<and> finish_recorded r) \<and>
     (stage r \<noteq> Terminal \<longrightarrow> (admission r = EnvironmentOwned \<longleftrightarrow> stage r \<noteq> PendingAdmission)) \<and>
     (stage r = PendingAdmission \<longrightarrow> \<not> start_recorded r \<and> \<not> release_sent r \<and> decoded_count r = 0) \<and>
     (is_schedulable r \<longrightarrow> \<not> release_sent r \<and>
        decoded_count r < max_output_tokens r) \<and>
     (stage r = DecodeStage \<longrightarrow> prefill_done r) \<and>
     (first_token_recorded r \<longleftrightarrow> output_token_ids r \<noteq> []) \<and>
     (last_token_recorded r \<longleftrightarrow> output_token_ids r \<noteq> []) \<and>
     length (output_token_ids r) \<le> unat (decoded_count r)"

definition all_ids :: "('x, 'p) Scheduler \<Rightarrow> RequestId list" where
  "all_ids s = map req_id (completed_history s @ live_requests s)"

definition ids_inv :: "('x, 'p) Scheduler \<Rightarrow> bool" where
  "ids_inv s \<longleftrightarrow> distinct (all_ids s) \<and> (\<forall>i \<in> set (all_ids s). unat i < unat (next_request_id s)) \<and>
     unat (next_request_id s) \<le> 2 ^ 32 \<and>
     (\<not> streaming_retirement s \<longrightarrow> length (all_ids s) = unat (next_request_id s))"

definition requests_inv :: "('x, 'p) Scheduler \<Rightarrow> bool" where
  "requests_inv s \<longleftrightarrow> (\<forall>r \<in> set (live_requests s). request_ok r) \<and>
     (\<forall>r \<in> set (completed_history s). request_ok r \<and> stage r = Terminal)"

definition counts_inv :: "('x, 'p) Scheduler \<Rightarrow> bool" where
  "counts_inv s \<longleftrightarrow>
     unat (queued_count (workload_counts s)) = length (filter waiting (live_requests s)) \<and>
     unat (active_count (workload_counts s)) = length (filter owned (live_requests s))"

definition queues_inv :: "('x, 'p) Scheduler \<Rightarrow> bool" where
  "queues_inv s \<longleftrightarrow>
     (\<forall>r \<in> set (live_requests s). unsent r \<longrightarrow> req_id r \<in> adm_id ` set (pending_admissions s)) \<and>
     (\<forall>r \<in> set (live_requests s). stage r = Terminal \<longrightarrow>
        req_id r \<in> set (terminal_ready s) \<or> terminal_marker_recovery_needed s \<or>
        streaming_retirement s \<and> \<not> observer_enabled s)"

text \<open>The invariant without its clause on draining, which holds inside \<open>enter_draining\<close> too.\<close>
definition base_inv :: "('x, 'p) Scheduler \<Rightarrow> bool" where
  "base_inv s \<longleftrightarrow> ids_inv s \<and> requests_inv s \<and> counts_inv s \<and> queues_inv s"

definition drained :: "('x, 'p) Scheduler \<Rightarrow> bool" where
  "drained s \<longleftrightarrow> (draining s \<longrightarrow> (\<forall>r \<in> set (live_requests s). \<not> is_schedulable r))"

definition sched_inv :: "('x, 'p) Scheduler \<Rightarrow> bool" where
  "sched_inv s \<longleftrightarrow> base_inv s \<and> drained s"

lemmas inv_defs = base_inv_def ids_inv_def requests_inv_def counts_inv_def queues_inv_def

lemma request_ids_distinct: "base_inv s \<Longrightarrow> distinct (map req_id (live_requests s))"
  by (simp add: inv_defs all_ids_def)

lemma find_request_SomeD: "find_request i s = Some r \<Longrightarrow> r \<in> set (live_requests s) \<and> req_id r = i"
  by (auto simp: find_request_def dest: find_SomeD)

lemma find_request_ok: "base_inv s \<Longrightarrow> find_request i s = Some r \<Longrightarrow> request_ok r"
  by (auto simp: inv_defs dest: find_request_SomeD)

section \<open>Changing one request\<close>

lemma filter_count_update:
  assumes "find_request i s = Some r"
  shows "length (filter P (live_requests (update_request i f s))) + (if P r then 1 else 0) =
    length (filter P (live_requests s)) + (if P (f r) then 1 else 0)"
  unfolding update_request_def using length_filter_update_first [OF assms [unfolded find_request_def]]
  by simp

lemma update_request_fields [simp]:
  "completed_history (update_request i f s) = completed_history s"
  "pending_admissions (update_request i f s) = pending_admissions s"
  "terminal_ready (update_request i f s) = terminal_ready s"
  "terminal_marker_recovery_needed (update_request i f s) = terminal_marker_recovery_needed s"
  "next_request_id (update_request i f s) = next_request_id s"
  "streaming_retirement (update_request i f s) = streaming_retirement s"
  "observer_enabled (update_request i f s) = observer_enabled s"
  "draining (update_request i f s) = draining s"
  "drain_error (update_request i f s) = drain_error s"
  "workload_counts (update_request i f s) = workload_counts s"
  "current_time (update_request i f s) = current_time s"
  "handoff (update_request i f s) = handoff s"
  "clock (update_request i f s) = clock s"
  "token_budget (update_request i f s) = token_budget s"
  "published_epoch (update_request i f s) = published_epoch s"
  "inspection_cache_valid (update_request i f s) = inspection_cache_valid s"
  "decision_clock (update_request i f s) = decision_clock s"
  "workload_observer (update_request i f s) = workload_observer s"
  "batch_observer (update_request i f s) = batch_observer s"
  by (simp_all add: update_request_def)

lemma map_id_update_request:
  "find_request i s = Some r \<Longrightarrow> req_id (f r) = req_id r \<Longrightarrow>
     map req_id (live_requests (update_request i f s)) = map req_id (live_requests s)"
  using update_first_split [of "\<lambda>r. req_id r = i" "live_requests s" r f]
  by (auto simp: find_request_def update_request_def)

lemma set_update_request:
  "x \<in> set (live_requests (update_request i f s)) \<Longrightarrow>
     x \<in> set (live_requests s) \<or> (\<exists>r. find_request i s = Some r \<and> x = f r)"
  using set_update_firstD [of x _ f] by (auto simp: find_request_def update_request_def)

text \<open>
  The general step: one request changes to an acceptable one, the counters move with it, and
  it is queued where it has to be.
\<close>
lemma base_inv_update:
  assumes inv: "base_inv s" and r: "find_request i s = Some r"
    and id: "req_id (f r) = req_id r" and ok: "request_ok (f r)"
    and live: "live_requests s' = live_requests (update_request i f s)"
    and same: "completed_history s' = completed_history s" "next_request_id s' = next_request_id s"
      "streaming_retirement s' = streaming_retirement s"
    and queued: "unat (queued_count (workload_counts s')) + (if waiting r then 1 else 0) =
      unat (queued_count (workload_counts s)) + (if waiting (f r) then 1 else 0)"
    and active: "unat (active_count (workload_counts s')) + (if owned r then 1 else 0) =
      unat (active_count (workload_counts s)) + (if owned (f r) then 1 else 0)"
    and pend: "set (pending_admissions s) \<subseteq> set (pending_admissions s')"
    and unsent: "unsent (f r) \<Longrightarrow> unsent r"
    and ready: "set (terminal_ready s) \<subseteq> set (terminal_ready s')"
      "terminal_marker_recovery_needed s' = terminal_marker_recovery_needed s"
      "observer_enabled s' = observer_enabled s"
    and marked: "stage (f r) = Terminal \<Longrightarrow> stage r = Terminal \<or> i \<in> set (terminal_ready s')"
  shows "base_inv s'"
proof -
  have m: "map req_id (live_requests s') = map req_id (live_requests s)"
    using map_id_update_request [OF r, of f] id live by simp
  have members: "x \<in> set (live_requests s) \<or> x = f r" if "x \<in> set (live_requests s')" for x
    using set_update_request [of x i f s] that live r by auto
  note rm = find_request_SomeD [OF r]
  have "all_ids s' = all_ids s" using m same(1) by (simp add: all_ids_def)
  then have "ids_inv s'" using inv same by (simp add: base_inv_def ids_inv_def)
  moreover have "requests_inv s'" using inv same members ok by (auto simp: inv_defs)
  moreover have "counts_inv s'"
    using inv queued active filter_count_update [OF r, of waiting f] filter_count_update [OF r, of owned f] live
    by (simp add: inv_defs split: if_splits)
  moreover have "queues_inv s'"
    unfolding queues_inv_def
  proof (intro conjI ballI impI)
    fix x
    assume x: "x \<in> set (live_requests s')"
    have q: "queues_inv s" using inv by (simp add: base_inv_def)
    { assume u: "unsent x"
      have "\<exists>y \<in> set (live_requests s). unsent y \<and> req_id y = req_id x"
        using members [OF x] u unsent rm id by auto
      then have "req_id x \<in> adm_id ` set (pending_admissions s)" using q unfolding queues_inv_def by metis
      then show "req_id x \<in> adm_id ` set (pending_admissions s')" by (rule subsetD [OF image_mono [OF pend]]) }
    { assume t: "stage x = Terminal"
      then have "(\<exists>y \<in> set (live_requests s). stage y = Terminal \<and> req_id y = req_id x) \<or>
          req_id x \<in> set (terminal_ready s')"
        using members [OF x] marked rm id by auto
      then have "req_id x \<in> set (terminal_ready s) \<or> terminal_marker_recovery_needed s \<or>
          streaming_retirement s \<and> \<not> observer_enabled s \<or> req_id x \<in> set (terminal_ready s')"
        using q unfolding queues_inv_def by metis
      then show "req_id x \<in> set (terminal_ready s') \<or> terminal_marker_recovery_needed s' \<or>
          streaming_retirement s' \<and> \<not> observer_enabled s'"
        unfolding ready(2,3) same(3) using subsetD [OF ready(1)] by blast }
  qed
  ultimately show ?thesis by (simp add: base_inv_def)
qed

lemma drained_update:
  "drained s \<Longrightarrow> live_requests s' = live_requests (update_request i f s) \<Longrightarrow> draining s' = draining s \<Longrightarrow>
     (\<And>r. find_request i s = Some r \<Longrightarrow> draining s \<Longrightarrow> \<not> is_schedulable (f r)) \<Longrightarrow> drained s'"
  by (auto simp: drained_def dest!: set_update_request)

end
