(* ===== verification/Scheduler_Keep.thy ===== *)
theory Scheduler_Keep
  imports Scheduler_Inv
begin

text \<open>
  Every operation of the scheduler keeps its invariant. The judgements also say which
  exceptions an operation can throw: only those of the caller's callbacks, so that neither
  underflow check of the workload counters is ever reached.
\<close>

section \<open>What the invariant depends on\<close>

type_synonym 'x callbacks = "'x clock_function \<times> 'x clock_function \<times>
  'x workload_observer option \<times> 'x batch_observer option"

definition callbacks :: "('x, 'p) Scheduler \<Rightarrow> 'x callbacks" where
  "callbacks s = (clock s, decision_clock s, workload_observer s, batch_observer s)"

text \<open>Some callback throws this exception in some state of the world.\<close>
fun callback_throws :: "'x callbacks \<Rightarrow> 'p Policy \<Rightarrow> exn \<Rightarrow> bool" where
  "callback_throws (c, d, w, b) pol e \<longleftrightarrow>
     (\<exists>x. fst (c x) = Inl e) \<or> (\<exists>x. fst (d x) = Inl e) \<or>
     (\<exists>f t n x. w = Some f \<and> fst (f t n x) = Inl e) \<or>
     (\<exists>f v x. b = Some f \<and> fst (f v x) = Inl e) \<or>
     (\<exists>v p. fst (build_plan pol v p) = Inl e) \<or>
     (\<exists>v u p. fst (on_plan_completed pol v u p) = Inl e) \<or>
     (\<exists>v u p. fst (on_request_timing pol v u p) = Inl e)"

definition keep :: "'x callbacks \<Rightarrow> ('x, 'p) Scheduler \<Rightarrow> bool" where
  "keep C s \<longleftrightarrow> sched_inv s \<and> callbacks s = C"

definition core :: "('x, 'p) Scheduler \<Rightarrow> _" where
  "core s = (live_requests s, completed_history s, pending_admissions s, terminal_ready s,
     terminal_marker_recovery_needed s, next_request_id s, draining s, streaming_retirement s,
     observer_enabled s, workload_counts s, callbacks s)"

lemma core_base_inv: "core s' = core s \<Longrightarrow> base_inv s' = base_inv s"
  by (simp add: core_def inv_defs all_ids_def)

lemma core_keep: "core s' = core s \<Longrightarrow> keep C s' = keep C s"
  using core_base_inv [of s' s] by (simp add: core_def keep_def sched_inv_def drained_def)

lemma core_update [simp]:
  "core (s\<lparr>handoff := h\<rparr>) = core s" "core (s\<lparr>policy := p\<rparr>) = core s" "core (s\<lparr>world := x\<rparr>) = core s"
  "core (s\<lparr>current_time := t\<rparr>) = core s" "core (s\<lparr>last_error := e\<rparr>) = core s"
  "core (s\<lparr>published_plan_success := b\<rparr>) = core s" "core (s\<lparr>observed_epoch := n\<rparr>) = core s"
  "core (s\<lparr>published_prefill_tokens := k\<rparr>) = core s" "core (s\<lparr>published_decode_items := k\<rparr>) = core s"
  "core (s\<lparr>decision_times_ns := ds\<rparr>) = core s" "core (s\<lparr>last_published_counts := c\<rparr>) = core s"
  "core (s\<lparr>stop_requested := b\<rparr>) = core s" "core (begin_nonconst_operation s) = core s"
  "core (start_execution tid s) = core s"
  "core (s\<lparr>published_epoch := n, published_plan_start := t, published_prefill_tokens := k,
     published_decode_items := k', published_work_items := k'', published_plan_success := b\<rparr>) = core s"
  by (simp_all add: core_def callbacks_def begin_nonconst_operation_def start_execution_def)

lemmas keep_update [simp] = core_update [THEN core_keep]

lemma triple_core:
  assumes "\<And>s. core (f s) = core s"
  shows "triple (keep C) (modify_op f) (\<lambda>_. keep C) E"
  using core_keep [OF assms] by (intro triple_modify) simp

lemma triple_call_world:
  "(\<And>x e. fst (f x) = Inl e \<Longrightarrow> E e) \<Longrightarrow> triple (keep C) (call_world f) (\<lambda>_. keep C) (\<lambda>e s. E e \<and> keep C s)"
  by (rule tripleI) (auto simp: call_world_def Let_def split: prod.splits, metis fst_conv)

lemma triple_call_policy:
  "(\<And>v p e. fst (f v p) = Inl e \<Longrightarrow> E e) \<Longrightarrow> triple (keep C) (call_policy f) (\<lambda>_. keep C) (\<lambda>e s. E e)"
  by (rule tripleI) (auto simp: call_policy_def Let_def split: prod.splits, metis fst_conv)

section \<open>Updates and lookups of one request\<close>

lemma update_first_update_first:
  "(\<And>x. p (f x) = p x) \<Longrightarrow> update_first p g (update_first p f xs) = update_first p (g \<circ> f) xs"
  by (induction xs) auto

lemma find_update_first:
  "(\<And>x. p (f x) = p x) \<Longrightarrow> find p (update_first p f xs) = map_option f (find p xs)"
  by (induction xs) auto

lemma update_request_update:
  "(\<And>r. req_id (f r) = req_id r) \<Longrightarrow>
     update_request i g (update_request i f s) = update_request i (g \<circ> f) s"
  by (simp add: update_request_def update_first_update_first)

lemma find_update_request:
  "(\<And>r. req_id (f r) = req_id r) \<Longrightarrow> find_request i (update_request i f s) = map_option f (find_request i s)"
  by (simp add: find_request_def update_request_def find_update_first)

lemma set_update_request_distinct:
  assumes inv: "base_inv s" and r: "find_request i s = Some r"
    and x: "x \<in> set (live_requests (update_request i f s))"
  shows "x = f r \<or> (x \<in> set (live_requests s) \<and> req_id x \<noteq> i)"
proof -
  obtain as bs where s: "live_requests s = as @ r # bs" "\<forall>a\<in>set as. req_id a \<noteq> i" "req_id r = i"
    "live_requests (update_request i f s) = as @ f r # bs"
    using update_first_split [OF r [unfolded find_request_def], of f] by (auto simp: update_request_def)
  have "distinct (map req_id (as @ r # bs))" using request_ids_distinct [OF inv] s(1) by simp
  then have "req_id r \<notin> req_id ` set bs" by simp
  then have bs: "\<forall>b\<in>set bs. req_id b \<noteq> i" using s(3) by (metis image_eqI)
  have "x \<in> set as \<or> x = f r \<or> x \<in> set bs" using x unfolding s(4) by auto
  then show ?thesis using s(1,2) bs by (elim disjE) simp_all
qed

lemma others_unchanged:
  assumes "base_inv s" "find_request i s = Some r" "\<not> P (f r)"
  shows "\<forall>x \<in> set (live_requests (update_request i f s)). P x \<longrightarrow> x \<in> set (live_requests s) \<and> req_id x \<noteq> i"
  using set_update_request_distinct [OF assms(1,2)] assms(3) by blast

lemma queued_positive:
  assumes "base_inv s" "find_request i s = Some r" "waiting r"
  shows "queued_count (workload_counts s) \<noteq> 0"
proof -
  have "r \<in> set (filter waiting (live_requests s))" using assms by (auto dest: find_request_SomeD)
  then have "0 < length (filter waiting (live_requests s))" by (metis length_pos_if_in_set)
  then show ?thesis using assms(1) by (auto simp: inv_defs)
qed

lemma active_positive:
  assumes "base_inv s" "find_request i s = Some r" "owned r"
  shows "active_count (workload_counts s) \<noteq> 0"
proof -
  have "r \<in> set (filter owned (live_requests s))" using assms by (auto dest: find_request_SomeD)
  then have "0 < length (filter owned (live_requests s))" by (metis length_pos_if_in_set)
  then show ?thesis using assms(1) by (auto simp: inv_defs)
qed

lemma unat_minus_1: "(x::u64) \<noteq> 0 \<Longrightarrow> unat (x - 1) + 1 = unat x"
  using unat_gt_0 [of x] by (simp add: unat_minus_one)

section \<open>Ending one request\<close>

lemma finish_without_release_eq:
  assumes "queued_count (workload_counts s) \<noteq> 0"
  shows "finish_without_release i e s = (Inr (), (update_request i (finished (current_time s) e) s)
    \<lparr>workload_counts := (workload_counts s)\<lparr>queued_count := queued_count (workload_counts s) - 1\<rparr>,
     terminal_ready := terminal_ready s @ [i]\<rparr>)"
  using assms by (simp add: finish_without_release_def decrement_queued_def queue_terminal_marker_def op_defs)

lemma finished_simps [simp]:
  "req_id (finished t e r) = req_id r" "stage (finished t e r) = Terminal"
  "admission (finished t e r) = NotSent" "\<not> waiting (finished t e r)" "\<not> owned (finished t e r)"
  "\<not> unsent (finished t e r)" "\<not> is_schedulable (finished t e r)"
  by (simp_all add: finished_def waiting_def owned_def unsent_def is_schedulable_def)

lemma finished_ok: "request_ok r \<Longrightarrow> request_ok (finished t e r)"
  by (simp add: request_ok_def finished_def is_schedulable_def)

lemma unowned_waiting:
  "request_ok r \<Longrightarrow> stage r \<noteq> Terminal \<Longrightarrow> \<not> owned r \<Longrightarrow> waiting r \<and> stage r = PendingAdmission"
  by (auto simp: request_ok_def waiting_def owned_def)

lemma base_inv_finish:
  assumes inv: "base_inv s" and r: "find_request i s = Some r" and w: "waiting r" "\<not> owned r"
  shows "base_inv (snd (finish_without_release i e s))"
proof -
  note ne = queued_positive [OF inv r w(1)]
  show ?thesis unfolding finish_without_release_eq [OF ne]
    by (rule base_inv_update [OF inv r, of "finished (current_time s) e"])
      (use w unat_minus_1 [OF ne] finished_ok [OF find_request_ok [OF inv r]]
        in \<open>simp_all add: update_request_def subset_insertI\<close>)
qed

lemma pending_release_simps [simp]:
  "req_id (pending_release e r) = req_id r" "stage (pending_release e r) = PendingRelease"
  "admission (pending_release e r) = admission r" "\<not> is_schedulable (pending_release e r)"
  "start_recorded (pending_release e r) = start_recorded r"
  by (simp_all add: pending_release_def is_schedulable_def)

lemma pending_release_ok:
  "request_ok r \<Longrightarrow> owned r \<Longrightarrow> stage r \<noteq> Terminal \<Longrightarrow> request_ok (pending_release e r)"
  by (simp add: request_ok_def owned_def pending_release_def is_schedulable_def)

text \<open>Changing an owned request in place without starting or ending it.\<close>
lemma base_inv_in_place:
  assumes inv: "base_inv s" and r: "find_request i s = Some r"
    and id: "req_id (f r) = req_id r" and ok: "request_ok (f r)"
    and same: "waiting (f r) = waiting r" "owned (f r) = owned r" "unsent (f r) \<Longrightarrow> unsent r"
      "stage (f r) = Terminal \<Longrightarrow> stage r = Terminal"
  shows "base_inv (update_request i f s)"
  by (rule base_inv_update [OF inv r, of f]) (use id ok same in auto)

section \<open>Draining\<close>

lemma drain_request_keep:
  assumes inv: "base_inv s"
  shows "\<exists>s'. drain_request i s = (Inr (), s') \<and> base_inv s' \<and> callbacks s' = callbacks s \<and>
    draining s' = draining s \<and>
    (\<forall>x \<in> set (live_requests s'). is_schedulable x \<longrightarrow> x \<in> set (live_requests s) \<and> req_id x \<noteq> i) \<and>
    (\<forall>x \<in> set (live_requests s'). unsent x \<longrightarrow> x \<in> set (live_requests s) \<and> req_id x \<noteq> i)"
proof (cases "find_request i s")
  case None
  then have "\<forall>x \<in> set (live_requests s). req_id x \<noteq> i" by (auto simp: find_request_def find_None_iff)
  with None inv show ?thesis by (auto simp: drain_request_def op_defs)
next
  case r: (Some r)
  note ok = find_request_ok [OF inv r]
  note other = others_unchanged [OF inv r]
  show ?thesis
  proof (cases "stage r = Terminal")
    case True
    have "x \<in> set (live_requests s) \<Longrightarrow> req_id x = i \<Longrightarrow> x = r" for x
      using find_unique_key [OF request_ids_distinct [OF inv], of x] r by (simp add: find_request_def)
    with True r inv show ?thesis by (auto simp: drain_request_def op_defs is_schedulable_def unsent_def)
  next
    case live: False
    define e where "e = (if terminal_error r = NoError then drain_error s else terminal_error r)"
    let ?f = "\<lambda>r. r\<lparr>terminal_error := e\<rparr>"
    let ?s1 = "update_request i ?f s"
    show ?thesis
    proof (cases "owned r")
      case True
      have d: "drain_request i s = (Inr (), update_request i (pending_release e \<circ> ?f) s)"
        using r live True by (simp add: drain_request_def op_defs Let_def move_to_pending_release_def
            owned_def update_request_update flip: e_def)
      have "base_inv (update_request i (pending_release e \<circ> ?f) s)"
        by (rule base_inv_in_place [OF inv r])
          (use ok True live in \<open>auto simp: pending_release_def request_ok_def waiting_def owned_def
            unsent_def is_schedulable_def\<close>)
      moreover have "\<not> is_schedulable ((pending_release e \<circ> ?f) r)" "\<not> unsent ((pending_release e \<circ> ?f) r)"
        using True by (simp_all add: owned_def unsent_def)
      ultimately show ?thesis unfolding d
        using other [of is_schedulable "pending_release e \<circ> ?f"] other [of unsent "pending_release e \<circ> ?f"]
        by (simp add: callbacks_def)
    next
      case False
      note w = unowned_waiting [OF ok live False]
      have fr: "find_request i ?s1 = Some (?f r)" by (simp add: find_update_request r)
      have inv1: "base_inv ?s1"
        by (rule base_inv_in_place [OF inv r])
          (use ok live False w in \<open>auto simp: request_ok_def waiting_def owned_def unsent_def is_schedulable_def\<close>)
      have ne: "queued_count (workload_counts ?s1) \<noteq> 0"
        by (rule queued_positive [OF inv1 fr]) (use w in \<open>simp add: waiting_def\<close>)
      show ?thesis
      proof (cases "admission r")
        case NotSent
        have d: "drain_request i s = finish_without_release i e ?s1"
          using r live NotSent by (simp add: drain_request_def op_defs Let_def flip: e_def)
        define s2 where "s2 = snd (finish_without_release i e ?s1)"
        have f: "finish_without_release i e ?s1 = (Inr (), s2)"
          unfolding s2_def finish_without_release_eq [OF ne] by simp
        have "base_inv s2" unfolding s2_def
          by (rule base_inv_finish [OF inv1 fr]) (use w False in \<open>simp_all add: waiting_def owned_def\<close>)
        moreover have "callbacks s2 = callbacks s" "draining s2 = draining s"
          unfolding s2_def finish_without_release_eq [OF ne] by (simp_all add: callbacks_def)
        moreover have "live_requests s2 = live_requests (update_request i (finished (current_time s) e \<circ> ?f) s)"
          unfolding s2_def finish_without_release_eq [OF ne] by (simp add: update_request_update)
        ultimately show ?thesis unfolding d f
          using other [of is_schedulable "finished (current_time s) e \<circ> ?f"]
            other [of unsent "finished (current_time s) e \<circ> ?f"]
          by simp
      next
        case InFlight
        have d: "drain_request i s = (Inr (), ?s1)"
          using r live InFlight by (simp add: drain_request_def op_defs Let_def flip: e_def)
        have "\<not> is_schedulable (?f r)" "\<not> unsent (?f r)" using w InFlight
          by (simp_all add: is_schedulable_def unsent_def)
        then show ?thesis unfolding d using other [of is_schedulable ?f] other [of unsent ?f] inv1
          by (simp add: callbacks_def)
      next
        case EnvironmentOwned
        then show ?thesis using False by (simp add: owned_def)
      qed
    qed
  qed
qed

end
