(* ===== verification/Scheduler_Drains.thy ===== *)
theory Scheduler_Drains
  imports Scheduler_Keep
begin

text \<open>
  The invariant through draining, sending and the messages from the environment, whatever
  those messages say.
\<close>

section \<open>Entering the drain\<close>

definition drain_rest :: "'x callbacks \<Rightarrow> RequestId list \<Rightarrow> ('x, 'p) Scheduler \<Rightarrow> bool" where
  "drain_rest C rest s \<longleftrightarrow> base_inv s \<and> callbacks s = C \<and> draining s \<and>
     (\<forall>x \<in> set (live_requests s). is_schedulable x \<longrightarrow> req_id x \<in> set rest) \<and>
     (\<forall>x \<in> set (live_requests s). unsent x \<longrightarrow> req_id x \<in> set rest)"

lemma triple_drain_request:
  "triple (drain_rest C (i # rest)) (drain_request i) (\<lambda>_. drain_rest C rest) (\<lambda>_ _. False)"
proof (rule tripleI)
  fix s e s'
  assume "drain_rest C (i # rest) s" "drain_request i s = (Inl e, s')"
  then show False using drain_request_keep [of s i] by (auto simp: drain_rest_def)
next
  fix s u s'
  assume a: "drain_rest C (i # rest) s" "drain_request i s = (Inr u, s')"
  then have "base_inv s'" "callbacks s' = callbacks s" "draining s' = draining s"
    "\<forall>x \<in> set (live_requests s'). is_schedulable x \<longrightarrow> x \<in> set (live_requests s) \<and> req_id x \<noteq> i"
    "\<forall>x \<in> set (live_requests s'). unsent x \<longrightarrow> x \<in> set (live_requests s) \<and> req_id x \<noteq> i"
    using drain_request_keep [of s i] by (auto simp: drain_rest_def)
  with a(1) show "drain_rest C rest s'" by (auto simp: drain_rest_def)
qed

lemma base_inv_start_drain: "base_inv (s\<lparr>draining := b, drain_error := e\<rparr>) = base_inv s"
  by (simp add: inv_defs all_ids_def)

lemma base_inv_clear_pending:
  "base_inv s \<Longrightarrow> \<forall>x \<in> set (live_requests s). \<not> unsent x \<Longrightarrow> base_inv (s\<lparr>pending_admissions := []\<rparr>)"
  by (simp add: inv_defs all_ids_def)

lemma enter_draining_loop:
  assumes "base_inv s" "callbacks s = C" "\<not> draining s" "enter_draining e s = (r, s')"
  shows "r = Inr () \<and> keep C s' \<and> draining s'"
proof -
  let ?s1 = "s\<lparr>draining := True, drain_error := (if e = NoError then EnvironmentStopped else e)\<rparr>"
  let ?ids = "map req_id (live_requests s)"
  have "drain_rest C ?ids ?s1" using assms(1,2)
    by (simp add: drain_rest_def base_inv_start_drain callbacks_def)
  moreover have loop: "triple (drain_rest C ?ids) (for_each drain_request ?ids) (\<lambda>_. drain_rest C []) (\<lambda>_ _. False)"
    by (rule triple_for_each_rest [where I = "drain_rest C"]) (rule triple_drain_request)
  ultimately obtain s2 where s2: "for_each drain_request ?ids ?s1 = (Inr (), s2)" "drain_rest C [] s2"
    by (cases "for_each drain_request ?ids ?s1"; cases "fst (for_each drain_request ?ids ?s1)")
      (auto dest: triple_Inr triple_Inl)
  then have "r = Inr ()" "s' = s2\<lparr>pending_admissions := []\<rparr>"
    using assms(3,4) by (auto simp: enter_draining_def op_defs)
  moreover have "base_inv (s2\<lparr>pending_admissions := []\<rparr>)"
    using s2(2) by (intro base_inv_clear_pending) (simp_all add: drain_rest_def)
  ultimately show ?thesis using s2(2)
    by (simp add: keep_def sched_inv_def drained_def drain_rest_def callbacks_def)
qed

lemma triple_enter_draining:
  "triple (keep C) (enter_draining e) (\<lambda>_ s. keep C s \<and> draining s) (\<lambda>_ _. False)"
proof (rule tripleI)
  fix s ex s'
  assume a: "keep C s" "enter_draining e s = (Inl ex, s')"
  then show False
    using enter_draining_loop [of s C e "Inl ex" s'] enter_draining_cases [OF a(2)]
    by (auto simp: keep_def sched_inv_def)
next
  fix s u s'
  assume a: "keep C s" "enter_draining e s = (Inr u, s')"
  then show "keep C s' \<and> draining s'"
    using enter_draining_loop [of s C e "Inr u" s'] enter_draining_cases [OF a(2)]
    by (cases "draining s") (auto simp: keep_def sched_inv_def)
qed

section \<open>Sending\<close>

text \<open>A pending admission that no unsent request needs can be dropped.\<close>
lemma base_inv_drop_pending:
  assumes inv: "base_inv (s\<lparr>pending_admissions := a # as\<rparr>)"
    and "\<And>r. r \<in> set (live_requests s) \<Longrightarrow> unsent r \<Longrightarrow> req_id r \<noteq> adm_id a"
  shows "base_inv (s\<lparr>pending_admissions := as\<rparr>)"
  using assms by (auto simp: inv_defs all_ids_def)

lemma sent_ok: "request_ok r \<Longrightarrow> unsent r \<Longrightarrow> request_ok (r\<lparr>admission := InFlight\<rparr>)"
  by (auto simp: request_ok_def unsent_def is_schedulable_def prefill_done_def)

lemma found_only:
  "base_inv s \<Longrightarrow> find_request i s = Some r \<Longrightarrow> x \<in> set (live_requests s) \<Longrightarrow> req_id x = i \<Longrightarrow> x = r"
  using find_unique_key [OF request_ids_distinct] by (fastforce simp: find_request_def)

lemma flush_from_keep:
  assumes "base_inv (s\<lparr>pending_admissions := as\<rparr>)"
  shows "base_inv (flush_from as s) \<and> callbacks (flush_from as s) = callbacks s \<and>
    draining (flush_from as s) = draining s \<and>
    (\<forall>x \<in> set (live_requests (flush_from as s)). is_schedulable x \<longrightarrow> x \<in> set (live_requests s))"
  using assms
proof (induction as s rule: flush_from.induct)
  case (1 s)
  then show ?case by (simp add: callbacks_def)
next
  case (2 a as s)
  let ?s = "s\<lparr>pending_admissions := a # as\<rparr>"
  have fr: "find_request (adm_id a) ?s = find_request (adm_id a) s" by (simp add: find_request_def)
  show ?case
  proof (cases "find_request (adm_id a) s")
    case None
    then have "req_id r \<noteq> adm_id a" if "r \<in> set (live_requests s)" for r
      using that by (auto simp: find_request_def find_None_iff)
    then have "base_inv (s\<lparr>pending_admissions := as\<rparr>)" by (intro base_inv_drop_pending [OF "2.prems"])
    then show ?thesis using None "2.IH"(1) by simp
  next
    case r: (Some r)
    have ok: "request_ok r" using find_request_ok [OF "2.prems"] fr r by metis
    show ?thesis
    proof (cases "admission r \<noteq> NotSent \<or> stage r \<noteq> PendingAdmission")
      case True
      then have "\<not> unsent r" using ok by (auto simp: request_ok_def unsent_def)
      then have "base_inv (s\<lparr>pending_admissions := as\<rparr>)"
        using found_only [OF "2.prems"] fr r by (intro base_inv_drop_pending [OF "2.prems"]) auto
      then show ?thesis using r True "2.IH"(2) by simp
    next
      case False
      obtain sent h where h: "try_admit a (handoff s) = (sent, h)" by (cases "try_admit a (handoff s)")
      show ?thesis
      proof (cases sent)
        case no: False
        then have f: "flush_from (a # as) s = s\<lparr>handoff := h, pending_admissions := a # as\<rparr>"
          using r False h by simp
        have "core (s\<lparr>handoff := h, pending_admissions := a # as\<rparr>) = core ?s" by (simp add: core_def callbacks_def)
        then show ?thesis unfolding f using "2.prems" core_base_inv by (auto simp: callbacks_def)
      next
        case yes: True
        let ?f = "\<lambda>r. r\<lparr>admission := InFlight\<rparr>"
        let ?t = "update_request (adm_id a) ?f (s\<lparr>handoff := h\<rparr>)"
        have f: "flush_from (a # as) s = flush_from as ?t" using r False h yes by simp
        have u: "unsent r" using False by (simp add: unsent_def)
        have u1: "base_inv (update_request (adm_id a) ?f ?s)"
          by (rule base_inv_in_place [OF "2.prems" trans [OF fr r]])
            (use sent_ok [OF ok u] False in \<open>auto simp: waiting_def owned_def unsent_def\<close>)
        have un: "\<forall>x \<in> set (live_requests (update_request (adm_id a) ?f ?s)). unsent x \<longrightarrow> x \<in> set (live_requests ?s) \<and> req_id x \<noteq> adm_id a"
          by (rule others_unchanged [OF "2.prems" trans [OF fr r]]) (simp add: unsent_def)
        have sc: "\<forall>x \<in> set (live_requests (update_request (adm_id a) ?f ?s)). is_schedulable x \<longrightarrow> x \<in> set (live_requests ?s) \<and> req_id x \<noteq> adm_id a"
          by (rule others_unchanged [OF "2.prems" trans [OF fr r]]) (use False in \<open>simp add: is_schedulable_def\<close>)
        have live: "live_requests ?t = live_requests (update_request (adm_id a) ?f ?s)"
          by (simp add: update_request_def)
        have "core (?t\<lparr>pending_admissions := a # as\<rparr>) = core (update_request (adm_id a) ?f ?s)"
          by (simp add: core_def callbacks_def update_request_def)
        then have "base_inv (?t\<lparr>pending_admissions := a # as\<rparr>)" using u1 core_base_inv by blast
        then have "base_inv (?t\<lparr>pending_admissions := as\<rparr>)"
          by (rule base_inv_drop_pending) (use un live in auto)
        then have "base_inv (flush_from as ?t) \<and> callbacks (flush_from as ?t) = callbacks ?t \<and>
          draining (flush_from as ?t) = draining ?t \<and>
          (\<forall>x \<in> set (live_requests (flush_from as ?t)). is_schedulable x \<longrightarrow> x \<in> set (live_requests ?t))"
          by (rule "2.IH"(3) [OF r False refl h [symmetric], rotated]) (use yes in simp)
        then show ?thesis unfolding f using sc live by (auto simp: callbacks_def)
      qed
    qed
  qed
qed

lemma keep_flush: "keep C s \<Longrightarrow> keep C (flush_pending_admissions s)"
  using flush_from_keep [of "pending_admissions s" s]
  by (auto simp: flush_pending_admissions_def keep_def sched_inv_def drained_def)

end
