(* ===== verification/Scheduler_Messages.thy ===== *)
theory Scheduler_Messages
  imports Scheduler_Drains
begin

text \<open>The invariant through releases and through each kind of message from the environment.\<close>

section \<open>Retrying releases\<close>

definition release_retried :: "RequestState \<Rightarrow> RequestState \<Rightarrow> bool" where
  "release_retried r r' \<longleftrightarrow> r' = r \<or> (stage r = PendingRelease \<and> r' = r\<lparr>release_sent := True\<rparr>)"

lemma retry_from_related:
  "retry_from rs h = (rs', h') \<Longrightarrow> list_all2 release_retried rs rs'"
  by (induction rs arbitrary: h rs' h')
    (auto simp: release_retried_def Let_def split: if_splits prod.splits)

lemma retried_members: "list_all2 R xs ys \<Longrightarrow> y \<in> set ys \<Longrightarrow> \<exists>x \<in> set xs. R x y"
  by (induction rule: list_all2_induct) auto

lemma retried_map:
  "list_all2 R xs ys \<Longrightarrow> (\<And>x y. R x y \<Longrightarrow> g y = g x) \<Longrightarrow> map g ys = map g xs"
  by (induction rule: list_all2_induct) auto

lemma retried_count:
  "list_all2 R xs ys \<Longrightarrow> (\<And>x y. R x y \<Longrightarrow> P y = P x) \<Longrightarrow> length (filter P ys) = length (filter P xs)"
  by (induction rule: list_all2_induct) auto

lemma release_retried_simps:
  assumes "release_retried r r'"
  shows "req_id r' = req_id r" "waiting r' = waiting r" "owned r' = owned r" "unsent r' = unsent r"
    "is_schedulable r' = is_schedulable r" "stage r' = stage r" "request_ok r \<Longrightarrow> request_ok r'"
proof -
  consider "r' = r" | "stage r = PendingRelease" "r' = r\<lparr>release_sent := True\<rparr>"
    using assms by (auto simp: release_retried_def)
  then show "req_id r' = req_id r" "waiting r' = waiting r" "owned r' = owned r" "unsent r' = unsent r"
    "is_schedulable r' = is_schedulable r" "stage r' = stage r" "request_ok r \<Longrightarrow> request_ok r'"
    by (cases; simp add: waiting_def owned_def unsent_def is_schedulable_def request_ok_def prefill_done_def)+
qed

lemma keep_retry:
  assumes "keep C s"
  shows "keep C (retry_releases s)"
proof -
  obtain rs h where r: "retry_from (live_requests s) (handoff s) = (rs, h)"
    by (cases "retry_from (live_requests s) (handoff s)")
  note rel = retry_from_related [OF r]
  have s: "retry_releases s = s\<lparr>live_requests := rs, handoff := h\<rparr>" by (simp add: retry_releases_def r)
  have m: "map req_id rs = map req_id (live_requests s)"
    "length (filter waiting rs) = length (filter waiting (live_requests s))"
    "length (filter owned rs) = length (filter owned (live_requests s))"
    using release_retried_simps by (blast intro: retried_map [OF rel] retried_count [OF rel])+
  have inv: "base_inv s" "drained s" "callbacks s = C" using assms by (simp_all add: keep_def sched_inv_def)
  have origin: "\<exists>y \<in> set (live_requests s). release_retried y x" if "x \<in> set rs" for x
    using retried_members [OF rel that] .
  have "ids_inv (retry_releases s)" using inv(1) m(1) by (simp add: base_inv_def ids_inv_def all_ids_def s)
  moreover have "requests_inv (retry_releases s)"
    using inv(1) origin release_retried_simps(7) by (fastforce simp: base_inv_def requests_inv_def s)
  moreover have "counts_inv (retry_releases s)" using inv(1) m by (simp add: base_inv_def counts_inv_def s)
  moreover have "queues_inv (retry_releases s)"
    unfolding queues_inv_def
  proof (intro conjI ballI impI)
    fix x
    assume "x \<in> set (live_requests (retry_releases s))"
    then obtain y where y: "y \<in> set (live_requests s)" "release_retried y x" using origin by (auto simp: s)
    note e = release_retried_simps [OF y(2)]
    have q: "queues_inv s" using inv(1) by (simp add: base_inv_def)
    { assume "unsent x"
      then show "req_id x \<in> adm_id ` set (pending_admissions (retry_releases s))"
        using q y(1) e by (simp add: queues_inv_def s) }
    { assume "stage x = Terminal"
      then show "req_id x \<in> set (terminal_ready (retry_releases s)) \<or>
          terminal_marker_recovery_needed (retry_releases s) \<or>
          streaming_retirement (retry_releases s) \<and> \<not> observer_enabled (retry_releases s)"
        using q y(1) e by (simp add: queues_inv_def s) }
  qed
  moreover have "drained (retry_releases s)"
    using inv(2) unfolding drained_def s by simp (metis origin release_retried_simps(5))
  ultimately show ?thesis using inv(3) by (simp add: keep_def sched_inv_def base_inv_def callbacks_def s)
qed

section \<open>Draining a channel\<close>

lemma drain_result:
  "(\<And>m. triple I (body m) (\<lambda>_. I) E) \<Longrightarrow> I s \<Longrightarrow>
     case drain body q s of (Inl e, q', s') \<Rightarrow> E e s' | (Inr _, q', s') \<Rightarrow> I s'"
proof (induction body q s rule: drain.induct)
  case (1 body q s)
  obtain x q1 where p: "try_pop q = (x, q1)" by (cases "try_pop q")
  show ?case
  proof (cases x)
    case None
    then show ?thesis using p "1.prems"(2) by (simp add: drain.simps [of body q])
  next
    case (Some m)
    obtain r s1 where b: "body m s = (r, s1)" by (cases "body m s")
    show ?thesis
    proof (cases r)
      case (Inl e)
      then have "E e s1" using triple_Inl [OF "1.prems"] b by blast
      then show ?thesis using p Some b Inl by (simp add: drain.simps [of body q])
    next
      case (Inr u)
      then have i: "I s1" using triple_Inr [OF "1.prems"] b by blast
      have d: "drain body q s = drain body q1 s1" using p Some b Inr by (simp add: drain.simps [of body q])
      show ?thesis unfolding d
        by (rule "1.IH" [OF p [symmetric] Some b [symmetric] Inr "1.prems"(1) i])
    qed
  qed
qed

lemma triple_drain_channel:
  assumes "\<And>m. triple (keep C) (body m) (\<lambda>_. keep C) (\<lambda>e _. E e)"
  shows "triple (keep C) (drain_channel get put body) (\<lambda>_. keep C) (\<lambda>e _. E e)"
proof (rule tripleI)
  fix s e s'
  assume a: "keep C s" "drain_channel get put body s = (Inl e, s')"
  obtain r q s1 where d: "drain body (get (handoff s)) s = (r, q, s1)" by (metis prod_cases3)
  with drain_result [of "keep C" body "\<lambda>e _. E e" s "get (handoff s)", OF assms a(1)] a(2)
  show "E e" by (simp add: drain_channel_def)
next
  fix s u s'
  assume a: "keep C s" "drain_channel get put body s = (Inr u, s')"
  obtain r q s1 where d: "drain body (get (handoff s)) s = (r, q, s1)" by (metis prod_cases3)
  with drain_result [of "keep C" body "\<lambda>e _. E e" s "get (handoff s)", OF assms a(1)] a(2)
  show "keep C s'" by (auto simp: drain_channel_def)
qed

end
