(* ===== verification/Scheduler_Handlers.thy ===== *)
theory Scheduler_Handlers
  imports Scheduler_Messages
begin

text \<open>The invariant through the handler of each message, and the exceptions each can throw.\<close>

definition timing_throws :: "'p Policy \<Rightarrow> exn \<Rightarrow> bool" where
  "timing_throws pol e \<longleftrightarrow> (\<exists>v u p. fst (on_request_timing pol v u p) = Inl e)"

lemma keep_drained: "keep C s \<Longrightarrow> draining s \<Longrightarrow> r \<in> set (live_requests s) \<Longrightarrow> \<not> is_schedulable r"
  by (simp add: keep_def sched_inv_def drained_def)

lemma keep_base: "keep C s \<Longrightarrow> base_inv s"
  by (simp add: keep_def sched_inv_def)

text \<open>From the base invariant to \<open>keep\<close> after one request changed.\<close>
lemma keep_update_request:
  assumes "keep C s" "find_request i s = Some r" "base_inv s'"
    and "live_requests s' = live_requests (update_request i f s)"
    and "draining s' = draining s" "callbacks s' = callbacks s"
    and "draining s \<Longrightarrow> \<not> is_schedulable (f r)"
  shows "keep C s'"
  using assms drained_update [of s s' i f] by (simp add: keep_def sched_inv_def)

lemma live_bound:
  assumes "base_inv s"
  shows "length (live_requests s) \<le> 2 ^ 32"
proof -
  have d: "distinct (map unat (map req_id (live_requests s)))"
    using request_ids_distinct [OF assms] by (simp add: distinct_map inj_on_def word_unat_eq_iff)
  have "set (map unat (map req_id (live_requests s))) \<subseteq> {..<2 ^ 32}"
    using unat_u32_lt by auto
  then have "card (set (map unat (map req_id (live_requests s)))) \<le> card {..<2 ^ 32::nat}"
    by (rule card_mono [rotated]) simp
  then show ?thesis using distinct_card [OF d] by simp
qed

lemma unat_active_plus_1:
  assumes "base_inv s"
  shows "unat (active_count (workload_counts s) + 1) = unat (active_count (workload_counts s)) + 1"
proof -
  have "unat (active_count (workload_counts s)) \<le> length (live_requests s)"
    using assms length_filter_le [of owned "live_requests s"] by (simp add: base_inv_def counts_inv_def)
  then have "unat (active_count (workload_counts s)) + unat (1::u64) < 2 ^ LENGTH(64)"
    using live_bound [OF assms] by simp
  then show ?thesis using unat_add_lt [of "active_count (workload_counts s)" 1] by simp
qed

lemma unat_queued_plus_1:
  assumes "base_inv s"
  shows "unat (queued_count (workload_counts s) + 1) = unat (queued_count (workload_counts s)) + 1"
proof -
  have "unat (queued_count (workload_counts s)) \<le> length (live_requests s)"
    using assms length_filter_le [of waiting "live_requests s"] by (simp add: base_inv_def counts_inv_def)
  then have "unat (queued_count (workload_counts s)) + unat (1::u64) < 2 ^ LENGTH(64)"
    using live_bound [OF assms] by simp
  then show ?thesis using unat_add_lt [of "queued_count (workload_counts s)" 1] by simp
qed

section \<open>Admission results\<close>

lemma keep_finish:
  assumes k: "keep C s" and r: "find_request i s = Some r" and w: "waiting r" "\<not> owned r"
  shows "\<exists>s'. finish_without_release i e s = (Inr (), s') \<and> keep C s'"
proof -
  note eq = finish_without_release_eq [OF queued_positive [OF keep_base [OF k] r w(1)], of i e]
  have "base_inv (snd (finish_without_release i e s))"
    by (rule base_inv_finish [OF keep_base [OF k] r w])
  then have "keep C (snd (finish_without_release i e s))"
    unfolding eq by (elim keep_update_request [OF k r, where f = "finished (current_time s) e"])
      (simp_all add: callbacks_def update_request_def)
  then show ?thesis unfolding eq by simp
qed

definition admitted :: "AdmissionResult \<Rightarrow> RequestState \<Rightarrow> RequestState" where
  "admitted m r = r\<lparr>admission := EnvironmentOwned, admission_succeeded := True,
     prompt_length := ar_prompt_tokens m, cached_prefix_tokens := ar_cached_prefix_tokens m,
     prefill_position := ar_cached_prefix_tokens m\<rparr>"

text \<open>What a successful admission makes of its request: \<open>b\<close> when it is released at once.\<close>
definition after_admission :: "bool \<Rightarrow> ErrorCode \<Rightarrow> AdmissionResult \<Rightarrow> RequestState \<Rightarrow> RequestState" where
  "after_admission b e m r =
     (if b then pending_release e (admitted m r) else (admitted m r)\<lparr>stage := PrefillStage\<rparr>)"

lemma increment_active_fields [simp]:
  "update_request i f (increment_active s) = increment_active (update_request i f s)"
  "draining (increment_active s) = draining s" "drain_error (increment_active s) = drain_error s"
  by (simp_all add: increment_active_def update_request_def)

lemma on_admission_result_ok:
  assumes r: "find_request (ar_id m) s = Some r" "admission r = InFlight" "stage r \<noteq> Terminal"
    and "ar_error m = NoError"
  shows "on_admission_result m s = (Inr (), increment_active (update_request (ar_id m)
    (after_admission (draining s \<or> max_output_tokens r = 0) (if draining s then drain_error s else NoError) m) s))"
proof (cases "draining s \<or> max_output_tokens r = 0")
  case True
  have "update_request i (after_admission True e m) s = update_request i (pending_release e) (update_request i (admitted m) s)" for i e
    by (simp add: update_request_update admitted_def comp_def after_admission_def [abs_def])
  then show ?thesis using assms True find_request_SomeD [OF r(1)]
    by (simp add: on_admission_result_def op_defs move_to_pending_release_def admitted_def [abs_def])
next
  case False
  have "update_request i (after_admission False e m) s = update_request i (\<lambda>r. r\<lparr>stage := PrefillStage\<rparr>) (update_request i (admitted m) s)" for i e
    by (simp add: update_request_update admitted_def comp_def after_admission_def [abs_def])
  then show ?thesis using assms False find_request_SomeD [OF r(1)]
    by (simp add: on_admission_result_def op_defs admitted_def [abs_def])
qed

lemma after_admission_ok:
  assumes "request_ok r" "stage r \<noteq> Terminal" "\<not> owned r" "b \<or> max_output_tokens r \<noteq> 0"
  shows "request_ok (after_admission b e m r)" "waiting (after_admission b e m r)"
    "owned (after_admission b e m r)" "\<not> unsent (after_admission b e m r)"
    "req_id (after_admission b e m r) = req_id r" "stage (after_admission b e m r) \<noteq> Terminal"
    "b \<Longrightarrow> \<not> is_schedulable (after_admission b e m r)"
  using unowned_waiting [OF assms(1-3)] assms(1,4)
  by (auto simp: after_admission_def admitted_def pending_release_def request_ok_def waiting_def owned_def
      unsent_def is_schedulable_def word_neq_0_conv)

lemma triple_on_admission_result:
  "triple (keep C) (on_admission_result m) (\<lambda>_. keep C) (\<lambda>_ _. False)"
proof -
  have "\<exists>s'. on_admission_result m s = (Inr (), s') \<and> keep C s'" if k: "keep C s" for s
  proof (cases "find_request (ar_id m) s")
    case None
    then show ?thesis using k by (simp add: on_admission_result_def op_defs)
  next
    case r: (Some r)
    note ok = find_request_ok [OF keep_base [OF k] r]
    show ?thesis
    proof (cases "stage r = Terminal \<or> admission r \<noteq> InFlight")
      case True
      then show ?thesis using k r by (simp add: on_admission_result_def op_defs)
    next
      case False
      then have live: "stage r \<noteq> Terminal" "\<not> owned r" "admission r = InFlight" by (simp_all add: owned_def)
      note w = unowned_waiting [OF ok live(1,2)]
      show ?thesis
      proof (cases "ar_error m = NoError")
        case err: False
        then show ?thesis using keep_finish [OF k r] w live r find_request_SomeD [OF r]
          by (simp add: on_admission_result_def)
      next
        case True
        let ?b = "draining s \<or> max_output_tokens r = 0"
        let ?f = "after_admission ?b (if draining s then drain_error s else NoError) m"
        let ?s = "increment_active (update_request (ar_id m) ?f s)"
        have cond: "?b \<or> max_output_tokens r \<noteq> 0" by simp
        note f = after_admission_ok [OF ok live(1,2) cond]
        have "base_inv ?s"
          by (rule base_inv_update [OF keep_base [OF k] r, where f = ?f])
            (use f live w unat_active_plus_1 [OF keep_base [OF k]] in \<open>simp_all add: increment_active_def\<close>)
        then have "keep C ?s"
          by (rule keep_update_request [OF k r, where f = ?f])
            (use f in \<open>simp_all add: increment_active_def callbacks_def\<close>)
        then show ?thesis using on_admission_result_ok [OF r live(3,1) True] by simp
      qed
    qed
  qed
  then show ?thesis by (fastforce intro: tripleI)
qed

section \<open>Outputs\<close>

lemma triple_on_output: "triple (keep C) (on_output m) (\<lambda>_. keep C) (\<lambda>_ _. False)"
proof -
  have "\<exists>s'. on_output m s = (Inr (), s') \<and> keep C s'" if k: "keep C s" for s
  proof (cases "find_request (op_id m) s")
    case None
    then show ?thesis using k by (simp add: on_output_def op_defs)
  next
    case r: (Some r)
    let ?f = "\<lambda>r. r\<lparr>output_text := output_text r @ op_text m\<rparr>"
    note ok = find_request_ok [OF keep_base [OF k] r]
    have "base_inv (update_request (op_id m) ?f s)"
      by (rule base_inv_in_place [OF keep_base [OF k] r])
        (use ok in \<open>simp_all add: request_ok_def waiting_def owned_def unsent_def is_schedulable_def prefill_done_def\<close>)
    then have "keep C (update_request (op_id m) ?f s)"
      by (rule keep_update_request [OF k r, where f = ?f])
        (use keep_drained [OF k] find_request_SomeD [OF r] in \<open>auto simp: callbacks_def is_schedulable_def\<close>)
    then show ?thesis using k r by (simp add: on_output_def op_defs)
  qed
  then show ?thesis by (fastforce intro: tripleI)
qed

end
