(* ===== verification/Scheduler_Handlers2.thy ===== *)
theory Scheduler_Handlers2
  imports Scheduler_Handlers
begin

text \<open>The invariant through completions, release acknowledgements and fatal reports.\<close>

section \<open>Completions\<close>

text \<open>The whole effect of one completion on its request.\<close>
definition completed :: "TimePoint \<Rightarrow> Completion \<Rightarrow> bool \<Rightarrow> RequestState \<Rightarrow> RequestState" where
  "completed t c grows r =
     settle_completion c ((if grows then count_tokens t c else id)
       (r\<lparr>prefill_position := max (prefill_position r) (cmp_prefill_position c)\<rparr>))"

lemma count_tokens_id [simp]: "req_id (count_tokens t c r) = req_id r"
  by (simp add: count_tokens_def record_token_def)

lemma update_request_cong [simp]:
  "update_request i f (s\<lparr>policy := p\<rparr>) = (update_request i f s)\<lparr>policy := p\<rparr>"
  "update_request i f (s\<lparr>published_plan_success := b\<rparr>) = (update_request i f s)\<lparr>published_plan_success := b\<rparr>"
  by (simp_all add: update_request_def)

lemma on_completion_cases:
  assumes r: "find_request (cmp_id c) s = Some r" "admission r = EnvironmentOwned" "stage r \<noteq> Terminal"
    and res: "on_completion pol c s = (res, s')"
  shows "(\<exists>e. res = Inl e \<and> timing_throws pol e) \<or>
    (res = Inr () \<and> core s' = core (update_request (cmp_id c)
       (completed (current_time s) c (cmp_decoded_tokens c > decoded_count r)) s))"
proof -
  let ?i = "cmp_id c"
  let ?p = "\<lambda>r. r\<lparr>prefill_position := max (prefill_position r) (cmp_prefill_position c)\<rparr>"
  define s1 where "s1 = (if cmp_error c \<noteq> NoError then s\<lparr>published_plan_success := False\<rparr> else s)"
  define s2 where "s2 = update_request ?i ?p s1"
  define s3 where "s3 = update_request ?i (count_tokens (current_time s) c) s2"
  have id: "req_id r = ?i" using find_request_SomeD [OF r(1)] by simp
  have t: "current_time s2 = current_time s" "current_time s3 = current_time s"
    by (simp_all add: s1_def s2_def s3_def)
  have c1: "core (update_request ?i f s1) = core (update_request ?i f s)" for f by (simp add: s1_def)
  have grows: "update_request ?i (completed (current_time s) c True) s1 = update_request ?i (settle_completion c) s3"
    by (simp add: s3_def s2_def update_request_update completed_def [abs_def] comp_def)
  have same: "update_request ?i (completed (current_time s) c False) s1 = update_request ?i (settle_completion c) s2"
    by (simp add: s2_def update_request_update completed_def [abs_def] comp_def)
  have run: "on_completion pol c s = then_op
      (if cmp_decoded_tokens c > decoded_count r
       then then_op (\<lambda>s. modify_op (update_request ?i (count_tokens (current_time s) c)) s)
              (if cmp_generated_token c
               then \<lambda>s. call_policy (\<lambda>v. on_request_timing pol v (token_event (current_time s) c r)) s
               else ok ())
       else ok ()) (modify_op (update_request ?i (settle_completion c))) s2"
    using r(2,3) by (simp add: on_completion_def r(1) id s1_def s2_def)
  show ?thesis
  proof (cases "cmp_decoded_tokens c > decoded_count r")
    case False
    then have "res = Inr ()" "s' = update_request ?i (completed (current_time s) c False) s1"
      using run res by (simp_all add: same run_simps)
    then show ?thesis using False c1 by simp
  next
    case lt: True
    show ?thesis
    proof (cases "cmp_generated_token c")
      case False
      then have "on_completion pol c s = (Inr (), update_request ?i (settle_completion c) s3)"
        unfolding run using lt by (simp add: then_op_def bind_op_def run_simps t flip: s3_def)
      then show ?thesis using lt c1 [of "completed (current_time s) c True"] res by (simp add: grows)
    next
      case gen: True
      obtain o2 p where o: "on_request_timing pol (view_of s3) (token_event (current_time s) c r) (policy s3) = (o2, p)"
        by (cases "on_request_timing pol (view_of s3) (token_event (current_time s) c r) (policy s3)")
      have out: "on_completion pol c s = (case o2 of Inl e \<Rightarrow> (Inl e, s3\<lparr>policy := p\<rparr>)
          | Inr _ \<Rightarrow> (Inr (), (update_request ?i (settle_completion c) s3)\<lparr>policy := p\<rparr>))"
        unfolding run using lt gen
        by (simp add: then_op_def bind_op_def run_simps call_policy_def t o flip: s3_def split: sum.splits)
      show ?thesis
      proof (cases o2)
        case (Inl e)
        then have "timing_throws pol e" using o by (metis fst_conv timing_throws_def)
        then show ?thesis using out res Inl by simp
      next
        case (Inr u)
        then have "res = Inr ()" "s' = (update_request ?i (completed (current_time s) c True) s1)\<lparr>policy := p\<rparr>"
          using out res by (simp_all add: grows)
        then show ?thesis using lt c1 by simp
      qed
    qed
  qed
qed

text \<open>The part of \<open>request_ok\<close> on tokens, which holds while a completion is applied.\<close>
definition tokens_ok :: "RequestState \<Rightarrow> bool" where
  "tokens_ok r \<longleftrightarrow> (first_token_recorded r \<longleftrightarrow> output_token_ids r \<noteq> []) \<and>
     (last_token_recorded r \<longleftrightarrow> output_token_ids r \<noteq> []) \<and>
     length (output_token_ids r) \<le> unat (decoded_count r)"

lemma settle_ok:
  assumes "tokens_ok r" "owned r" "is_schedulable r \<and> \<not> release_sent r \<or> stage r = PendingRelease"
  shows "request_ok (settle_completion c r)"
proof (cases "cmp_error c \<noteq> NoError \<or> (cmp_eos c \<and> output_mode r = Natural) \<or> decoded_count r \<ge> max_output_tokens r")
  case True
  then show ?thesis using assms(1,2)
    by (simp add: settle_completion_def request_ok_def tokens_ok_def pending_release_def owned_def is_schedulable_def Let_def)
next
  case False
  then show ?thesis using assms
    by (auto simp: settle_completion_def request_ok_def tokens_ok_def owned_def is_schedulable_def
        prefill_done_def Let_def)
qed

lemma count_tokens_ok:
  "tokens_ok r \<Longrightarrow> cmp_decoded_tokens c > decoded_count r \<Longrightarrow> tokens_ok (count_tokens t c r)"
  by (auto simp: tokens_ok_def count_tokens_def record_token_def word_less_nat_alt)

lemma count_tokens_fields [simp]:
  "admission (count_tokens t c r) = admission r" "start_recorded (count_tokens t c r) = start_recorded r"
  "stage (count_tokens t c r) = stage r" "release_sent (count_tokens t c r) = release_sent r"
  by (simp_all add: count_tokens_def record_token_def)

lemma completed_ok:
  assumes ok: "request_ok r" and live: "stage r \<noteq> Terminal" and own: "owned r"
  shows "request_ok (completed t c (cmp_decoded_tokens c > decoded_count r) r)"
    "waiting (completed t c grows r) = waiting r" "owned (completed t c grows r)"
    "\<not> unsent (completed t c grows r)" "req_id (completed t c grows r) = req_id r"
    "stage (completed t c grows r) \<noteq> Terminal"
    "\<not> is_schedulable r \<Longrightarrow> \<not> is_schedulable (completed t c grows r)"
proof -
  have st: "stage r = PrefillStage \<or> stage r = DecodeStage \<or> stage r = PendingRelease"
    using ok live own by (cases "stage r") (auto simp: request_ok_def owned_def)
  show "waiting (completed t c grows r) = waiting r" "owned (completed t c grows r)"
    "\<not> unsent (completed t c grows r)" "req_id (completed t c grows r) = req_id r"
    "stage (completed t c grows r) \<noteq> Terminal"
    using live own by (auto simp: completed_def settle_completion_def count_tokens_def record_token_def
        pending_release_def waiting_def owned_def unsent_def Let_def)
  show "\<not> is_schedulable r \<Longrightarrow> \<not> is_schedulable (completed t c grows r)"
    using st by (auto simp: completed_def settle_completion_def count_tokens_def record_token_def
        pending_release_def is_schedulable_def Let_def)
  let ?r1 = "r\<lparr>prefill_position := max (prefill_position r) (cmp_prefill_position c)\<rparr>"
  define r2 where "r2 = (if cmp_decoded_tokens c > decoded_count r then count_tokens t c else id) ?r1"
  have "tokens_ok ?r1" using ok by (simp add: request_ok_def tokens_ok_def)
  then have "tokens_ok r2" by (simp add: r2_def count_tokens_ok)
  moreover have "owned r2" using own by (simp add: r2_def owned_def)
  moreover have "is_schedulable r2 \<and> \<not> release_sent r2 \<or> stage r2 = PendingRelease"
    using st ok by (auto simp: r2_def is_schedulable_def request_ok_def)
  ultimately have "request_ok (settle_completion c r2)" by (rule settle_ok)
  then show "request_ok (completed t c (cmp_decoded_tokens c > decoded_count r) r)"
    by (simp add: completed_def r2_def)
qed

lemma triple_on_completion:
  "triple (keep C) (on_completion pol c) (\<lambda>_. keep C) (\<lambda>e _. timing_throws pol e)"
proof -
  have "(\<exists>e. res = Inl e \<and> timing_throws pol e) \<or> (res = Inr () \<and> keep C s')"
    if k: "keep C s" and res: "on_completion pol c s = (res, s')" for s res s'
  proof (cases "find_request (cmp_id c) s")
    case None
    then show ?thesis using k res by (simp add: on_completion_def op_defs)
  next
    case r: (Some r)
    show ?thesis
    proof (cases "stage r = Terminal \<or> admission r \<noteq> EnvironmentOwned")
      case True
      then show ?thesis using k r res by (auto simp: on_completion_def op_defs split: if_splits)
    next
      case False
      then have live: "stage r \<noteq> Terminal" "owned r" "admission r = EnvironmentOwned" by (simp_all add: owned_def)
      let ?f = "completed (current_time s) c (cmp_decoded_tokens c > decoded_count r)"
      note f = completed_ok [OF find_request_ok [OF keep_base [OF k] r] live(1,2)]
      have "base_inv (update_request (cmp_id c) ?f s)"
        by (rule base_inv_in_place [OF keep_base [OF k] r]) (use f live in auto)
      then have "keep C (update_request (cmp_id c) ?f s)"
        by (rule keep_update_request [OF k r, where f = ?f])
          (use f(7) keep_drained [OF k] find_request_SomeD [OF r] in \<open>auto simp: callbacks_def\<close>)
      then show ?thesis using on_completion_cases [OF r live(3,1) res] core_keep by blast
    qed
  qed
  then show ?thesis by (fastforce intro: tripleI)
qed

section \<open>Release acknowledgements\<close>

lemma on_release_ack_cases:
  assumes k: "base_inv s" and r: "find_request (ack_id a) s = Some r" "stage r = PendingRelease" "release_sent r"
    and res: "on_release_ack pol a s = (res, s')"
  shows "(\<exists>e. res = Inl e \<and> timing_throws pol e) \<or>
    (res = Inr () \<and> core s' = core ((update_request (ack_id a) (finished (current_time s) (terminal_error r)) s)
       \<lparr>workload_counts := \<lparr>active_count = active_count (workload_counts s) - 1,
          queued_count = (if start_recorded r then queued_count (workload_counts s)
                          else queued_count (workload_counts s) - 1)\<rparr>,
        terminal_ready := terminal_ready s @ [ack_id a]\<rparr>))"
proof -
  let ?i = "ack_id a"
  let ?s1 = "update_request ?i (finished (current_time s) (terminal_error r)) s"
  have id: "req_id r = ?i" using find_request_SomeD [OF r(1)] by simp
  have own: "owned r" "stage r \<noteq> Terminal" using find_request_ok [OF k r(1)] r(2) by (auto simp: request_ok_def owned_def)
  have a: "active_count (workload_counts s) \<noteq> 0" by (rule active_positive [OF k r(1) own(1)])
  have q: "\<not> start_recorded r \<Longrightarrow> queued_count (workload_counts s) \<noteq> 0"
    by (rule queued_positive [OF k r(1)]) (simp add: waiting_def own)
  obtain o2 p where o: "on_request_timing pol (view_of ?s1) (terminal_event (current_time s) r) (policy s) = (o2, p)"
    by (cases "on_request_timing pol (view_of ?s1) (terminal_event (current_time s) r) (policy s)")
  have pol: "policy ?s1 = policy s" by (simp add: update_request_def)
  let ?counts = "\<lparr>active_count = active_count (workload_counts s) - 1,
    queued_count = (if start_recorded r then queued_count (workload_counts s)
                    else queued_count (workload_counts s) - 1)\<rparr>"
  have out: "on_release_ack pol a s = (case o2 of Inl e \<Rightarrow> (Inl e, ?s1\<lparr>policy := p\<rparr>)
    | Inr _ \<Rightarrow> (Inr (), ?s1\<lparr>policy := p, workload_counts := ?counts, terminal_ready := terminal_ready s @ [?i]\<rparr>))"
    using r id a q pol o by (cases o2; cases "start_recorded r")
      (simp_all add: on_release_ack_def then_op_def bind_op_def run_simps call_policy_def decrement_active_def
          decrement_queued_def queue_terminal_marker_def)
  show ?thesis
  proof (cases o2)
    case (Inl e)
    then have "timing_throws pol e" using o by (metis fst_conv timing_throws_def)
    then show ?thesis using out res Inl by simp
  next
    case (Inr u)
    then have "res = Inr ()" "s' = ?s1\<lparr>policy := p, workload_counts := ?counts, terminal_ready := terminal_ready s @ [?i]\<rparr>"
      using out res by simp_all
    then show ?thesis by (simp add: core_def callbacks_def)
  qed
qed

lemma triple_on_release_ack:
  "triple (keep C) (on_release_ack pol a) (\<lambda>_. keep C) (\<lambda>e _. timing_throws pol e)"
proof -
  have "(\<exists>e. res = Inl e \<and> timing_throws pol e) \<or> (res = Inr () \<and> keep C s')"
    if k: "keep C s" and res: "on_release_ack pol a s = (res, s')" for s res s'
  proof (cases "find_request (ack_id a) s")
    case None
    then show ?thesis using k res by (simp add: on_release_ack_def op_defs)
  next
    case r: (Some r)
    show ?thesis
    proof (cases "stage r \<noteq> PendingRelease \<or> \<not> release_sent r")
      case True
      then show ?thesis using k r res by (auto simp: on_release_ack_def op_defs)
    next
      case False
      note b = keep_base [OF k]
      note ok = find_request_ok [OF b r]
      have own: "owned r" "stage r \<noteq> Terminal" using ok False by (auto simp: request_ok_def owned_def)
      let ?f = "finished (current_time s) (terminal_error r)"
      let ?s = "(update_request (ack_id a) ?f s)
         \<lparr>workload_counts := \<lparr>active_count = active_count (workload_counts s) - 1,
          queued_count = (if start_recorded r then queued_count (workload_counts s)
                          else queued_count (workload_counts s) - 1)\<rparr>,
          terminal_ready := terminal_ready s @ [ack_id a]\<rparr>"
      have a1: "unat (active_count (workload_counts s) - 1) + 1 = unat (active_count (workload_counts s))"
        by (rule unat_minus_1 [OF active_positive [OF b r own(1)]])
      have q1: "unat (queued_count (workload_counts s) - 1) + 1 = unat (queued_count (workload_counts s))"
        if "\<not> start_recorded r"
        by (rule unat_minus_1 [OF queued_positive [OF b r]]) (simp add: waiting_def that own)
      have "base_inv ?s"
        by (rule base_inv_update [OF b r, where f = ?f])
          (use own finished_ok [OF ok] a1 q1 in \<open>simp_all add: waiting_def subset_insertI\<close>)
      then have "keep C ?s"
        by (rule keep_update_request [OF k r, where f = ?f]) (simp_all add: callbacks_def)
      then show ?thesis using on_release_ack_cases [OF b r _ _ res] False core_keep by blast
    qed
  qed
  then show ?thesis by (fastforce intro: tripleI)
qed

section \<open>Fatal reports\<close>

lemma triple_on_fatal: "triple (keep C) (on_fatal f) (\<lambda>_. keep C) (\<lambda>_ _. False)"
  unfolding on_fatal_def
  by (rule triple_then [OF triple_core triple_weaken [OF triple_enter_draining [of C]]]) auto

end
