(* ===== verification/Scheduler_Retire.thy ===== *)
theory Scheduler_Retire
  imports Scheduler_Handlers2
begin

text \<open>
  The invariant through submission, also from within a terminal observer, and through the
  retirement of terminal requests.
\<close>

section \<open>Submission\<close>

text \<open>\<open>keep\<close> together with the retirement mode, which no operation below changes.\<close>
definition keep_mode :: "bool \<Rightarrow> 'x callbacks \<Rightarrow> ('x, 'p) Scheduler \<Rightarrow> bool" where
  "keep_mode b C s \<longleftrightarrow> keep C s \<and> streaming_retirement s = b"

lemma core_mode: "core s' = core s \<Longrightarrow> keep_mode b C s' = keep_mode b C s"
  using core_keep [of s' s] by (simp add: keep_mode_def core_def)

lemmas keep_mode_update [simp] = core_update [THEN core_mode]

definition workload_throws :: "'x callbacks \<Rightarrow> exn \<Rightarrow> bool" where
  "workload_throws C e \<longleftrightarrow> (case C of (c, d, w, b) \<Rightarrow> \<exists>f t n x. w = Some f \<and> fst (f t n x) = Inl e)"

lemma triple_publish_counts:
  fixes C :: "'x callbacks"
  shows "triple (keep_mode b C :: ('x, 'p) Scheduler \<Rightarrow> bool) (publish_workload_counts t) (\<lambda>_. keep_mode b C)
     (\<lambda>e s. workload_throws C e \<and> keep_mode b C s)"
proof -
  have "case publish_workload_counts t s of (Inl e, s') \<Rightarrow> workload_throws C e \<and> keep_mode b C s'
      | (Inr _, s') \<Rightarrow> keep_mode b C s'" if k: "keep_mode b C s" for s :: "('x, 'p) Scheduler"
  proof (cases "workload_observer s")
    case None
    then show ?thesis using k by (simp add: publish_workload_counts_def run_simps)
  next
    case (Some f)
    let ?n = "workload_counts s"
    obtain r x where o: "f t ?n (world s) = (r, x)" by (cases "f t ?n (world s)")
    have C: "C = callbacks s" using k by (simp add: keep_mode_def keep_def)
    have "workload_throws C e" if "r = Inl e" for e
      using o that Some C unfolding workload_throws_def callbacks_def by (metis (mono_tags, lifting) case_prod_conv fst_conv)
    then show ?thesis using k Some o
      by (cases r) (auto simp: publish_workload_counts_def then_op_def bind_op_def call_world_def run_simps Let_def)
  qed
  then show ?thesis by (simp add: triple_def)
qed

lemma u32_max_next: "\<not> next_request_id s > u64_of_u32 u32_max \<longleftrightarrow> unat (next_request_id s) < 2 ^ 32"
  by (auto simp: word_less_nat_alt)

lemma submitted_request_simps [simp]:
  "req_id (submitted_request i a t) = i" "waiting (submitted_request i a t)"
  "\<not> owned (submitted_request i a t)" "\<not> is_schedulable (submitted_request i a t)"
  "stage (submitted_request i a t) = PendingAdmission" "request_ok (submitted_request i a t)"
  by (simp_all add: submitted_request_def new_request_def waiting_def owned_def is_schedulable_def request_ok_def)

definition submitted :: "Admission \<Rightarrow> TimePoint \<Rightarrow> ('x, 'p) Scheduler \<Rightarrow> ('x, 'p) Scheduler" where
  "submitted a t s = (let i = u32_of_u64 (next_request_id s) in
     increment_queued (s\<lparr>next_request_id := next_request_id s + 1,
       live_requests := live_requests s @ [submitted_request i a t],
       pending_admissions := pending_admissions s @ [a\<lparr>adm_id := i\<rparr>]\<rparr>))"

lemma submitted_fields [simp]:
  "completed_history (submitted a t s) = completed_history s"
  "live_requests (submitted a t s) = live_requests s @ [submitted_request (u32_of_u64 (next_request_id s)) a t]"
  "pending_admissions (submitted a t s) = pending_admissions s @ [a\<lparr>adm_id := u32_of_u64 (next_request_id s)\<rparr>]"
  "terminal_ready (submitted a t s) = terminal_ready s"
  "terminal_marker_recovery_needed (submitted a t s) = terminal_marker_recovery_needed s"
  "next_request_id (submitted a t s) = next_request_id s + 1"
  "streaming_retirement (submitted a t s) = streaming_retirement s"
  "observer_enabled (submitted a t s) = observer_enabled s"
  "draining (submitted a t s) = draining s" "callbacks (submitted a t s) = callbacks s"
  "workload_counts (submitted a t s) =
     (workload_counts s)\<lparr>queued_count := queued_count (workload_counts s) + 1\<rparr>"
  by (simp_all add: submitted_def increment_queued_def callbacks_def Let_def)

lemma unat_next_plus_1:
  assumes "unat (n::u64) < 2 ^ 32"
  shows "unat (n + 1) = unat n + 1"
  using unat_add_lt [of n 1] assms by simp

lemma base_inv_submitted:
  assumes inv: "base_inv s" and room: "unat (next_request_id s) < 2 ^ 32"
  shows "base_inv (submitted a t s)"
proof -
  let ?i = "u32_of_u64 (next_request_id s)"
  have i: "unat ?i = unat (next_request_id s)" using room by (rule unat_u32_of_u64_small)
  have n: "unat (next_request_id s + 1) = unat (next_request_id s) + 1" using room by (rule unat_next_plus_1)
  have ids: "all_ids (submitted a t s) = all_ids s @ [?i]" by (simp add: all_ids_def)
  have "?i \<notin> set (all_ids s)" using inv i by (auto simp: base_inv_def ids_inv_def)
  then have "ids_inv (submitted a t s)" using inv i n room
    by (auto simp: base_inv_def ids_inv_def ids)
  moreover have "requests_inv (submitted a t s)" using inv by (auto simp: base_inv_def requests_inv_def)
  moreover have "counts_inv (submitted a t s)"
    using inv unat_queued_plus_1 [OF inv] by (simp add: base_inv_def counts_inv_def)
  moreover have "queues_inv (submitted a t s)"
    using inv by (auto simp: base_inv_def queues_inv_def)
  ultimately show ?thesis by (simp add: base_inv_def)
qed

lemma keep_mode_submitted:
  "keep_mode b C s \<Longrightarrow> unat (next_request_id s) < 2 ^ 32 \<Longrightarrow> keep_mode b C (submitted a t s)"
  using base_inv_submitted [of s a t]
  by (auto simp: keep_mode_def keep_def sched_inv_def drained_def)

text \<open>An id lost to a failing clock: harmless when ids need not be contiguous.\<close>
lemma keep_mode_skip_id:
  assumes "keep_mode True C s" "unat (next_request_id s) < 2 ^ 32"
  shows "keep_mode True C (s\<lparr>next_request_id := next_request_id s + 1\<rparr>)"
  using assms unat_next_plus_1 [OF assms(2)]
  by (auto simp: keep_mode_def keep_def sched_inv_def drained_def callbacks_def inv_defs all_ids_def
      intro: less_SucI)

lemma world_next_commute:
  "s\<lparr>next_request_id := n, world := x\<rparr> = s\<lparr>world := x, next_request_id := n\<rparr>"
  by (rule Scheduler.equality) simp_all

lemma triple_submit:
  fixes C :: "'x callbacks"
  shows "triple (keep_mode b C :: ('x, 'p) Scheduler \<Rightarrow> bool) (submit_admission tid a) (\<lambda>_. keep_mode b C) (\<lambda>_ s. b \<longrightarrow> keep_mode b C s)"
proof -
  have "case submit_admission tid a s0 of (Inl e, s') \<Rightarrow> b \<longrightarrow> keep_mode b C s' | (Inr _, s') \<Rightarrow> keep_mode b C s'"
    if k0: "keep_mode b C s0" for s0 :: "('x, 'p) Scheduler"
  proof -
    define s where "s = begin_nonconst_operation s0"
    have k: "keep_mode b C s" using k0 by (simp add: s_def)
    have start: "begin_nonconst_operation s0 = s" by (simp add: s_def)
    show ?thesis
    proof (cases "execution_started s \<and> tid \<noteq> scheduler_thread s \<or> next_request_id s > u64_of_u32 u32_max")
      case True
      then show ?thesis using k by (auto simp: submit_admission_def start Let_def run_simps)
    next
      case False
      then have room: "unat (next_request_id s) < 2 ^ 32" using u32_max_next by blast
      have g: "(execution_started s \<and> tid \<noteq> scheduler_thread s) = False"
        "(next_request_id s > u64_of_u32 u32_max) = False"
        using False by blast+
      let ?s1 = "s\<lparr>next_request_id := next_request_id s + 1\<rparr>"
      obtain r x where c: "clock s (world s) = (r, x)" by (cases "clock s (world s)")
      show ?thesis
      proof (cases r)
        case (Inl e)
        have "b \<longrightarrow> keep_mode b C (?s1\<lparr>world := x\<rparr>)" using keep_mode_skip_id [of C s] k room by auto
        moreover have "submit_admission tid a s0 = (Inl e, ?s1\<lparr>world := x\<rparr>)"
          by (simp add: submit_admission_def start Let_def now_def call_world_def bind_op_def g c Inl)
        ultimately show ?thesis by (cases b) simp_all
      next
        case (Inr t)
        let ?s2 = "submitted a t (s\<lparr>world := x\<rparr>)"
        have k2: "keep_mode b C ?s2" using keep_mode_submitted [of b C "s\<lparr>world := x\<rparr>"] k room by simp
        have "submit_admission tid a s0 =
            then_op (publish_workload_counts t) (ok (u32_of_u64 (next_request_id s))) ?s2"
          by (simp add: g c Inr submit_admission_def start Let_def now_def call_world_def bind_op_def
              submitted_def world_next_commute)
        then show ?thesis using triple_publish_counts [of b C t] k2
          by (auto simp: then_op_def bind_op_def run_simps triple_def split: prod.splits sum.splits)
      qed
    qed
  qed
  then show ?thesis unfolding triple_def by (intro allI impI)
qed

lemma run_observer_keep:
  "keep_mode True C s \<Longrightarrow> run_observer tid f s = (r, s') \<Longrightarrow> keep_mode True C s'"
proof (induction f arbitrary: s r s')
  case (Submits a x k)
  obtain res s1 where s1: "submit_admission tid a (s\<lparr>world := x\<rparr>) = (res, s1)"
    by (cases "submit_admission tid a (s\<lparr>world := x\<rparr>)")
  have k: "keep_mode True C (s\<lparr>world := x\<rparr>)" using Submits.prems(1) by simp
  have "keep_mode True C s1"
  proof (cases res)
    case (Inl e)
    then show ?thesis using triple_Inl [OF triple_submit k] s1 by blast
  next
    case (Inr i)
    then show ?thesis using triple_Inr [OF triple_submit k] s1 by blast
  qed
  moreover from Submits.prems(2) s1 have "run_observer tid (k res (world s1)) s1 = (r, s')" by simp
  ultimately show ?case by (rule Submits.IH [OF rangeI rangeI])
qed auto

lemma notify_keep:
  "keep_mode True C s \<Longrightarrow> notify_terminal tid q s = (b, s') \<Longrightarrow> keep_mode True C s'"
  by (auto simp: notify_terminal_def split: option.splits prod.splits dest: run_observer_keep)

end
