(* ===== verification/Scheduler_Retire2.thy ===== *)
theory Scheduler_Retire2
  imports Scheduler_Retire
begin

text \<open>The invariant through the retirement loop, which never throws and empties its queue.\<close>

section \<open>Removing one request\<close>

lemma erase_split:
  assumes "base_inv s" "find_request i s = Some r"
  obtains as bs where "live_requests s = as @ r # bs" "live_requests (erase_request i s) = as @ bs"
    "req_id r = i" "\<forall>x \<in> set (as @ bs). req_id x \<noteq> i"
proof -
  obtain as bs where s: "live_requests s = as @ r # bs" "req_id r = i"
    "remove_first (\<lambda>r. req_id r = i) (live_requests s) = as @ bs"
    using update_first_split [OF assms(2) [unfolded find_request_def]] by blast
  have "distinct (map req_id (as @ r # bs))" using request_ids_distinct [OF assms(1)] s(1) by simp
  then have "i \<notin> req_id ` set (as @ bs)" using s(2) by auto
  then have "\<forall>x \<in> set (as @ bs). req_id x \<noteq> i" by (metis image_eqI)
  with s show ?thesis by (intro that [of as bs]) (simp_all add: erase_request_def)
qed

lemma erase_fields [simp]:
  "completed_history (erase_request i s) = completed_history s"
  "pending_admissions (erase_request i s) = pending_admissions s"
  "terminal_ready (erase_request i s) = terminal_ready s"
  "terminal_marker_recovery_needed (erase_request i s) = terminal_marker_recovery_needed s"
  "next_request_id (erase_request i s) = next_request_id s"
  "streaming_retirement (erase_request i s) = streaming_retirement s"
  "observer_enabled (erase_request i s) = observer_enabled s"
  "draining (erase_request i s) = draining s" "callbacks (erase_request i s) = callbacks s"
  "workload_counts (erase_request i s) = workload_counts s"
  by (simp_all add: erase_request_def callbacks_def)

lemma keep_pop:
  assumes k: "keep_mode b C s" and ready: "terminal_ready s = i # rest"
    and gone: "\<And>r. find_request i s = Some r \<Longrightarrow> stage r = Terminal \<Longrightarrow> b \<and> \<not> observer_enabled s"
  shows "keep_mode b C (pop_marker s)"
proof -
  have inv: "base_inv s" using k by (simp add: keep_mode_def keep_def sched_inv_def)
  have found: "find_request (req_id x) s = Some x" if "x \<in> set (live_requests s)" for x
    using find_unique_key [OF request_ids_distinct [OF inv] that] by (simp add: find_request_def)
  have "queues_inv (pop_marker s)"
    unfolding queues_inv_def
  proof (intro conjI ballI impI)
    fix x
    assume x: "x \<in> set (live_requests (pop_marker s))"
    then have x': "x \<in> set (live_requests s)" by (simp add: pop_marker_def)
    { assume "unsent x"
      then show "req_id x \<in> adm_id ` set (pending_admissions (pop_marker s))"
        using inv x' by (simp add: base_inv_def queues_inv_def pop_marker_def) }
    { assume t: "stage x = Terminal"
      then have "req_id x \<in> set (terminal_ready s) \<or> terminal_marker_recovery_needed s \<or>
          streaming_retirement s \<and> \<not> observer_enabled s"
        using inv x' by (simp add: base_inv_def queues_inv_def)
      moreover have "req_id x = i \<Longrightarrow> b \<and> \<not> observer_enabled s" using gone [of x] found [OF x'] t by simp
      ultimately show "req_id x \<in> set (terminal_ready (pop_marker s)) \<or>
          terminal_marker_recovery_needed (pop_marker s) \<or>
          streaming_retirement (pop_marker s) \<and> \<not> observer_enabled (pop_marker s)"
        using ready k by (auto simp: pop_marker_def keep_mode_def) }
  qed
  then show ?thesis using k
    by (simp add: keep_mode_def keep_def sched_inv_def base_inv_def ids_inv_def all_ids_def
        requests_inv_def counts_inv_def drained_def callbacks_def pop_marker_def)
qed

text \<open>Erasing a terminal request, with (\<open>h\<close> the request) or without adding it to the history.\<close>
lemma keep_erase:
  assumes k: "keep_mode b C s" and r: "find_request i s = Some r" and t: "stage r = Terminal"
    and h: "s' = s\<lparr>completed_history := completed_history s @ (if b then [] else [r])\<rparr>"
  shows "keep_mode b C (erase_request i s') \<and> find_request i (erase_request i s') = None"
proof -
  have inv: "base_inv s" using k by (simp add: keep_mode_def keep_def sched_inv_def)
  obtain as bs where split: "live_requests s = as @ r # bs" "live_requests (erase_request i s) = as @ bs"
    "req_id r = i" "\<forall>x \<in> set (as @ bs). req_id x \<noteq> i"
    using erase_split [OF inv r] by blast
  have live: "live_requests (erase_request i s') = as @ bs"
    using split(2) by (simp add: h erase_request_def)
  have ok: "request_ok r" by (rule find_request_ok [OF inv r])
  then have no: "\<not> waiting r" "\<not> owned r" using t by (auto simp: request_ok_def waiting_def owned_def)
  have sub: "set (as @ bs) \<subseteq> set (live_requests s)" using split(1) by auto
  have mode: "streaming_retirement s = b" using k by (simp add: keep_mode_def)
  have ids: "ids_inv (erase_request i s')"
  proof (cases b)
    case True
    have "all_ids s = map req_id (completed_history s @ as) @ i # map req_id bs"
      "all_ids (erase_request i s') = map req_id (completed_history s @ as) @ map req_id bs"
      using True split(1,3) live by (simp_all add: all_ids_def h)
    then show ?thesis using inv True mode by (auto simp: base_inv_def ids_inv_def h)
  next
    case False
    have "all_ids s = map req_id (completed_history s) @ map req_id as @ i # map req_id bs"
      "all_ids (erase_request i s') = map req_id (completed_history s) @ i # map req_id as @ map req_id bs"
      using False split(1,3) live by (simp_all add: all_ids_def h)
    then show ?thesis using inv False mode by (auto simp: base_inv_def ids_inv_def h)
  qed
  have reqs: "requests_inv (erase_request i s')"
    using inv sub ok t live by (auto simp: base_inv_def requests_inv_def h)
  have counts: "counts_inv (erase_request i s')"
    using inv no live by (simp add: base_inv_def counts_inv_def split(1) h)
  have queues: "queues_inv (erase_request i s')"
    using inv sub live unfolding base_inv_def queues_inv_def h by simp blast
  have "drained (erase_request i s')"
    using k sub live by (auto simp: keep_mode_def keep_def sched_inv_def drained_def h)
  moreover have "find_request i (erase_request i s') = None"
    using split(4) live by (auto simp: find_request_def find_None_iff)
  moreover have "callbacks (erase_request i s') = C" "streaming_retirement (erase_request i s') = b"
    using k by (simp_all add: keep_mode_def keep_def callbacks_def erase_request_def h)
  ultimately show ?thesis using ids reqs counts queues
    by (simp only: keep_mode_def keep_def sched_inv_def base_inv_def simp_thms)
qed

lemma keep_erase_pop:
  assumes k: "keep_mode b C s" and r: "find_request i s = Some r" and t: "stage r = Terminal"
    and ready: "terminal_ready s = i # rest"
    and h: "s' = s\<lparr>completed_history := completed_history s @ (if b then [] else [r])\<rparr>"
  shows "keep_mode b C (pop_marker (erase_request i s'))"
  using keep_erase [OF k r t h] ready by (intro keep_pop [of b C _ i rest]) (simp_all add: h)

section \<open>A failing observer\<close>

lemma drain_request_flags:
  "drain_request i s = (r, s') \<Longrightarrow> streaming_retirement s' = streaming_retirement s \<and>
     observer_enabled s' = observer_enabled s"
  by (auto simp: drain_request_def finish_without_release_def move_to_pending_release_def
      queue_terminal_marker_def decrement_queued_def op_defs Let_def
      split: option.splits if_splits AdmissionOwnership.splits)

lemma for_each_drain_flags:
  "for_each drain_request is s = (r, s') \<Longrightarrow> streaming_retirement s' = streaming_retirement s \<and>
     observer_enabled s' = observer_enabled s"
  by (induction "is" arbitrary: s)
    (auto simp: op_defs split: prod.splits sum.splits dest!: drain_request_flags)

lemma enter_draining_flags:
  "enter_draining e s = (r, s') \<Longrightarrow> streaming_retirement s' = streaming_retirement s \<and>
     observer_enabled s' = observer_enabled s"
  by (auto simp: enter_draining_def op_defs split: if_splits prod.splits sum.splits
      dest!: for_each_drain_flags)

lemma enter_draining_mode:
  assumes "keep_mode b C s"
  shows "\<exists>s'. enter_draining e s = (Inr (), s') \<and> keep_mode b C s' \<and> draining s' \<and>
    observer_enabled s' = observer_enabled s"
proof -
  obtain r s' where d: "enter_draining e s = (r, s')" by (cases "enter_draining e s")
  have k: "keep C s" using assms by (simp add: keep_mode_def)
  have "r = Inr () \<and> keep C s' \<and> draining s'"
    using triple_Inl [OF triple_enter_draining [of C e] k] triple_Inr [OF triple_enter_draining [of C e] k] d
    by (cases r) auto
  then show ?thesis using enter_draining_flags [OF d] d assms by (simp add: keep_mode_def)
qed

lemma keep_observer_failed: "keep_mode b C s \<Longrightarrow> keep_mode b C (observer_failed s)"
  by (auto simp: keep_mode_def keep_def sched_inv_def inv_defs all_ids_def drained_def callbacks_def
      observer_failed_def)

section \<open>The loop\<close>

lemma retire_loop_keep:
  assumes "keep_mode b C s"
  shows "\<exists>s'. retire_loop tid s = (Inr (), s') \<and> keep_mode b C s' \<and> terminal_ready s' = []"
  using assms
proof (induction tid s rule: retire_loop.induct)
  case (1 tid s)
  show ?case
  proof (cases "terminal_ready s")
    case Nil
    then show ?thesis using "1.prems" by (simp add: retire_loop.simps)
  next
    case (Cons i rest)
    note unfold = retire_loop.simps [of tid s] and head = Cons
    have mode: "streaming_retirement s = b" using "1.prems" by (simp add: keep_mode_def)
    show ?thesis
    proof (cases "find_request i s")
      case None
      have "keep_mode b C (pop_marker s)" by (rule keep_pop [OF "1.prems" head]) (use None in simp)
      then show ?thesis using "1.IH"(1) [OF head None] unfold head None by simp
    next
      case r: (Some r)
      show ?thesis
      proof (cases "stage r = Terminal")
        case False
        have "keep_mode b C (pop_marker s)" by (rule keep_pop [OF "1.prems" head]) (use r False in simp)
        then show ?thesis using "1.IH"(2) [OF head r] unfold head r False by simp
      next
        case t: True
        show ?thesis
        proof (cases b)
          case False
          let ?s = "s\<lparr>completed_history := completed_history s @ [r]\<rparr>"
          have "keep_mode b C (pop_marker (erase_request i ?s))"
            by (rule keep_erase_pop [OF "1.prems" r t head]) (use False in simp)
          then show ?thesis using "1.IH"(8) [OF head r] unfold head r t mode False by simp
        next
          case str: True
          show ?thesis
          proof (cases "observer_enabled s")
            case False
            have "keep_mode b C (pop_marker s)" by (rule keep_pop [OF "1.prems" head]) (use str False in simp)
            then show ?thesis using "1.IH"(3) [OF head r] unfold head r t mode str False by simp
          next
            case on: True
            obtain seen s1 where n: "notify_terminal tid r s = (seen, s1)" by (cases "notify_terminal tid r s")
            have k1: "keep_mode b C s1" using notify_keep [OF _ n] "1.prems" str by simp
            have ready1: "terminal_ready s1 = i # rest" using notify_frame [OF n] head by simp
            show ?thesis
            proof (cases seen)
              case False
              obtain s2 where d: "enter_draining EnvironmentStopped (observer_failed s1) = (Inr (), s2)"
                "keep_mode b C s2" "\<not> observer_enabled s2"
                using enter_draining_mode [OF keep_observer_failed [OF k1]] by (auto simp: observer_failed_def)
              have "keep_mode b C (pop_marker s2)"
              proof (cases "terminal_ready s2")
                case Nil
                then have "pop_marker s2 = s2"
                  by (intro Scheduler.equality) (simp_all add: pop_marker_def)
                then show ?thesis using d(2) by simp
              next
                case (Cons j js)
                show ?thesis by (rule keep_pop [OF d(2) Cons]) (use str d(3) in simp)
              qed
              then show ?thesis using "1.IH"(4) [OF head r] unfold head r t mode str on n False d(1) by simp
            next
              case seen: True
              show ?thesis
              proof (cases "find_request i s1")
                case None
                have "keep_mode b C (pop_marker s1)" by (rule keep_pop [OF k1 ready1]) (use None in simp)
                then show ?thesis using "1.IH"(5) [OF head r] unfold head r t mode str on n seen None by simp
              next
                case r1: (Some r1)
                show ?thesis
                proof (cases "stage r1 = Terminal")
                  case False
                  have "keep_mode b C (pop_marker s1)" by (rule keep_pop [OF k1 ready1]) (use r1 False in simp)
                  then show ?thesis using "1.IH"(6) [OF head r] unfold head r t mode str on n seen r1 False by simp
                next
                  case t1: True
                  have "keep_mode b C (pop_marker (erase_request i s1))"
                    by (rule keep_erase_pop [OF k1 r1 t1 ready1]) (use str in simp)
                  then show ?thesis using "1.IH"(7) [OF head r] unfold head r t mode str on n seen r1 t1 by simp
                qed
              qed
            qed
          qed
        qed
      qed
    qed
  qed
qed

end
