(* ===== verification/Scheduler_Iteration.thy ===== *)
theory Scheduler_Iteration
  imports Scheduler_Retire2
begin

text \<open>The invariant through a whole iteration of the scheduler, and where its exceptions come from.\<close>

section \<open>Recovering markers and taking messages\<close>

lemma recovered_markers:
  "set (fold (\<lambda>r ready. if stage r \<noteq> Terminal then ready
        else if req_id r \<in> set ready then ready else ready @ [req_id r]) rs ready) =
     set ready \<union> req_id ` {r \<in> set rs. stage r = Terminal}"
  by (induction rs arbitrary: ready) auto

lemma keep_recover:
  assumes "keep_mode b C s"
  shows "keep_mode b C (recover_terminal_markers s)"
proof (cases "terminal_marker_recovery_needed s")
  case False
  then show ?thesis using assms by (simp add: recover_terminal_markers_def)
next
  case True
  have "queues_inv (recover_terminal_markers s)"
    using assms True by (auto simp: keep_mode_def keep_def sched_inv_def base_inv_def queues_inv_def
        recover_terminal_markers_def recovered_markers)
  then show ?thesis using assms True
    by (simp add: keep_mode_def keep_def sched_inv_def base_inv_def ids_inv_def all_ids_def
        requests_inv_def counts_inv_def drained_def callbacks_def recover_terminal_markers_def)
qed

lemma retire_keep:
  assumes "keep_mode b C s"
  shows "\<exists>s'. retire_terminal_requests tid s = (Inr (), s') \<and> keep_mode b C s' \<and> terminal_ready s' = []"
  unfolding retire_terminal_requests_def by (rule retire_loop_keep [OF keep_recover [OF assms]])

lemma triple_retire: "triple (keep C) (retire_terminal_requests tid) (\<lambda>_. keep C) (\<lambda>_ _. False)"
proof -
  have "\<exists>s'. retire_terminal_requests tid s = (Inr (), s') \<and> keep C s'" if "keep C s" for s
    using retire_keep [of "streaming_retirement s" C s tid] that by (auto simp: keep_mode_def)
  then show ?thesis by (fastforce intro: tripleI)
qed

lemma triple_take_messages:
  fixes C :: "'x callbacks" and pol :: "'p Policy"
  shows "triple (keep C) (take_messages pol tid) (\<lambda>_. keep C) (\<lambda>e _. timing_throws pol e)"
  unfolding take_messages_def
proof (rule triple_seq_ops)
  fix m :: "('x, 'p, unit) sched_op"
  have weak: "triple (keep C) n (\<lambda>_. keep C) (\<lambda>_ _. False) \<Longrightarrow>
      triple (keep C) n (\<lambda>_. keep C) (\<lambda>e _. timing_throws pol e)" for n :: "('x, 'p, unit) sched_op"
    by (erule triple_weaken) auto
  assume "m \<in> set [drain_admission_results, drain_outputs, drain_completions pol, drain_release_acks pol,
      drain_fatals, modify_op retry_releases, retire_terminal_requests tid]"
  then consider "m = drain_admission_results" | "m = drain_outputs" | "m = drain_completions pol"
    | "m = drain_release_acks pol" | "m = drain_fatals" | "m = modify_op retry_releases"
    | "m = retire_terminal_requests tid" by auto
  then show "triple (keep C) m (\<lambda>_. keep C) (\<lambda>e _. timing_throws pol e)"
  proof cases
    case 1
    then show ?thesis unfolding drain_admission_results_def
      by (simp add: triple_drain_channel weak triple_on_admission_result)
  next
    case 2
    then show ?thesis unfolding drain_outputs_def by (simp add: triple_drain_channel weak triple_on_output)
  next
    case 3
    then show ?thesis unfolding drain_completions_def
      by (simp add: triple_drain_channel triple_on_completion)
  next
    case 4
    then show ?thesis unfolding drain_release_acks_def
      by (simp add: triple_drain_channel triple_on_release_ack)
  next
    case 5
    then show ?thesis unfolding drain_fatals_def by (simp add: triple_drain_channel weak triple_on_fatal)
  next
    case 6
    then show ?thesis by (simp add: triple_modify keep_retry)
  next
    case 7
    then show ?thesis by (simp add: weak triple_retire)
  qed
qed

section \<open>Completed batches\<close>

text \<open>What \<open>run_once\<close> may throw.\<close>
definition run_throws :: "'x callbacks \<Rightarrow> 'p Policy \<Rightarrow> exn \<Rightarrow> bool" where
  "run_throws C pol e \<longleftrightarrow> callback_throws C pol e \<or>
     e = Runtime_error ''scheduler decision clock moved backwards''"

lemma timing_run_throws: "timing_throws pol e \<Longrightarrow> run_throws C pol e"
  by (cases C) (auto simp: timing_throws_def run_throws_def)

lemma workload_run_throws: "workload_throws C e \<Longrightarrow> run_throws C pol e"
  by (cases C) (auto simp: workload_throws_def run_throws_def)

lemma triple_call_stored:
  assumes "keep C s" "call_world f s = (r, s')" "\<And>x e. fst (f x) = Inl e \<Longrightarrow> E e"
  shows "keep C s' \<and> (\<forall>e. r = Inl e \<longrightarrow> E e)"
  using assms by (auto simp: call_world_def Let_def split: prod.splits) (metis fst_conv)

lemma triple_now: "triple (keep C) now (\<lambda>_. keep C) (\<lambda>e s. run_throws C pol e)"
proof -
  have "keep C s' \<and> (\<forall>e. r = Inl e \<longrightarrow> run_throws C pol e)" if k: "keep C s" and n: "now s = (r, s')" for s r s'
    by (rule triple_call_stored [OF k n [unfolded now_def]])
      (use k in \<open>auto simp: keep_def callbacks_def run_throws_def\<close>)
  then show ?thesis by (fastforce intro: tripleI)
qed

lemma triple_decision_now: "triple (keep C) decision_now (\<lambda>_. keep C) (\<lambda>e s. run_throws C pol e)"
proof -
  have "keep C s' \<and> (\<forall>e. r = Inl e \<longrightarrow> run_throws C pol e)"
    if k: "keep C s" and n: "decision_now s = (r, s')" for s r s'
    by (rule triple_call_stored [OF k n [unfolded decision_now_def]])
      (use k in \<open>auto simp: keep_def callbacks_def run_throws_def\<close>)
  then show ?thesis by (fastforce intro: tripleI)
qed

lemma triple_policy_call:
  assumes "\<And>v p e. fst (f v p) = Inl e \<Longrightarrow> run_throws C pol e"
  shows "triple (keep C) (call_policy f) (\<lambda>_. keep C) (\<lambda>e _. run_throws C pol e)"
  using triple_call_policy [of f "run_throws C pol" C] assms by simp

lemma triple_complete_batch:
  fixes C :: "'x callbacks" and pol :: "'p Policy"
  shows "triple (keep C) (complete_batch pol d) (\<lambda>_. keep C) (\<lambda>e _. run_throws C pol e)"
proof (rule triple_state)
  fix s0 :: "('x, 'p) Scheduler"
  assume k: "keep C s0"
  show "triple (\<lambda>s. s = s0) (complete_batch pol d) (\<lambda>_. keep C) (\<lambda>e _. run_throws C pol e)"
  proof (cases "d \<and> published_epoch s0 \<noteq> 0 \<and> observed_epoch s0 < published_epoch s0")
    case False
    then show ?thesis using k by (auto simp: triple_def complete_batch_def run_simps)
  next
    case True
    define notify :: "('x, 'p, unit) sched_op" where
      "notify = (\<lambda>s. case batch_observer s of None \<Rightarrow> ok () s | Some f \<Rightarrow> call_world (f (batch_outcome s0)) s)"
    have obs: "triple (keep C) notify (\<lambda>_. keep C) (\<lambda>e _. run_throws C pol e)"
    proof -
      have "keep C s' \<and> (\<forall>e. r = Inl e \<longrightarrow> run_throws C pol e)" if k: "keep C s" and n: "notify s = (r, s')" for s r s'
      proof (cases "batch_observer s")
        case None
        then show ?thesis using k n by (auto simp: notify_def run_simps)
      next
        case (Some f)
        then have "call_world (f (batch_outcome s0)) s = (r, s')" using n by (simp add: notify_def)
        then show ?thesis
          by (rule triple_call_stored [OF k]) (use k Some in \<open>auto simp: keep_def callbacks_def run_throws_def\<close>)
      qed
      then show ?thesis by (fastforce intro: tripleI)
    qed
    have plan: "triple (keep C) (call_policy (\<lambda>v. on_plan_completed pol v (batch_outcome s0))) (\<lambda>_. keep C)
        (\<lambda>e _. run_throws C pol e)"
      by (rule triple_policy_call) (cases C; auto simp: run_throws_def)
    have core: "triple (keep C) (modify_op (\<lambda>s. s\<lparr>observed_epoch := published_epoch s\<rparr>)) (\<lambda>_. keep C)
        (\<lambda>e _. run_throws C pol e)"
      by (rule triple_core) simp
    have "complete_batch pol d s0 = then_op (modify_op (\<lambda>s. s\<lparr>observed_epoch := published_epoch s\<rparr>))
        (then_op (call_policy (\<lambda>v. on_plan_completed pol v (batch_outcome s0))) notify) s0"
      using True by (simp add: complete_batch_def Let_def notify_def)
    then show ?thesis using k triple_then [OF core triple_then [OF plan obs]] by (simp add: triple_def)
  qed
qed

section \<open>Publication\<close>

lemma find_update_request_other:
  assumes "\<And>r. req_id (f r) = req_id r"
  shows "find_request j (update_request i f s) =
    (if i = j then map_option f (find_request j s) else find_request j s)"
proof -
  have "find (\<lambda>r. req_id r = j) (update_first (\<lambda>r. req_id r = i) f xs) =
    (if i = j then map_option f (find (\<lambda>r. req_id r = j) xs) else find (\<lambda>r. req_id r = j) xs)" for xs
    using assms by (induction xs) auto
  then show ?thesis by (simp add: find_request_def update_request_def)
qed

lemma core_find: "core s' = core s \<Longrightarrow> find_request i s' = find_request i s"
  by (simp add: core_def find_request_def)

definition startable :: "('x, 'p) Scheduler \<Rightarrow> WorkItem \<Rightarrow> bool" where
  "startable s w \<longleftrightarrow> (\<exists>r. find_request (work_id w) s = Some r \<and> is_schedulable r)"

definition starting :: "'x callbacks \<Rightarrow> WorkItem list \<Rightarrow> ('x, 'p) Scheduler \<Rightarrow> bool" where
  "starting C ws s \<longleftrightarrow> keep C s \<and> (\<forall>w \<in> set ws. startable s w)"

lemma core_starting: "core s' = core s \<Longrightarrow> starting C ws s' = starting C ws s"
  using core_keep [of s' s C] core_find [of s' s] by (simp add: starting_def startable_def)

lemma start_work_keep:
  assumes k: "starting C (w # ws) s"
  shows "\<exists>s'. start_work w s = (Inr (), s') \<and> starting C ws s'"
proof -
  define s1 where "s1 = (if work_kind w = Prefill
    then s\<lparr>published_prefill_tokens := published_prefill_tokens s + token_count w\<rparr>
    else s\<lparr>published_decode_items := published_decode_items s + 1\<rparr>)"
  have "core s1 = core s" by (simp add: s1_def)
  then have k1: "starting C (w # ws) s1" using k core_starting by blast
  obtain r where r: "find_request (work_id w) s1 = Some r" "is_schedulable r"
    using k1 by (auto simp: starting_def startable_def)
  let ?f = "\<lambda>r. r\<lparr>start_time := published_plan_start s1, start_recorded := True\<rparr>"
  let ?s2 = "update_request (work_id w) ?f s1"
  have "start_work w s = (case find_request (work_id w) s1 of
              None \<Rightarrow> ok () s1
            | Some r \<Rightarrow>
                if start_recorded r then ok () s1
                else then_op (modify_op (update_request (work_id w)
                       (\<lambda>r. r\<lparr>start_time := published_plan_start s1, start_recorded := True\<rparr>)))
                     decrement_queued s1)"
    by (simp only: start_work_def then_simps s1_def)
  then have run: "start_work w s = (if start_recorded r then ok () s1 else decrement_queued ?s2)"
    by (simp add: r(1))
  show ?thesis
  proof (cases "start_recorded r")
    case True
    then show ?thesis using run k1 by (simp add: run_simps starting_def)
  next
    case False
    have kk: "keep C s1" using k1 by (simp add: starting_def)
    note b = keep_base [OF kk]
    have w: "waiting r" using False r(2) by (auto simp: waiting_def is_schedulable_def)
    note ne = queued_positive [OF b r(1) w]
    let ?s3 = "?s2\<lparr>workload_counts := (workload_counts s1)\<lparr>queued_count := queued_count (workload_counts s1) - 1\<rparr>\<rparr>"
    have run2: "start_work w s = (Inr (), ?s3)"
      using run False ne by (simp add: decrement_queued_def run_simps)
    have "base_inv ?s3"
      by (rule base_inv_update [OF b r(1), where f = ?f])
        (use w r(2) find_request_ok [OF b r(1)] unat_minus_1 [OF ne]
          in \<open>auto simp: waiting_def owned_def unsent_def request_ok_def is_schedulable_def prefill_done_def\<close>)
    moreover have "draining s1 \<Longrightarrow> \<not> is_schedulable (?f r)"
      using keep_drained [OF kk] find_request_SomeD [OF r(1)] by (auto simp: is_schedulable_def)
    ultimately have k3: "keep C ?s3"
      by (intro keep_update_request [OF kk r(1), where f = ?f]) (simp_all add: callbacks_def)
    have "startable ?s3 v" if "v \<in> set ws" for v
    proof -
      have "startable s1 v" using that k1 by (simp add: starting_def)
      then have "startable ?s2 v"
        by (auto simp: startable_def find_update_request_other is_schedulable_def)
      then show ?thesis by (simp add: startable_def find_request_def)
    qed
    then show ?thesis using run2 k3 by (simp add: starting_def)
  qed
qed

lemma triple_start_work:
  "triple (starting C (w # ws)) (start_work w) (\<lambda>_. starting C ws) (\<lambda>_ _. False)"
  using start_work_keep by (fastforce intro!: tripleI)

lemma valid_item_schedulable: "valid_item r w \<Longrightarrow> is_schedulable r"
  by (auto simp: valid_item_def is_schedulable_def split: WorkKind.splits)

lemma publish_plan_keep:
  assumes k: "keep C s" and v: "err_valid (validate_plan ws s)"
  shows "\<exists>s'. publish_plan ws s = (Inr (), s') \<and> keep C s'"
proof -
  have st: "starting C ws s"
    using k v valid_item_schedulable by (force simp: starting_def startable_def validate_plan_spec valid_plan_def)
  obtain e h where c: "commit (handoff s) = (e, h)" by (cases "commit (handoff s)")
  show ?thesis
  proof (cases "e = 0")
    case True
    then show ?thesis using k c by (simp add: publish_plan_def run_simps)
  next
    case False
    define s1 where "s1 = s\<lparr>handoff := h, published_epoch := e, published_plan_start := current_time s,
      published_prefill_tokens := 0, published_decode_items := 0,
      published_work_items := of_nat (length ws), published_plan_success := True\<rparr>"
    have run: "publish_plan ws s = for_each start_work ws s1"
      using c False by (simp add: publish_plan_def s1_def)
    have "core s1 = core s" by (simp add: s1_def core_def callbacks_def)
    then have "starting C ws s1" using st core_starting by blast
    then show ?thesis
      using triple_for_each_rest [where I = "starting C", OF triple_start_work, of ws]
      unfolding run triple_def by (fastforce simp: starting_def split: sum.splits prod.splits)
  qed
qed

lemma triple_judge_plan:
  fixes C :: "'x callbacks" and pol :: "'p Policy"
  shows "triple (keep C :: ('x, 'p) Scheduler \<Rightarrow> bool) (judge_plan rp ws) (\<lambda>_. keep C) (\<lambda>e _. run_throws C pol e)"
proof -
  have drain: "\<exists>s'. enter_draining e s = (Inr (), s') \<and> keep C s'" if "keep C s"
    for e and s :: "('x, 'p) Scheduler"
    using enter_draining_mode [of "streaming_retirement s" C s e] that by (auto simp: keep_mode_def)
  have "\<exists>s'. judge_plan rp ws s = (Inr (), s') \<and> keep C s'" if k: "keep C s"
    for s :: "('x, 'p) Scheduler"
  proof (cases "ws = []")
    case True
    obtain s' where "enter_draining ProtocolViolation (s\<lparr>last_error := no_work_error (last_error s)\<rparr>) = (Inr (), s')"
      "keep C s'"
      using drain [of "s\<lparr>last_error := no_work_error (last_error s)\<rparr>"] k by auto
    then show ?thesis using True k keep_retry [of C s']
      by (simp add: judge_plan_def then_op_def bind_op_def run_simps)
  next
    case ne: False
    show ?thesis
    proof (cases "err_valid (validate_plan ws s)")
      case True
      then show ?thesis using publish_plan_keep [OF k] ne by (simp add: judge_plan_def)
    next
      case False
      then show ?thesis using drain [of "s\<lparr>last_error := validate_plan ws s\<rparr>"] k ne
        by (auto simp: judge_plan_def)
    qed
  qed
  then show ?thesis by (fastforce intro: tripleI)
qed

section \<open>The iteration\<close>

lemma triple_finish_iteration:
  fixes C :: "'x callbacks" and pol :: "'p Policy"
  shows "triple (keep C :: ('x, 'p) Scheduler \<Rightarrow> bool) (finish_iteration b) (\<lambda>_. keep C) (\<lambda>e _. run_throws C pol e)"
proof (rule triple_state)
  fix s0 :: "('x, 'p) Scheduler"
  assume k: "keep C s0"
  let ?m = "streaming_retirement s0"
  have "triple (keep_mode ?m C :: ('x, 'p) Scheduler \<Rightarrow> bool) (then_op (publish_workload_counts (current_time s0)) (ok b))
      (\<lambda>_. keep_mode ?m C) (\<lambda>e s. workload_throws C e \<and> keep_mode ?m C s)"
    by (rule triple_then [OF triple_publish_counts]) (simp add: triple_ok)
  then have "triple (\<lambda>s. s = s0) (finish_iteration b) (\<lambda>_. keep_mode ?m C)
      (\<lambda>e s. workload_throws C e \<and> keep_mode ?m C s)"
    using k by (simp add: triple_def finish_iteration_def keep_mode_def)
  then show "triple (\<lambda>s. s = s0) (finish_iteration b) (\<lambda>_. keep C) (\<lambda>e _. run_throws C pol e)"
    by (rule triple_weaken) (simp_all add: keep_mode_def workload_run_throws)
qed

lemma triple_make_plan:
  fixes C :: "'x callbacks" and pol :: "'p Policy"
  shows "triple (keep C) (make_plan pol) (\<lambda>_. keep C) (\<lambda>e _. run_throws C pol e)"
proof -
  have bp: "triple (keep C) (call_policy (build_plan pol)) (\<lambda>_. keep C) (\<lambda>e _. run_throws C pol e)"
    by (rule triple_policy_call) (cases C; auto simp: run_throws_def)
  have last: "triple (keep C) (if t1 < t0 then throw (Runtime_error ''scheduler decision clock moved backwards'')
      else then_op (modify_op (\<lambda>s. s\<lparr>decision_times_ns := decision_times_ns s @ [word_of_int (t1 - t0)]\<rparr>)) (ok ws))
      (\<lambda>_. keep C) (\<lambda>e _. run_throws C pol e)" for t0 t1 :: int and ws :: "WorkItem list"
  proof (cases "t1 < t0")
    case True
    then show ?thesis by (simp add: triple_throw run_throws_def)
  next
    case False
    have "triple (keep C) (then_op (modify_op (\<lambda>s. s\<lparr>decision_times_ns := decision_times_ns s @ [word_of_int (t1 - t0)]\<rparr>)) (ok ws))
      (\<lambda>_. keep C) (\<lambda>e _. run_throws C pol e)"
      by (rule triple_then [OF triple_core triple_ok]) simp_all
    then show ?thesis using False by simp
  qed
  show ?thesis unfolding make_plan_def
    by (rule triple_then [OF triple_core triple_bind [OF triple_decision_now triple_bind [OF bp
          triple_then [OF triple_core triple_bind [OF triple_decision_now last]]]]]) simp_all
qed

lemma triple_decide:
  fixes C :: "'x callbacks" and pol :: "'p Policy"
  shows "triple (keep C) (decide pol) (\<lambda>_. keep C) (\<lambda>e _. run_throws C pol e)"
proof (rule triple_state)
  fix s0 :: "('x, 'p) Scheduler"
  assume k: "keep C s0"
  let ?rp = "list_ex (\<lambda>r. stage r = PendingRelease) (live_requests s0)"
  have "triple (keep C) (bind_op (make_plan pol) (\<lambda>ws. then_op (judge_plan ?rp ws) (finish_iteration True)))
      (\<lambda>_. keep C) (\<lambda>e _. run_throws C pol e)"
    by (rule triple_bind [OF triple_make_plan triple_then [OF triple_judge_plan triple_finish_iteration]])
  then show "triple (\<lambda>s. s = s0) (decide pol) (\<lambda>_. keep C) (\<lambda>e _. run_throws C pol e)"
    using k triple_finish_iteration [of C True pol] by (simp add: triple_def decide_def Let_def)
qed

lemma triple_after_snapshot:
  fixes C :: "'x callbacks" and pol :: "'p Policy"
  shows "triple (keep C) (after_snapshot pol tid d) (\<lambda>_. keep C) (\<lambda>e _. run_throws C pol e)"
proof -
  have take: "triple (keep C) (take_messages pol tid) (\<lambda>_. keep C) (\<lambda>e _. run_throws C pol e)"
    by (rule triple_weaken [OF triple_take_messages]) (auto intro: timing_run_throws)
  have rest: "triple (keep C) (\<lambda>s. if all_terminal s then finish_iteration False s
           else if draining s \<or> \<not> d then finish_iteration True s
           else decide pol s) (\<lambda>_. keep C) (\<lambda>e _. run_throws C pol e)"
    using triple_finish_iteration [of C False pol] triple_finish_iteration [of C True pol] triple_decide [of C pol]
    by (simp add: triple_def)
  show ?thesis unfolding after_snapshot_def
    by (rule triple_then [OF take triple_then [OF triple_complete_batch rest]])
qed

lemma triple_run_once:
  fixes C :: "'x callbacks" and pol :: "'p Policy"
  shows "triple (keep C) (run_once pol tid) (\<lambda>_. keep C) (\<lambda>e _. run_throws C pol e)"
proof -
  have stop: "triple (keep C :: ('x, 'p) Scheduler \<Rightarrow> bool) observe_stop (\<lambda>_. keep C) (\<lambda>e _. run_throws C pol e)"
  proof -
    have "triple (keep C :: ('x, 'p) Scheduler \<Rightarrow> bool) (enter_draining EnvironmentStopped) (\<lambda>_. keep C) (\<lambda>e _. run_throws C pol e)"
      by (rule triple_weaken [OF triple_enter_draining]) auto
    then show ?thesis by (simp add: triple_def observe_stop_def run_simps)
  qed
  have flush: "triple (keep C :: ('x, 'p) Scheduler \<Rightarrow> bool) (modify_op (\<lambda>s. if draining s then s else flush_pending_admissions s)) (\<lambda>_. keep C)
      (\<lambda>e _. run_throws C pol e)"
    by (rule triple_modify) (simp add: keep_flush)
  have snap: "triple (keep C :: ('x, 'p) Scheduler \<Rightarrow> bool) (\<lambda>s. after_snapshot pol tid (completed_epoch (handoff s) \<ge> published_epoch s) s)
      (\<lambda>_. keep C) (\<lambda>e _. run_throws C pol e)"
    using triple_after_snapshot [of C pol tid] by (simp add: triple_def)
  show ?thesis unfolding run_once_def
    by (rule triple_then [OF triple_core triple_bind [OF triple_now triple_then [OF triple_core
          triple_then [OF stop triple_then [OF flush snap]]]]]) simp_all
qed

end
