(* ===== verification/Scheduler_Safety.thy ===== *)
theory Scheduler_Safety
  imports Scheduler_Iteration
begin

text \<open>
  The scheduler driven by its caller and by an arbitrary environment: between two operations
  the handoff may change in any way at all, so the properties below do not rely on the
  environment following the protocol.
\<close>

section \<open>Reachable schedulers\<close>

inductive scheduler_reachable :: "'p Policy \<Rightarrow> ('x, 'p) Scheduler \<Rightarrow> bool" for pol where
  construct: "new_scheduler c h budget clk x p = Inr s \<Longrightarrow> scheduler_reachable pol s"
| environment: "scheduler_reachable pol s \<Longrightarrow> scheduler_reachable pol (s\<lparr>handoff := h\<rparr>)"
| outside: "scheduler_reachable pol s \<Longrightarrow> scheduler_reachable pol (s\<lparr>world := x\<rparr>)"
| submission: "scheduler_reachable pol s \<Longrightarrow> submit_admission tid a s = (Inr i, s') \<Longrightarrow>
    scheduler_reachable pol s'"
| streaming: "scheduler_reachable pol s \<Longrightarrow> enable_streaming_retirement f s = (Inr (), s') \<Longrightarrow>
    scheduler_reachable pol s'"
| workload: "scheduler_reachable pol s \<Longrightarrow> set_workload_observer wo s = (Inr (), s') \<Longrightarrow>
    scheduler_reachable pol s'"
| batch: "scheduler_reachable pol s \<Longrightarrow> set_batch_observer bo s = (Inr (), s') \<Longrightarrow>
    scheduler_reachable pol s'"
| clocks: "scheduler_reachable pol s \<Longrightarrow>
    set_clock cl s = (Inr (), s') \<or> set_decision_clock cl s = (Inr (), s') \<Longrightarrow> scheduler_reachable pol s'"
| iteration: "scheduler_reachable pol s \<Longrightarrow> run_once pol tid s = (Inr b, s') \<Longrightarrow>
    scheduler_reachable pol s'"
| stop: "scheduler_reachable pol s \<Longrightarrow> scheduler_reachable pol (request_stop s)"
| inspection: "scheduler_reachable pol s \<Longrightarrow> requests s = (Inr rs, s') \<Longrightarrow> scheduler_reachable pol s'"

text \<open>The parts of a scheduler that \<open>sched_inv\<close> reads, without the callbacks.\<close>
lemma sched_inv_cong:
  assumes "live_requests s' = live_requests s" "completed_history s' = completed_history s"
    "pending_admissions s' = pending_admissions s" "terminal_ready s' = terminal_ready s"
    "terminal_marker_recovery_needed s' = terminal_marker_recovery_needed s"
    "next_request_id s' = next_request_id s" "draining s' = draining s"
    "streaming_retirement s' = streaming_retirement s" "observer_enabled s' = observer_enabled s"
    "workload_counts s' = workload_counts s"
  shows "sched_inv s' = sched_inv s"
  using assms by (simp add: sched_inv_def inv_defs all_ids_def drained_def)

lemma new_scheduler_inv: "new_scheduler c h budget clk x p = Inr s \<Longrightarrow> sched_inv s"
  by (auto simp: new_scheduler_def sched_inv_def inv_defs all_ids_def drained_def split: if_splits)

lemma streaming_inv:
  assumes "sched_inv s" "enable_streaming_retirement f s = (Inr (), s')"
  shows "sched_inv s'"
  using assms
  by (auto simp: enable_streaming_retirement_def begin_nonconst_operation_def run_simps sched_inv_def
      inv_defs all_ids_def drained_def Let_def split: if_splits option.splits)

lemma scheduler_reachable_inv: "scheduler_reachable pol s \<Longrightarrow> sched_inv s"
proof (induction rule: scheduler_reachable.induct)
  case (construct c h budget clk x p s)
  then show ?case by (rule new_scheduler_inv)
next
  case (submission s tid a i s')
  have "keep_mode (streaming_retirement s) (callbacks s) s"
    using submission.IH by (simp add: keep_mode_def keep_def)
  then show ?case using triple_Inr [OF triple_submit _ submission.hyps(2)]
    by (auto simp: keep_mode_def keep_def)
next
  case (streaming s f s')
  then show ?case by (blast intro: streaming_inv)
next
  case (iteration s tid b s')
  have "keep (callbacks s) s" using iteration.IH by (simp add: keep_def)
  then show ?case using triple_Inr [OF triple_run_once _ iteration.hyps(2)] by (auto simp: keep_def)
next
  case (stop s)
  have "sched_inv (request_stop s) = sched_inv s"
    by (rule sched_inv_cong) (simp_all add: request_stop_def)
  then show ?case using stop.IH by simp
next
  case (environment s h)
  have "sched_inv (s\<lparr>handoff := h\<rparr>) = sched_inv s" by (rule sched_inv_cong) simp_all
  then show ?case using environment.IH by simp
next
  case (outside s x)
  have "sched_inv (s\<lparr>world := x\<rparr>) = sched_inv s" by (rule sched_inv_cong) simp_all
  then show ?case using outside.IH by simp
next
  case (workload s wo s')
  have "sched_inv s' = sched_inv s" using workload.hyps(2)
    by (intro sched_inv_cong) (auto simp: set_workload_observer_def run_simps split: if_splits)
  then show ?case using workload.IH by simp
next
  case (batch s bo s')
  have "sched_inv s' = sched_inv s" using batch.hyps(2)
    by (intro sched_inv_cong) (auto simp: set_batch_observer_def run_simps split: if_splits)
  then show ?case using batch.IH by simp
next
  case (clocks s cl s')
  have "sched_inv s' = sched_inv s" using clocks.hyps(2)
    by (intro sched_inv_cong) (auto simp: set_clock_def set_decision_clock_def run_simps
        split: if_splits option.splits)
  then show ?case using clocks.IH by simp
next
  case (inspection s rs s')
  have "sched_inv s' = sched_inv s" using inspection.hyps(2)
    by (intro sched_inv_cong) (auto simp: requests_def run_simps Let_def split: if_splits)
  then show ?case using inspection.IH by simp
qed

end
