(* ===== verification/Scheduler_Frame.thy ===== *)
theory Scheduler_Frame
  imports Scheduler_Safety
begin

text \<open>
  What the message-handling half of an iteration leaves alone. The locale \<open>message_frame\<close> is
  the contract of a fact about the scheduler that no elementary write of a message handler can
  break; inside it the fact is carried through every handler, the retirement loop with its
  observers, and the batch report. It is interpreted on the facts the properties need: who
  controls the plan pool, the drain that has begun, the history that only grows.
\<close>

section \<open>Stable facts\<close>

definition stable :: "('s \<Rightarrow> bool) \<Rightarrow> ('s, 'a) operation \<Rightarrow> bool" where
  "stable P m \<longleftrightarrow> triple P m (\<lambda>_. P) (\<lambda>_. P)"

lemma stableI: "(\<And>s r s'. P s \<Longrightarrow> m s = (r, s') \<Longrightarrow> P s') \<Longrightarrow> stable P m"
  unfolding stable_def by (rule tripleI) blast+

lemma stableD: "stable P m \<Longrightarrow> P s \<Longrightarrow> m s = (r, s') \<Longrightarrow> P s'"
  unfolding stable_def by (cases r) (auto dest: triple_Inl triple_Inr)

lemma stable_bind: "stable P m \<Longrightarrow> (\<And>x. stable P (k x)) \<Longrightarrow> stable P (bind_op m k)"
  unfolding stable_def by (rule triple_bind)

lemma stable_then: "stable P m \<Longrightarrow> stable P k \<Longrightarrow> stable P (then_op m k)"
  unfolding stable_def by (rule triple_then)

lemma stable_modify: "(\<And>s. P s \<Longrightarrow> P (f s)) \<Longrightarrow> stable P (modify_op f)"
  unfolding stable_def by (rule triple_modify)

lemma stable_ok: "stable P (ok x)"
  unfolding stable_def by (simp add: triple_ok)

lemma stable_throw: "stable P (throw e)"
  unfolding stable_def by (simp add: triple_throw)

lemma stable_state: "(\<And>s0. stable P (f s0)) \<Longrightarrow> stable P (\<lambda>s. f s s)"
  by (rule stableI) (auto dest: stableD)

lemma stable_if: "stable P m \<Longrightarrow> stable P k \<Longrightarrow> stable P (\<lambda>s. if b s then m s else k s)"
  by (rule stableI) (auto dest: stableD split: if_splits)

lemma stable_case_option:
  "stable P m \<Longrightarrow> (\<And>x. stable P (k x)) \<Longrightarrow> stable P (\<lambda>s. case f s of None \<Rightarrow> m s | Some x \<Rightarrow> k x s)"
  by (rule stableI) (auto dest: stableD split: option.splits)

lemma stable_seq: "(\<And>m. m \<in> set ms \<Longrightarrow> stable P m) \<Longrightarrow> stable P (seq_ops ms)"
  unfolding stable_def by (rule triple_seq_ops)

lemma stable_for_each: "(\<And>x. stable P (body x)) \<Longrightarrow> stable P (for_each body xs)"
  unfolding stable_def by (rule triple_for_each)

lemmas stable_intros = stable_bind stable_then stable_ok stable_throw stable_if stable_case_option

text \<open>The part of the handoff that belongs to the plan protocol rather than to a channel.\<close>
definition control :: "Handoff \<Rightarrow> _" where
  "control h = (pool_size h, completed_epoch h, published h, retired h, pool h, spare h,
     handoff_epoch h, handoff_stop_requested h)"

lemma control_update [simp]:
  "control (h\<lparr>admissions := a\<rparr>) = control h" "control (h\<lparr>releases := b\<rparr>) = control h"
  "control (h\<lparr>admission_results := c\<rparr>) = control h" "control (h\<lparr>completions := d\<rparr>) = control h"
  "control (h\<lparr>outputs := e\<rparr>) = control h" "control (h\<lparr>release_acks := f\<rparr>) = control h"
  "control (h\<lparr>fatals := g\<rparr>) = control h" "control (h\<lparr>scheduler_progress_generation := n\<rparr>) = control h"
  by (simp_all add: control_def)

lemma retry_control:
  "retry_from rs h = (rs', h') \<Longrightarrow> control h' = control h \<and> admissions h' = admissions h"
proof (induction rs arbitrary: h rs' h')
  case (Cons r rs)
  obtain sent q where t: "try_release \<lparr>rel_id = req_id r\<rparr> h = (sent, h\<lparr>releases := q\<rparr>)"
    by (cases "try_push \<lparr>rel_id = req_id r\<rparr> (releases h)") (simp add: try_release_def)
  obtain xs h2 ys h3 where r: "retry_from rs (h\<lparr>releases := q\<rparr>) = (xs, h2)" "retry_from rs h = (ys, h3)"
    by (metis surj_pair)
  then have "control h2 = control h \<and> admissions h2 = admissions h" "control h3 = control h \<and> admissions h3 = admissions h"
    using Cons.IH [OF r(1)] Cons.IH [OF r(2)] by simp_all
  then show ?case using Cons.prems t r by (auto split: if_splits)
qed simp

section \<open>The frame contract\<close>

locale message_frame =
  fixes P :: "('x, 'p) Scheduler \<Rightarrow> bool"
  assumes live: "P s \<Longrightarrow> P (s\<lparr>live_requests := l\<rparr>)"
    and counts: "P s \<Longrightarrow> P (s\<lparr>workload_counts := c\<rparr>)"
    and ready: "P s \<Longrightarrow> P (s\<lparr>terminal_ready := t\<rparr>)"
    and recovery: "P s \<Longrightarrow> P (s\<lparr>terminal_marker_recovery_needed := b\<rparr>)"
    and success: "P s \<Longrightarrow> P (s\<lparr>published_plan_success := b\<rparr>)"
    and policies: "P s \<Longrightarrow> P (s\<lparr>policy := p\<rparr>)"
    and worlds: "P s \<Longrightarrow> P (s\<lparr>world := x\<rparr>)"
    and errors: "P s \<Longrightarrow> P (s\<lparr>last_error := e\<rparr>)"
    and observers: "P s \<Longrightarrow> P (s\<lparr>observer_enabled := b\<rparr>)"
    and reported: "P s \<Longrightarrow> P (s\<lparr>last_published_counts := c\<rparr>)"
    and observed: "P s \<Longrightarrow> P (s\<lparr>observed_epoch := n\<rparr>)"
    and history: "P s \<Longrightarrow> P (s\<lparr>completed_history := completed_history s @ [r]\<rparr>)"
    and channels: "P s \<Longrightarrow> control h = control (handoff s) \<Longrightarrow> admissions h = admissions (handoff s) \<Longrightarrow>
      P (s\<lparr>handoff := h\<rparr>)"
    and drains: "stable P (enter_draining code)"
    and submits: "stable P (submit_admission tid a)"
begin

lemma update: "P s \<Longrightarrow> P (update_request i f s)"
  by (simp add: update_request_def live)

lemma erase: "P s \<Longrightarrow> P (erase_request i s)"
  by (simp add: erase_request_def live)

lemma world_call: "stable P (call_world f)"
  by (rule stableI) (auto simp: call_world_def Let_def worlds split: prod.splits)

lemma policy_call: "stable P (call_policy f)"
  by (rule stableI) (auto simp: call_policy_def Let_def policies split: prod.splits)

lemma marker: "stable P (queue_terminal_marker i)"
  unfolding queue_terminal_marker_def by (rule stable_modify) (simp add: ready)

lemma dec_queued: "stable P decrement_queued"
  by (rule stableI) (auto simp: decrement_queued_def run_simps counts split: if_splits)

lemma dec_active: "stable P decrement_active"
  by (rule stableI) (auto simp: decrement_active_def run_simps counts split: if_splits)

lemma finish: "stable P (finish_without_release i e)"
  unfolding finish_without_release_def
  by (rule stable_state) (intro stable_then stable_modify update dec_queued marker)

lemma drain_from:
  assumes "\<And>m. stable P (body m)" "\<And>q h. control (put q h) = control h" "\<And>q h. admissions (put q h) = admissions h"
  shows "stable P (drain_channel get put body)"
proof (rule stableI)
  fix s r s'
  assume p: "P s" and d: "drain_channel get put body s = (r, s')"
  obtain r1 q s1 where e: "drain body (get (handoff s)) s = (r1, q, s1)" by (metis prod_cases3)
  have "P s1" using drain_result [of P body "\<lambda>_. P" s "get (handoff s)", OF _ p] assms(1) e
    by (simp add: stable_def split: sum.splits)
  then show "P s'" using d e assms(2,3) by (auto simp: drain_channel_def channels)
qed

lemma admission_result: "stable P (on_admission_result m)"
proof (rule stableI)
  fix s r s'
  assume p: "P s" and m: "on_admission_result m s = (r, s')"
  have inc: "P t \<Longrightarrow> P (increment_active t)" for t by (simp add: increment_active_def counts)
  have fin: "finish_without_release i e s = (r, s') \<Longrightarrow> P s'" for i e by (rule stableD [OF finish p])
  show "P s'" using m p
    by (auto simp: on_admission_result_def move_to_pending_release_def run_simps inc update fin
        split: option.splits if_splits)
qed

lemma piece: "stable P (on_output m)"
  by (rule stableI) (auto simp: on_output_def run_simps update split: option.splits if_splits)

lemma completion: "stable P (on_completion pol c)"
proof -
  have tok: "stable P (\<lambda>s. modify_op (update_request i (count_tokens (current_time s) c)) s)" for i
    by (rule stable_state) (intro stable_modify update)
  have ev: "stable P (\<lambda>s. call_policy (\<lambda>v. on_request_timing pol v (token_event (current_time s) c r)) s)" for r
    by (rule stable_state) (rule policy_call)
  have body: "stable P (if cmp_decoded_tokens c > decoded_count r
      then then_op (\<lambda>s. modify_op (update_request (req_id r) (count_tokens (current_time s) c)) s)
             (if cmp_generated_token c
              then \<lambda>s. call_policy (\<lambda>v. on_request_timing pol v (token_event (current_time s) c r)) s
              else ok ())
      else ok ())" for r
    by (simp add: stable_then stable_ok tok ev)
  have rest: "stable P (if stage r = Terminal \<or> admission r \<noteq> EnvironmentOwned then ok ()
             else
               then_op (modify_op (update_request (req_id r)
                   (\<lambda>r. r\<lparr>prefill_position := max (prefill_position r) (cmp_prefill_position c)\<rparr>)))
              (then_op
                (if cmp_decoded_tokens c > decoded_count r
                 then then_op (\<lambda>s. modify_op (update_request (req_id r) (count_tokens (current_time s) c)) s)
                        (if cmp_generated_token c
                         then \<lambda>s. call_policy (\<lambda>v. on_request_timing pol v (token_event (current_time s) c r)) s
                         else ok ())
                 else ok ())
                (modify_op (update_request (req_id r) (settle_completion c)))))" for r
    by (simp only: if_split stable_ok simp_thms)
      (intro impI stable_then body stable_modify update)
  show ?thesis unfolding on_completion_def
    by (intro stable_case_option stable_ok stable_then rest stable_modify) (simp add: success)
qed

lemma release_ack: "stable P (on_release_ack pol a)"
proof -
  have fin: "stable P (\<lambda>s. modify_op (update_request i (finished (current_time s) e)) s)" for i e
    by (rule stable_state) (intro stable_modify update)
  have ev: "stable P (\<lambda>s. call_policy (\<lambda>v. on_request_timing pol v (terminal_event (current_time s) r)) s)" for r
    by (rule stable_state) (rule policy_call)
  have q: "stable P (if \<not> start_recorded r then decrement_queued else ok ())" for r
    by (simp add: dec_queued stable_ok)
  show ?thesis unfolding on_release_ack_def
    by (intro stable_case_option stable_ok stable_if stable_then fin ev dec_active q marker)
qed

lemma fatal: "stable P (on_fatal f)"
  unfolding on_fatal_def by (intro stable_then stable_modify drains) (rule success)

lemma retries: "P s \<Longrightarrow> P (retry_releases s)"
proof -
  assume p: "P s"
  obtain rs h where r: "retry_from (live_requests s) (handoff s) = (rs, h)"
    by (cases "retry_from (live_requests s) (handoff s)")
  have "control h = control (handoff (s\<lparr>live_requests := rs\<rparr>))" "admissions h = admissions (handoff (s\<lparr>live_requests := rs\<rparr>))"
    using retry_control [OF r] by simp_all
  then have "P (s\<lparr>live_requests := rs, handoff := h\<rparr>)" using channels [OF live [OF p]] by simp
  then show ?thesis by (simp add: retry_releases_def r)
qed

lemma observer: "P s \<Longrightarrow> run_observer tid f s = (r, s') \<Longrightarrow> P s'"
proof (induction f arbitrary: s r s')
  case (Submits a x k)
  obtain res s1 where s1: "submit_admission tid a (s\<lparr>world := x\<rparr>) = (res, s1)"
    by (cases "submit_admission tid a (s\<lparr>world := x\<rparr>)")
  have "P s1" by (rule stableD [OF submits worlds [OF Submits.prems(1)] s1])
  moreover from Submits.prems(2) s1 have "run_observer tid (k res (world s1)) s1 = (r, s')" by simp
  ultimately show ?case by (rule Submits.IH [OF rangeI rangeI])
qed (auto simp: worlds)

lemma notification: "P s \<Longrightarrow> notify_terminal tid q s = (b, s') \<Longrightarrow> P s'"
  by (auto simp: notify_terminal_def split: option.splits prod.splits dest: observer)

lemma failure: "P s \<Longrightarrow> P (observer_failed s)"
  by (simp add: observer_failed_def errors observers)

lemma pop: "P s \<Longrightarrow> P (pop_marker s)"
  by (simp add: pop_marker_def ready)

lemma retire_result: "P s \<Longrightarrow> P (snd (retire_loop tid s))"
proof (induction tid s rule: retire_loop.induct)
  case (1 tid s)
  show ?case
  proof (cases "terminal_ready s")
    case Nil
    then show ?thesis using "1.prems" by (simp add: retire_loop.simps)
  next
    case (Cons i rest)
    have p: "P (pop_marker s)" using "1.prems" by (rule pop)
    have hist: "P (pop_marker (erase_request i (s\<lparr>completed_history := completed_history s @ [r]\<rparr>)))" for r
      using "1.prems" by (intro pop erase history)
    have seen: "P s1" if "notify_terminal tid r s = (b, s1)" for r b s1
      using "1.prems" that by (rule notification)
    have failed: "P s2" if "notify_terminal tid r s = (b, s1)"
        "enter_draining EnvironmentStopped (observer_failed s1) = (u, s2)" for r b s1 u s2
      by (rule stableD [OF drains failure [OF seen [OF that(1)]] that(2)])
    show ?thesis using Cons "1.prems" "1.IH" p hist seen failed pop erase
      by (subst retire_loop.simps) (simp split: option.splits prod.splits sum.splits)
  qed
qed

lemma retirement: "stable P (retire_terminal_requests tid)"
proof (rule stableI)
  fix s r s'
  assume p: "P s" and r: "retire_terminal_requests tid s = (r, s')"
  have "P (recover_terminal_markers s)" using p by (simp add: recover_terminal_markers_def ready recovery)
  then show "P s'" using retire_result [of "recover_terminal_markers s" tid] r
    by (simp add: retire_terminal_requests_def)
qed

lemma messages: "stable P (take_messages pol tid)"
  unfolding take_messages_def
  by (rule stable_seq)
    (auto simp: drain_admission_results_def drain_outputs_def drain_completions_def drain_release_acks_def
      drain_fatals_def intro!: drain_from admission_result piece completion release_ack fatal
      stable_modify retries retirement)

lemma batch_report: "stable P (complete_batch pol d)"
proof -
  have b: "stable P (\<lambda>s. case batch_observer s of None \<Rightarrow> ok () s | Some f \<Rightarrow> call_world (f out) s)" for out
    by (intro stable_case_option stable_ok world_call)
  have all: "stable P (then_op (modify_op (\<lambda>s. s\<lparr>observed_epoch := published_epoch s\<rparr>))
        (then_op (call_policy (\<lambda>v. on_plan_completed pol v out))
          (\<lambda>s. case batch_observer s of None \<Rightarrow> ok () s | Some f \<Rightarrow> call_world (f out) s)))" for out
    by (intro stable_then policy_call b stable_modify) (rule observed)
  show ?thesis unfolding complete_batch_def Let_def
    by (intro stable_if stable_ok) (rule stable_state [OF all])
qed

lemma counts_report: "stable P (publish_workload_counts t)"
  by (rule stableI) (auto simp: publish_workload_counts_def call_world_def op_defs Let_def worlds reported
      split: option.splits if_splits prod.splits sum.splits)

lemma end_of_iteration: "stable P (finish_iteration b)"
  unfolding finish_iteration_def by (rule stable_state) (intro stable_then counts_report stable_ok)

end

end
