(* ===== verification/Scheduler_Runs.thy ===== *)
theory Scheduler_Runs
  imports Scheduler_Frame "HOL-Library.Sublist"
begin

text \<open>
  Facts that survive a whole iteration: the locale \<open>run_frame\<close> extends the message frame by the
  first and the last part of \<open>run_once\<close>, \<open>plan_frame\<close> gives the last part for facts that do not
  mention the plan pool, and the interpretations are the facts the properties use.
\<close>

locale plan_frame = message_frame +
  assumes handoffs: "P s \<Longrightarrow> P (s\<lparr>handoff := h\<rparr>)"
    and decisions_made: "P s \<Longrightarrow> P (s\<lparr>decision_times_ns := ds\<rparr>)"
    and prefill_count: "P s \<Longrightarrow> P (s\<lparr>published_prefill_tokens := k\<rparr>)"
    and decode_count: "P s \<Longrightarrow> P (s\<lparr>published_decode_items := k\<rparr>)"
    and header: "P s \<Longrightarrow> P (s\<lparr>published_epoch := n, published_plan_start := t, published_prefill_tokens := k,
     published_decode_items := k', published_work_items := k'', published_plan_success := b\<rparr>)"
begin

lemma started_work: "stable P (start_work w)"
proof (rule stableI)
  fix s r s'
  assume p: "P s" and w: "start_work w s = (r, s')"
  have dec: "decrement_queued u = (r, s') \<Longrightarrow> P u \<Longrightarrow> P s'" for u
    using dec_queued by (blast dest: stableD)
  show "P s'" using w p
    by (auto simp: start_work_def run_simps prefill_count decode_count update split: option.splits if_splits
        intro: dec)
qed

lemma publication: "stable P (publish_plan ws)"
proof (rule stableI)
  fix s r s'
  assume p: "P s" and w: "publish_plan ws s = (r, s')"
  have loop: "for_each start_work ws u = (r, s') \<Longrightarrow> P u \<Longrightarrow> P s'" for u
    using stable_for_each [of P start_work ws, OF started_work] by (blast dest: stableD)
  show "P s'" using w p
    by (auto simp: publish_plan_def run_simps handoffs header Let_def split: prod.splits if_splits intro: loop)
qed

lemma judgement: "stable P (judge_plan rp ws)"
proof -
  have drain: "stable P (then_op (modify_op (\<lambda>s. s\<lparr>last_error := validate_plan ws s0\<rparr>)) (enter_draining c))" for s0 :: "('a, 'b) Scheduler" and c
    by (intro stable_then stable_modify drains) (rule errors)
  have idle: "stable P (then_op (modify_op (\<lambda>s. s\<lparr>last_error := no_work_error (last_error s)\<rparr>))
       (then_op (enter_draining ProtocolViolation) (modify_op retry_releases)))"
    by (intro stable_then stable_modify drains errors retries)
  show ?thesis unfolding judge_plan_def Let_def
    by (intro stable_if publication stable_ok idle stable_state [OF drain])
qed

lemma planning: "stable P (make_plan pol)"
proof -
  have clk: "stable P decision_now"
    unfolding decision_now_def by (rule stable_state) (rule world_call)
  have last: "stable P (if t1 < t0 then throw (Runtime_error ''scheduler decision clock moved backwards'')
      else then_op (modify_op (\<lambda>s. s\<lparr>decision_times_ns := decision_times_ns s @ [word_of_int (t1 - t0)]\<rparr>)) (ok ws))"
    for t0 t1 :: int and ws :: "WorkItem list"
    by (simp add: stable_throw stable_then stable_ok stable_modify decisions_made)
  show ?thesis unfolding make_plan_def
    by (intro stable_then stable_bind clk last policy_call stable_modify handoffs)
qed

lemma decision: "stable P (decide pol)"
proof (rule stableI)
  fix s r s'
  assume p: "P s" and d: "decide pol s = (r, s')"
  have m: "stable P (bind_op (make_plan pol) (\<lambda>ws. then_op (judge_plan rp ws) (finish_iteration True)))" for rp
    by (intro stable_bind stable_then planning judgement end_of_iteration)
  show "P s'" using d stableD [OF end_of_iteration p] stableD [OF m p]
    by (auto simp: decide_def Let_def split: if_splits)
qed

end

locale run_frame = message_frame +
  assumes started: "P s \<Longrightarrow> P (start_execution tid (begin_nonconst_operation s))"
    and timed: "P s \<Longrightarrow> P (s\<lparr>current_time := t\<rparr>)"
    and flushed: "P s \<Longrightarrow> \<not> draining s \<Longrightarrow> P (flush_pending_admissions s)"
    and decided: "P s \<Longrightarrow> completed_epoch (handoff s) \<ge> published_epoch s \<Longrightarrow> P s1 \<Longrightarrow> \<not> draining s1 \<Longrightarrow>
      decide pol s1 = (r, s') \<Longrightarrow> P s'"
begin

lemma snapshot:
  assumes p: "P s" and d: "after_snapshot pol tid (completed_epoch (handoff s) \<ge> published_epoch s) s = (r, s')"
  shows "P s'"
proof -
  let ?d = "completed_epoch (handoff s) \<ge> published_epoch s"
  have front: "stable P (then_op (take_messages pol tid) (complete_batch pol ?d))"
    by (intro stable_then messages batch_report)
  obtain r1 s1 where f: "then_op (take_messages pol tid) (complete_batch pol ?d) s = (r1, s1)"
    by (metis surj_pair)
  have p1: "P s1" by (rule stableD [OF front p f])
  have fin: "finish_iteration b s1 = (r, s') \<Longrightarrow> P s'" for b by (rule stableD [OF end_of_iteration p1])
  have dec: "\<not> draining s1 \<Longrightarrow> ?d \<Longrightarrow> decide pol s1 = (r, s') \<Longrightarrow> P s'"
    using decided [OF p _ p1] by blast
  have split: "after_snapshot pol tid ?d s = then_op (then_op (take_messages pol tid) (complete_batch pol ?d))
      (\<lambda>s. if all_terminal s then finish_iteration False s
           else if draining s \<or> \<not> ?d then finish_iteration True s else decide pol s) s"
    by (simp add: after_snapshot_def then_assoc)
  show ?thesis
  proof (cases r1)
    case (Inl e)
    then show ?thesis using d f p1 unfolding split by (simp add: then_op_def bind_op_def)
  next
    case (Inr u)
    then have "(if all_terminal s1 then finish_iteration False s1
           else if draining s1 \<or> \<not> ?d then finish_iteration True s1 else decide pol s1) = (r, s')"
      using d f unfolding split by (simp add: then_op_def bind_op_def)
    then show ?thesis using fin dec by (auto split: if_splits)
  qed
qed

lemma iteration: "stable P (run_once pol tid)"
proof -
  have clk: "stable P now" unfolding now_def by (rule stable_state) (rule world_call)
  have stop: "stable P observe_stop" unfolding observe_stop_def by (intro stable_if drains stable_ok)
  have snap: "stable P (\<lambda>s. after_snapshot pol tid (completed_epoch (handoff s) \<ge> published_epoch s) s)"
    by (rule stableI) (rule snapshot)
  show ?thesis unfolding run_once_def
    by (intro stable_then stable_bind clk stop snap stable_modify)
      (simp_all add: started timed flushed)
qed

end

section \<open>The facts\<close>

text \<open>Who controls the plan pool, and what was published last.\<close>
definition plan_state :: "('x, 'p) Scheduler \<Rightarrow> _" where
  "plan_state s = (control (handoff s), published_epoch s, token_budget s)"

lemma drain_request_plan_state:
  "drain_request i s = (r, s') \<Longrightarrow> plan_state s' = plan_state s \<and>
     inspection_cache_valid s' = inspection_cache_valid s \<and> completed_history s' = completed_history s"
  by (auto simp: drain_request_def finish_without_release_def move_to_pending_release_def plan_state_def
      queue_terminal_marker_def decrement_queued_def update_request_def op_defs Let_def
      split: option.splits if_splits AdmissionOwnership.splits)

lemma for_each_drain_plan_state:
  "for_each drain_request is s = (r, s') \<Longrightarrow> plan_state s' = plan_state s \<and>
     inspection_cache_valid s' = inspection_cache_valid s \<and> completed_history s' = completed_history s"
  by (induction "is" arbitrary: s)
    (auto simp: op_defs split: prod.splits sum.splits dest!: drain_request_plan_state)

lemma enter_draining_plan_state:
  "enter_draining e s = (r, s') \<Longrightarrow> plan_state s' = plan_state s \<and>
     inspection_cache_valid s' = inspection_cache_valid s \<and> completed_history s' = completed_history s"
  by (auto simp: enter_draining_def op_defs plan_state_def split: if_splits prod.splits sum.splits
      dest!: for_each_drain_plan_state)

lemma publish_counts_same:
  "publish_workload_counts t s = (r, s') \<Longrightarrow> plan_state s' = plan_state s \<and> handoff s' = handoff s \<and>
     inspection_cache_valid s' = inspection_cache_valid s \<and> completed_history s' = completed_history s \<and>
     live_requests s' = live_requests s \<and> pending_admissions s' = pending_admissions s \<and>
     draining s' = draining s \<and> drain_error s' = drain_error s"
  by (auto simp: publish_workload_counts_def call_world_def op_defs Let_def plan_state_def
      split: option.splits if_splits prod.splits sum.splits)

lemma submit_plan_state:
  "submit_admission tid a s = (r, s') \<Longrightarrow> plan_state s' = plan_state s \<and>
     \<not> inspection_cache_valid s' \<and> completed_history s' = completed_history s \<and>
     set (pending_admissions s) \<subseteq> set (pending_admissions s') \<and> admissions (handoff s') = admissions (handoff s) \<and>
     draining s' = draining s \<and> drain_error s' = drain_error s"
  by (auto simp: submit_admission_def begin_nonconst_operation_def now_def call_world_def op_defs
      increment_queued_def Let_def plan_state_def split: if_splits prod.splits sum.splits
      dest!: publish_counts_same)

lemma flush_from_same:
  "plan_state (flush_from as s) = plan_state s \<and> draining (flush_from as s) = draining s \<and>
   inspection_cache_valid (flush_from as s) = inspection_cache_valid s \<and>
   completed_history (flush_from as s) = completed_history s"
proof (induction as s rule: flush_from.induct)
  case (2 a as s)
  obtain b q where t: "try_admit a (handoff s) = (b, (handoff s)\<lparr>admissions := q\<rparr>)"
    by (cases "try_push a (admissions (handoff s))") (simp add: try_admit_def)
  show ?case
  proof (cases "find_request (adm_id a) s")
    case None
    then show ?thesis using "2.IH"(1) by simp
  next
    case (Some r)
    then show ?thesis using "2.IH"(2) [OF Some] "2.IH"(3) [OF Some _ refl t [symmetric]] t
      by (cases "admission r \<noteq> NotSent \<or> stage r \<noteq> PendingAdmission"; cases b)
        (simp_all add: plan_state_def)
  qed
qed (simp add: plan_state_def)

text \<open>The plan pool during the messages, and during a whole iteration that may not publish.\<close>
interpretation plans: message_frame "\<lambda>s. plan_state s = F" for F
  by unfold_locales
    (auto simp: plan_state_def stable_def triple_def split: prod.splits sum.splits
      dest!: enter_draining_plan_state submit_plan_state)

text \<open>The drain that has begun, with the error it began with.\<close>
interpretation drains: run_frame "\<lambda>s. draining s \<and> drain_error s = e" for e
  by unfold_locales
    (auto simp: stable_def triple_def start_execution_def begin_nonconst_operation_def
      split: prod.splits sum.splits
      dest!: enter_draining_cases submit_plan_state)

end
