(* ===== verification/Scheduler_Publish.thy ===== *)
theory Scheduler_Publish
  imports Scheduler_Runs
begin

text \<open>
  The frames an iteration keeps, and what it publishes: only plans that are valid for the
  requests as they are when the iteration ends.
\<close>

section \<open>Facts kept by iterations\<close>

text \<open>
  Once draining with an admission pending: \<open>flush_pending_admissions\<close> is never called again, so the
  admission stays and nothing more is sent on the channel of admissions.
\<close>
interpretation late: run_frame "\<lambda>s. draining s \<and> a \<in> set (pending_admissions s) \<and> admissions (handoff s) = Q" for a Q
proof unfold_locales
  let ?P = "\<lambda>s. draining s \<and> a \<in> set (pending_admissions s) \<and> admissions (handoff s) = Q"
  show "stable ?P (enter_draining c)" for c
    by (rule stableI) (auto dest!: enter_draining_cases)
  show "stable ?P (submit_admission tid b)" for tid b
    by (rule stableI) (auto dest!: submit_plan_state)
qed (auto simp: start_execution_def begin_nonconst_operation_def)

lemma epochs: "plan_state s' = plan_state s \<Longrightarrow>
    (completed_epoch (handoff s') < published_epoch s') = (completed_epoch (handoff s) < published_epoch s)"
  by (simp add: plan_state_def control_def)

text \<open>While draining, or while the published epoch is not complete, the plan pool is left alone.\<close>
interpretation idle: run_frame "\<lambda>s. (draining s \<or> completed_epoch (handoff s) < published_epoch s)
    \<and> plan_state s = F" for F
proof unfold_locales
  let ?P = "\<lambda>s. (draining s \<or> completed_epoch (handoff s) < published_epoch s) \<and> plan_state s = F"
  show "stable ?P (enter_draining c)" for c
    by (rule stableI) (auto dest: enter_draining_cases enter_draining_plan_state)
  show "stable ?P (submit_admission tid a)" for tid a
    by (rule stableI) (auto dest!: submit_plan_state dest: epochs [THEN iffD2])
  show "?P s \<Longrightarrow> \<not> draining s \<Longrightarrow> ?P (flush_pending_admissions s)" for s
    using flush_from_same [of "pending_admissions s" s] epochs [of "flush_pending_admissions s" s]
    by (simp add: flush_pending_admissions_def)
  show "?P s \<Longrightarrow> control h = control (handoff s) \<Longrightarrow> ?P (s\<lparr>handoff := h\<rparr>)" for s h
    by (auto simp: plan_state_def control_def)
  show "?P s \<Longrightarrow> published_epoch s \<le> completed_epoch (handoff s) \<Longrightarrow> ?P s1 \<Longrightarrow> \<not> draining s1 \<Longrightarrow>
      decide pol s1 = (r, s') \<Longrightarrow> ?P s'" for s s1 s' r pol
    by (auto simp: plan_state_def control_def)
qed (auto simp: start_execution_def begin_nonconst_operation_def plan_state_def)

text \<open>The history is only appended to.\<close>
interpretation history: plan_frame "\<lambda>s. prefix H (completed_history s)" for H
  by unfold_locales
    (auto simp: stable_def triple_def prefix_def split: prod.splits sum.splits
      dest!: enter_draining_plan_state submit_plan_state)

interpretation histories: run_frame "\<lambda>s. prefix H (completed_history s)" for H
proof unfold_locales
  show "prefix H (completed_history s) \<Longrightarrow> prefix H (completed_history (flush_pending_admissions s))" for s
    using flush_from_same [of "pending_admissions s" s] by (simp add: flush_pending_admissions_def)
  show "prefix H (completed_history s1) \<Longrightarrow> decide pol s1 = (r, s') \<Longrightarrow> prefix H (completed_history s')"
    for s1 s' r pol
    by (rule stableD [OF history.decision])
qed (simp_all add: start_execution_def begin_nonconst_operation_def)

text \<open>The inspection cache stays invalid after \<open>begin_nonconst_operation\<close>.\<close>
interpretation uncached: plan_frame "\<lambda>s. \<not> inspection_cache_valid s"
  by unfold_locales
    (auto simp: stable_def triple_def split: prod.splits sum.splits
      dest!: enter_draining_plan_state submit_plan_state)

interpretation uncacheds: run_frame "\<lambda>s. \<not> inspection_cache_valid s"
proof unfold_locales
  show "\<not> inspection_cache_valid s \<Longrightarrow> \<not> inspection_cache_valid (flush_pending_admissions s)" for s
    using flush_from_same [of "pending_admissions s" s] by (simp add: flush_pending_admissions_def)
  show "\<not> inspection_cache_valid s1 \<Longrightarrow> decide pol s1 = (r, s') \<Longrightarrow> \<not> inspection_cache_valid s'"
    for s1 s' r pol
    by (rule stableD [OF uncached.decision])
qed (simp_all add: start_execution_def begin_nonconst_operation_def)

lemma begin_twice: "begin_nonconst_operation (begin_nonconst_operation s) = begin_nonconst_operation s"
  by (simp add: begin_nonconst_operation_def)

lemma run_once_uncached: "run_once pol tid s = (r, s') \<Longrightarrow> \<not> inspection_cache_valid s'"
proof -
  assume r: "run_once pol tid s = (r, s')"
  have "run_once pol tid (begin_nonconst_operation s) = run_once pol tid s"
    unfolding run_once_def by (simp only: then_simps) (simp only: begin_twice)
  then have run: "run_once pol tid (begin_nonconst_operation s) = (r, s')" using r by (simp only:)
  have "\<not> inspection_cache_valid (begin_nonconst_operation s)"
    by (simp add: begin_nonconst_operation_def)
  from stableD [OF uncacheds.iteration this run] show ?thesis .
qed

section \<open>What is published\<close>

text \<open>The published plan is acceptable for the requests as they are now.\<close>
definition published_valid :: "('x, 'p) Scheduler \<Rightarrow> bool" where
  "published_valid s \<longleftrightarrow> (\<exists>p. published (handoff s) = Some p \<and>
     valid_plan (\<lambda>i. find_request i s) (token_budget s) (plan_work (pool (handoff s) ! p)))"

lemma valid_item_start [simp]:
  "valid_item (r\<lparr>start_time := t, start_recorded := b\<rparr>) w = valid_item r w"
  by (cases "work_kind w") (simp_all add: valid_item_def)

lemma valid_plan_started:
  assumes "valid_plan (\<lambda>i. find_request i s) budget ws"
  shows "valid_plan (\<lambda>j. find_request j (update_request i (\<lambda>r. r\<lparr>start_time := t, start_recorded := b\<rparr>) s)) budget ws"
  using assms by (fastforce simp: valid_plan_def find_update_request_other)

lemma start_work_published:
  "stable (\<lambda>s. handoff s = h \<and> token_budget s = budget \<and> valid_plan (\<lambda>i. find_request i s) budget ws) (start_work w)"
proof (rule stableI)
  fix s :: "('a, 'b) Scheduler" and r s'
  assume p: "handoff s = h \<and> token_budget s = budget \<and> valid_plan (\<lambda>i. find_request i s) budget ws"
    and w: "start_work w s = (r, s')"
  have f: "find_request i (u\<lparr>published_prefill_tokens := k\<rparr>) = find_request i u"
    "find_request i (u\<lparr>published_decode_items := k\<rparr>) = find_request i u"
    "find_request i (u\<lparr>workload_counts := c\<rparr>) = find_request i u" for i k c and u :: "('a, 'b) Scheduler"
    by (simp_all add: find_request_def)
  show "handoff s' = h \<and> token_budget s' = budget \<and> valid_plan (\<lambda>i. find_request i s') budget ws"
    using w p by (auto simp: start_work_def decrement_queued_def run_simps f valid_plan_started
        split: option.splits if_splits)
qed

lemma commit_filled:
  assumes "ws \<noteq> []" "spare h < length (pool h)" "commit (fill_plan ws (begin_plan h)) = (e, h')"
  shows "published h' = Some (spare h) \<and> plan_work (pool h' ! spare h) = ws"
  using assms by (auto simp: commit_def fill_plan_def begin_plan_def allocate_plan_def Let_def nth_append
      split: option.splits prod.splits)

lemma publish_result:
  assumes h: "handoff s = fill_plan ws (begin_plan h)" and len: "spare h < length (pool h)" and ne: "ws \<noteq> []"
    and v: "err_valid (validate_plan ws s)" and p: "publish_plan ws s = (r, s')"
  shows "published_valid s'"
proof -
  obtain e h' where c: "commit (handoff s) = (e, h')" by (cases "commit (handoff s)")
  then have h': "published h' = Some (spare h)" "plan_work (pool h' ! spare h) = ws"
    using commit_filled [OF ne len] h by simp_all
  have valid: "valid_plan (\<lambda>i. find_request i s) (token_budget s) ws" using v by (simp add: validate_plan_spec)
  show ?thesis
  proof (cases "e = 0")
    case True
    then have "s' = s\<lparr>handoff := h'\<rparr>" using p c by (simp add: publish_plan_def run_simps)
    then show ?thesis using h' valid by (simp add: published_valid_def find_request_def)
  next
    case False
    define s1 where "s1 = s\<lparr>handoff := h', published_epoch := e, published_plan_start := current_time s,
      published_prefill_tokens := 0, published_decode_items := 0,
      published_work_items := of_nat (length ws), published_plan_success := True\<rparr>"
    have run: "for_each start_work ws s1 = (r, s')" using p c False by (simp add: publish_plan_def s1_def)
    have s1: "handoff s1 = h' \<and> token_budget s1 = token_budget s \<and> valid_plan (\<lambda>i. find_request i s1) (token_budget s) ws"
      using valid by (simp add: s1_def find_request_def)
    have "handoff s' = h' \<and> token_budget s' = token_budget s \<and> valid_plan (\<lambda>i. find_request i s') (token_budget s) ws"
      using stableD [OF stable_for_each [OF start_work_published] s1 run] .
    then show ?thesis using h' by (auto simp: published_valid_def)
  qed
qed

text \<open>Either nothing was published, or a valid plan was.\<close>
definition published_nothing :: "Handoff \<Rightarrow> ('x, 'p) Scheduler \<Rightarrow> bool" where
  "published_nothing h s \<longleftrightarrow> handoff_epoch (handoff s) = handoff_epoch h \<and> published (handoff s) = published h"

lemma control_published_nothing:
  "control (handoff s) = control h' \<Longrightarrow> handoff_epoch h' = handoff_epoch h \<Longrightarrow> published h' = published h \<Longrightarrow>
     published_nothing h s"
  by (simp add: published_nothing_def control_def)

lemma judge_result:
  assumes h: "handoff s = fill_plan ws (begin_plan h)" and len: "spare h < length (pool h)"
    and j: "judge_plan rp ws s = (r, s')"
  shows "published_nothing h s' \<or> published_valid s'"
proof -
  have same: "handoff_epoch (handoff s) = handoff_epoch h" "published (handoff s) = published h"
    by (simp_all add: h fill_plan_def begin_plan_def)
  have kept: "published_nothing h t" if "control (handoff t) = control (handoff s)" for t :: "('a, 'b) Scheduler"
    using control_published_nothing [OF that same] .
  have drain: "control (handoff u') = control (handoff u)" if "enter_draining c u = (q, u')" for c q and u u' :: "('a, 'b) Scheduler"
    using enter_draining_plan_state [OF that] by (simp add: plan_state_def)
  show ?thesis
  proof (cases "ws = []")
    case True
    show ?thesis
    proof (cases rp)
      case True
      then show ?thesis using j \<open>ws = []\<close> kept by (simp add: judge_plan_def run_simps)
    next
      case False
      obtain q u where d: "enter_draining ProtocolViolation (s\<lparr>last_error := no_work_error (last_error s)\<rparr>) = (q, u)"
        by (metis surj_pair)
      obtain rs k where t: "retry_from (live_requests u) (handoff u) = (rs, k)" by (metis surj_pair)
      have "control (handoff s') = control (handoff s)"
        using j \<open>ws = []\<close> False d drain [OF d] retry_control [OF t] t
        by (cases q) (auto simp: judge_plan_def then_op_def bind_op_def run_simps retry_releases_def)
      then show ?thesis using kept by blast
    qed
  next
    case ne: False
    show ?thesis
    proof (cases "err_valid (validate_plan ws s)")
      case True
      then show ?thesis using publish_result [OF h len ne True] j ne by (simp add: judge_plan_def)
    next
      case False
      then have "enter_draining ProtocolViolation (s\<lparr>last_error := validate_plan ws s\<rparr>) = (r, s')"
        using j ne by (simp add: judge_plan_def)
      from drain [OF this] show ?thesis using kept by simp
    qed
  qed
qed

lemma finish_iteration_same:
  assumes "finish_iteration b s = (r, s')"
  shows "handoff s' = handoff s" "live_requests s' = live_requests s" "token_budget s' = token_budget s"
    "draining s' = draining s"
proof -
  obtain q u where p: "publish_workload_counts (current_time s) s = (q, u)" by (metis surj_pair)
  then have "s' = u" using assms by (cases q) (auto simp: finish_iteration_def then_op_def bind_op_def run_simps)
  then show "handoff s' = handoff s" "live_requests s' = live_requests s" "token_budget s' = token_budget s"
    "draining s' = draining s"
    using publish_counts_same [OF p] by (simp_all add: plan_state_def)
qed

lemma make_plan_result:
  assumes "make_plan pol s = (r, s')"
  shows "case r of Inr ws \<Rightarrow> handoff s' = fill_plan ws (begin_plan (handoff s)) | Inl _ \<Rightarrow> published_nothing (handoff s) s'"
  using assms
  by (auto simp: make_plan_def decision_now_def call_world_def call_policy_def bind_op_def then_op_def run_simps
      published_nothing_def begin_plan_def fill_plan_def Let_def
      split: prod.splits sum.splits if_splits)

lemma finish_iteration_outcome:
  "published_nothing h u \<or> published_valid u \<Longrightarrow> finish_iteration b u = (q, u') \<Longrightarrow>
     published_nothing h u' \<or> published_valid u'"
  using finish_iteration_same [of b u q u']
  by (auto simp: published_nothing_def published_valid_def find_request_def)

lemma decide_result:
  assumes len: "spare (handoff s) < length (pool (handoff s))" and d: "decide pol s = (r, s')"
  shows "published_nothing (handoff s) s' \<or> published_valid s'"
proof -
  note fin = finish_iteration_outcome
  have start: "published_nothing (handoff s) s" by (simp add: published_nothing_def)
  show ?thesis
  proof (cases "list_ex is_schedulable (live_requests s)")
    case False
    then have "finish_iteration True s = (r, s')" using d by (simp add: decide_def)
    then show ?thesis by (rule fin [OF disjI1 [OF start]])
  next
    case True
    let ?rp = "list_ex (\<lambda>r. stage r = PendingRelease) (live_requests s)"
    obtain q u where m: "make_plan pol s = (q, u)" by (metis surj_pair)
    note mp = make_plan_result [OF m]
    show ?thesis
    proof (cases q)
      case (Inl e)
      then show ?thesis using d True m mp by (simp add: decide_def bind_op_def Let_def)
    next
      case (Inr ws)
      obtain q2 u2 where j: "judge_plan ?rp ws u = (q2, u2)" by (metis surj_pair)
      have out: "published_nothing (handoff s) u2 \<or> published_valid u2"
        using judge_result [OF _ len j] mp Inr by simp
      show ?thesis
      proof (cases q2)
        case (Inl e)
        then show ?thesis using d True m Inr j out by (simp add: decide_def bind_op_def then_op_def Let_def)
      next
        case (Inr x)
        then have "finish_iteration True u2 = (r, s')"
          using d True m \<open>q = Inr ws\<close> j by (simp add: decide_def bind_op_def then_op_def Let_def)
        then show ?thesis using fin [OF out] by blast
      qed
    qed
  qed
qed

text \<open>An iteration leaves the plan pool alone until it decides, if it decides.\<close>
lemma run_once_decides:
  fixes s :: "('x, 'p) Scheduler"
  assumes r: "run_once pol tid s = (r, s')"
  shows "plan_state s' = plan_state s \<or>
    (\<exists>s1. plan_state s1 = plan_state s \<and> \<not> draining s1 \<and>
       completed_epoch (handoff s) \<ge> published_epoch s \<and> decide pol s1 = (r, s'))"
proof -
  let ?P = "\<lambda>u. plan_state u = plan_state s"
  let ?d = "completed_epoch (handoff s) \<ge> published_epoch s"
  have clk: "stable ?P now" unfolding now_def by (rule stable_state) (rule plans.world_call)
  have stop: "stable ?P observe_stop" unfolding observe_stop_def by (intro stable_if plans.drains stable_ok)
  have flush: "stable ?P (modify_op (\<lambda>u. if draining u then u else flush_pending_admissions u))"
    by (intro stable_modify) (simp add: flush_pending_admissions_def flush_from_same)
  define front :: "('x, 'p, unit) sched_op" where "front = then_op (modify_op (\<lambda>u. start_execution tid (begin_nonconst_operation u)))
    (bind_op now (\<lambda>t. then_op (modify_op (\<lambda>u. u\<lparr>current_time := t\<rparr>))
    (then_op observe_stop (modify_op (\<lambda>u. if draining u then u else flush_pending_admissions u)))))"
  have fr: "stable ?P front" unfolding front_def
    by (intro stable_then stable_bind clk stop flush stable_modify)
      (simp_all add: plan_state_def start_execution_def begin_nonconst_operation_def)
  have split: "run_once pol tid = then_op front
      (\<lambda>u. after_snapshot pol tid (completed_epoch (handoff u) \<ge> published_epoch u) u)"
    by (rule ext) (simp add: run_once_def front_def then_op_def bind_op_def split: prod.splits sum.splits)
  obtain q u where f: "front s = (q, u)" by (metis surj_pair)
  have pu: "?P u" by (rule stableD [OF fr refl f])
  show ?thesis
  proof (cases q)
    case (Inl e)
    then show ?thesis using r f pu by (simp add: split then_op_def bind_op_def)
  next
    case (Inr x)
    have d: "(completed_epoch (handoff u) \<ge> published_epoch u) = ?d"
      using epochs [OF pu] by (simp add: not_less [symmetric])
    have a: "after_snapshot pol tid ?d u = (r, s')"
      using r f Inr d by (simp add: split then_op_def bind_op_def)
    have mid: "stable ?P (then_op (take_messages pol tid) (complete_batch pol ?d))"
      by (intro stable_then plans.messages plans.batch_report)
    obtain q2 u2 where m: "then_op (take_messages pol tid) (complete_batch pol ?d) u = (q2, u2)" by (metis surj_pair)
    have p2: "?P u2" by (rule stableD [OF mid pu m])
    have a2: "then_op (then_op (take_messages pol tid) (complete_batch pol ?d))
      (\<lambda>s. if all_terminal s then finish_iteration False s
           else if draining s \<or> \<not> ?d then finish_iteration True s else decide pol s) u = (r, s')"
      using a by (simp add: after_snapshot_def then_assoc)
    have fin: "plan_state s' = plan_state s" if "finish_iteration b u2 = (r, s')" for b
      using stableD [OF plans.end_of_iteration p2 that] .
    show ?thesis
    proof (cases q2)
      case (Inl e)
      then show ?thesis using a2 m p2 by (simp add: then_op_def bind_op_def)
    next
      case (Inr y)
      then have "(if all_terminal u2 then finish_iteration False u2
           else if draining u2 \<or> \<not> ?d then finish_iteration True u2 else decide pol u2) = (r, s')"
        using a2 m by (simp add: then_op_def bind_op_def)
      then show ?thesis using fin p2 by (auto split: if_splits)
    qed
  qed
qed

section \<open>When an iteration ends the run\<close>

lemma submit_pending:
  "submit_admission tid a s = (Inr i, s') \<Longrightarrow> a\<lparr>adm_id := i\<rparr> \<in> set (pending_admissions s')"
  by (auto simp: submit_admission_def begin_nonconst_operation_def now_def call_world_def op_defs
      increment_queued_def Let_def split: if_splits prod.splits sum.splits
      dest!: publish_counts_same)

lemma finish_iteration_result: "finish_iteration b s = (Inr c, s') \<Longrightarrow> c = b"
  by (auto simp: finish_iteration_def then_op_def bind_op_def run_simps split: prod.splits sum.splits)

lemma finish_iteration_all_terminal:
  "finish_iteration b s = (r, s') \<Longrightarrow> all_terminal s' = all_terminal s"
  by (auto simp: finish_iteration_def then_op_def bind_op_def run_simps all_terminal_def
      split: prod.splits sum.splits dest!: publish_counts_same)

lemma triple_true: "triple (\<lambda>_. True) m (\<lambda>_ _. True) (\<lambda>_ _. True)"
  by (rule tripleI) simp_all

text \<open>\<open>false\<close> is returned only when every live request is terminal and nothing is pending.\<close>
lemma triple_run_stops:
  fixes pol :: "'p Policy"
  shows "triple (\<lambda>_ :: ('x, 'p) Scheduler. True) (run_once pol tid) (\<lambda>b s. b \<or> all_terminal s) (\<lambda>_ _. True)"
proof -
  have fin: "triple (\<lambda>_ :: ('x, 'p) Scheduler. True) (finish_iteration True) (\<lambda>b s. b \<or> all_terminal s) (\<lambda>_ _. True)"
    by (rule tripleI) (auto dest: finish_iteration_result)
  have dec: "triple (\<lambda>_ :: ('x, 'p) Scheduler. True) (decide pol) (\<lambda>b s. b \<or> all_terminal s) (\<lambda>_ _. True)"
  proof -
    have "triple (\<lambda>_ :: ('x, 'p) Scheduler. True) (bind_op (make_plan pol) (\<lambda>ws. then_op (judge_plan rp ws) (finish_iteration True)))
        (\<lambda>b s. b \<or> all_terminal s) (\<lambda>_ _. True)" for rp
      by (rule triple_bind [OF triple_true triple_then [OF triple_true fin]])
    then show ?thesis using fin by (simp add: triple_def decide_def Let_def)
  qed
  have last: "triple (\<lambda>_ :: ('x, 'p) Scheduler. True) (\<lambda>s. if all_terminal s then finish_iteration False s
           else if draining s \<or> \<not> d then finish_iteration True s else decide pol s)
      (\<lambda>b s. b \<or> all_terminal s) (\<lambda>_ _. True)" for d
  proof -
    have "triple (all_terminal :: ('x, 'p) Scheduler \<Rightarrow> bool) (finish_iteration False) (\<lambda>b s. b \<or> all_terminal s) (\<lambda>_ _. True)"
      by (rule tripleI) (auto dest: finish_iteration_all_terminal)
    then show ?thesis using fin dec by (simp add: triple_def)
  qed
  have snap: "triple (\<lambda>_ :: ('x, 'p) Scheduler. True) (after_snapshot pol tid d) (\<lambda>b s. b \<or> all_terminal s) (\<lambda>_ _. True)" for d
    unfolding after_snapshot_def by (rule triple_then [OF triple_true triple_then [OF triple_true last]])
  have snap': "triple (\<lambda>_ :: ('x, 'p) Scheduler. True) (\<lambda>s. after_snapshot pol tid (completed_epoch (handoff s) \<ge> published_epoch s) s)
      (\<lambda>b s. b \<or> all_terminal s) (\<lambda>_ _. True)"
    using snap by (simp add: triple_def)
  show ?thesis unfolding run_once_def
    by (rule triple_then [OF triple_true triple_bind [OF triple_true triple_then [OF triple_true
          triple_then [OF triple_true triple_then [OF triple_true snap']]]]])
qed

lemma run_once_stops: "run_once pol tid s = (Inr False, s') \<Longrightarrow> all_terminal s'"
  by (drule triple_Inr [OF triple_run_stops TrueI]) simp

end
