(* ===== verification/Scheduler_Examples.thy ===== *)
theory Scheduler_Examples
  imports Scheduler_Publish Handoff_Plans
begin

text \<open>
  Small concrete schedulers on which iterations are evaluated by the simplifier; the witnesses
  of the properties use them.
\<close>

section \<open>A small scheduler\<close>

text \<open>A policy that plans nothing, a clock that stands still, and one that always throws.\<close>
definition idle_policy :: "unit Policy" where
  "idle_policy = \<lparr>build_plan = (\<lambda>v p. (Inr [], p)), on_plan_completed = (\<lambda>v b p. (Inr (), p)),
     on_request_timing = (\<lambda>v e p. (Inr (), p))\<rparr>"

definition still_clock :: "unit clock_function" where
  "still_clock x = (Inr 5, x)"

definition broken_clock :: "unit clock_function" where
  "broken_clock x = (Inl (External_exception ''clock''), x)"

definition demo_handoff_state :: Handoff where
  "demo_handoff_state = \<lparr>pool_size = 2, completed_epoch = 0, published = None,
     handoff_stop_requested = False, scheduler_progress_generation = 0,
     retired = empty_ring 4, admissions = empty_ring 4, releases = empty_ring 4,
     admission_results = empty_ring 4, completions = empty_ring 4, outputs = empty_ring 4,
     release_acks = empty_ring 4, fatals = empty_ring 4,
     pool = [\<lparr>plan_work = [], plan_epoch = 0\<rparr>], spare = 0, handoff_epoch = 0\<rparr>"

definition demo_scheduler :: "(unit, unit) Scheduler" where
  "demo_scheduler = (case new_scheduler still_clock demo_handoff_state 8 None () () of Inr s \<Rightarrow> s | Inl _ \<Rightarrow> undefined)"

lemma demo_scheduler_new: "new_scheduler still_clock demo_handoff_state 8 None () () = Inr demo_scheduler"
  by (simp add: demo_scheduler_def new_scheduler_def)

lemma demo_scheduler_reachable: "scheduler_reachable idle_policy demo_scheduler"
  by (rule scheduler_reachable.construct [OF demo_scheduler_new])

definition demo_submitted :: "(unit, unit) Scheduler" where
  "demo_submitted = snd (submit 0 ''hi'' 3 Natural [] demo_scheduler)"

lemma demo_submit: "submit 0 ''hi'' 3 Natural [] demo_scheduler = (Inr 0, demo_submitted)"
  by (simp add: demo_submitted_def submit_def submit_admission_def begin_nonconst_operation_def
      demo_scheduler_def new_scheduler_def bind_op_def now_def call_world_def still_clock_def
      then_op_def publish_workload_counts_def increment_queued_def u32_of_u64_def u32_max_def
      u64_of_u32_def run_simps)

lemma demo_submitted_reachable: "scheduler_reachable idle_policy demo_submitted"
  using demo_submit unfolding submit_def
  by (rule scheduler_reachable.submission [OF demo_scheduler_reachable])

section \<open>Evaluating iterations\<close>

lemma drain_empty: "drain body (empty_ring c) s = (Inr (), empty_ring c, s)"
  by (simp add: drain.simps try_pop_def empty_ring_def)

lemmas run_once_eval = run_once_def bind_op_def then_op_def now_def call_world_def run_simps
  start_execution_def begin_nonconst_operation_def still_clock_def observe_stop_def
  flush_pending_admissions_def after_snapshot_def take_messages_def drain_admission_results_def
  drain_channel_def drain_empty drain_outputs_def drain_completions_def drain_release_acks_def
  drain_fatals_def retry_releases_def retire_terminal_requests_def recover_terminal_markers_def
  retire_loop.simps pop_marker_def erase_request_def complete_batch_def all_terminal_def decide_def
  is_schedulable_def make_plan_def decision_now_def call_policy_def begin_plan_def fill_plan_def
  judge_plan_def validate_plan_def find_request_def check_kind_def u64_of_u32_def word_le_nat_alt
  publish_plan_def commit_def start_work_def update_request_def decrement_queued_def
  finish_iteration_def publish_workload_counts_def enter_draining_def drain_request_def
  finish_without_release_def finished_def queue_terminal_marker_def Let_def

definition demo_handoff2 :: Handoff where
  "demo_handoff2 = \<lparr>pool_size = 2, completed_epoch = 0, published = None,
     handoff_stop_requested = False, scheduler_progress_generation = 0,
     retired = snd (try_push 1 (empty_ring 4)), admissions = empty_ring 4, releases = empty_ring 4,
     admission_results = empty_ring 4, completions = empty_ring 4, outputs = empty_ring 4,
     release_acks = empty_ring 4, fatals = empty_ring 4,
     pool = [\<lparr>plan_work = [], plan_epoch = 0\<rparr>, \<lparr>plan_work = [], plan_epoch = 0\<rparr>],
     spare = 0, handoff_epoch = 0\<rparr>"

lemma demo_handoff2_new: "new_handoff 2 4 = Inr demo_handoff2"
  by (simp add: new_handoff_def validate_pool_size_def new_queue_def validate_capacity_def allocate_plan_def
      demo_handoff2_def try_push_def empty_ring_def Let_def word_le_nat_alt)

lemma demo_handoff2_reachable: "plans_reachable (demo_handoff2, None)"
  by (rule plans_reachable.start [OF demo_handoff2_new])

lemma demo_retired: "\<exists>q. try_pop (snd (try_push (Suc 0) (empty_ring 4))) = (Some 1, q)"
  by (simp add: try_push_def try_pop_def empty_ring_def slot_def Let_def word_le_nat_alt)

text \<open>A policy that plans the whole prompt of request 0, and a scheduler with that request.\<close>
definition eager_work :: WorkItem where
  "eager_work = \<lparr>work_id = 0, token_begin = 0, token_end = 4, work_kind = Prefill\<rparr>"

definition eager_policy :: "unit Policy" where
  "eager_policy = idle_policy\<lparr>build_plan := (\<lambda>v p. (Inr [eager_work], p))\<rparr>"

definition demo_ready :: "(unit, unit) Scheduler" where
  "demo_ready = demo_scheduler\<lparr>handoff := demo_handoff2,
     live_requests := [new_request\<lparr>stage := PrefillStage, admission := EnvironmentOwned,
       prompt_length := 4, max_output_tokens := 3\<rparr>],
     workload_counts := \<lparr>active_count = 1, queued_count = 1\<rparr>\<rparr>"

lemma demo_ready_publishes:
  "\<exists>s'. run_once eager_policy 0 demo_ready = (Inr True, s') \<and> published (handoff s') = Some 0 \<and>
    handoff_epoch (handoff s') = 1"
proof -
  obtain q where q: "try_pop (snd (try_push (Suc 0) (empty_ring 4))) = (Some 1, q)"
    using demo_retired by blast
  show ?thesis
    by (simp add: run_once_eval q demo_ready_def demo_scheduler_def new_scheduler_def demo_handoff2_def
        new_request_def eager_policy_def idle_policy_def eager_work_def)
qed

text \<open>The same scheduler while the environment still works on epoch 1.\<close>
lemma demo_busy_waits:
  "\<exists>s'. run_once eager_policy 0 (demo_ready\<lparr>published_epoch := 1\<rparr>) = (Inr True, s')"
  by (simp add: run_once_eval demo_ready_def demo_scheduler_def new_scheduler_def demo_handoff2_def
      new_request_def eager_policy_def idle_policy_def eager_work_def)

text \<open>A stopped scheduler with one unsent request: it finishes the request and ends the run.\<close>
definition demo_drained :: "(unit, unit) Scheduler" where
  "demo_drained = snd (run_once idle_policy 0 (request_stop demo_submitted))"

lemma demo_stop_run: "run_once idle_policy 0 (request_stop demo_submitted) = (Inr False, demo_drained)"
  and demo_drained_drains: "draining demo_drained"
  and demo_drained_again: "\<exists>s'. run_once idle_policy 0 demo_drained = (Inr False, s')"
  and demo_drained_submit: "\<exists>s'. submit_admission 0 \<lparr>adm_id = 0, adm_prompt = ''x'', adm_max_output_tokens = 1,
     adm_synthetic_prompt_tokens = None, adm_output_mode = Natural, adm_conversation_id = []\<rparr> demo_drained = (Inr 1, s')"
  by (simp_all add: demo_drained_def run_once_eval request_stop_def wake_scheduler_def
      notify_scheduler_progress_def demo_submitted_def submit_def submit_admission_def
      demo_scheduler_def new_scheduler_def demo_handoff_state_def increment_queued_def u32_of_u64_def
      u32_max_def submitted_request_def new_request_def idle_policy_def)

lemma demo_drained_reachable: "scheduler_reachable idle_policy demo_drained"
  by (rule scheduler_reachable.iteration [OF scheduler_reachable.stop [OF demo_submitted_reachable] demo_stop_run])

end
