(* ===== verification/Scheduler_Props.thy ===== *)
theory Scheduler_Props
  imports Scheduler_Examples
begin

text \<open>The properties of the scheduler.\<close>

section \<open>Counters, exceptions, lifecycle\<close>

text \<open>
  C4. In every reachable scheduler, whatever the environment sent, the queued counter is the
  number of live requests that are not terminal and not yet part of a published plan, and the
  active counter is the number of requests the environment owns.
\<close>
theorem workload_counts_exact:
  assumes "scheduler_reachable pol s"
  shows "unat (queued_count (workload_counts s)) =
      length (filter (\<lambda>r. stage r \<noteq> Terminal \<and> \<not> start_recorded r) (live_requests s)) \<and>
    unat (active_count (workload_counts s)) =
      length (filter (\<lambda>r. admission r = EnvironmentOwned) (live_requests s))"
  using scheduler_reachable_inv [OF assms]
  by (simp add: sched_inv_def base_inv_def counts_inv_def waiting_def [abs_def] owned_def [abs_def])

lemma demo_submitted_fields:
  "live_requests demo_submitted = [submitted_request 0 \<lparr>adm_id = 0, adm_prompt = ''hi'', adm_max_output_tokens = 3,
     adm_synthetic_prompt_tokens = None, adm_output_mode = Natural, adm_conversation_id = []\<rparr> 5]"
  "queued_count (workload_counts demo_submitted) = 1" "next_request_id demo_submitted = 1"
  "completed_history demo_submitted = []" "streaming_retirement demo_submitted = False"
  "draining demo_submitted = False" "clock demo_submitted = still_clock"
  "pending_admissions demo_submitted \<noteq> []"
  by (simp_all add: demo_submitted_def submit_def submit_admission_def begin_nonconst_operation_def
      demo_scheduler_def new_scheduler_def bind_op_def now_def call_world_def still_clock_def
      then_op_def publish_workload_counts_def increment_queued_def u32_of_u64_def u32_max_def
      u64_of_u32_def run_simps)

theorem workload_counts_exact_witness:
  "scheduler_reachable idle_policy demo_submitted \<and>
   length (filter (\<lambda>r. stage r \<noteq> Terminal \<and> \<not> start_recorded r) (live_requests demo_submitted)) = 1"
  using workload_counts_exact [OF demo_submitted_reachable] demo_submitted_reachable
  by (simp add: demo_submitted_fields(2))

text \<open>
  C5. An iteration of a reachable scheduler throws only what one of the caller's callbacks or
  the policy throws, or the error of a decision clock that moved backwards: neither underflow
  check of the workload counters is ever reached.
\<close>
theorem run_once_exceptions:
  assumes "scheduler_reachable pol s" and "run_once pol tid s = (Inl e, s')"
  shows "callback_throws (callbacks s) pol e \<or>
    e = Runtime_error ''scheduler decision clock moved backwards''"
proof -
  have "keep (callbacks s) s" using scheduler_reachable_inv [OF assms(1)] by (simp add: keep_def)
  from triple_Inl [OF triple_run_once this assms(2)] show ?thesis by (simp add: run_throws_def)
qed

definition broken_scheduler :: "(unit, unit) Scheduler" where
  "broken_scheduler = (case new_scheduler still_clock demo_handoff_state 8 (Some broken_clock) () ()
     of Inr s \<Rightarrow> s | Inl _ \<Rightarrow> undefined)"

lemma broken_scheduler_reachable: "scheduler_reachable idle_policy broken_scheduler"
  by (rule scheduler_reachable.construct [of still_clock demo_handoff_state 8 "Some broken_clock" "()" "()"])
    (simp add: broken_scheduler_def new_scheduler_def)

lemma broken_scheduler_throws: "\<exists>s'. run_once idle_policy 0 broken_scheduler = (Inl (External_exception ''clock''), s')"
  by (simp add: run_once_def bind_op_def now_def call_world_def broken_scheduler_def new_scheduler_def
      start_execution_def begin_nonconst_operation_def broken_clock_def)

theorem run_once_exceptions_witness:
  "callback_throws (callbacks broken_scheduler) idle_policy (External_exception ''clock'')"
proof -
  obtain s' where "run_once idle_policy 0 broken_scheduler = (Inl (External_exception ''clock''), s')"
    using broken_scheduler_throws by blast
  from run_once_exceptions [OF broken_scheduler_reachable this] show ?thesis by simp
qed

text \<open>
  C3. Request lifecycle: a live request of a reachable scheduler is owned by the environment
  exactly between its admission and its end, is scheduled only then, below its output limit
  and, in decode, past its prompt; a terminal one is finished and owned by nobody; one not yet
  sent has its admission among the pending ones. The ids of the live and the retired requests
  are all different and below the next id to be given out.
\<close>
theorem request_lifecycle:
  assumes "scheduler_reachable pol s" and "r \<in> set (live_requests s)"
  shows "(admission r = EnvironmentOwned \<longleftrightarrow> stage r \<in> {PrefillStage, DecodeStage, PendingRelease}) \<and>
    (stage r \<in> {PrefillStage, DecodeStage} \<longrightarrow> decoded_count r < max_output_tokens r \<and> \<not> release_sent r \<and> \<not> draining s) \<and>
    (stage r = DecodeStage \<longrightarrow> prompt_length r \<le> prefill_position r) \<and>
    (stage r = Terminal \<longrightarrow> finish_recorded r \<and> admission r = NotSent) \<and>
    (stage r = PendingAdmission \<and> admission r = NotSent \<longrightarrow> req_id r \<in> adm_id ` set (pending_admissions s)) \<and>
    (first_token_recorded r \<longleftrightarrow> output_token_ids r \<noteq> []) \<and>
    length (output_token_ids r) \<le> unat (decoded_count r) \<and>
    distinct (map req_id (completed_history s @ live_requests s)) \<and>
    list_all (\<lambda>q. unat (req_id q) < unat (next_request_id s)) (completed_history s @ live_requests s)"
proof -
  have inv: "sched_inv s" by (rule scheduler_reachable_inv [OF assms(1)])
  then have ok: "request_ok r" using assms(2) by (simp add: sched_inv_def base_inv_def requests_inv_def)
  have "ids_inv s" using inv by (simp add: sched_inv_def base_inv_def)
  then have ids: "distinct (map req_id (completed_history s @ live_requests s))"
    "list_all (\<lambda>q. unat (req_id q) < unat (next_request_id s)) (completed_history s @ live_requests s)"
    by (auto simp: ids_inv_def all_ids_def list_all_iff)
  have pend: "unsent r \<Longrightarrow> req_id r \<in> adm_id ` set (pending_admissions s)"
    using inv assms(2) by (simp add: sched_inv_def base_inv_def queues_inv_def)
  have "is_schedulable r \<Longrightarrow> \<not> draining s" using inv assms(2) by (auto simp: sched_inv_def drained_def)
  then show ?thesis using ok pend ids
    by (cases "stage r") (auto simp: request_ok_def is_schedulable_def prefill_done_def unsent_def)
qed

theorem request_lifecycle_witness:
  "list_all (\<lambda>r. admission r = NotSent \<and> req_id r \<in> adm_id ` set (pending_admissions demo_submitted) \<and>
     unat (req_id r) < 1) (live_requests demo_submitted) \<and> live_requests demo_submitted \<noteq> []"
  using request_lifecycle [OF demo_submitted_reachable]
  by (simp add: demo_submitted_fields(1,3,4) submitted_request_def new_request_def)

section \<open>Nothing is lost\<close>

definition cache_ok :: "('x, 'p) Scheduler \<Rightarrow> bool" where
  "cache_ok s \<longleftrightarrow> (inspection_cache_valid s \<longrightarrow>
     inspection_cache s = sort_key req_id (completed_history s @ live_requests s))"

lemma scheduler_reachable_cache: "scheduler_reachable pol s \<Longrightarrow> cache_ok s"
proof (induction rule: scheduler_reachable.induct)
  case (submission s tid a i s')
  then show ?case by (auto simp: cache_ok_def dest: submit_plan_state)
next
  case (iteration s tid b s')
  then show ?case by (auto simp: cache_ok_def dest: run_once_uncached)
qed (auto simp: cache_ok_def new_scheduler_def enable_streaming_retirement_def begin_nonconst_operation_def
    set_workload_observer_def set_batch_observer_def set_clock_def set_decision_clock_def request_stop_def
    requests_def run_simps Let_def split: if_splits option.splits)

lemma sorted_ids:
  assumes "sorted xs" "distinct xs" "\<forall>x \<in> set xs. unat (x::RequestId) < n" "length xs = n"
  shows "map unat xs = [0..<n]"
proof -
  have d: "distinct (map unat xs)" using assms(2) by (simp add: distinct_map inj_on_def word_unat_eq_iff)
  have "set (map unat xs) \<subseteq> {..<n}" using assms(3) by auto
  moreover have "card (set (map unat xs)) = n" using distinct_card [OF d] assms(4) by simp
  ultimately have s: "set (map unat xs) = {..<n}" by (intro card_subset_eq) auto
  have "sorted_wrt (\<lambda>x y. unat x \<le> unat y) xs"
    using assms(1) by (rule sorted_wrt_mono_rel [rotated]) (simp add: word_le_nat_alt)
  then have "sorted (map unat xs)" by (simp add: sorted_map)
  then show ?thesis using d s
    by (intro sorted_distinct_set_unique) (auto simp: atLeast0LessThan)
qed

text \<open>
  Without streaming retirement \<open>requests()\<close> returns every request ever submitted, exactly
  once and in submission order: its ids are 0, 1, ... up to the next id, also when it answers
  from its cache.
\<close>
theorem requests_complete:
  assumes "scheduler_reachable pol s" and "\<not> streaming_retirement s"
  shows "\<exists>rs s'. requests s = (Inr rs, s') \<and> map (\<lambda>r. unat (req_id r)) rs = [0..<unat (next_request_id s)]
    \<and> set rs = set (completed_history s) \<union> set (live_requests s)"
proof -
  let ?all = "completed_history s @ live_requests s"
  let ?rs = "sort_key req_id ?all"
  have inv: "ids_inv s" using scheduler_reachable_inv [OF assms(1)] by (simp add: sched_inv_def base_inv_def)
  have "distinct (map req_id ?all)" using inv by (simp add: ids_inv_def all_ids_def)
  then have "distinct (map req_id ?rs)" by (simp only: distinct_map distinct_sort set_sort)
  moreover have "\<forall>x \<in> set (map req_id ?rs). unat x < unat (next_request_id s)"
    "length (map req_id ?rs) = unat (next_request_id s)"
    using inv assms(2) by (auto simp: ids_inv_def all_ids_def)
  ultimately have "map unat (map req_id ?rs) = [0..<unat (next_request_id s)]"
    by (intro sorted_ids) simp_all
  moreover have "\<exists>s'. requests s = (Inr ?rs, s')"
    using scheduler_reachable_cache [OF assms(1)] assms(2) by (simp add: requests_def cache_ok_def run_simps Let_def)
  ultimately show ?thesis by (auto simp: comp_def)
qed

theorem requests_complete_witness:
  "\<exists>rs s'. requests demo_submitted = (Inr rs, s') \<and> map (\<lambda>r. unat (req_id r)) rs = [0]"
proof -
  obtain rs s' where "requests demo_submitted = (Inr rs, s')"
    "map (\<lambda>r. unat (req_id r)) rs = [0..<unat (next_request_id demo_submitted)]"
    using requests_complete [OF demo_submitted_reachable] by (auto simp: demo_submitted_fields)
  then show ?thesis by (intro exI [of _ rs] exI [of _ s']) (simp add: demo_submitted_fields)
qed

section \<open>Plans\<close>

text \<open>
  C6. Plan validation accepts exactly the plans of the specification: every item names the
  next tokens of a different live request, in the stage it asks for, and the items together
  fit the token budget, counted without wrap-around. A rejected plan is reported as a protocol
  violation with one of its items as the offender.
\<close>
theorem validate_plan_correct:
  "(err_valid (validate_plan ws s) \<longleftrightarrow> valid_plan (\<lambda>i. find_request i s) (token_budget s) ws) \<and>
   (err_valid (validate_plan ws s) \<or>
     (err_code (validate_plan ws s) = ProtocolViolation \<and> offending_work (validate_plan ws s) \<in> set ws))"
proof -
  have "err_valid (validate_from look b seen acc ws) \<or>
      (err_code (validate_from look b seen acc ws) = ProtocolViolation \<and>
       offending_work (validate_from look b seen acc ws) \<in> set ws)" for look b seen acc
    by (induction ws arbitrary: seen acc)
      (auto simp: Let_def split: option.splits dest: check_kind_Some)
  then show ?thesis using validate_plan_spec by (simp add: validate_plan_def)
qed

text \<open>
  C7. Whatever a policy builds, an iteration hands the environment only valid plans: either
  it publishes nothing, or the published plan satisfies the specification of plan validation
  for the requests as the iteration leaves them.
\<close>
theorem published_plans_valid:
  assumes "plans_reachable (handoff s, held)" and "run_once pol tid s = (r, s')"
  shows "(handoff_epoch (handoff s') = handoff_epoch (handoff s) \<and> published (handoff s') = published (handoff s)) \<or>
    (\<exists>p. published (handoff s') = Some p \<and>
       valid_plan (\<lambda>i. find_request i s') (token_budget s') (plan_work (pool (handoff s') ! p)))"
proof -
  have len: "spare (handoff s) < length (pool (handoff s))"
    using plans_reachable_inv [OF assms(1)] by (auto intro: spare_in_pool)
  from run_once_decides [OF assms(2)] show ?thesis
  proof (elim disjE exE conjE)
    assume "plan_state s' = plan_state s"
    then show ?thesis by (simp add: plan_state_def control_def)
  next
    fix s1
    assume p: "plan_state s1 = plan_state s" and d: "decide pol s1 = (r, s')"
    have "spare (handoff s1) < length (pool (handoff s1))" using len p by (simp add: plan_state_def control_def)
    from decide_result [OF this d] p show ?thesis
      by (auto simp: published_nothing_def published_valid_def plan_state_def control_def)
  qed
qed

theorem published_plans_valid_witness:
  "\<exists>s' p. run_once eager_policy 0 demo_ready = (Inr True, s') \<and> published (handoff s') = Some p \<and>
     valid_plan (\<lambda>i. find_request i s') (token_budget s') (plan_work (pool (handoff s') ! p))"
proof -
  obtain s' where s': "run_once eager_policy 0 demo_ready = (Inr True, s')" "handoff_epoch (handoff s') = 1"
    using demo_ready_publishes by blast
  have h: "handoff demo_ready = demo_handoff2" by (simp add: demo_ready_def)
  have "plans_reachable (handoff demo_ready, None)" using demo_handoff2_reachable by (simp add: h)
  from published_plans_valid [OF this s'(1)] s' show ?thesis by (auto simp: h demo_handoff2_def)
qed

text \<open>
  At most one epoch is outstanding: an iteration changes the plan pool or publishes only
  when the scheduler is not draining and the environment has completed the epoch published
  before.
\<close>
theorem one_epoch_outstanding:
  assumes "run_once pol tid s = (r, s')"
    and "draining s \<or> completed_epoch (handoff s) < published_epoch s"
  shows "published_epoch s' = published_epoch s \<and> published (handoff s') = published (handoff s) \<and>
    handoff_epoch (handoff s') = handoff_epoch (handoff s) \<and> pool (handoff s') = pool (handoff s)"
proof -
  have "(draining s' \<or> completed_epoch (handoff s') < published_epoch s') \<and> plan_state s' = plan_state s"
    by (rule stableD [OF idle.iteration _ assms(1)]) (use assms(2) in simp)
  then show ?thesis by (simp add: plan_state_def control_def)
qed

theorem one_epoch_outstanding_witness:
  "\<exists>s'. run_once eager_policy 0 (demo_ready\<lparr>published_epoch := 1\<rparr>) = (Inr True, s') \<and>
     published (handoff s') = None"
proof -
  obtain s' where s': "run_once eager_policy 0 (demo_ready\<lparr>published_epoch := 1\<rparr>) = (Inr True, s')"
    using demo_busy_waits by blast
  have "completed_epoch (handoff (demo_ready\<lparr>published_epoch := 1\<rparr>)) < published_epoch (demo_ready\<lparr>published_epoch := 1\<rparr>)"
    by (simp add: demo_ready_def demo_handoff2_def)
  from one_epoch_outstanding [OF s' disjI2 [OF this]] s' show ?thesis
    by (simp add: demo_ready_def demo_handoff2_def)
qed

section \<open>Draining\<close>

text \<open>
  C8. Draining is final and hands out no more work: an iteration of a reachable draining
  scheduler leaves it draining with the error the drain began with, publishes nothing, and no
  live request is schedulable afterwards.
\<close>
theorem draining_is_final:
  assumes "scheduler_reachable pol s" and "draining s" and "run_once pol tid s = (Inr b, s')"
  shows "draining s' \<and> drain_error s' = drain_error s \<and> published (handoff s') = published (handoff s) \<and>
    (\<forall>r \<in> set (live_requests s'). stage r \<notin> {PrefillStage, DecodeStage})"
proof -
  have d: "draining s' \<and> drain_error s' = drain_error s"
    by (rule stableD [OF drains.iteration _ assms(3)]) (use assms(2) in simp)
  have "(draining s' \<or> completed_epoch (handoff s') < published_epoch s') \<and> plan_state s' = plan_state s"
    by (rule stableD [OF idle.iteration _ assms(3)]) (use assms(2) in simp)
  moreover have "sched_inv s'"
    using scheduler_reachable.iteration [OF assms(1,3)] by (rule scheduler_reachable_inv)
  ultimately show ?thesis using d
    by (auto simp: sched_inv_def drained_def is_schedulable_def plan_state_def control_def)
qed

theorem draining_is_final_witness:
  "\<exists>s'. run_once idle_policy 0 demo_drained = (Inr False, s') \<and> draining s' \<and> drain_error s' = drain_error demo_drained"
proof -
  obtain s' where s': "run_once idle_policy 0 demo_drained = (Inr False, s')" using demo_drained_again by blast
  from draining_is_final [OF demo_drained_reachable demo_drained_drains s'] s' show ?thesis by blast
qed

text \<open>
  The states at the head of the loop of \<open>run\<close>: iterations that returned true, and between them
  whatever the environment does to the handoff.
\<close>
inductive loop_head :: "'p Policy \<Rightarrow> thread_id \<Rightarrow> ('x, 'p) Scheduler \<Rightarrow> ('x, 'p) Scheduler \<Rightarrow> bool"
  for pol tid s where
  entry: "loop_head pol tid s s"
| environment: "loop_head pol tid s t \<Longrightarrow> loop_head pol tid s (t\<lparr>handoff := h\<rparr>)"
| again: "loop_head pol tid s t \<Longrightarrow> run_once pol tid t = (Inr True, t') \<Longrightarrow> loop_head pol tid s t'"

text \<open>An iteration with an admission left behind by the drain.\<close>
lemma left_behind:
  assumes "draining t" "a \<in> set (pending_admissions t)" "run_once pol tid t = (r, t')"
  shows "draining t' \<and> a \<in> set (pending_admissions t') \<and> admissions (handoff t') = admissions (handoff t) \<and>
    r \<noteq> Inr False"
proof -
  have "draining t' \<and> a \<in> set (pending_admissions t') \<and> admissions (handoff t') = admissions (handoff t)"
    by (rule stableD [OF late.iteration _ assms(3)]) (use assms(1,2) in simp)
  moreover have "r \<noteq> Inr False"
    using calculation run_once_stops [of pol tid t t'] assms(3) by (auto simp: all_terminal_def)
  ultimately show ?thesis by simp
qed

lemma loop_head_left_behind:
  "loop_head pol tid s t \<Longrightarrow> draining s \<Longrightarrow> a \<in> set (pending_admissions s) \<Longrightarrow>
     draining t \<and> a \<in> set (pending_admissions t)"
  by (induction rule: loop_head.induct) (auto dest: left_behind)

lemma run_left_behind:
  "draining t \<Longrightarrow> a \<in> set (pending_admissions t) \<Longrightarrow> run pol tid envs t \<noteq> Some (Inr (), s2)"
proof (induction envs arbitrary: t)
  case (Cons env envs)
  let ?t = "t\<lparr>handoff := env (handoff t)\<rparr>"
  obtain r t' where r: "run_once pol tid ?t = (r, t')" by (metis surj_pair)
  have "draining t' \<and> a \<in> set (pending_admissions t') \<and> r \<noteq> Inr False"
    using left_behind [OF _ _ r] Cons.prems by simp
  then show ?case using Cons.IH [of t'] r by (cases r) auto
qed simp

text \<open>
  C10. A request submitted after draining began is never sent and keeps the scheduler from
  ever finishing: whatever the environment does and however often the loop of \<open>run\<close> goes
  round, the admission stays pending, an iteration puts nothing into the channel of
  admissions and never returns false, and \<open>run\<close> does not return normally (only an exception can
  end it).
\<close>
theorem submit_while_draining_hangs:
  assumes "draining s" and "submit_admission tid a s = (Inr i, s1)" and "loop_head pol tid' s1 t"
  shows "a\<lparr>adm_id := i\<rparr> \<in> set (pending_admissions t) \<and>
    admissions (handoff (snd (run_once pol tid' t))) = admissions (handoff t) \<and>
    fst (run_once pol tid' t) \<noteq> Inr False \<and> run pol tid' envs t \<noteq> Some (Inr (), s2)"
proof -
  have "draining s1" "a\<lparr>adm_id := i\<rparr> \<in> set (pending_admissions s1)"
    using assms(1) submit_pending [OF assms(2)] submit_plan_state [OF assms(2)] by simp_all
  then have t: "draining t" "a\<lparr>adm_id := i\<rparr> \<in> set (pending_admissions t)"
    using loop_head_left_behind [OF assms(3)] by blast+
  then show ?thesis
    using left_behind [OF t, of pol tid' "fst (run_once pol tid' t)" "snd (run_once pol tid' t)"]
      run_left_behind [OF t] by simp
qed

theorem submit_while_draining_hangs_witness:
  "\<exists>s1 :: (unit, unit) Scheduler. draining s1 \<and> pending_admissions s1 \<noteq> [] \<and>
     (\<forall>n s2. run idle_policy 0 (replicate n id) s1 \<noteq> Some (Inr (), s2))"
proof -
  let ?a = "\<lparr>adm_id = 0, adm_prompt = ''x'', adm_max_output_tokens = 1,
     adm_synthetic_prompt_tokens = None, adm_output_mode = Natural, adm_conversation_id = []\<rparr>"
  obtain s1 where s1: "submit_admission 0 ?a demo_drained = (Inr 1, s1)"
    using demo_drained_submit by blast
  have h: "?a\<lparr>adm_id := 1\<rparr> \<in> set (pending_admissions s1)" "\<And>n s2. run idle_policy 0 (replicate n id) s1 \<noteq> Some (Inr (), s2)"
    using submit_while_draining_hangs [OF demo_drained_drains s1 loop_head.entry] by blast+
  have "draining s1" using submit_plan_state [OF s1] demo_drained_drains by simp
  then show ?thesis using h by (intro exI [of _ s1]) auto
qed

section \<open>Ending, failing, and waiting for nothing\<close>

text \<open>
  C9. The run ends only when its work is done: \<open>run_once\<close> returns false only with no admission
  pending and every live request terminal, for any policy, observers and environment.
\<close>
theorem run_once_false_all_terminal:
  assumes "run_once pol tid s = (Inr False, s')"
  shows "pending_admissions s' = [] \<and> (\<forall>r \<in> set (live_requests s'). stage r = Terminal)"
  using run_once_stops [OF assms] by (simp add: all_terminal_def list_all_iff)

theorem run_once_false_all_terminal_witness:
  "pending_admissions demo_drained = [] \<and> list_all (\<lambda>r. stage r = Terminal) (live_requests demo_drained)"
  using run_once_false_all_terminal [OF demo_stop_run] by (simp add: list_all_iff)

text \<open>
  When the injected clock throws, an iteration consumes no message and changes no request,
  counter, queue or channel: it only drops the inspection cache and binds the scheduler to its
  thread, so a retry can proceed.
\<close>
theorem clock_failure_changes_nothing:
  assumes "clock s (world s) = (Inl e, x)"
  shows "run_once pol tid s = (Inl e, s\<lparr>inspection_cache := [], inspection_cache_valid := False,
    execution_started := True, scheduler_thread := (if execution_started s then scheduler_thread s else tid),
    world := x\<rparr>)"
  using assms by (simp add: run_once_def bind_op_def now_def call_world_def start_execution_def
      begin_nonconst_operation_def)

theorem clock_failure_changes_nothing_witness:
  "live_requests (snd (run_once idle_policy 3 broken_scheduler)) = live_requests broken_scheduler \<and>
   scheduler_thread (snd (run_once idle_policy 3 broken_scheduler)) = 3"
proof -
  have "clock broken_scheduler (world broken_scheduler) = (Inl (External_exception ''clock''), ())"
    "execution_started broken_scheduler = False"
    by (simp_all add: broken_scheduler_def new_scheduler_def broken_clock_def)
  then show ?thesis using clock_failure_changes_nothing [of broken_scheduler _ _ idle_policy 3] by simp
qed











end
