(* ===== verification/Policies.thy ===== *)
theory Policies
  imports Scheduler_Props "HOL-Library.Sublist" "HOL-Library.Multiset"
begin

text \<open>
  The three policies without numeric tuning (\<open>src/policies/fifo.cpp\<close>,
  \<open>continuous_batched_fifo.cpp\<close>, \<open>cache_aware_continuous_fifo.cpp\<close>) and the contract they share.
  \<open>build_plan\<close> reads the token budget and the live requests and appends to an empty plan;
  each is a function from the policy's view to the work it appends. The only member of a
  policy is the cache-aware one's locality window.
\<close>

section \<open>First in, first out\<close>

definition has_progress :: "RequestState \<Rightarrow> bool" where
  "has_progress r \<longleftrightarrow> prefill_position r > 0 \<or> decoded_count r > 0"

text \<open>The first loop: the first request with progress, and whether one awaits its release.\<close>
fun fifo_scan :: "RequestState option \<Rightarrow> bool \<Rightarrow> RequestState list \<Rightarrow> RequestState option \<times> bool" where
  "fifo_scan active release_pending [] = (active, release_pending)"
| "fifo_scan active release_pending (r # rs) =
     fifo_scan
       (if is_schedulable r \<and> has_progress r \<and> active = None then Some r else active)
       (if stage r = PendingRelease \<and> has_progress r then True else release_pending) rs"

text \<open>The second loop: \<open>None\<close> when it returns from the function.\<close>
fun fifo_first :: "RequestState list \<Rightarrow> RequestState option option" where
  "fifo_first [] = Some None"
| "fifo_first (r # rs) =
     (if stage r = PendingAdmission \<or> stage r = Terminal then fifo_first rs
      else if stage r = PendingRelease then None
      else if is_schedulable r then Some (Some r)
      else fifo_first rs)"

definition decode_end :: "RequestState \<Rightarrow> u64" where
  "decode_end r = u64_of_u32 (prompt_length r) + u64_of_u32 (decoded_count r)"

definition decode_work :: "RequestState \<Rightarrow> WorkItem" where
  "decode_work r = \<lparr>work_id = req_id r, token_begin = u32_of_u64 (decode_end r - 1),
     token_end = u32_of_u64 (decode_end r), work_kind = Decode\<rparr>"

definition prefill_work :: "RequestState \<Rightarrow> u32 \<Rightarrow> WorkItem" where
  "prefill_work r end = \<lparr>work_id = req_id r, token_begin = prefill_position r, token_end = end,
     work_kind = Prefill\<rparr>"

definition fifo_work :: "u32 \<Rightarrow> RequestState \<Rightarrow> WorkItem list" where
  "fifo_work budget r =
     (if stage r = PrefillStage then
        (let end = min (u64_of_u32 (prompt_length r)) (u64_of_u32 (prefill_position r) + u64_of_u32 budget) in
         if u64_of_u32 (prefill_position r) < end then [prefill_work r (u32_of_u64 end)] else [])
      else if stage r = DecodeStage then
        (if decoded_count r = 0 then []
         else if decode_end r > u64_of_u32 u32_max then []
         else [decode_work r])
      else [])"

definition fifo_plan :: "policy_view \<Rightarrow> WorkItem list" where
  "fifo_plan v =
     (let (active, active_release_pending) = fifo_scan None False (pv_requests v) in
      if active_release_pending then []
      else case active of
        Some r \<Rightarrow> fifo_work (pv_token_budget v) r
      | None \<Rightarrow>
          (case fifo_first (pv_requests v) of
             Some (Some r) \<Rightarrow> fifo_work (pv_token_budget v) r
           | _ \<Rightarrow> []))"

section \<open>Continuous batching\<close>

fun continuous_from :: "u32 \<Rightarrow> RequestState list \<Rightarrow> WorkItem list" where
  "continuous_from remaining [] = []"
| "continuous_from remaining (r # rs) =
     (if remaining = 0 then []
      else case stage r of
        PendingAdmission \<Rightarrow> continuous_from remaining rs
      | Terminal \<Rightarrow> continuous_from remaining rs
      | PendingRelease \<Rightarrow> []
      | PrefillStage \<Rightarrow>
          if prefill_position r \<ge> prompt_length r then continuous_from remaining rs
          else
            (let available = prompt_length r - prefill_position r;
                 count = min available remaining in
             prefill_work r (prefill_position r + count) # continuous_from (remaining - count) rs)
      | DecodeStage \<Rightarrow>
          if decoded_count r = 0 then continuous_from remaining rs
          else if decode_end r > u64_of_u32 u32_max then []
          else decode_work r # continuous_from (remaining - 1) rs)"

definition continuous_plan :: "policy_view \<Rightarrow> WorkItem list" where
  "continuous_plan v = continuous_from (pv_token_budget v) (pv_requests v)"

section \<open>Continuous batching that prefers cached prompts\<close>

text \<open>The first loop: the schedulable requests, and the first prefilling ones.\<close>
fun collect_from :: "nat \<Rightarrow> RequestState list \<Rightarrow> RequestState list \<Rightarrow> RequestState list \<Rightarrow>
    RequestState list \<times> RequestState list" where
  "collect_from locality_window ordered window [] = (ordered, window)"
| "collect_from locality_window ordered window (r # rs) =
     (if stage r = PendingRelease then (ordered, window)
      else if stage r \<noteq> PrefillStage \<and> stage r \<noteq> DecodeStage
      then collect_from locality_window ordered window rs
      else collect_from locality_window (ordered @ [r])
             (if stage r = PrefillStage \<and> length window < locality_window then window @ [r] else window) rs)"

text \<open>\<open>std::stable_sort\<close> with \<open>left->cached_prefix_tokens > right->cached_prefix_tokens\<close>.\<close>
definition sort_window :: "RequestState list \<Rightarrow> RequestState list" where
  "sort_window = sort_key (\<lambda>r. - int (unat (cached_prefix_tokens r)))"

text \<open>The second loop; \<open>window\<close> is what is left of it from \<open>prefill_index\<close> on.\<close>
fun reordered_from :: "u32 \<Rightarrow> RequestState list \<Rightarrow> RequestState list \<Rightarrow> WorkItem list" where
  "reordered_from remaining window [] = []"
| "reordered_from remaining window (original # rest) =
     (if remaining = 0 then []
      else
        (let (r, window) = (if stage original = PrefillStage \<and> window \<noteq> []
                            then (hd window, tl window) else (original, window)) in
         if stage r = PrefillStage then
           (if prefill_position r \<ge> prompt_length r then reordered_from remaining window rest
            else
              (let count = min (prompt_length r - prefill_position r) remaining in
               prefill_work r (prefill_position r + count) # reordered_from (remaining - count) window rest))
         else if decoded_count r = 0 then reordered_from remaining window rest
         else if decode_end r > u64_of_u32 u32_max then []
         else decode_work r # reordered_from (remaining - 1) window rest))"

definition cache_aware_plan :: "nat \<Rightarrow> policy_view \<Rightarrow> WorkItem list" where
  "cache_aware_plan locality_window v =
     (let (ordered, window) = collect_from locality_window [] [] (pv_requests v) in
      reordered_from (pv_token_budget v) (sort_window window) ordered)"

text \<open>The constructor refuses an empty window.\<close>
definition new_cache_aware ::
  "'x clock_function \<Rightarrow> Handoff \<Rightarrow> u32 \<Rightarrow> nat \<Rightarrow> 'x \<Rightarrow> exn + ('x, nat) Scheduler" where
  "new_cache_aware system_clock h budget locality_window x =
     (case new_scheduler system_clock h budget None x locality_window of
        Inl e \<Rightarrow> Inl e
      | Inr s \<Rightarrow> if locality_window = 0 then Inl (Invalid_argument ''locality window must be positive'') else Inr s)"

section \<open>As policies of the scheduler\<close>

text \<open>A policy that overrides \<open>build_plan\<close> alone and does not change its members.\<close>
definition planning_policy :: "('p \<Rightarrow> policy_view \<Rightarrow> WorkItem list) \<Rightarrow> 'p Policy" where
  "planning_policy build = \<lparr>build_plan = (\<lambda>v p. (Inr (build p v), p)),
     on_plan_completed = (\<lambda>v b p. (Inr (), p)), on_request_timing = (\<lambda>v e p. (Inr (), p))\<rparr>"

definition fifo_policy :: "'p Policy" where
  "fifo_policy = planning_policy (\<lambda>p. fifo_plan)"

definition continuous_policy :: "'p Policy" where
  "continuous_policy = planning_policy (\<lambda>p. continuous_plan)"

definition cache_aware_policy :: "nat Policy" where
  "cache_aware_policy = planning_policy cache_aware_plan"

end
