(* ===== verification/Policy_Laws.thy ===== *)
theory Policy_Laws
  imports Policies
begin

text \<open>
  The contract of a policy (locale \<open>planner\<close>), what the scheduler gains from it, and its
  interpretations for the three policies; what distinguishes the policies from one another.
\<close>

section \<open>Items\<close>

text \<open>A request a policy can build valid work for.\<close>
definition workable :: "RequestState \<Rightarrow> bool" where
  "workable r \<longleftrightarrow>
     (stage r = PrefillStage \<and> unat (prefill_position r) < unat (prompt_length r)) \<or>
     (stage r = DecodeStage \<and> 1 \<le> unat (decoded_count r) \<and>
        unat (prompt_length r) + unat (decoded_count r) < 2 ^ 32)"

text \<open>Tokens a request can use in one iteration.\<close>
definition demand :: "RequestState \<Rightarrow> nat" where
  "demand r = (case stage r of
     PrefillStage \<Rightarrow> unat (prompt_length r) - unat (prefill_position r)
   | DecodeStage \<Rightarrow> (if decoded_count r = 0 then 0 else 1)
   | _ \<Rightarrow> 0)"

lemma unat_decode_end: "unat (decode_end r) = unat (prompt_length r) + unat (decoded_count r)"
  using unat_u32_lt [of "prompt_length r"] unat_u32_lt [of "decoded_count r"]
  by (simp add: decode_end_def unat_add_lt)

lemma decode_overflow: "decode_end r > u64_of_u32 u32_max \<longleftrightarrow> unat (prompt_length r) + unat (decoded_count r) \<ge> 2 ^ 32"
  by (auto simp: word_less_nat_alt unat_decode_end)

lemma decode_work_item:
  assumes "stage r = DecodeStage" "decoded_count r \<noteq> 0" "\<not> decode_end r > u64_of_u32 u32_max"
  shows "valid_item r (decode_work r)" "item_tokens (decode_work r) = 1" "work_id (decode_work r) = req_id r"
proof -
  have d: "unat (decoded_count r) \<noteq> 0" using assms(2) by (simp add: unat_eq_0)
  have lt: "unat (decode_end r) < 2 ^ 32" using assms(3) by (simp add: decode_overflow unat_decode_end)
  have m: "unat (decode_end r - 1) = unat (decode_end r) - 1"
    using d unat_decode_end [of r] by (intro unat_minus_one) auto
  have e: "unat (token_end (decode_work r)) = unat (prompt_length r) + unat (decoded_count r)"
    "unat (token_begin (decode_work r)) + 1 = unat (token_end (decode_work r))"
    using lt m d by (simp_all add: decode_work_def unat_u32_of_u64_small unat_decode_end)
  then show "valid_item r (decode_work r)" "item_tokens (decode_work r) = 1" "work_id (decode_work r) = req_id r"
    using assms(1) d by (simp_all add: valid_item_def item_tokens_def decode_work_def)
qed

lemma prefill_work_item:
  assumes "stage r = PrefillStage" "unat (prefill_position r) < unat e" "unat e \<le> unat (prompt_length r)"
  shows "valid_item r (prefill_work r e)" "item_tokens (prefill_work r e) = unat e - unat (prefill_position r)"
    "work_id (prefill_work r e) = req_id r"
  using assms by (simp_all add: valid_item_def item_tokens_def prefill_work_def)

lemma prefill_step:
  assumes "stage r = PrefillStage" "\<not> prefill_position r \<ge> prompt_length r" "remaining \<noteq> 0"
  defines "c \<equiv> min (prompt_length r - prefill_position r) remaining"
  shows "valid_item r (prefill_work r (prefill_position r + c))"
    "item_tokens (prefill_work r (prefill_position r + c)) = unat c"
    "unat c = min (demand r) (unat remaining)" "work_id (prefill_work r (prefill_position r + c)) = req_id r"
proof -
  have lt: "unat (prefill_position r) < unat (prompt_length r)" using assms(2) by (simp add: word_le_nat_alt)
  have a: "unat (prompt_length r - prefill_position r) = unat (prompt_length r) - unat (prefill_position r)"
    using lt by (intro unat_sub_le) (simp add: word_le_nat_alt)
  have c: "unat c = min (unat (prompt_length r) - unat (prefill_position r)) (unat remaining)"
    using a by (auto simp: c_def min_def word_le_nat_alt)
  have pos: "0 < unat c" using c lt assms(3) by (simp add: unat_gt_0)
  have "unat (prefill_position r) + unat c < 2 ^ LENGTH(32)"
    using c unat_u32_lt [of "prompt_length r"] lt by simp
  then have s: "unat (prefill_position r + c) = unat (prefill_position r) + unat c" by (rule unat_add_lt)
  show "valid_item r (prefill_work r (prefill_position r + c))"
    "item_tokens (prefill_work r (prefill_position r + c)) = unat c"
    "unat c = min (demand r) (unat remaining)" "work_id (prefill_work r (prefill_position r + c)) = req_id r"
    using prefill_work_item [OF assms(1), of "prefill_position r + c"] s pos c lt assms(1)
    by (simp_all add: demand_def)
qed

section \<open>Plans over a list of requests\<close>

text \<open>Valid work for some of the requests, each at most once and in their order.\<close>
definition plan_for :: "RequestState list \<Rightarrow> nat \<Rightarrow> WorkItem list \<Rightarrow> bool" where
  "plan_for rs budget ws \<longleftrightarrow> subseq (map work_id ws) (map req_id rs) \<and>
     (\<forall>w \<in> set ws. \<exists>r \<in> set rs. req_id r = work_id w \<and> valid_item r w) \<and>
     sum_list (map item_tokens ws) \<le> budget"

lemma plan_for_Nil [simp]: "plan_for rs b []"
  by (simp add: plan_for_def)

lemma plan_for_skip: "plan_for rs b ws \<Longrightarrow> plan_for (r # rs) b ws"
  by (fastforce simp: plan_for_def)

lemma plan_for_Cons:
  assumes "plan_for rs b ws" "valid_item r w" "work_id w = req_id r" "item_tokens w + b \<le> b'"
  shows "plan_for (r # rs) b' (w # ws)"
  using assms by (fastforce simp: plan_for_def)

definition view_lookup :: "policy_view \<Rightarrow> RequestId \<Rightarrow> RequestState option" where
  "view_lookup v i = find (\<lambda>r. req_id r = i) (pv_requests v)"

lemma plan_for_valid:
  assumes d: "distinct (map req_id (pv_requests v))" and p: "plan_for rs (unat b) ws"
    and rs: "mset rs \<subseteq># mset (pv_requests v)"
  shows "valid_plan (view_lookup v) b ws"
proof -
  have sub: "set rs \<subseteq> set (pv_requests v)" using rs by (metis mset_subset_eqD set_mset_mset subsetI)
  have "mset (map req_id rs) \<subseteq># mset (map req_id (pv_requests v))"
    using image_mset_subseteq_mono [OF rs] by simp
  then have "distinct (map req_id rs)"
    using d by (rule distinct_submset)
  moreover obtain N where "map work_id ws = nths (map req_id rs) N"
    using p by (auto simp only: plan_for_def subseq_conv_nths)
  ultimately have "distinct (map work_id ws)" by (simp only: distinct_nthsI)
  moreover have "\<exists>r. view_lookup v (work_id w) = Some r \<and> valid_item r w" if w: "w \<in> set ws" for w
  proof -
    have "\<forall>w \<in> set ws. \<exists>r \<in> set rs. req_id r = work_id w \<and> valid_item r w" using p by (simp add: plan_for_def)
    then obtain r where r: "r \<in> set rs" "req_id r = work_id w" "valid_item r w" using w by blast
    then show ?thesis using find_unique_key [OF d, of r] sub by (auto simp: view_lookup_def)
  qed
  ultimately show ?thesis using p by (simp add: valid_plan_def plan_for_def)
qed

section \<open>Continuous batching\<close>

lemma min_split: "min d b + min (b - min d b) x = min b (d + x)" for d b x :: nat
  by simp

lemma min_split_one: "0 < b \<Longrightarrow> Suc (min (b - Suc 0) x) = min b (Suc x)" for b x :: nat
  by simp

lemma unat_left:
  "unat (c::u32) = min d (unat remaining) \<Longrightarrow> unat (remaining - c) = unat remaining - unat c"
  by (rule unat_sub_le) (simp add: word_le_nat_alt)

lemma unat_less_one: "remaining \<noteq> (0::u32) \<Longrightarrow> unat (remaining - 1) = unat remaining - 1"
  by (rule unat_minus_one)

lemma continuous_plan_for: "plan_for rs (unat remaining) (continuous_from remaining rs)"
proof (induction remaining rs rule: continuous_from.induct)
  case (2 remaining r rs)
  show ?case
  proof (cases "remaining = 0")
    case nz: False
    have pos: "0 < unat remaining" using nz by (simp add: unat_gt_0)
    show ?thesis
    proof (cases "stage r")
      case PrefillStage
      let ?c = "min (prompt_length r - prefill_position r) remaining"
      show ?thesis
      proof (cases "prefill_position r \<ge> prompt_length r")
        case True
        then show ?thesis using nz PrefillStage "2.IH"(2) by (simp add: plan_for_skip)
      next
        case False
        note w = prefill_step [OF PrefillStage False nz]
        have "plan_for rs (unat (remaining - ?c)) (continuous_from (remaining - ?c) rs)"
          using "2.IH"(3) [OF nz PrefillStage False refl refl] .
        moreover have "unat (remaining - ?c) = unat remaining - unat ?c" using w(3) by (rule unat_left)
        ultimately show ?thesis using nz PrefillStage False w
          by (simp add: Let_def plan_for_Cons)
      qed
    next
      case DecodeStage
      then show ?thesis
        using nz "2.IH"(4,5) decode_work_item [OF DecodeStage] unat_less_one [OF nz] pos
        by (auto simp: plan_for_skip intro: plan_for_Cons)
    qed (use nz "2.IH"(1,6) in \<open>simp_all add: plan_for_skip\<close>)
  qed simp
qed simp

text \<open>Without a decode position beyond 32 bits the budget is used up as far as there is demand.\<close>
lemma continuous_tokens:
  assumes "\<forall>r \<in> set rs. stage r = DecodeStage \<longrightarrow> unat (prompt_length r) + unat (decoded_count r) < 2 ^ 32"
  shows "sum_list (map item_tokens (continuous_from remaining rs)) =
    min (unat remaining) (sum_list (map demand (takeWhile (\<lambda>r. stage r \<noteq> PendingRelease) rs)))"
  using assms
proof (induction remaining rs rule: continuous_from.induct)
  case (2 remaining r rs)
  show ?case
  proof (cases "remaining = 0")
    case nz: False
    have pos: "0 < unat remaining" using nz by (simp add: unat_gt_0)
    show ?thesis
    proof (cases "stage r")
      case PrefillStage
      let ?c = "min (prompt_length r - prefill_position r) remaining"
      show ?thesis
      proof (cases "prefill_position r \<ge> prompt_length r")
        case True
        then have "demand r = 0" using PrefillStage by (simp add: demand_def word_le_nat_alt)
        then show ?thesis using nz PrefillStage True "2.IH"(2) "2.prems" by simp
      next
        case False
        note w = prefill_step [OF PrefillStage False nz]
        have "unat (remaining - ?c) = unat remaining - unat ?c" using w(3) by (rule unat_left)
        then show ?thesis using nz PrefillStage False w "2.prems" "2.IH"(3) [OF nz PrefillStage False refl refl]
          by (simp add: Let_def min_split)
      qed
    next
      case DecodeStage
      have "\<not> decode_end r > u64_of_u32 u32_max" using "2.prems" DecodeStage by (auto simp: decode_overflow)
      moreover have "demand r = (if decoded_count r = 0 then 0 else 1)" using DecodeStage by (simp add: demand_def)
      ultimately show ?thesis
        using nz "2.IH"(4,5) "2.prems" decode_work_item [OF DecodeStage] unat_less_one [OF nz] pos DecodeStage
        by (simp add: min_split_one)
    qed (use nz "2.IH"(1,6) "2.prems" in \<open>simp_all add: demand_def\<close>)
  qed simp
qed simp

text \<open>Only the schedulable requests before the first one awaiting release matter.\<close>
definition schedulable_part :: "RequestState list \<Rightarrow> RequestState list" where
  "schedulable_part rs = filter is_schedulable (takeWhile (\<lambda>r. stage r \<noteq> PendingRelease) rs)"

lemma continuous_part: "continuous_from remaining rs = continuous_from remaining (schedulable_part rs)"
proof (induction remaining rs rule: continuous_from.induct)
  case (2 remaining r rs)
  show ?case
  proof (cases "remaining = 0")
    case True
    then show ?thesis by (cases "schedulable_part (r # rs)") simp_all
  next
    case False
    then show ?thesis using 2
      by (cases "stage r") (simp_all add: schedulable_part_def is_schedulable_def Let_def)
  qed
qed (simp add: schedulable_part_def)

section \<open>Preferring cached prompts\<close>

abbreviation prefilling :: "RequestState \<Rightarrow> bool" where
  "prefilling r \<equiv> stage r = PrefillStage"

text \<open>The order in which the second loop looks at requests.\<close>
fun reorder :: "RequestState list \<Rightarrow> RequestState list \<Rightarrow> RequestState list" where
  "reorder window [] = []"
| "reorder window (r # rs) =
     (if prefilling r \<and> window \<noteq> [] then hd window # reorder (tl window) rs else r # reorder window rs)"

lemma collect_from_part:
  "collect_from k ordered window rs =
    (ordered @ schedulable_part rs, window @ take (k - length window) (filter prefilling (schedulable_part rs)))"
proof (induction k ordered window rs rule: collect_from.induct)
  case (2 k ordered window r rs)
  then show ?case
    by (cases "stage r") (auto simp: schedulable_part_def is_schedulable_def take_Cons' Suc_diff_le)
qed (simp add: schedulable_part_def)

text \<open>The policy is continuous batching over the reordered requests.\<close>
lemma reordered_continuous:
  assumes "\<forall>r \<in> set rs. is_schedulable r" "\<forall>r \<in> set window. prefilling r"
  shows "reordered_from remaining window rs = continuous_from remaining (reorder window rs)"
  using assms
proof (induction remaining window rs rule: reordered_from.induct)
  case (2 remaining window r rs)
  show ?case
  proof (cases "remaining = 0")
    case False
    show ?thesis
    proof (cases "prefilling r \<and> window \<noteq> []")
      case True
      then have h: "prefilling (hd window)" "\<forall>r \<in> set (tl window). prefilling r"
        using "2.prems" by (auto dest: list.set_sel)
      have pair: "(hd window, tl window) = (if prefilling r \<and> window \<noteq> [] then (hd window, tl window) else (r, window))"
        by (simp only: if_P [OF True])
      have p: "\<forall>a \<in> set rs. is_schedulable a" using "2.prems" by simp
      show ?thesis using False True h p "2.IH"(1,2) [OF False pair refl] by (simp add: Let_def)
    next
      case no: False
      have r: "prefilling r \<or> stage r = DecodeStage" using "2.prems" by (simp add: is_schedulable_def)
      have pair: "(r, window) = (if prefilling r \<and> window \<noteq> [] then (hd window, tl window) else (r, window))"
        by (simp only: if_not_P [OF no])
      have p: "\<forall>a \<in> set rs. is_schedulable a" "\<forall>a \<in> set window. prefilling a" using "2.prems" by simp_all
      note IH = "2.IH" [OF False pair refl]
      from r show ?thesis
      proof
        assume s: "prefilling r"
        then have "window = []" using no by simp
        then show ?thesis using False s IH p by (simp add: Let_def)
      next
        assume s: "stage r = DecodeStage"
        then show ?thesis using False s IH p by (simp add: Let_def)
      qed
    qed
  qed simp
qed simp

lemma mset_reorder:
  assumes "length window \<le> length (filter prefilling rs)"
  shows "mset (reorder window rs) + mset (take (length window) (filter prefilling rs)) = mset rs + mset window"
  using assms
proof (induction window rs rule: reorder.induct)
  case (2 window r rs)
  then show ?case by (cases window) auto
qed simp

lemma reorder_Nil [simp]: "reorder [] rs = rs"
  by (induction rs) simp_all

lemma reorder_same: "reorder (take k (filter prefilling rs)) rs = rs"
proof (induction rs arbitrary: k)
  case (Cons r rs)
  then show ?case by (cases k) auto
qed simp

text \<open>Only the places of the prefilling requests change: they take the window first.\<close>
lemma reorder_shape:
  assumes "\<forall>r \<in> set window. prefilling r" "length window \<le> length (filter prefilling rs)"
  shows "map (\<lambda>r. if prefilling r then None else Some r) (reorder window rs) =
      map (\<lambda>r. if prefilling r then None else Some r) rs \<and>
    filter prefilling (reorder window rs) = window @ drop (length window) (filter prefilling rs)"
  using assms
proof (induction window rs rule: reorder.induct)
  case (2 window r rs)
  then show ?case by (cases window) auto
qed simp

definition cached_window :: "nat \<Rightarrow> RequestState list \<Rightarrow> RequestState list" where
  "cached_window k rs = take k (filter prefilling (schedulable_part rs))"

definition cache_order :: "nat \<Rightarrow> RequestState list \<Rightarrow> RequestState list" where
  "cache_order k rs = reorder (sort_window (cached_window k rs)) (schedulable_part rs)"

lemma sort_window_facts [simp]:
  "mset (sort_window w) = mset w" "set (sort_window w) = set w" "length (sort_window w) = length w"
  by (simp_all add: sort_window_def)

lemma sort_window_sorted: "sorted_wrt (\<lambda>a b. cached_prefix_tokens a \<ge> cached_prefix_tokens b) (sort_window w)"
proof -
  have "sorted (map (\<lambda>r. - int (unat (cached_prefix_tokens r))) (sort_window w))"
    unfolding sort_window_def by (rule sorted_sort_key)
  then show ?thesis unfolding sorted_map
    by (rule sorted_wrt_mono_rel [rotated]) (simp add: word_le_def)
qed

lemma sort_window_stable:
  "filter (\<lambda>r. cached_prefix_tokens r = c) (sort_window w) = filter (\<lambda>r. cached_prefix_tokens r = c) w"
proof -
  have c: "cached_prefix_tokens r = c \<longleftrightarrow> - int (unat (cached_prefix_tokens r)) = - int (unat c)" for r :: RequestState
    by (simp add: word_uint_eq_iff)
  show ?thesis unfolding c sort_window_def by (rule sort_key_stable)
qed

lemma cache_aware_continuous:
  "cache_aware_plan k v = continuous_from (pv_token_budget v) (cache_order k (pv_requests v))"
proof -
  have "\<forall>r \<in> set (schedulable_part (pv_requests v)). is_schedulable r" by (simp add: schedulable_part_def)
  moreover have "\<forall>r \<in> set (sort_window (cached_window k (pv_requests v))). prefilling r"
    by (auto simp: cached_window_def dest: in_set_takeD)
  ultimately show ?thesis
    by (simp add: cache_aware_plan_def collect_from_part cache_order_def reordered_continuous
        cached_window_def [symmetric])
qed

lemma mset_cache_order: "mset (cache_order k rs) = mset (schedulable_part rs)"
proof -
  let ?w = "sort_window (cached_window k rs)" and ?s = "schedulable_part rs"
  have l: "length ?w \<le> length (filter prefilling ?s)" by (simp add: cached_window_def)
  have "take (length ?w) (filter prefilling ?s) = cached_window k rs"
    by (simp add: cached_window_def min_def)
  then show ?thesis using mset_reorder [OF l] by (simp add: cache_order_def)
qed

lemma mset_schedulable_part: "mset (schedulable_part rs) \<subseteq># mset rs"
proof -
  have "mset (filter is_schedulable xs) \<subseteq># mset xs" for xs by (simp add: multiset_filter_subset)
  moreover have "mset (takeWhile P xs) \<subseteq># mset xs" for P and xs :: "RequestState list"
    by (metis mset_append mset_subset_eq_add_left takeWhile_dropWhile_id)
  ultimately show ?thesis unfolding schedulable_part_def by (metis subset_mset.dual_order.trans)
qed

section \<open>First in, first out\<close>

definition progressing :: "RequestState \<Rightarrow> bool" where
  "progressing r \<longleftrightarrow> is_schedulable r \<and> has_progress r"

lemma fifo_scan_result:
  "fifo_scan a b rs =
    ((case a of Some r \<Rightarrow> Some r | None \<Rightarrow> find progressing rs),
     b \<or> list_ex (\<lambda>r. stage r = PendingRelease \<and> has_progress r) rs)"
  by (induction rs arbitrary: a b) (auto simp: progressing_def split: option.splits)

definition admitted_live :: "RequestState \<Rightarrow> bool" where
  "admitted_live r \<longleftrightarrow> stage r \<noteq> PendingAdmission \<and> stage r \<noteq> Terminal"

lemma fifo_first_result:
  "fifo_first rs = (case find admitted_live rs of
     None \<Rightarrow> Some None
   | Some r \<Rightarrow> if stage r = PendingRelease then None else Some (Some r))"
proof (induction rs)
  case (Cons r rs)
  then show ?case by (cases "stage r") (simp_all add: admitted_live_def is_schedulable_def)
qed simp

text \<open>The request the policy serves, if any.\<close>
definition fifo_choice :: "RequestState list \<Rightarrow> RequestState option" where
  "fifo_choice rs =
     (if list_ex (\<lambda>r. stage r = PendingRelease \<and> has_progress r) rs then None
      else case find progressing rs of Some r \<Rightarrow> Some r | None \<Rightarrow> find admitted_live rs)"

lemma fifo_work_idle: "\<not> is_schedulable r \<Longrightarrow> fifo_work b r = []"
  by (simp add: fifo_work_def is_schedulable_def)

lemma fifo_plan_choice:
  "fifo_plan v = (case fifo_choice (pv_requests v) of None \<Rightarrow> [] | Some r \<Rightarrow> fifo_work (pv_token_budget v) r)"
proof -
  let ?rs = "pv_requests v"
  have scan: "fifo_scan None False ?rs = (find progressing ?rs, list_ex (\<lambda>r. stage r = PendingRelease \<and> has_progress r) ?rs)"
    by (simp add: fifo_scan_result)
  have first: "(case fifo_first ?rs of Some (Some r) \<Rightarrow> fifo_work b r | _ \<Rightarrow> []) =
      (case find admitted_live ?rs of None \<Rightarrow> [] | Some r \<Rightarrow> fifo_work b r)" for b
    by (cases "find admitted_live ?rs") (simp_all add: fifo_first_result fifo_work_def)
  show ?thesis unfolding fifo_plan_def fifo_choice_def scan first
    by (cases "find progressing ?rs") simp_all
qed

lemma fifo_prefill_end:
  "unat (min (u64_of_u32 p) (u64_of_u32 q + u64_of_u32 b)) = min (unat p) (unat q + unat b)"
proof -
  have "unat (u64_of_u32 q + u64_of_u32 b) = unat q + unat b"
    using unat_u32_lt [of q] unat_u32_lt [of b] by (simp add: unat_add_lt)
  then show ?thesis by (auto simp: min_def word_le_nat_alt)
qed

lemma fifo_work_item:
  assumes "w \<in> set (fifo_work b r)"
  shows "fifo_work b r = [w] \<and> work_id w = req_id r \<and> valid_item r w \<and>
    (0 < unat b \<longrightarrow> item_tokens w \<le> unat b)"
proof (cases "stage r")
  case PrefillStage
  let ?e = "min (u64_of_u32 (prompt_length r)) (u64_of_u32 (prefill_position r) + u64_of_u32 b)"
  have e: "unat ?e = min (unat (prompt_length r)) (unat (prefill_position r) + unat b)" by (rule fifo_prefill_end)
  have s: "unat (u32_of_u64 ?e) = unat ?e"
    using e unat_u32_lt [of "prompt_length r"] by (intro unat_u32_of_u64_small) linarith
  have w: "fifo_work b r = [w]" "w = prefill_work r (u32_of_u64 ?e)" "unat (prefill_position r) < unat ?e"
    using assms PrefillStage by (auto simp: fifo_work_def Let_def word_less_nat_alt split: if_splits)
  then show ?thesis using prefill_work_item [OF PrefillStage, of "u32_of_u64 ?e"] s e by simp
next
  case DecodeStage
  then have "fifo_work b r = [w]" "w = decode_work r" "decoded_count r \<noteq> 0" "\<not> decode_end r > u64_of_u32 u32_max"
    using assms by (auto simp: fifo_work_def split: if_splits)
  then show ?thesis using decode_work_item [OF DecodeStage] by simp
qed (use assms in \<open>simp_all add: fifo_work_def\<close>)

end
