(* ===== verification/Policy_Props.thy ===== *)
theory Policy_Props
  imports Policy_Laws
begin

text \<open>
  The contract of a planning policy as a locale, its interpretation for each policy, and the
  properties of the policies alone and under the scheduler.
\<close>

section \<open>The contract\<close>

text \<open>
  A policy whose plans are valid and not empty when there is work, as long as a condition on its
  members and what it sees holds; and the special case of a policy that only plans.
\<close>
locale valid_planner =
  fixes pol :: "'p Policy" and sees :: "policy_view \<Rightarrow> 'p \<Rightarrow> bool"
  assumes sound: "distinct (map req_id (pv_requests v)) \<Longrightarrow> pv_token_budget v \<noteq> 0 \<Longrightarrow> sees v p \<Longrightarrow>
      build_plan pol v p = (Inr ws, p') \<Longrightarrow> valid_plan (view_lookup v) (pv_token_budget v) ws"
    and busy: "distinct (map req_id (pv_requests v)) \<Longrightarrow> pv_token_budget v \<noteq> 0 \<Longrightarrow> sees v p \<Longrightarrow>
      build_plan pol v p = (Inr ws, p') \<Longrightarrow> r \<in> set (pv_requests v) \<Longrightarrow> is_schedulable r \<Longrightarrow>
      (\<And>q. q \<in> set (pv_requests v) \<Longrightarrow> stage q \<noteq> PendingRelease \<and> (is_schedulable q \<longrightarrow> workable q)) \<Longrightarrow>
      ws \<noteq> []"
begin

lemma planned:
  assumes "make_plan pol s = (Inr ws, t)"
  shows "(\<exists>p'. build_plan pol (view_of s) (policy s) = (Inr ws, p')) \<and> live_requests t = live_requests s \<and>
    token_budget t = token_budget s \<and> draining t = draining s \<and> last_error t = last_error s"
  using assms
  by (auto simp: make_plan_def decision_now_def call_world_def call_policy_def view_of_def
      bind_op_def run_simps Let_def split: prod.splits sum.splits if_splits)

lemma not_planned:
  assumes "make_plan pol s = (Inl e, t)"
  shows "draining t = draining s \<and> last_error t = last_error s"
  using assms
  by (auto simp: make_plan_def decision_now_def call_world_def call_policy_def
      bind_op_def run_simps Let_def split: prod.splits sum.splits if_splits)

lemma start_work_keeps:
  "stable (\<lambda>s. draining s = b \<and> last_error s = e) (start_work w)"
  by (rule stableI) (auto simp: start_work_def decrement_queued_def update_request_def run_simps
      split: option.splits if_splits)

lemma publish_keeps:
  assumes "publish_plan ws s = (r, s')"
  shows "draining s' = draining s \<and> last_error s' = last_error s"
proof -
  obtain e h where c: "commit (handoff s) = (e, h)" by (metis surj_pair)
  show ?thesis
  proof (cases "e = 0")
    case True
    then show ?thesis using assms c by (auto simp: publish_plan_def run_simps)
  next
    case False
    let ?s = "s\<lparr>handoff := h, published_epoch := e, published_plan_start := current_time s,
      published_prefill_tokens := 0, published_decode_items := 0,
      published_work_items := of_nat (length ws), published_plan_success := True\<rparr>"
    have run: "for_each start_work ws ?s = (r, s')" using assms c False by (simp add: publish_plan_def)
    have "draining ?s = draining s \<and> last_error ?s = last_error s" by simp
    from stableD [OF stable_for_each [OF start_work_keeps] this run] show ?thesis .
  qed
qed

lemma finish_keeps:
  assumes "finish_iteration b s = (r, s')"
  shows "draining s' = draining s \<and> last_error s' = last_error s"
proof -
  have p: "draining (snd (publish_workload_counts t s)) = draining s \<and>
      last_error (snd (publish_workload_counts t s)) = last_error s" for t
    by (cases "workload_observer s")
      (simp_all add: publish_workload_counts_def call_world_def then_op_def bind_op_def run_simps Let_def
        split: prod.splits sum.splits)
  obtain q where "publish_workload_counts (current_time s) s = (q, s')" using assms
    by (auto simp: finish_iteration_def then_op_def bind_op_def run_simps split: prod.splits sum.splits)
  then show ?thesis using p [of "current_time s"] by simp
qed

text \<open>With workable requests a decision neither drains the scheduler nor reports an error.\<close>
lemma decides_well:
  assumes ids: "distinct (map req_id (live_requests s))" and b: "token_budget s \<noteq> 0"
    and work: "\<And>q. q \<in> set (live_requests s) \<Longrightarrow> is_schedulable q \<Longrightarrow> workable q"
    and d: "decide pol s = (r, s')" and f: "sees (view_of s) (policy s)"
  shows "draining s' = draining s \<and> last_error s' = last_error s"
proof (cases "list_ex is_schedulable (live_requests s)")
  case False
  then show ?thesis using d finish_keeps [of True s r s'] by (simp add: decide_def)
next
  case True
  let ?rp = "list_ex (\<lambda>r. stage r = PendingRelease) (live_requests s)"
  have d': "bind_op (make_plan pol) (\<lambda>ws. then_op (judge_plan ?rp ws) (finish_iteration True)) s = (r, s')"
    using d True by (simp add: decide_def Let_def)
  obtain q t where m: "make_plan pol s = (q, t)" by (metis surj_pair)
  show ?thesis
  proof (cases q)
    case (Inl e)
    then show ?thesis using d' m not_planned [of s e t] by (simp add: bind_op_def)
  next
    case (Inr ws)
    obtain p' where pl: "build_plan pol (view_of s) (policy s) = (Inr ws, p')" and p: "live_requests t = live_requests s" "token_budget t = token_budget s"
      "draining t = draining s" "last_error t = last_error s"
      using planned [of s ws t] m Inr by auto
    obtain q2 t2 where j: "judge_plan ?rp ws t = (q2, t2)" by (metis surj_pair)
    have "valid_plan (view_lookup (view_of s)) (token_budget s) ws"
      using sound [OF _ _ f pl] ids b by (simp add: view_of_def)
    moreover have "view_lookup (view_of s) = (\<lambda>i. find_request i t)"
      using p(1) by (simp add: view_lookup_def view_of_def find_request_def fun_eq_iff)
    ultimately have v: "err_valid (validate_plan ws t)" using p(2) by (simp add: validate_plan_spec)
    have "draining t2 = draining t \<and> last_error t2 = last_error t"
    proof (cases "ws = []")
      case ws: False
      then show ?thesis using j v publish_keeps [of ws t q2 t2] by (simp add: judge_plan_def)
    next
      case ws: True
      obtain x where x: "x \<in> set (live_requests s)" "is_schedulable x" using True by (auto simp: list_ex_iff)
      have "?rp"
      proof (rule ccontr)
        assume "\<not> ?rp"
        then have "ws \<noteq> []"
          using busy [OF _ _ f pl, of x] ids b x work by (auto simp: view_of_def list_ex_iff)
        then show False using ws by simp
      qed
      then show ?thesis using j ws by (auto simp: judge_plan_def run_simps)
    qed
    then show ?thesis using d' m Inr j p finish_keeps [of True t2 r s']
      by (cases q2) (auto simp: bind_op_def then_op_def)
  qed
qed

end

section \<open>A scheduler with work under any policy\<close>

text \<open>
  The first iteration of a scheduler that has been asked for one request, when the environment
  grants it at once: the policy sees one prompt to prefill. It ends normally with the prompt
  started, whichever valid planner the policy is.
\<close>
definition demo_fresh :: "'p \<Rightarrow> (unit, 'p) Scheduler" where
  "demo_fresh p = (case new_scheduler still_clock demo_handoff_state 8 None () p of Inr s \<Rightarrow> s | Inl _ \<Rightarrow> undefined)"

definition demo_grant :: AdmissionResult where
  "demo_grant = \<lparr>ar_id = 0, ar_prompt_tokens = 4, ar_error = NoError, ar_cached_prefix_tokens = 0\<rparr>"

definition demo_asked :: "'p \<Rightarrow> (unit, 'p) Scheduler" where
  "demo_asked p = (snd (submit 0 ''hi'' 3 Natural [] (demo_fresh p)))
     \<lparr>handoff := demo_handoff2\<lparr>admission_results := snd (try_push demo_grant (empty_ring 4))\<rparr>\<rparr>"

definition demo_granted :: RequestState where
  "demo_granted = (submitted_request 0 \<lparr>adm_id = 0, adm_prompt = ''hi'', adm_max_output_tokens = 3,
      adm_synthetic_prompt_tokens = None, adm_output_mode = Natural, adm_conversation_id = []\<rparr> 5)
    \<lparr>admission := EnvironmentOwned, admission_succeeded := True, prompt_length := 4, cached_prefix_tokens := 0,
     prefill_position := 0, stage := PrefillStage\<rparr>"

definition demo_started :: RequestState where
  "demo_started = demo_granted\<lparr>start_time := 5, start_recorded := True\<rparr>"

definition demo_seen :: policy_view where
  "demo_seen = \<lparr>pv_token_budget = 8, pv_now = 5, pv_requests = [demo_granted]\<rparr>"

lemma demo_submit_fresh: "fst (submit 0 ''hi'' 3 Natural [] (demo_fresh p)) = Inr 0"
  by (simp add: submit_def submit_admission_def begin_nonconst_operation_def
      demo_fresh_def new_scheduler_def bind_op_def now_def call_world_def still_clock_def
      then_op_def publish_workload_counts_def increment_queued_def u32_of_u64_def u32_max_def
      u64_of_u32_def run_simps)

lemma demo_asked_reachable: "scheduler_reachable pol (demo_asked p)"
proof -
  obtain s where s: "submit 0 ''hi'' 3 Natural [] (demo_fresh p) = (Inr 0, s)"
    using demo_submit_fresh [of p] by (metis prod.collapse)
  have "scheduler_reachable pol (demo_fresh p)"
    by (rule scheduler_reachable.construct [of still_clock demo_handoff_state 8 None "()" p])
      (simp add: demo_fresh_def new_scheduler_def)
  then have "scheduler_reachable pol s" using s unfolding submit_def by (rule scheduler_reachable.submission)
  then show ?thesis unfolding demo_asked_def s by (simp add: scheduler_reachable.environment)
qed

lemma demo_only_item:
  assumes "valid_plan (view_lookup demo_seen) 8 ws" "ws \<noteq> []"
  shows "\<exists>w. ws = [w] \<and> work_id w = 0 \<and> work_kind w = Prefill"
proof -
  have ids: "work_id w = 0 \<and> work_kind w = Prefill" if "w \<in> set ws" for w
    using assms(1) that
    by (cases "work_kind w")
      (auto simp: valid_plan_def view_lookup_def demo_seen_def demo_granted_def valid_item_def submitted_request_def
        new_request_def split: if_splits)
  obtain w vs where ws: "ws = w # vs" using assms(2) by (cases ws) auto
  have "vs = []"
  proof (cases vs)
    case (Cons u us)
    have "distinct (map work_id (w # u # us))" using assms(1) unfolding valid_plan_def ws Cons by blast
    moreover have "work_id w = 0" "work_id u = 0" using ids [of w] ids [of u] ws Cons by auto
    ultimately have False by simp
    then show ?thesis ..
  qed simp
  then show ?thesis using ids ws by simp
qed

context valid_planner
begin

lemma demo_admits:
  assumes sees: "sees demo_seen p" and b: "build_plan pol demo_seen p = (Inr ws, p')"
  shows "\<exists>s'. run_once pol 0 (demo_asked p) = (Inr True, s') \<and> live_requests s' = [demo_started] \<and>
    policy s' = p' \<and> token_budget s' = 8 \<and> current_time s' = 5 \<and> \<not> draining s' \<and> last_error s' = no_error"
proof -
  have v: "distinct (map req_id (pv_requests demo_seen))" "pv_token_budget demo_seen \<noteq> 0" by (simp_all add: demo_seen_def)
  have valid: "valid_plan (view_lookup demo_seen) 8 ws" using sound [OF v sees b] by (simp add: demo_seen_def)
  have "ws \<noteq> []"
    by (rule busy [OF v sees b, of demo_granted])
      (auto simp: demo_seen_def demo_granted_def is_schedulable_def workable_def)
  then obtain w where w: "ws = [w]" "work_id w = 0" "work_kind w = Prefill" using demo_only_item [OF valid] by blast
  have accept: "err_valid (validate_plan [w] t)" if "live_requests t = [demo_granted]" "token_budget t = 8"
    for t :: "(unit, 'a) Scheduler"
  proof -
    have "view_lookup demo_seen = (\<lambda>i. find_request i t)"
      using that by (simp add: fun_eq_iff view_lookup_def find_request_def demo_seen_def)
    then show ?thesis using valid that w(1) by (simp add: validate_plan_spec)
  qed
  obtain q where q: "try_pop (snd (try_push (Suc 0) (empty_ring 4))) = (Some 1, q)"
    using demo_retired by blast
  have view: "view_of t = demo_seen"
    if "live_requests t = [demo_granted]" "token_budget t = 8" "current_time t = 5" for t :: "(unit, 'a) Scheduler"
    using that by (simp add: view_of_def demo_seen_def)
  define grants where "grants = snd (try_push demo_grant (empty_ring 4))"
  obtain r where r: "try_pop grants = (Some demo_grant, r)" "try_pop r = (None, r)"
    by (simp add: grants_def try_push_def try_pop_def empty_ring_def slot_def Let_def word_le_nat_alt)
  have grants: "drain body grants t = (case body demo_grant t of (Inl e, u) \<Rightarrow> (Inl e, r, u) | (Inr x, u) \<Rightarrow> (Inr (), r, u))"
    for body :: "AdmissionResult \<Rightarrow> ((unit, 'a) Scheduler, unit) operation" and t
    by (subst drain.simps) (simp add: r drain.simps split: sum.splits prod.splits)
  let ?a = "\<lparr>adm_id = 0, adm_prompt = ''hi'', adm_max_output_tokens = 3, adm_synthetic_prompt_tokens = None,
    adm_output_mode = Natural, adm_conversation_id = []\<rparr>"
  obtain sent where sent: "try_push ?a (empty_ring 4) = (True, sent)"
    by (simp add: try_push_def empty_ring_def slot_def Let_def word_le_nat_alt)
  have m: "ar_id demo_grant = 0" "ar_error demo_grant = NoError" "ar_prompt_tokens demo_grant = 4"
    "ar_cached_prefix_tokens demo_grant = 0" by (simp_all add: demo_grant_def)
  show ?thesis
    by (simp add: run_once_eval q grants sent m demo_asked_def demo_fresh_def new_scheduler_def demo_handoff2_def demo_handoff_state_def
        submit_def submit_admission_def increment_queued_def u32_of_u64_def u32_max_def submitted_request_def new_request_def
        on_admission_result_def increment_active_def try_admit_def grants_def [symmetric] view b [unfolded w(1)] w(2,3) accept demo_granted_def demo_started_def
        del: validate_plan_def)
qed

end

locale planner =
  fixes build :: "'p \<Rightarrow> policy_view \<Rightarrow> WorkItem list"
  assumes plan_sound: "distinct (map req_id (pv_requests v)) \<Longrightarrow> pv_token_budget v \<noteq> 0 \<Longrightarrow>
      valid_plan (view_lookup v) (pv_token_budget v) (build p v)"
    and plan_busy: "pv_token_budget v \<noteq> 0 \<Longrightarrow> r \<in> set (pv_requests v) \<Longrightarrow> is_schedulable r \<Longrightarrow>
      (\<And>q. q \<in> set (pv_requests v) \<Longrightarrow> stage q \<noteq> PendingRelease \<and> (is_schedulable q \<longrightarrow> workable q)) \<Longrightarrow>
      build p v \<noteq> []"

sublocale planner \<subseteq> valid_planner "planning_policy build" "\<lambda>v p. True"
  by unfold_locales (use plan_sound plan_busy in \<open>auto simp: planning_policy_def\<close>)

section \<open>The policies satisfy it\<close>

lemma fifo_sound:
  assumes "distinct (map req_id (pv_requests v))" "pv_token_budget v \<noteq> 0"
  shows "valid_plan (view_lookup v) (pv_token_budget v) (fifo_plan v)"
proof (cases "fifo_choice (pv_requests v)")
  case None
  then show ?thesis by (simp add: fifo_plan_choice valid_plan_def)
next
  case (Some r)
  then have r: "r \<in> set (pv_requests v)"
    by (auto simp: fifo_choice_def dest: find_SomeD split: if_splits option.splits)
  show ?thesis
  proof (cases "fifo_work (pv_token_budget v) r")
    case Nil
    then show ?thesis using Some by (simp add: fifo_plan_choice valid_plan_def)
  next
    case (Cons w ws)
    have w: "fifo_work (pv_token_budget v) r = [w]" "work_id w = req_id r" "valid_item r w"
      "item_tokens w \<le> unat (pv_token_budget v)"
      using fifo_work_item [of w "pv_token_budget v" r] Cons assms(2) by (simp_all add: unat_gt_0)
    have "view_lookup v (work_id w) = Some r"
      using find_unique_key [OF assms(1) r] w(2) by (simp add: view_lookup_def)
    then show ?thesis using Some w by (simp add: fifo_plan_choice valid_plan_def)
  qed
qed

lemma fifo_work_busy:
  assumes "workable r" "b \<noteq> 0"
  shows "fifo_work b r \<noteq> []"
proof (cases "stage r")
  case PrefillStage
  have "0 < unat b" using assms(2) by (simp add: unat_gt_0)
  then show ?thesis using assms(1) PrefillStage
      fifo_prefill_end [of "prompt_length r" "prefill_position r" b]
    by (simp add: fifo_work_def workable_def Let_def word_less_nat_alt)
next
  case DecodeStage
  then show ?thesis using assms(1)
    by (auto simp: fifo_work_def workable_def decode_overflow)
qed (use assms in \<open>simp_all add: workable_def\<close>)

lemma fifo_busy:
  assumes "pv_token_budget v \<noteq> 0" "r \<in> set (pv_requests v)" "is_schedulable r"
    and all: "\<And>q. q \<in> set (pv_requests v) \<Longrightarrow> stage q \<noteq> PendingRelease \<and> (is_schedulable q \<longrightarrow> workable q)"
  shows "fifo_plan v \<noteq> []"
proof -
  let ?rs = "pv_requests v"
  have no: "\<not> list_ex (\<lambda>r. stage r = PendingRelease \<and> has_progress r) ?rs" using all by (auto simp: list_ex_iff)
  have "find admitted_live ?rs \<noteq> None"
    using assms(2,3) by (auto simp: find_None_iff admitted_live_def is_schedulable_def)
  then obtain a where a: "find admitted_live ?rs = Some a" by blast
  have "fifo_choice ?rs \<noteq> None" using no a by (cases "find progressing ?rs") (simp_all add: fifo_choice_def)
  then obtain c where c: "fifo_choice ?rs = Some c" by blast
  then have "c \<in> set ?rs \<and> (progressing c \<or> admitted_live c)" using no
    by (auto simp: fifo_choice_def dest: find_SomeD split: option.splits)
  then have "workable c" using all [of c]
    by (cases "stage c") (auto simp: progressing_def admitted_live_def is_schedulable_def)
  then show ?thesis using fifo_work_busy [OF _ assms(1)] c by (simp add: fifo_plan_choice)
qed

lemma continuous_sound:
  "distinct (map req_id (pv_requests v)) \<Longrightarrow> valid_plan (view_lookup v) (pv_token_budget v) (continuous_plan v)"
  unfolding continuous_plan_def by (rule plan_for_valid [OF _ continuous_plan_for]) simp_all

lemma cache_aware_sound:
  "distinct (map req_id (pv_requests v)) \<Longrightarrow> valid_plan (view_lookup v) (pv_token_budget v) (cache_aware_plan k v)"
  unfolding cache_aware_continuous
  by (rule plan_for_valid [OF _ continuous_plan_for]) (simp_all add: mset_cache_order mset_schedulable_part)

lemma continuous_first:
  assumes "b \<noteq> 0" "workable r"
  shows "continuous_from b (r # rs) \<noteq> []"
  using assms
  by (cases "stage r") (auto simp: workable_def Let_def word_le_nat_alt decode_overflow)

lemma continuous_busy:
  assumes "b \<noteq> 0" "rs \<noteq> []" "\<And>q. q \<in> set rs \<Longrightarrow> workable q"
  shows "continuous_from b rs \<noteq> []"
  using assms continuous_first by (cases rs) auto

lemma schedulable_part_all:
  "(\<And>q. q \<in> set rs \<Longrightarrow> stage q \<noteq> PendingRelease) \<Longrightarrow> schedulable_part rs = filter is_schedulable rs"
  by (simp add: schedulable_part_def takeWhile_eq_all_conv [THEN iffD2])

interpretation fifo: planner "\<lambda>p. fifo_plan"
  by unfold_locales (rule fifo_sound, assumption+, rule fifo_busy)

interpretation continuous: planner "\<lambda>p. continuous_plan"
proof unfold_locales
  fix v :: policy_view and r
  assume a: "pv_token_budget v \<noteq> 0" "r \<in> set (pv_requests v)" "is_schedulable r"
    "\<And>q. q \<in> set (pv_requests v) \<Longrightarrow> stage q \<noteq> PendingRelease \<and> (is_schedulable q \<longrightarrow> workable q)"
  have p: "schedulable_part (pv_requests v) = filter is_schedulable (pv_requests v)"
    using a(4) by (intro schedulable_part_all) simp
  show "continuous_plan v \<noteq> []"
    unfolding continuous_plan_def by (subst continuous_part, rule continuous_busy)
      (use a p in \<open>auto simp: filter_empty_conv\<close>)
qed (rule continuous_sound)

interpretation cache_aware: planner cache_aware_plan
proof unfold_locales
  fix v :: policy_view and r p
  assume a: "pv_token_budget v \<noteq> 0" "r \<in> set (pv_requests v)" "is_schedulable r"
    "\<And>q. q \<in> set (pv_requests v) \<Longrightarrow> stage q \<noteq> PendingRelease \<and> (is_schedulable q \<longrightarrow> workable q)"
  have part: "schedulable_part (pv_requests v) = filter is_schedulable (pv_requests v)"
    using a(4) by (intro schedulable_part_all) simp
  have m: "mset (cache_order p (pv_requests v)) = mset (filter is_schedulable (pv_requests v))"
    by (simp add: mset_cache_order part)
  have "cache_order p (pv_requests v) \<noteq> []" using m a(2,3) by (auto simp: filter_empty_conv)
  moreover have "q \<in> set (cache_order p (pv_requests v)) \<Longrightarrow> workable q" for q
    using mset_eq_setD [OF m] a(4) by auto
  ultimately show "cache_aware_plan p v \<noteq> []"
    unfolding cache_aware_continuous by (intro continuous_busy a(1))
qed (rule cache_aware_sound)

section \<open>Properties\<close>

text \<open>The token budget is never assigned after construction.\<close>
interpretation budget: plan_frame "\<lambda>s. token_budget s = b" for b
  by unfold_locales
    (auto simp: stable_def triple_def plan_state_def split: prod.splits sum.splits
      dest!: enter_draining_plan_state submit_plan_state)

interpretation budgets: run_frame "\<lambda>s. token_budget s = b" for b
proof unfold_locales
  show "token_budget s = b \<Longrightarrow> token_budget (flush_pending_admissions s) = b" for s
    using flush_from_same [of "pending_admissions s" s] by (simp add: flush_pending_admissions_def plan_state_def)
  show "token_budget s1 = b \<Longrightarrow> decide pol s1 = (r, s') \<Longrightarrow> token_budget s' = b" for s1 s' r pol
    by (rule stableD [OF budget.decision])
qed (simp_all add: start_execution_def begin_nonconst_operation_def)

lemma reachable_budget: "scheduler_reachable pol s \<Longrightarrow> token_budget s \<noteq> 0"
proof (induction rule: scheduler_reachable.induct)
  case (submission s tid a i s')
  then show ?case by (auto simp: plan_state_def dest: submit_plan_state)
next
  case (iteration s tid b s')
  then show ?case using stableD [OF budgets.iteration refl] by metis
qed (auto simp: new_scheduler_def enable_streaming_retirement_def begin_nonconst_operation_def
    set_workload_observer_def set_batch_observer_def set_clock_def set_decision_clock_def request_stop_def
    requests_def run_simps Let_def split: if_splits option.splits)

lemma reachable_ids: "scheduler_reachable pol s \<Longrightarrow> distinct (map req_id (live_requests s))"
  using scheduler_reachable_inv [of pol s] by (simp add: sched_inv_def base_inv_def ids_inv_def all_ids_def)

text \<open>
  C15. The plans of the built-in policies are always acceptable: at a reachable scheduler each of
  the three builds, without an exception, a plan that plan validation accepts. And they keep the
  run alive: when every schedulable request can be worked on, a decision with them reports no
  error and starts no drain, whatever the clocks and the handoff do.
\<close>
theorem builtin_policies_never_drain:
  assumes "scheduler_reachable pol s" and "pol \<in> {fifo_policy, continuous_policy, cache_aware_policy}"
  shows "(\<exists>ws p'. build_plan pol (view_of s) (policy s) = (Inr ws, p') \<and> err_valid (validate_plan ws s)) \<and>
    (list_all (\<lambda>q. is_schedulable q \<longrightarrow> workable q) (live_requests s) \<longrightarrow>
      draining (snd (decide pol s)) = draining s \<and> last_error (snd (decide pol s)) = last_error s)"
proof -
  note facts = reachable_ids [OF assms(1)] reachable_budget [OF assms(1)]
  have d: "decide pol s = (fst (decide pol s), snd (decide pol s))" by simp
  have look: "view_lookup (view_of s) = (\<lambda>i. find_request i s)"
    by (simp add: view_lookup_def view_of_def find_request_def fun_eq_iff)
  have v: "distinct (map req_id (pv_requests (view_of s)))" "pv_token_budget (view_of s) \<noteq> 0"
    using facts by (simp_all add: view_of_def)
  have ok: "err_valid (validate_plan ws s)" if "valid_plan (view_lookup (view_of s)) (pv_token_budget (view_of s)) ws" for ws
    using that look by (simp add: validate_plan_spec view_of_def)
  have w: "q \<in> set (live_requests s) \<Longrightarrow> is_schedulable q \<Longrightarrow> workable q"
    if "list_all (\<lambda>q. is_schedulable q \<longrightarrow> workable q) (live_requests s)" for q
    using that by (simp add: list_all_iff)
  from assms(2) consider "pol = fifo_policy" | "pol = continuous_policy" | "pol = cache_aware_policy" by blast
  then show ?thesis
  proof cases
    case 1
    have "draining (snd (decide pol s)) = draining s \<and> last_error (snd (decide pol s)) = last_error s"
      if "list_all (\<lambda>q. is_schedulable q \<longrightarrow> workable q) (live_requests s)"
      using fifo.decides_well [OF facts w [OF that] d [unfolded 1 fifo_policy_def]] 1 by (simp add: fifo_policy_def)
    then show ?thesis using ok [OF fifo.plan_sound [OF v]] 1 by (simp add: fifo_policy_def planning_policy_def)
  next
    case 2
    have "draining (snd (decide pol s)) = draining s \<and> last_error (snd (decide pol s)) = last_error s"
      if "list_all (\<lambda>q. is_schedulable q \<longrightarrow> workable q) (live_requests s)"
      using continuous.decides_well [OF facts w [OF that] d [unfolded 2 continuous_policy_def]] 2 by (simp add: continuous_policy_def)
    then show ?thesis using ok [OF continuous.plan_sound [OF v]] 2 by (simp add: continuous_policy_def planning_policy_def)
  next
    case 3
    have "draining (snd (decide pol s)) = draining s \<and> last_error (snd (decide pol s)) = last_error s"
      if "list_all (\<lambda>q. is_schedulable q \<longrightarrow> workable q) (live_requests s)"
      using cache_aware.decides_well [OF facts w [OF that] d [unfolded 3 cache_aware_policy_def]] 3 by (simp add: cache_aware_policy_def)
    then show ?thesis using ok [OF cache_aware.plan_sound [OF v]] 3 by (simp add: cache_aware_policy_def planning_policy_def)
  qed
qed

theorem builtin_policies_never_drain_witness:
  "\<exists>s :: (unit, nat) Scheduler. scheduler_reachable cache_aware_policy s \<and> map stage (live_requests s) = [PrefillStage] \<and>
     \<not> draining (snd (decide cache_aware_policy s)) \<and>
     (\<exists>ws. fst (build_plan cache_aware_policy (view_of s) (policy s)) = Inr ws \<and> err_valid (validate_plan ws s))"
proof -
  have "build_plan (planning_policy cache_aware_plan) demo_seen 2 = (Inr (cache_aware_plan 2 demo_seen), 2)"
    by (simp add: planning_policy_def)
  from cache_aware.demo_admits [OF TrueI this] obtain s where
    s: "run_once cache_aware_policy 0 (demo_asked 2) = (Inr True, s)" "live_requests s = [demo_started]" "\<not> draining s"
    by (auto simp: cache_aware_policy_def)
  have reach: "scheduler_reachable cache_aware_policy s"
    by (rule scheduler_reachable.iteration [OF demo_asked_reachable s(1)])
  have w: "list_all (\<lambda>q. is_schedulable q \<longrightarrow> workable q) (live_requests s)"
    by (simp add: s(2) demo_started_def demo_granted_def workable_def)
  have "map stage (live_requests s) = [PrefillStage]" by (simp add: s(2) demo_started_def demo_granted_def)
  moreover have "\<not> draining (snd (decide cache_aware_policy s))"
    "\<exists>ws. fst (build_plan cache_aware_policy (view_of s) (policy s)) = Inr ws \<and> err_valid (validate_plan ws s)"
    using builtin_policies_never_drain [OF reach] w s(3) by auto
  ultimately show ?thesis using reach by (intro exI [of _ s] conjI)
qed


definition demo_view :: policy_view where
  "demo_view = \<lparr>pv_token_budget = 6, pv_now = 0, pv_requests =
     [new_request\<lparr>stage := PrefillStage, prompt_length := 4\<rparr>,
      new_request\<lparr>req_id := 1, stage := PrefillStage, prompt_length := 5, prefill_position := 1, cached_prefix_tokens := 1\<rparr>]\<rparr>"


text \<open>
  C13. The cache-aware policy is continuous batching on a reordered queue: it builds the plan of
  continuous batching for the requests before the first one awaiting release that can be
  scheduled, in which the first \<open>k\<close> prompts (the locality window) take their places among
  themselves by descending length of their cached prefix, equal ones in the order they had, while
  later prompts and the requests that decode stay where they are.
\<close>
theorem cache_aware_reorders_window:
  fixes k :: nat and v :: policy_view
  defines "queue \<equiv> schedulable_part (pv_requests v)"
  defines "window \<equiv> take k (filter prefilling queue)"
  shows "\<exists>order sorted_window. cache_aware_plan k v = continuous_plan (v\<lparr>pv_requests := order\<rparr>) \<and>
    map (\<lambda>r. if prefilling r then None else Some r) order = map (\<lambda>r. if prefilling r then None else Some r) queue \<and>
    filter prefilling order = sorted_window @ drop k (filter prefilling queue) \<and>
    mset sorted_window = mset window \<and>
    sorted_wrt (\<lambda>a b. cached_prefix_tokens a \<ge> cached_prefix_tokens b) sorted_window \<and>
    (\<forall>c. filter (\<lambda>r. cached_prefix_tokens r = c) sorted_window = filter (\<lambda>r. cached_prefix_tokens r = c) window)"
proof -
  let ?w = "sort_window window"
  have w: "window = cached_window k (pv_requests v)" by (simp add: window_def queue_def cached_window_def)
  have "\<forall>r \<in> set ?w. prefilling r" "length ?w \<le> length (filter prefilling queue)"
    by (auto simp: window_def dest: in_set_takeD)
  from reorder_shape [OF this]
  have "map (\<lambda>r. if prefilling r then None else Some r) (reorder ?w queue) =
      map (\<lambda>r. if prefilling r then None else Some r) queue"
    "filter prefilling (reorder ?w queue) = ?w @ drop k (filter prefilling queue)"
    by (auto simp: window_def min_def)
  moreover have "cache_aware_plan k v = continuous_plan (v\<lparr>pv_requests := reorder ?w queue\<rparr>)"
    by (simp add: cache_aware_continuous continuous_plan_def cache_order_def w queue_def)
  ultimately show ?thesis
    by (intro exI [of _ "reorder ?w queue"] exI [of _ ?w] conjI allI sort_window_sorted sort_window_stable) simp_all
qed

text \<open>
  With a locality window of one, or when no later prompt of the window has more cached tokens
  than an earlier one, the order is the queue itself.
\<close>
lemma cache_aware_equals_continuous:
  assumes "k \<le> 1 \<or> sorted_wrt (\<lambda>a b. cached_prefix_tokens a \<ge> cached_prefix_tokens b) (cached_window k (pv_requests v))"
  shows "cache_aware_plan k v = continuous_plan v"
proof -
  let ?w = "cached_window k (pv_requests v)"
  have "sorted (map (\<lambda>r. - int (unat (cached_prefix_tokens r))) ?w)"
    using assms
  proof
    assume "k \<le> 1"
    then have "length ?w \<le> 1" by (simp add: cached_window_def)
    then show ?thesis by (cases ?w) auto
  next
    assume "sorted_wrt (\<lambda>a b. cached_prefix_tokens a \<ge> cached_prefix_tokens b) ?w"
    then have "sorted_wrt (\<lambda>a b. - int (unat (cached_prefix_tokens a)) \<le> - int (unat (cached_prefix_tokens b))) ?w"
      by (rule sorted_wrt_mono_rel [rotated]) (simp add: word_le_def)
    then show ?thesis by (simp add: sorted_map)
  qed
  then have "sort_window ?w = ?w" by (simp add: sort_window_def sort_key_id_if_sorted)
  then have "cache_order k (pv_requests v) = schedulable_part (pv_requests v)"
    by (simp add: cache_order_def cached_window_def reorder_same)
  then show ?thesis by (simp add: cache_aware_continuous continuous_plan_def continuous_part [symmetric])
qed

text \<open>
  FIFO serves one request at a time, and a started one to its end: it plans at most one
  item, nothing while a started request awaits its release, and no request that has not
  started as long as a started one can be scheduled.
\<close>
theorem fifo_one_at_a_time:
  "length (fifo_plan v) \<le> 1 \<and>
   (fifo_plan v = [] \<or> (\<exists>r. fifo_choice (pv_requests v) = Some r \<and> work_id (hd (fifo_plan v)) = req_id r \<and>
      \<not> list_ex (\<lambda>q. stage q = PendingRelease \<and> has_progress q) (pv_requests v) \<and>
      (if list_ex progressing (pv_requests v) then has_progress r else True)))"
proof (cases "fifo_plan v = []")
  case False
  then obtain r where r: "fifo_choice (pv_requests v) = Some r" by (auto simp: fifo_plan_choice split: option.splits)
  then have "fifo_work (pv_token_budget v) r \<noteq> []" using False by (simp add: fifo_plan_choice)
  then obtain w where w: "w \<in> set (fifo_work (pv_token_budget v) r)" using hd_in_set by blast
  have "fifo_plan v = [w]" "work_id w = req_id r" using fifo_work_item [OF w] r by (simp_all add: fifo_plan_choice)
  moreover have "if list_ex progressing (pv_requests v) then has_progress r else True"
    using r by (auto simp: fifo_choice_def progressing_def find_None_iff list_ex_iff dest: find_SomeD
        split: if_splits option.splits)
  moreover have "\<not> list_ex (\<lambda>q. stage q = PendingRelease \<and> has_progress q) (pv_requests v)"
    using r by (auto simp: fifo_choice_def)
  ultimately show ?thesis using r by simp
qed simp

text \<open>
  A cached prompt overtakes under FIFO: a request admitted with a cached prefix counts as
  started, so it is served before an earlier admitted request that has not started.
\<close>
theorem fifo_cached_overtakes:
  assumes "pv_requests v = [a, b]" and "prefilling a" "prefill_position a = 0" "decoded_count a = 0"
    and "prefilling b" "0 < prefill_position b" "prefill_position b < prompt_length b" "pv_token_budget v \<noteq> 0"
  shows "map work_id (fifo_plan v) = [req_id b]"
proof -
  have "fifo_choice [a, b] = Some b" using assms(2-6)
    by (simp add: fifo_choice_def progressing_def is_schedulable_def has_progress_def)
  moreover have "workable b" using assms(5,7) by (simp add: workable_def word_less_nat_alt)
  ultimately obtain w where w: "w \<in> set (fifo_work (pv_token_budget v) b)"
    using fifo_work_busy [OF _ assms(8)] hd_in_set by blast
  then show ?thesis using fifo_work_item [OF w] \<open>fifo_choice [a, b] = Some b\<close> assms(1)
    by (simp add: fifo_plan_choice)
qed

theorem fifo_cached_overtakes_witness: "map work_id (fifo_plan demo_view) = [1]"
  using fifo_cached_overtakes [of demo_view "new_request\<lparr>stage := PrefillStage, prompt_length := 4\<rparr>"
      "new_request\<lparr>req_id := 1, stage := PrefillStage, prompt_length := 5, prefill_position := 1, cached_prefix_tokens := 1\<rparr>"]
  by (simp add: demo_view_def new_request_def)

end
