(* ===== verification/Prefix_Cache.thy ===== *)
theory Prefix_Cache
  imports Protocol "HOL-Library.Multiset" "HOL-Library.Sublist"
begin

text \<open>
  The environment's cache of computed prompt prefixes (\<open>src/runtime/prefix_cache.hpp\<close>), and
  its specification as a list of entries, most recently used first.

  A \<open>std::vector\<close> is a list, an iterator or a pointer into it an index. Erasing the end
  iterator is undefined behaviour in C++; \<open>retain_conversation_prefix\<close> returns \<open>None\<close> there.
\<close>

record PrefixCacheEntry =
  pc_tokens :: "Token list"
  pc_state :: "u8 list"
  pc_last_used :: u64
  pc_conversation_id :: string

section \<open>The operations\<close>

text \<open>\<open>std::min_element\<close> by \<open>last_used\<close>: the index of the first smallest, the end when empty.\<close>
fun oldest_index :: "PrefixCacheEntry list \<Rightarrow> nat" where
  "oldest_index [] = 0"
| "oldest_index [e] = 0"
| "oldest_index (e # es) =
     (let j = oldest_index es in if pc_last_used (es ! j) < pc_last_used e then Suc j else 0)"

definition erase_at :: "nat \<Rightarrow> 'a list \<Rightarrow> 'a list option" where
  "erase_at i xs = (if i < length xs then Some (take i xs @ drop (Suc i) xs) else None)"

definition retain_conversation_prefix ::
  "PrefixCacheEntry list \<Rightarrow> PrefixCacheEntry \<Rightarrow> nat \<Rightarrow> PrefixCacheEntry list option" where
  "retain_conversation_prefix entries entry capacity =
     (let same = (\<lambda>c. pc_conversation_id c = pc_conversation_id entry) in
      if pc_conversation_id entry \<noteq> [] \<and> find same entries \<noteq> None
      then Some (update_first same (\<lambda>_. entry) entries)
      else if length entries = capacity
      then map_option (\<lambda>es. es @ [entry]) (erase_at (oldest_index entries) entries)
      else Some (entries @ [entry]))"

text \<open>The loop of \<open>find_longest_full_prefix\<close>: \<open>i\<close> is the index of the entry looked at.\<close>
fun longest_from :: "Token list \<Rightarrow> (nat \<times> PrefixCacheEntry) option \<Rightarrow> nat \<Rightarrow> PrefixCacheEntry list \<Rightarrow>
    (nat \<times> PrefixCacheEntry) option" where
  "longest_from prompt best i [] = best"
| "longest_from prompt best i (e # es) =
     (if pc_tokens e = [] \<or> length (pc_tokens e) > length prompt \<or>
         (case best of None \<Rightarrow> False | Some (_, b) \<Rightarrow> length (pc_tokens e) \<le> length (pc_tokens b))
      then longest_from prompt best (Suc i) es
      else if list_all2 (=) (pc_tokens e) (take (length (pc_tokens e)) prompt)
      then longest_from prompt (Some (i, e)) (Suc i) es
      else longest_from prompt best (Suc i) es)"

definition find_longest_full_prefix :: "PrefixCacheEntry list \<Rightarrow> Token list \<Rightarrow> nat option" where
  "find_longest_full_prefix entries prompt = map_option fst (longest_from prompt None 0 entries)"

section \<open>Lookup\<close>

text \<open>An entry that can serve a prompt: its tokens are a nonempty prefix of it.\<close>
definition serves :: "Token list \<Rightarrow> PrefixCacheEntry \<Rightarrow> bool" where
  "serves prompt e \<longleftrightarrow> pc_tokens e \<noteq> [] \<and> prefix (pc_tokens e) prompt"

lemma serves_iff: "serves prompt e \<longleftrightarrow> pc_tokens e \<noteq> [] \<and> length (pc_tokens e) \<le> length prompt \<and>
    list_all2 (=) (pc_tokens e) (take (length (pc_tokens e)) prompt)"
proof -
  have "prefix xs ys \<longleftrightarrow> length xs \<le> length ys \<and> xs = take (length xs) ys" for xs ys :: "Token list"
  proof
    assume "length xs \<le> length ys \<and> xs = take (length xs) ys"
    then show "prefix xs ys" using take_is_prefix [of "length xs" ys] by simp
  qed (auto simp: prefix_def)
  then show ?thesis unfolding serves_def list.rel_eq by blast
qed

text \<open>The best candidate seen so far: the first of the longest that serve.\<close>
definition best_of :: "Token list \<Rightarrow> PrefixCacheEntry list \<Rightarrow> (nat \<times> PrefixCacheEntry) option \<Rightarrow> bool" where
  "best_of prompt seen best \<longleftrightarrow>
     (case best of
        None \<Rightarrow> \<forall>e \<in> set seen. \<not> serves prompt e
      | Some (i, b) \<Rightarrow> i < length seen \<and> seen ! i = b \<and> serves prompt b \<and>
          (\<forall>j < length seen. serves prompt (seen ! j) \<longrightarrow>
             length (pc_tokens (seen ! j)) \<le> length (pc_tokens b) \<and>
             (j < i \<longrightarrow> length (pc_tokens (seen ! j)) < length (pc_tokens b))))"

lemma best_of_skip:
  assumes "best_of prompt seen best"
    and "\<not> serves prompt e \<or> (\<exists>i b. best = Some (i, b) \<and> length (pc_tokens e) \<le> length (pc_tokens b))"
  shows "best_of prompt (seen @ [e]) best"
  using assms by (cases best) (auto simp: best_of_def nth_append less_Suc_eq)

lemma best_of_take:
  assumes "best_of prompt seen best" and "serves prompt e"
    and "\<And>i b. best = Some (i, b) \<Longrightarrow> length (pc_tokens b) < length (pc_tokens e)"
  shows "best_of prompt (seen @ [e]) (Some (length seen, e))"
  using assms by (cases best) (force simp: best_of_def nth_append less_Suc_eq)+

lemma longest_from_best:
  "best_of prompt seen best \<Longrightarrow> best_of prompt (seen @ es) (longest_from prompt best (length seen) es)"
proof (induction es arbitrary: seen best)
  case Nil
  then show ?case by simp
next
  case (Cons e es)
  have IH: "best_of prompt (seen @ [e]) b \<Longrightarrow> best_of prompt (seen @ e # es) (longest_from prompt b (Suc (length seen)) es)" for b
    using Cons.IH [of "seen @ [e]" b] by simp
  show ?case
    using IH [OF best_of_skip [OF Cons.prems]] IH [OF best_of_take [OF Cons.prems]]
    by (cases best) (auto simp: serves_iff)
qed

lemma find_longest_Some:
  assumes "find_longest_full_prefix entries prompt = Some i"
  shows "i < length entries \<and> serves prompt (entries ! i)"
proof -
  have "best_of prompt [] None" by (simp add: best_of_def)
  from longest_from_best [OF this, of entries] assms show ?thesis
    by (auto simp: find_longest_full_prefix_def best_of_def)
qed

section \<open>Replacement\<close>

lemma oldest_index_less: "es \<noteq> [] \<Longrightarrow> oldest_index es < length es"
  by (induction es rule: oldest_index.induct) (auto simp: Let_def)

lemma oldest_index_min:
  "x \<in> set es \<Longrightarrow> pc_last_used (es ! oldest_index es) \<le> pc_last_used x"
  by (induction es rule: oldest_index.induct) (auto simp: Let_def intro: order.trans)

lemma retain_within:
  assumes "0 < capacity" "length es \<le> capacity"
  shows "\<exists>es'. retain_conversation_prefix es e capacity = Some es' \<and> length es' \<le> capacity"
proof (cases "es = []")
  case False
  then have "oldest_index es < length es" by (rule oldest_index_less)
  then show ?thesis using assms by (auto simp: retain_conversation_prefix_def erase_at_def Let_def)
qed (use assms in \<open>auto simp: retain_conversation_prefix_def\<close>)

text \<open>
  The cache as a recency list: the entries of the vector in decreasing order of \<open>last_used\<close>.
  Retaining puts the entry in front; it replaces the entry of its conversation, or else drops
  the last one when the cache is full.
\<close>
definition recency :: "PrefixCacheEntry list \<Rightarrow> PrefixCacheEntry list \<Rightarrow> bool" where
  "recency es l \<longleftrightarrow> mset l = mset es \<and> sorted_wrt (\<lambda>a b. pc_last_used a > pc_last_used b) l \<and>
     distinct (filter (\<lambda>c. c \<noteq> []) (map pc_conversation_id l))"

definition lru_retain :: "nat \<Rightarrow> PrefixCacheEntry \<Rightarrow> PrefixCacheEntry list \<Rightarrow> PrefixCacheEntry list" where
  "lru_retain capacity e l =
     (if pc_conversation_id e \<noteq> [] \<and> pc_conversation_id e \<in> pc_conversation_id ` set l
      then e # filter (\<lambda>c. pc_conversation_id c \<noteq> pc_conversation_id e) l
      else if length l = capacity then e # butlast l else e # l)"

lemma mset_update_first:
  "find p xs = Some x \<Longrightarrow> mset (update_first p f xs) = add_mset (f x) (mset xs - {#x#})"
  by (auto dest!: update_first_split [where f = f])

lemma mset_erase_at: "i < length xs \<Longrightarrow> erase_at i xs = Some ys \<Longrightarrow> mset ys = mset xs - {#xs ! i#}"
  using arg_cong [OF id_take_nth_drop [of i xs], of mset] by (auto simp: erase_at_def)

lemma only_one:
  assumes "distinct (filter (\<lambda>c. c \<noteq> []) (map k l))" and "x \<in> set l" and "k x \<noteq> []"
  shows "mset (filter (\<lambda>c. k c \<noteq> k x) l) = mset l - {#x#}"
  using assms
proof (induction l)
  case (Cons y l)
  then show ?case
  proof (cases "k y = k x")
    case True
    then have "k x \<notin> k ` set l" using Cons.prems by auto
    then have "y = x" "\<forall>c \<in> set l. k c \<noteq> k x" using Cons.prems by (auto simp: image_iff)
    then show ?thesis by (simp add: filter_id_conv [THEN iffD2])
  next
    case False
    then have "x \<in> set l" "y \<noteq> x" using Cons.prems by auto
    moreover have "distinct (filter (\<lambda>c. c \<noteq> []) (map k l))" using Cons.prems by (auto split: if_splits)
    ultimately show ?thesis using Cons False by auto
  qed
qed simp

lemma distinct_filter_map_filter:
  "distinct (filter p (map k l)) \<Longrightarrow> distinct (filter p (map k (filter q l)))"
  by (induction l) auto

lemma distinct_filter_map_butlast:
  "distinct (filter p (map k l)) \<Longrightarrow> distinct (filter p (map k (butlast l)))"
  by (induction l) (auto dest: in_set_butlastD)

lemma recency_last:
  assumes r: "recency es l" and ne: "es \<noteq> []"
  shows "es ! oldest_index es = last l"
proof -
  have l: "set l = set es" "l \<noteq> []" using r ne by (auto simp: recency_def dest: mset_eq_setD)
  have m: "es ! oldest_index es \<in> set l" using l oldest_index_less [OF ne] by simp
  have "pc_last_used (es ! oldest_index es) \<le> pc_last_used (last l)"
    using l by (intro oldest_index_min) (metis last_in_set)
  moreover have "x = last l \<or> pc_last_used (last l) < pc_last_used x" if "x \<in> set l" for x
  proof -
    have "sorted_wrt (\<lambda>a b. pc_last_used a > pc_last_used b) (butlast l @ [last l])"
      using r l by (simp add: recency_def)
    then have "\<forall>x \<in> set (butlast l). pc_last_used (last l) < pc_last_used x" by (simp add: sorted_wrt_append)
    then show ?thesis using that l(2) by (metis append_butlast_last_id in_set_conv_decomp UnE set_append set_ConsD empty_iff list.set(1))
  qed
  ultimately show ?thesis using m by fastforce
qed

lemma sorted_wrt_fresh:
  "(\<And>x. x \<in> set l \<Longrightarrow> pc_last_used x < u) \<Longrightarrow> sorted_wrt (\<lambda>a b. pc_last_used a > pc_last_used b) l \<Longrightarrow>
     pc_last_used e = u \<Longrightarrow> sorted_wrt (\<lambda>a b. pc_last_used a > pc_last_used b) (e # l)"
  by simp

lemma recency_front:
  assumes "mset es' = add_mset e (mset l')" "sorted_wrt (\<lambda>a b. pc_last_used a > pc_last_used b) l'"
    and "distinct (filter (\<lambda>c. c \<noteq> []) (map pc_conversation_id l'))"
    and "pc_conversation_id e = [] \<or> pc_conversation_id e \<notin> pc_conversation_id ` set l'"
    and "\<forall>x \<in> set l'. pc_last_used x < pc_last_used e"
  shows "recency es' (e # l')"
  using assms by (auto simp: recency_def)

lemma retain_recency:
  assumes r: "recency es l" and fresh: "\<forall>x \<in> set es. pc_last_used x < pc_last_used e"
    and cap: "0 < capacity" "length es \<le> capacity"
  shows "\<exists>es'. retain_conversation_prefix es e capacity = Some es' \<and>
    recency es' (lru_retain capacity e l) \<and> length es' \<le> capacity"
proof -
  let ?c = "pc_conversation_id"
  have l: "set l = set es" "length l = length es" "mset l = mset es"
    using r by (auto simp: recency_def dest: mset_eq_setD mset_eq_length)
  have srt: "sorted_wrt (\<lambda>a b. pc_last_used a > pc_last_used b) l" and
    dis: "distinct (filter (\<lambda>c. c \<noteq> []) (map ?c l))" using r by (simp_all add: recency_def)
  show ?thesis
  proof (cases "?c e \<noteq> [] \<and> ?c e \<in> ?c ` set es")
    case True
    then obtain x where x: "find (\<lambda>c. ?c c = ?c e) es = Some x"
      by (cases "find (\<lambda>c. ?c c = ?c e) es") (auto simp: find_None_key)
    have xe: "x \<in> set l" "?c x = ?c e" using find_SomeD [OF x] l by auto
    have m: "mset (filter (\<lambda>c. ?c c \<noteq> ?c e) l) = mset l - {#x#}"
      using only_one [OF dis xe(1)] True xe(2) by simp
    have "recency (update_first (\<lambda>c. ?c c = ?c e) (\<lambda>_. e) es) (e # filter (\<lambda>c. ?c c \<noteq> ?c e) l)"
      using fresh srt dis l m mset_update_first [OF x]
      by (intro recency_front) (auto intro: sorted_wrt_filter distinct_filter_map_filter)
    then show ?thesis using True x l cap by (simp add: retain_conversation_prefix_def lru_retain_def)
  next
    case False
    have nf: "\<not> (?c e \<noteq> [] \<and> find (\<lambda>c. ?c c = ?c e) es \<noteq> None)" using False by (simp add: find_None_key)
    have new: "?c e = [] \<or> ?c e \<notin> ?c ` set l" using False l by simp
    show ?thesis
    proof (cases "length es = capacity")
      case True
      then have ne: "es \<noteq> []" "l \<noteq> []" using cap l by auto
      obtain ys where ys: "erase_at (oldest_index es) es = Some ys"
        using oldest_index_less [OF ne(1)] by (simp add: erase_at_def)
      have "mset l = add_mset (last l) (mset (butlast l))"
        using ne(2) by (metis append_butlast_last_id mset.simps(2) mset_append union_mset_add_mset_right
            add_mset_add_single mset.simps(1) add.right_neutral)
      then have m: "mset ys = mset (butlast l)"
        using mset_erase_at [OF oldest_index_less [OF ne(1)] ys] recency_last [OF r ne(1)] l by simp
      have "sorted_wrt (\<lambda>a b. pc_last_used a > pc_last_used b) (butlast l)"
        using srt ne(2) by (metis append_butlast_last_id sorted_wrt_append)
      then have "recency (ys @ [e]) (e # butlast l)"
        using fresh dis l m new
        by (intro recency_front) (auto intro: distinct_filter_map_butlast dest: in_set_butlastD)
      moreover have "length ys < capacity"
        using mset_eq_length [OF m] l True ne by (cases l) auto
      ultimately show ?thesis using nf True ys l False
        by (auto simp: retain_conversation_prefix_def lru_retain_def)
    next
      case F: False
      have "recency (es @ [e]) (e # l)" using fresh dis srt l new by (intro recency_front) auto
      then show ?thesis using nf F l cap False by (auto simp: retain_conversation_prefix_def lru_retain_def)
    qed
  qed
qed

section \<open>Properties\<close>

text \<open>
  C17. Retaining a prefix implements a least-recently-used cache of bounded size: with a fresh
  timestamp and a positive capacity it never erases past the end, keeps the size within the
  capacity, replaces the entry of the same conversation, otherwise evicts exactly the least
  recently used entry when full, and keeps one entry per conversation.
\<close>
theorem retain_refines_lru:
  assumes "recency es l" and "list_all (\<lambda>x. pc_last_used x < pc_last_used e) es"
    and "0 < capacity" and "length es \<le> capacity"
  shows "\<exists>es'. retain_conversation_prefix es e capacity = Some es' \<and>
    recency es' (lru_retain capacity e l) \<and> length es' \<le> capacity"
  using retain_recency [OF assms(1) _ assms(3,4)] assms(2) by (simp add: list_all_iff)

theorem retain_refines_lru_witness:
  "\<exists>es'. retain_conversation_prefix
       [\<lparr>pc_tokens = [1], pc_state = [], pc_last_used = 4, pc_conversation_id = ''a''\<rparr>,
        \<lparr>pc_tokens = [2], pc_state = [], pc_last_used = 3, pc_conversation_id = []\<rparr>]
       \<lparr>pc_tokens = [3], pc_state = [], pc_last_used = 5, pc_conversation_id = ''b''\<rparr> 2 = Some es' \<and>
     recency es' [\<lparr>pc_tokens = [3], pc_state = [], pc_last_used = 5, pc_conversation_id = ''b''\<rparr>,
        \<lparr>pc_tokens = [1], pc_state = [], pc_last_used = 4, pc_conversation_id = ''a''\<rparr>]"
proof -
  let ?a = "\<lparr>pc_tokens = [1::Token], pc_state = [], pc_last_used = 4, pc_conversation_id = ''a''\<rparr>"
  let ?b = "\<lparr>pc_tokens = [2::Token], pc_state = [], pc_last_used = 3, pc_conversation_id = []\<rparr>"
  let ?e = "\<lparr>pc_tokens = [3::Token], pc_state = [], pc_last_used = 5, pc_conversation_id = ''b''\<rparr>"
  have "recency [?a, ?b] [?a, ?b]" by (simp add: recency_def)
  from retain_refines_lru [OF this, of ?e 2] show ?thesis by (simp add: lru_retain_def) blast
qed

text \<open>
  The lookup returns the first of the longest usable entries: an entry is returned exactly
  when some nonempty entry is a prefix of the prompt, the one returned is such an entry, none
  is longer, and none before it is as long.
\<close>
theorem find_longest_correct:
  "case find_longest_full_prefix entries prompt of
     None \<Rightarrow> \<not> list_ex (serves prompt) entries
   | Some i \<Rightarrow> i < length entries \<and> serves prompt (entries ! i) \<and>
       list_all (\<lambda>e. length (pc_tokens e) \<le> length (pc_tokens (entries ! i))) (filter (serves prompt) entries) \<and>
       list_all (\<lambda>e. length (pc_tokens e) < length (pc_tokens (entries ! i))) (filter (serves prompt) (take i entries))"
proof -
  have "best_of prompt [] None" by (simp add: best_of_def)
  from longest_from_best [OF this, of entries]
  have b: "best_of prompt entries (longest_from prompt None 0 entries)" by simp
  show ?thesis
  proof (cases "longest_from prompt None 0 entries")
    case None
    then show ?thesis using b by (simp add: find_longest_full_prefix_def best_of_def list_ex_iff)
  next
    case (Some x)
    then show ?thesis using b
      by (auto simp: find_longest_full_prefix_def best_of_def list_all_iff in_set_conv_nth split: prod.splits)
  qed
qed

text \<open>
  With capacity zero the first retained prefix erases the end iterator of an empty vector,
  which C++ leaves undefined; the caller resolves a configured capacity of zero to the number
  of sequences and rejects zero sequences before.
\<close>
theorem retain_zero_capacity_undefined:
  "retain_conversation_prefix [] e capacity = None \<longleftrightarrow> capacity = 0"
  by (simp add: retain_conversation_prefix_def erase_at_def)

end
