(* ===== verification/Environment.thy ===== *)
theory Environment
  imports Handoff Prefix_Cache "HOL-Library.AList" "HOL-Library.Monad_Syntax"
begin

text \<open>
  The environment thread (\<open>src/runtime/environment.cpp\<close>): it owns the model context, admits
  requests into its sequences, executes plans and reports what happened.

  llama.cpp is not part of the repository: its functions are the fields of the record
  \<open>Llama\<close>, over a state \<open>'m\<close> of the model context. The sampler of a request is named by the
  request's sequence. Between two accesses to the handoff the scheduler may do anything to it:
  \<open>others s n\<close> is what it does before the \<open>n\<close>-th access. An operation that spins until the
  scheduler makes room may spin forever, so operations return an option and \<open>None\<close> is not
  returning; it is also the value of an operation whose behaviour C++ leaves undefined.
  \<open>sent\<close> is not in the code: it records the messages published, in order.
\<close>

section \<open>Data\<close>

type_synonym seq_id = "32 word"
type_synonym i32 = "32 word" \<comment> \<open>a signed 32-bit result, read with \<open>sint\<close>\<close>

record EnvironmentConfig =
  model_path :: string
  context_size :: u32
  batch_capacity :: u32
  max_sequences :: u32
  cfg_prefix_cache_capacity :: u32

definition resolve_prefix_cache_capacity :: "u32 \<Rightarrow> u32 \<Rightarrow> u32" where
  "resolve_prefix_cache_capacity configured sequences = (if configured = 0 then sequences else configured)"

definition validate_synthetic_workload :: "u32 \<Rightarrow> u32 \<Rightarrow> u32 \<Rightarrow> ErrorCode" where
  "validate_synthetic_workload prompt_tokens max_out ctx =
     (if u64_of_u32 prompt_tokens + u64_of_u32 max_out > u64_of_u32 ctx
      then ContextCapacityExceeded else NoError)"

record RequestRecord =
  rr_prompt :: "Token list"
  rr_prefill_position :: u32
  rr_decoded_tokens :: u32
  rr_last_token :: Token
  rr_sequence :: seq_id
  rr_output_mode :: OutputMode
  rr_cacheable :: bool
  rr_conversation_id :: string

record PendingAdmission =
  pa_admission :: Admission
  pa_prompt :: "Token list"
  pa_error :: ErrorCode
  pa_validated :: bool

text \<open>One row of \<open>llama_batch\<close>.\<close>
record BatchRow =
  row_token :: Token
  row_pos :: u32
  row_seq :: seq_id
  row_logits :: bool

record 'm Llama =
  llama_tokenize :: "string \<Rightarrow> nat \<Rightarrow> bool \<Rightarrow> bool \<Rightarrow> exn + i32 \<times> Token list"
    \<comment> \<open>the result and the buffer of the given length after the call\<close>
  llama_token_to_piece :: "Token \<Rightarrow> nat \<Rightarrow> i32 \<times> string"
  llama_vocab_is_eog :: "Token \<Rightarrow> bool"
  llama_vocab_n_tokens :: i32
  llama_memory_seq_rm :: "seq_id \<Rightarrow> 'm \<Rightarrow> bool \<times> 'm"
  llama_state_seq_get_size :: "seq_id \<Rightarrow> 'm \<Rightarrow> nat"
  llama_state_seq_get_data :: "nat \<Rightarrow> seq_id \<Rightarrow> 'm \<Rightarrow> nat \<times> u8 list"
  llama_state_seq_set_data :: "u8 list \<Rightarrow> seq_id \<Rightarrow> 'm \<Rightarrow> nat \<times> 'm"
  llama_sampler_init_greedy :: "'m \<Rightarrow> bool \<times> 'm"
  llama_sampler_sample :: "seq_id \<Rightarrow> nat \<Rightarrow> 'm \<Rightarrow> Token \<times> 'm"
  llama_decode :: "BatchRow list \<Rightarrow> 'm \<Rightarrow> i32 \<times> 'm"

datatype env_message =
    AdmissionReport AdmissionResult
  | OutputReport OutputPiece
  | CompletionReport Completion
  | AckReport ReleaseAck
  | FatalReport RunFatal

record 'm Environment =
  env_config :: EnvironmentConfig
  env_handoff :: Handoff
  others :: "nat \<Rightarrow> Handoff \<Rightarrow> Handoff"
  accesses :: nat
  sent :: "env_message list"
  model_state :: 'm
  synthetic_token :: "Token option"
  free_sequences :: "seq_id list"
  env_requests :: "(RequestId \<times> RequestRecord) list"
  prefix_cache :: "PrefixCacheEntry list"
  cache_clock :: u64
  env_fatal :: bool
  pending_admission :: "PendingAdmission option"

type_synonym ('m, 'a) env_op = "'m Environment \<Rightarrow> ('a \<times> 'm Environment) option"

definition cache_limit :: "'m Environment \<Rightarrow> nat" where
  "cache_limit s = unat (resolve_prefix_cache_capacity (cfg_prefix_cache_capacity (env_config s))
     (max_sequences (env_config s)))"

text \<open>\<open>config_.context_size\<close> compared with a \<open>std::size_t\<close>, and \<open>prompt.size()\<close>.\<close>
definition prompt_size :: "RequestRecord \<Rightarrow> u64" where
  "prompt_size r = of_nat (length (rr_prompt r))"

section \<open>Access to the handoff\<close>

definition access :: "(Handoff \<Rightarrow> 'a \<times> Handoff) \<Rightarrow> 'm Environment \<Rightarrow> 'a \<times> 'm Environment" where
  "access f s = (let (x, h) = f (others s (accesses s) (env_handoff s)) in
     (x, s\<lparr>env_handoff := h, accesses := Suc (accesses s)\<rparr>))"

text \<open>The loop of \<open>retry\<close>, which spins until the push succeeds.\<close>
partial_function (option) retry :: "(Handoff \<Rightarrow> bool \<times> Handoff) \<Rightarrow> 'm Environment \<Rightarrow> 'm Environment option" where
  "retry push s = (let (pushed, s') = access push s in if pushed then Some s' else retry push s')"

fun push_message :: "env_message \<Rightarrow> Handoff \<Rightarrow> bool \<times> Handoff" where
  "push_message (AdmissionReport m) = try_report_admission m"
| "push_message (OutputReport m) = try_report_output m"
| "push_message (CompletionReport m) = try_report_completion m"
| "push_message (AckReport m) = try_acknowledge_release m"
| "push_message (FatalReport m) = try_report_fatal m"

definition send :: "env_message \<Rightarrow> 'm Environment \<Rightarrow> 'm Environment option" where
  "send m s = map_option (\<lambda>s. s\<lparr>sent := sent s @ [m]\<rparr>) (retry (push_message m) s)"

definition fail_run :: "ErrorCode \<Rightarrow> 'm Environment \<Rightarrow> 'm Environment option" where
  "fail_run e s =
     (if env_fatal s then Some s
      else send (FatalReport \<lparr>fatal_error = e\<rparr>) (s\<lparr>env_fatal := True\<rparr>))"

section \<open>Text and tokens\<close>

definition int32_max :: nat where
  "int32_max = 2147483647"

definition tokenize :: "'m Llama \<Rightarrow> string \<Rightarrow> bool \<Rightarrow> bool \<Rightarrow> exn + Token list" where
  "tokenize L txt add_special parse_special =
     (if length txt > int32_max then Inr []
      else case llama_tokenize L txt 0 add_special parse_special of
        Inl e \<Rightarrow> Inl e
      | Inr (required, _) \<Rightarrow>
          if sint required = - 2147483648 \<or> sint required \<ge> 0 then Inr []
          else case llama_tokenize L txt (nat (- sint required)) add_special parse_special of
            Inl e \<Rightarrow> Inl e
          | Inr (n_tokens, tokens) \<Rightarrow>
              if sint n_tokens \<le> 0 then Inr []
              else Inr (take (nat (sint n_tokens)) (tokens @ replicate (nat (sint n_tokens) - length tokens) 0)))"

definition to_piece :: "'m Llama \<Rightarrow> Token \<Rightarrow> string option" where
  "to_piece L t =
     (let (size, buffer) = llama_token_to_piece L t 32 in
      if sint size < 0 then
        (if sint size = - 2147483648 then None
         else let (size, buffer) = llama_token_to_piece L t (nat (- sint size)) in
              if sint size < 0 then None else Some (take (nat (sint size)) buffer))
      else Some (take (nat (sint size)) buffer))"

definition choose_synthetic_token :: "'m Llama \<Rightarrow> exn + Token option" where
  "choose_synthetic_token L =
     (case tokenize L '' QuickServe benchmark'' False False of
        Inl e \<Rightarrow> Inl e
      | Inr literal \<Rightarrow>
          (case find (\<lambda>t. \<not> llama_vocab_is_eog L t) literal of
             Some t \<Rightarrow> Inr (Some t)
           | None \<Rightarrow>
               Inr (find (\<lambda>t. \<not> llama_vocab_is_eog L t \<and>
                       (case to_piece L t of None \<Rightarrow> False | Some piece \<Rightarrow> piece \<noteq> []))
                      (map of_nat [0..<nat (sint (llama_vocab_n_tokens L))]))))"

section \<open>Releases\<close>

definition release_request :: "'m Llama \<Rightarrow> Release \<Rightarrow> 'm Environment \<Rightarrow> 'm Environment option" where
  "release_request L rel s = do {
     s \<leftarrow> (case map_of (env_requests s) (rel_id rel) of
            None \<Rightarrow> Some s
          | Some r \<Rightarrow> do {
              let (removed, m) = llama_memory_seq_rm L (rr_sequence r) (model_state s);
              let s = s\<lparr>model_state := m\<rparr>;
              s \<leftarrow> (if \<not> removed then fail_run DecodeFailed s
                   else Some (s\<lparr>free_sequences := free_sequences s @ [rr_sequence r]\<rparr>));
              Some (s\<lparr>env_requests := AList.delete (rel_id rel) (env_requests s)\<rparr>)
            });
     send (AckReport \<lparr>ack_id = rel_id rel\<rparr>) s
   }"

partial_function (option) release_loop :: "'m Llama \<Rightarrow> 'm Environment \<Rightarrow> 'm Environment option" where
  "release_loop L s =
     (case access try_take_release s of
        (None, s) \<Rightarrow> Some s
      | (Some rel, s) \<Rightarrow> Option.bind (release_request L rel s) (release_loop L))"

section \<open>Admissions\<close>

text \<open>The body of the \<open>try\<close> that validates a pending admission; \<open>Inl\<close> when it throws.\<close>
definition check_admission :: "'m Llama \<Rightarrow> 'm Environment \<Rightarrow> PendingAdmission \<Rightarrow> exn + PendingAdmission" where
  "check_admission L s p =
     (let a = pa_admission p;
          fits = (\<lambda>p. if pa_error p = NoError \<and>
              of_nat (length (pa_prompt p)) + u64_of_u32 (adm_max_output_tokens a) >
                u64_of_u32 (context_size (env_config s))
            then p\<lparr>pa_error := ContextCapacityExceeded\<rparr> else p);
          finish = (\<lambda>p. Inr ((fits p)\<lparr>pa_validated := True\<rparr>)) in
      if map_of (env_requests s) (adm_id a) \<noteq> None then finish (p\<lparr>pa_error := ProtocolViolation\<rparr>)
      else case adm_synthetic_prompt_tokens a of
        Some n_tokens \<Rightarrow>
          (case synthetic_token s of
             None \<Rightarrow> finish (p\<lparr>pa_error := TokenizationFailed\<rparr>)
           | Some t \<Rightarrow>
               if n_tokens = 0 then finish (p\<lparr>pa_error := TokenizationFailed\<rparr>)
               else if validate_synthetic_workload n_tokens (adm_max_output_tokens a)
                   (context_size (env_config s)) \<noteq> NoError
               then finish (p\<lparr>pa_error := ContextCapacityExceeded\<rparr>)
               else finish (p\<lparr>pa_prompt := replicate (unat n_tokens) t\<rparr>))
      | None \<Rightarrow>
          (case tokenize L (adm_prompt a) True True of
             Inl e \<Rightarrow> Inl e
           | Inr tokens \<Rightarrow>
               finish (if tokens = [] then p\<lparr>pa_prompt := tokens, pa_error := TokenizationFailed\<rparr>
                       else p\<lparr>pa_prompt := tokens\<rparr>)))"

definition validate_admission ::
  "'m Llama \<Rightarrow> PendingAdmission \<Rightarrow> ('m, PendingAdmission) env_op" where
  "validate_admission L p s =
     (if env_fatal s \<or> pa_validated p then Some (p, s)
      else case check_admission L s p of
        Inr p' \<Rightarrow> Some (p', s)
      | Inl e \<Rightarrow> do {
          s \<leftarrow> fail_run EnvironmentStopped s;
          Some (p\<lparr>pa_error := EnvironmentStopped, pa_validated := True\<rparr>, s)
        })"

text \<open>Restoring a cached prefix into the sequence of a new request.\<close>
definition reuse_prefix :: "'m Llama \<Rightarrow> RequestRecord \<Rightarrow> ('m, RequestRecord \<times> ErrorCode) env_op" where
  "reuse_prefix L r s =
     (if \<not> rr_cacheable r then Some ((r, NoError), s)
      else case find_longest_full_prefix (prefix_cache s) (rr_prompt r) of
        None \<Rightarrow> Some ((r, NoError), s)
      | Some i \<Rightarrow>
          (let entry = prefix_cache s ! i;
               (restored, m) = llama_state_seq_set_data L (pc_state entry) (rr_sequence r) (model_state s);
               s = s\<lparr>model_state := m\<rparr> in
           if restored \<noteq> 0
           then Some ((r\<lparr>rr_prefill_position := of_nat (length (pc_tokens entry))\<rparr>, NoError),
                  s\<lparr>cache_clock := cache_clock s + 1,
                    prefix_cache := (prefix_cache s)[i := entry\<lparr>pc_last_used := cache_clock s + 1\<rparr>]\<rparr>)
           else
             (let (removed, m) = llama_memory_seq_rm L (rr_sequence r) (model_state s);
                  s = s\<lparr>model_state := m\<rparr> in
              if removed then Some ((r, NoError), s)
              else do { s \<leftarrow> fail_run DecodeFailed s; Some ((r, DecodeFailed), s) })))"

text \<open>From the sampler on: the request takes the last free sequence.\<close>
definition start_request :: "'m Llama \<Rightarrow> PendingAdmission \<Rightarrow> ('m, AdmissionResult) env_op" where
  "start_request L p s =
     (let a = pa_admission p;
          result = \<lparr>ar_id = adm_id a, ar_prompt_tokens = 0, ar_error = NoError, ar_cached_prefix_tokens = 0\<rparr>;
          (created, m) = llama_sampler_init_greedy L (model_state s);
          s = s\<lparr>model_state := m\<rparr> in
      if \<not> created then Some (result\<lparr>ar_error := SamplingFailed\<rparr>, s)
      else do {
        let r = \<lparr>rr_prompt = pa_prompt p, rr_prefill_position = 0, rr_decoded_tokens = 0,
                 rr_last_token = 0, rr_sequence = last (free_sequences s),
                 rr_output_mode = adm_output_mode a,
                 rr_cacheable = (adm_synthetic_prompt_tokens a = None),
                 rr_conversation_id = adm_conversation_id a\<rparr>;
        ((r, error), s) \<leftarrow> reuse_prefix L r (s\<lparr>free_sequences := butlast (free_sequences s)\<rparr>);
        let result = result\<lparr>ar_prompt_tokens := of_nat (length (rr_prompt r)), ar_error := error,
                       ar_cached_prefix_tokens := rr_prefill_position r\<rparr>;
        Some (result,
          if error = NoError then s\<lparr>env_requests := env_requests s @ [(adm_id a, r)]\<rparr>
          else s\<lparr>free_sequences := free_sequences s @ [rr_sequence r]\<rparr>)
      })"

text \<open>One pass for the pending admission; \<open>False\<close> is the \<open>break\<close> that keeps it pending.\<close>
definition admit_pending :: "'m Llama \<Rightarrow> PendingAdmission \<Rightarrow> ('m, bool) env_op" where
  "admit_pending L p s = do {
     (p, s) \<leftarrow> validate_admission L p s;
     let s = s\<lparr>pending_admission := Some p\<rparr>;
     let error = (if env_fatal s then EnvironmentStopped else pa_error p);
     if error = NoError \<and> free_sequences s = [] then Some (False, s)
     else do {
       (result, s) \<leftarrow>
         (if error = NoError then start_request L p s
          else Some (\<lparr>ar_id = adm_id (pa_admission p), ar_prompt_tokens = 0, ar_error = error,
                      ar_cached_prefix_tokens = 0\<rparr>, s));
       s \<leftarrow> send (AdmissionReport result) s;
       Some (True, s\<lparr>pending_admission := None\<rparr>)
     }
   }"

partial_function (option) admission_loop :: "'m Llama \<Rightarrow> 'm Environment \<Rightarrow> 'm Environment option" where
  "admission_loop L s =
     (case pending_admission s of
        Some p \<Rightarrow>
          Option.bind (admit_pending L p s) (\<lambda>(again, s). if again then admission_loop L s else Some s)
      | None \<Rightarrow>
          (case access try_take_admission s of
             (None, s) \<Rightarrow> Some s
           | (Some a, s) \<Rightarrow>
               Option.bind (admit_pending L \<lparr>pa_admission = a, pa_prompt = [], pa_error = NoError, pa_validated = False\<rparr> s)
                 (\<lambda>(again, s). if again then admission_loop L s else Some s)))"

end
