(* ===== verification/Environment_Run.thy ===== *)
theory Environment_Run
  imports Environment
begin

text \<open>
  The second half of \<open>src/runtime/environment.cpp\<close>: plans, the iteration, start-up.

  \<open>llama_batch\<close> is the list of its filled rows. Writing a row past the allocated capacity or
  reading past the end of the prompt would be undefined; the model reports it as
  \<open>Outside_buffer\<close>, which theory \<open>Environment_Plans\<close> shows never to happen. The consumed plan is
  read once: nobody else writes it while the environment holds it (\<open>held_plan_stable\<close>).
\<close>

section \<open>Building the batch\<close>

datatype plan_check =
    Invalid_plan
  | Outside_buffer
  | Batch "BatchRow list" "(WorkItem \<times> nat option) list"

text \<open>The checks of one item, in their order; \<open>seen\<close> are the ids of the items before it.\<close>
definition check_item ::
  "u32 \<Rightarrow> (RequestId \<times> RequestRecord) list \<Rightarrow> RequestId list \<Rightarrow> nat \<Rightarrow> WorkItem \<Rightarrow> RequestRecord option" where
  "check_item capacity reqs seen n w =
     (case map_of reqs (work_id w) of
        None \<Rightarrow> None
      | Some r \<Rightarrow>
          if work_id w \<in> set seen \<or> token_begin w \<ge> token_end w \<or>
             of_nat n + u64_of_u32 (token_count w) > u64_of_u32 capacity
          then None
          else
            (let prefill = (work_kind w = Prefill) in
             if (prefill \<and> (token_begin w \<noteq> rr_prefill_position r \<or>
                            u64_of_u32 (token_end w) > prompt_size r)) \<or>
                (\<not> prefill \<and> (work_kind w \<noteq> Decode \<or> rr_decoded_tokens r = 0 \<or>
                   u64_of_u32 (token_begin w) \<noteq> prompt_size r + u64_of_u32 (rr_decoded_tokens r) - 1 \<or>
                   token_end w \<noteq> token_begin w + 1))
             then None else Some r))"

text \<open>The loop over the positions of an item.\<close>
fun fill_rows :: "nat \<Rightarrow> RequestRecord \<Rightarrow> bool \<Rightarrow> nat list \<Rightarrow> BatchRow list \<Rightarrow> BatchRow list option" where
  "fill_rows capacity r prefill [] rows = Some rows"
| "fill_rows capacity r prefill (pos # ps) rows =
     (if length rows \<ge> capacity \<or> (prefill \<and> pos \<ge> length (rr_prompt r)) then None
      else fill_rows capacity r prefill ps
        (rows @ [\<lparr>row_token = (if prefill then rr_prompt r ! pos else rr_last_token r),
                  row_pos = of_nat pos, row_seq = rr_sequence r, row_logits = False\<rparr>]))"

fun build_batch ::
  "u32 \<Rightarrow> (RequestId \<times> RequestRecord) list \<Rightarrow> RequestId list \<Rightarrow> BatchRow list \<Rightarrow>
   (WorkItem \<times> nat option) list \<Rightarrow> WorkItem list \<Rightarrow> plan_check" where
  "build_batch capacity reqs seen rows items [] = Batch rows items"
| "build_batch capacity reqs seen rows items (w # ws) =
     (case check_item capacity reqs seen (length rows) w of
        None \<Rightarrow> Invalid_plan
      | Some r \<Rightarrow>
          (case fill_rows (unat capacity) r (work_kind w = Prefill)
                  [unat (token_begin w)..<unat (token_end w)] rows of
             None \<Rightarrow> Outside_buffer
           | Some rows \<Rightarrow>
               (let wants_logits = (work_kind w \<noteq> Prefill \<or> u64_of_u32 (token_end w) = prompt_size r);
                    row = length rows - 1 in
                build_batch capacity reqs (work_id w # seen)
                  (rows[row := (rows ! row)\<lparr>row_logits := wants_logits\<rparr>])
                  (items @ [(w, if wants_logits then Some row else None)]) ws)))"

section \<open>Reporting the results\<close>

definition remember_prefix :: "'m Llama \<Rightarrow> RequestRecord \<Rightarrow> 'm Environment \<Rightarrow> 'm Environment option" where
  "remember_prefix L r s =
     (if \<not> rr_cacheable r \<or> rr_prompt r = [] then Some s
      else
        (let size = llama_state_seq_get_size L (rr_sequence r) (model_state s) in
         if size = 0 then Some s
         else
           (let (written, buffer) = llama_state_seq_get_data L size (rr_sequence r) (model_state s) in
            if written = 0 \<or> written > size then Some s
            else map_option
              (\<lambda>es. s\<lparr>prefix_cache := es, cache_clock := cache_clock s + 1\<rparr>)
              (retain_conversation_prefix (prefix_cache s)
                 \<lparr>pc_tokens = rr_prompt r, pc_state = take written buffer,
                  pc_last_used = cache_clock s + 1, pc_conversation_id = rr_conversation_id r\<rparr>
                 (cache_limit s)))))"

definition update_record :: "RequestId \<Rightarrow> (RequestRecord \<Rightarrow> RequestRecord) \<Rightarrow> 'm Environment \<Rightarrow> 'm Environment" where
  "update_record i f s = s\<lparr>env_requests := AList.map_entry i f (env_requests s)\<rparr>"

definition record_of :: "RequestId \<Rightarrow> 'm Environment \<Rightarrow> RequestRecord" where
  "record_of i s = the (map_of (env_requests s) i)"

definition finish_prefill :: "'m Llama \<Rightarrow> WorkItem \<Rightarrow> 'm Environment \<Rightarrow> 'm Environment option" where
  "finish_prefill L w s =
     (if work_kind w = Prefill then
        (let s = update_record (work_id w) (\<lambda>r. r\<lparr>rr_prefill_position := token_end w\<rparr>) s;
             r = record_of (work_id w) s in
         if u64_of_u32 (token_end w) = prompt_size r then remember_prefix L r s else Some s)
      else Some s)"

definition item_completion :: "WorkItem \<Rightarrow> RequestRecord \<Rightarrow> Completion" where
  "item_completion w r =
     \<lparr>cmp_id = work_id w,
      cmp_prefill_position = (if work_kind w = Prefill then token_end w else of_nat (length (rr_prompt r))),
      cmp_decoded_tokens = rr_decoded_tokens r, cmp_token = 0, cmp_kind = work_kind w,
      cmp_error = NoError, cmp_generated_token = False, cmp_eos = False\<rparr>"

text \<open>One iteration of the reporting loop; \<open>False\<close> is \<open>break\<close>.\<close>
definition report_item :: "'m Llama \<Rightarrow> WorkItem \<times> nat option \<Rightarrow> ('m, bool) env_op" where
  "report_item L item s = do {
     let (w, row) = item;
     s \<leftarrow> finish_prefill L w s;
     let c = item_completion w (record_of (work_id w) s);
     case row of
       None \<Rightarrow> do { s \<leftarrow> send (CompletionReport c) s; Some (True, s) }
     | Some i \<Rightarrow> do {
         let (t, m) = llama_sampler_sample L (rr_sequence (record_of (work_id w) s)) i (model_state s);
         let s = s\<lparr>model_state := m\<rparr>;
         if sint t < 0 then do { s \<leftarrow> fail_run SamplingFailed s; Some (False, s) }
         else do {
           let s = update_record (work_id w)
                     (\<lambda>r. r\<lparr>rr_last_token := t, rr_decoded_tokens := rr_decoded_tokens r + 1\<rparr>) s;
           let eos = llama_vocab_is_eog L t;
           let c = c\<lparr>cmp_decoded_tokens := rr_decoded_tokens (record_of (work_id w) s), cmp_token := t,
                     cmp_generated_token := True, cmp_eos := eos\<rparr>;
           if eos then do { s \<leftarrow> send (CompletionReport c) s; Some (True, s) }
           else case to_piece L t of
             None \<Rightarrow> do { s \<leftarrow> fail_run SamplingFailed s; Some (False, s) }
           | Some piece \<Rightarrow> do {
               s \<leftarrow> send (OutputReport \<lparr>op_id = work_id w, op_token = t, op_text = piece\<rparr>) s;
               s \<leftarrow> send (CompletionReport c) s;
               Some (True, s)
             }
         }
       }
   }"

fun report_items :: "'m Llama \<Rightarrow> (WorkItem \<times> nat option) list \<Rightarrow> 'm Environment \<Rightarrow> 'm Environment option" where
  "report_items L [] s = Some s"
| "report_items L (item # rest) s =
     Option.bind (report_item L item s) (\<lambda>(go_on, s). if go_on then report_items L rest s else Some s)"

section \<open>The iteration\<close>

definition execute_plan :: "'m Llama \<Rightarrow> WorkItem list \<Rightarrow> 'm Environment \<Rightarrow> 'm Environment option" where
  "execute_plan L ws s =
     (case build_batch (batch_capacity (env_config s)) (env_requests s) [] [] [] ws of
        Invalid_plan \<Rightarrow> fail_run ProtocolViolation s
      | Outside_buffer \<Rightarrow> None
      | Batch rows items \<Rightarrow>
          if rows = [] then fail_run ProtocolViolation s
          else
            (let (status, m) = llama_decode L rows (model_state s);
                 s = s\<lparr>model_state := m\<rparr> in
             if status \<noteq> 0 then fail_run DecodeFailed s
             else report_items L items s))"

text \<open>The plan is retired at the end of its scope, also on the early exits.\<close>
definition run_plan :: "'m Llama \<Rightarrow> 'm Environment \<Rightarrow> 'm Environment option" where
  "run_plan L s =
     (if env_fatal s then Some s
      else case access consume_plan s of
        (None, s) \<Rightarrow> Some s
      | (Some p, s) \<Rightarrow> do {
          s \<leftarrow> execute_plan L (plan_work (pool (env_handoff s) ! p)) s;
          Some (snd (access (\<lambda>h. ((), retire_plan p h)) s))
        })"

definition env_iteration :: "'m Llama \<Rightarrow> 'm Environment \<Rightarrow> 'm Environment option" where
  "env_iteration L s = do {
     s \<leftarrow> release_loop L s;
     s \<leftarrow> admission_loop L s;
     run_plan L s
   }"

partial_function (option) env_loop :: "'m Llama \<Rightarrow> 'm Environment \<Rightarrow> 'm Environment option" where
  "env_loop L s =
     (let (stop, s) = access (\<lambda>h. (handoff_stop_requested h, h)) s in
      if stop then Some s else Option.bind (env_iteration L s) (env_loop L))"

section \<open>Start-up\<close>

text \<open>
  What loading the model gave: whether each object could be created, and the profile computed
  from the model's metadata.
\<close>
record 'profile LlamaStartup =
  model_loaded :: bool
  loaded_profile :: "'profile option"
  context_created :: bool
  vocab_present :: bool
  batch_allocated :: bool

definition valid_config :: "EnvironmentConfig \<Rightarrow> bool" where
  "valid_config c \<longleftrightarrow>
     \<not> (model_path c = [] \<or> context_size c = 0 \<or> batch_capacity c = 0 \<or> max_sequences c = 0 \<or>
        context_size c > 0x7FFFFFFF \<or> batch_capacity c > 0x7FFFFFFF \<or> max_sequences c > 0x7FFFFFFF \<or>
        u64_of_u32 (context_size c) * u64_of_u32 (max_sequences c) > u64_of_u32 u32_max)"

text \<open>\<open>params.n_ctx\<close>: the context holds every sequence at its full length.\<close>
definition total_context :: "EnvironmentConfig \<Rightarrow> u32" where
  "total_context c = context_size c * max_sequences c"

text \<open>The free sequences, the lowest on top.\<close>
definition initial_sequences :: "u32 \<Rightarrow> seq_id list" where
  "initial_sequences n = map of_nat (rev [0..<unat n])"

text \<open>The two \<open>catch\<close> clauses: only standard exceptions have a message.\<close>
fun startup_failure :: "exn \<Rightarrow> string" where
  "startup_failure (Invalid_argument m) = m"
| "startup_failure (Logic_error m) = m"
| "startup_failure (Overflow_error m) = m"
| "startup_failure (Out_of_range m) = m"
| "startup_failure (Runtime_error m) = m"
| "startup_failure (External_exception m) = ''environment initialization failed''"

definition startup ::
  "'m Llama \<Rightarrow> 'profile LlamaStartup \<Rightarrow> (nat \<Rightarrow> Handoff \<Rightarrow> Handoff) \<Rightarrow> Handoff \<Rightarrow> EnvironmentConfig \<Rightarrow> 'm \<Rightarrow>
   string + 'profile \<times> 'm Environment" where
  "startup L u oth h c m =
     (if \<not> valid_config c then Inl ''invalid environment configuration''
      else if \<not> model_loaded u then Inl ''failed to load model''
      else case loaded_profile u of
        None \<Rightarrow> Inl ''invalid model metadata''
      | Some profile \<Rightarrow>
          if \<not> context_created u then Inl ''failed to create model context''
          else if \<not> vocab_present u then Inl ''model has no vocabulary''
          else case choose_synthetic_token L of
            Inl e \<Rightarrow> Inl (startup_failure e)
          | Inr tok \<Rightarrow>
              if \<not> batch_allocated u then Inl ''failed to allocate decode batch''
              else Inr (profile,
                \<lparr>env_config = c, env_handoff = h, others = oth, accesses = 0, sent = [],
                 model_state = m, synthetic_token = tok,
                 free_sequences = initial_sequences (max_sequences c), env_requests = [],
                 prefix_cache = [], cache_clock = 0, env_fatal = False, pending_admission = None\<rparr>))"

end
