(* ===== verification/Environment_Inv.thy ===== *)
theory Environment_Inv
  imports Environment_Run
begin

text \<open>
  The invariant of the environment: who owns which sequence, the bounds of the records and the
  cache, and what has been reported. Every operation keeps it, whatever the scheduler does to
  the handoff and whatever the model answers.
\<close>

section \<open>Rules for operations that may not return\<close>

definition holds_after :: "('a \<Rightarrow> bool) \<Rightarrow> 'a option \<Rightarrow> bool" where
  "holds_after Q x \<longleftrightarrow> (\<forall>y. x = Some y \<longrightarrow> Q y)"

named_theorems after_intros \<open>rules for \<open>holds_after\<close>\<close>

lemma after_Some [after_intros]: "Q x \<Longrightarrow> holds_after Q (Some x)"
  by (simp add: holds_after_def)

lemma after_None [after_intros]: "holds_after Q None"
  by (simp add: holds_after_def)

lemma after_bind [after_intros]:
  assumes "holds_after R m" and "\<And>x. R x \<Longrightarrow> holds_after Q (k x)"
  shows "holds_after Q (Option.bind m k)"
  using assms by (cases m) (auto simp: holds_after_def)

lemma after_weaken: "holds_after R m \<Longrightarrow> (\<And>x. R x \<Longrightarrow> Q x) \<Longrightarrow> holds_after Q m"
  by (auto simp: holds_after_def)

lemma afterD: "holds_after Q m \<Longrightarrow> m = Some x \<Longrightarrow> Q x"
  by (simp add: holds_after_def)

lemma after_conj: "holds_after P m \<Longrightarrow> holds_after Q m \<Longrightarrow> holds_after (\<lambda>x. P x \<and> Q x) m"
  by (simp add: holds_after_def)

text \<open>A fact about the state that a change of the handoff alone cannot affect.\<close>
definition handoff_free :: "('m Environment \<Rightarrow> bool) \<Rightarrow> bool" where
  "handoff_free P \<longleftrightarrow> (\<forall>s h n. P (s\<lparr>env_handoff := h, accesses := n\<rparr>) = P s)"

lemma access_state: "\<exists>h n. snd (access f s) = s\<lparr>env_handoff := h, accesses := n\<rparr>"
  by (auto simp: access_def split: prod.splits)

lemma access_free: "handoff_free P \<Longrightarrow> access f s = (x, s') \<Longrightarrow> P s' = P s"
  using access_state [of f s] by (auto simp: handoff_free_def)

lemma retry_state: "retry push s = Some s' \<Longrightarrow> \<exists>h n. s' = s\<lparr>env_handoff := h, accesses := n\<rparr>"
proof (induction rule: retry.raw_induct [rotated, consumes 1])
  case (1 retry push s s')
  obtain b t where a: "access push s = (b, t)" by (metis surj_pair)
  obtain h n where t: "t = s\<lparr>env_handoff := h, accesses := n\<rparr>" using access_state [of push s] a by auto
  show ?case
  proof (cases b)
    case True
    then have "s' = t" using 1(2) a by simp
    then show ?thesis using t by blast
  next
    case False
    then have "retry push t = Some s'" using 1(2) a by simp
    from 1(1) [OF this] obtain h' n' where "s' = t\<lparr>env_handoff := h', accesses := n'\<rparr>" by blast
    then have "s' = s\<lparr>env_handoff := h', accesses := n'\<rparr>" using t by simp
    then show ?thesis by blast
  qed
qed

lemma send_state:
  assumes "send m s = Some s'"
  shows "\<exists>h n. s' = s\<lparr>env_handoff := h, accesses := n, sent := sent s @ [m]\<rparr>"
proof -
  obtain t where t: "retry (push_message m) s = Some t" "s' = t\<lparr>sent := sent t @ [m]\<rparr>"
    using assms by (auto simp: send_def)
  from retry_state [OF t(1)] obtain h n where "t = s\<lparr>env_handoff := h, accesses := n\<rparr>" by blast
  then have "s' = s\<lparr>env_handoff := h, accesses := n, sent := sent s @ [m]\<rparr>" using t(2) by simp
  then show ?thesis by blast
qed

section \<open>The invariant\<close>

text \<open>After a fatal report nothing succeeds any more.\<close>
fun quiet :: "env_message \<Rightarrow> bool" where
  "quiet (AdmissionReport m) \<longleftrightarrow> ar_error m \<noteq> NoError"
| "quiet (AckReport m) \<longleftrightarrow> True"
| "quiet _ \<longleftrightarrow> False"

fun is_fatal :: "env_message \<Rightarrow> bool" where
  "is_fatal (FatalReport m) \<longleftrightarrow> True"
| "is_fatal _ \<longleftrightarrow> False"

fun quiet_after :: "bool \<Rightarrow> env_message list \<Rightarrow> bool" where
  "quiet_after f [] \<longleftrightarrow> True"
| "quiet_after f (m # ms) \<longleftrightarrow> (f \<longrightarrow> quiet m) \<and> quiet_after (f \<or> is_fatal m) ms"

lemma quiet_after_append:
  "quiet_after f (xs @ ys) \<longleftrightarrow> quiet_after f xs \<and> quiet_after (f \<or> list_ex is_fatal xs) ys"
  by (induction xs arbitrary: f) (auto simp: disj_assoc)

text \<open>What an admission report promises to the scheduler.\<close>
fun report_ok :: "EnvironmentConfig \<Rightarrow> env_message \<Rightarrow> bool" where
  "report_ok c (AdmissionReport m) \<longleftrightarrow>
     (ar_error m = NoError \<longrightarrow> 0 < unat (ar_prompt_tokens m) \<and>
        unat (ar_cached_prefix_tokens m) \<le> unat (ar_prompt_tokens m) \<and>
        unat (ar_prompt_tokens m) \<le> unat (context_size c))"
| "report_ok c _ \<longleftrightarrow> True"

definition record_ok :: "EnvironmentConfig \<Rightarrow> RequestRecord \<Rightarrow> bool" where
  "record_ok c r \<longleftrightarrow> rr_prompt r \<noteq> [] \<and> length (rr_prompt r) \<le> unat (context_size c) \<and>
     unat (rr_prefill_position r) \<le> length (rr_prompt r)"

definition sequences :: "'m Environment \<Rightarrow> seq_id list" where
  "sequences s = free_sequences s @ map (\<lambda>(i, r). rr_sequence r) (env_requests s)"

definition env_inv :: "'m Environment \<Rightarrow> bool" where
  "env_inv s \<longleftrightarrow>
     distinct (sequences s) \<and> (\<forall>q \<in> set (sequences s). unat q < unat (max_sequences (env_config s))) \<and>
     distinct (map fst (env_requests s)) \<and> (\<forall>(i, r) \<in> set (env_requests s). record_ok (env_config s) r) \<and>
     0 < cache_limit s \<and> length (prefix_cache s) \<le> cache_limit s \<and>
     list_all (report_ok (env_config s)) (sent s) \<and>
     length (filter is_fatal (sent s)) = (if env_fatal s then 1 else 0) \<and> quiet_after False (sent s)"

text \<open>A pending admission that passed validation can be started.\<close>
definition pending_ok :: "'m Environment \<Rightarrow> PendingAdmission \<Rightarrow> bool" where
  "pending_ok s p \<longleftrightarrow> (if pa_validated p then
     pa_error p = NoError \<longrightarrow> pa_prompt p \<noteq> [] \<and>
       length (pa_prompt p) + unat (adm_max_output_tokens (pa_admission p)) \<le> unat (context_size (env_config s)) \<and>
       map_of (env_requests s) (adm_id (pa_admission p)) = None
     else pa_error p = NoError \<and> pa_prompt p = [])"

definition env_ok :: "'m Environment \<Rightarrow> bool" where
  "env_ok s \<longleftrightarrow> env_inv s \<and> (case pending_admission s of None \<Rightarrow> True | Some p \<Rightarrow> pending_ok s p)"

lemmas env_defs = env_inv_def sequences_def cache_limit_def

lemma env_inv_free: "handoff_free env_inv"
  by (simp add: handoff_free_def env_defs)

lemma env_ok_free: "handoff_free env_ok"
  by (simp add: handoff_free_def env_ok_def env_defs pending_ok_def cong: option.case_cong)

text \<open>What is not touched by sending and failing.\<close>
definition core :: "'m Environment \<Rightarrow> _" where
  "core s = (env_config s, env_requests s, free_sequences s, prefix_cache s, cache_clock s,
     pending_admission s, synthetic_token s)"

definition env_frame :: "'m Environment \<Rightarrow> 'm Environment \<Rightarrow> bool" where
  "env_frame s s' \<longleftrightarrow> core s' = core s \<and> model_state s' = model_state s \<and> others s' = others s"

lemma env_frameD:
  assumes "env_frame s s'"
  shows "env_config s' = env_config s" "env_requests s' = env_requests s" "free_sequences s' = free_sequences s"
    "prefix_cache s' = prefix_cache s" "cache_clock s' = cache_clock s"
    "pending_admission s' = pending_admission s" "synthetic_token s' = synthetic_token s"
    "model_state s' = model_state s" "others s' = others s" "sequences s' = sequences s" "cache_limit s' = cache_limit s"
  using assms by (simp_all add: env_frame_def core_def sequences_def cache_limit_def)

lemma env_frame_access: "access f s = (x, s') \<Longrightarrow> env_frame s s' \<and> sent s' = sent s \<and> env_fatal s' = env_fatal s"
  using access_state [of f s] by (auto simp: env_frame_def core_def)

lemma after_send:
  assumes "env_inv s" and "report_ok (env_config s) m" and "\<not> is_fatal m" and "env_fatal s \<Longrightarrow> quiet m"
  shows "holds_after (\<lambda>s'. env_inv s' \<and> env_frame s s' \<and> env_fatal s' = env_fatal s \<and> sent s' = sent s @ [m]) (send m s)"
proof -
  have f: "list_ex is_fatal (sent s) = env_fatal s"
    using assms(1) by (cases "filter is_fatal (sent s)")
      (auto simp: env_inv_def list_ex_iff filter_empty_conv filter_eq_Cons_iff split: if_splits)
  have "env_inv (s\<lparr>env_handoff := h, accesses := n, sent := sent s @ [m]\<rparr>)" for h n
    using assms f by (auto simp: env_defs quiet_after_append)
  then show ?thesis by (auto simp: holds_after_def env_frame_def core_def dest!: send_state)
qed

lemma after_fail_run [after_intros]:
  assumes "env_inv s"
  shows "holds_after (\<lambda>s'. env_inv s' \<and> env_frame s s' \<and> env_fatal s') (fail_run e s)"
proof (cases "env_fatal s")
  case True
  then show ?thesis using assms by (simp add: fail_run_def holds_after_def env_frame_def)
next
  case False
  then have none: "filter is_fatal (sent s) = []" using assms by (simp add: env_inv_def)
  then have "\<not> list_ex is_fatal (sent s)" by (auto simp: list_ex_iff filter_empty_conv)
  then have "env_inv (s\<lparr>env_fatal := True, env_handoff := h, accesses := n, sent := sent s @ [FatalReport \<lparr>fatal_error = e\<rparr>]\<rparr>)" for h n
    using assms none by (auto simp: env_defs quiet_after_append)
  then show ?thesis using False by (auto simp: fail_run_def holds_after_def env_frame_def core_def dest!: send_state)
qed

end
