(* ===== verification/Environment_Keep.thy ===== *)
theory Environment_Keep
  imports Environment_Inv
begin

text \<open>Every operation of the environment keeps its invariant.\<close>

section \<open>Sequences\<close>

lemma env_inv_model [simp]: "env_inv (s\<lparr>model_state := m\<rparr>) = env_inv s"
  by (simp add: env_defs)

lemma pending_ok_model [simp]: "pending_ok (s\<lparr>model_state := m\<rparr>) p = pending_ok s p"
  by (simp add: pending_ok_def)

lemma env_inv_pending [simp]: "env_inv (s\<lparr>pending_admission := q\<rparr>) = env_inv s"
  by (simp add: env_defs)

lemma pending_ok_cong:
  "env_config s' = env_config s \<Longrightarrow> env_requests s' = env_requests s \<Longrightarrow> pending_ok s' p = pending_ok s p"
  by (simp add: pending_ok_def)

lemma mset_delete:
  assumes "map_of al k = Some v" "distinct (map fst al)"
  shows "mset (map g al) = add_mset (g (k, v)) (mset (map g (AList.delete k al)))"
  using assms
proof (induction al)
  case (Cons x al)
  show ?case
  proof (cases "fst x = k")
    case True
    then have "k \<notin> fst ` set al" using Cons.prems by auto
    then have "AList.delete k al = al" by (simp add: delete_id)
    then show ?thesis using True Cons.prems by (cases x) simp
  next
    case False
    then show ?thesis using Cons by (cases x) auto
  qed
qed simp

lemma env_inv_set:
  assumes "env_inv s" and "distinct (free @ map (\<lambda>(i, r). rr_sequence r) reqs)"
    and "\<forall>q \<in> set (free @ map (\<lambda>(i, r). rr_sequence r) reqs). unat q < unat (max_sequences (env_config s))"
    and "distinct (map fst reqs)" and "\<forall>(i, r) \<in> set reqs. record_ok (env_config s) r"
  shows "env_inv (s\<lparr>free_sequences := free, env_requests := reqs\<rparr>)"
proof -
  have "sequences (s\<lparr>free_sequences := free, env_requests := reqs\<rparr>) = free @ map (\<lambda>(i, r). rr_sequence r) reqs"
    "cache_limit (s\<lparr>free_sequences := free, env_requests := reqs\<rparr>) = cache_limit s"
    by (simp_all add: sequences_def cache_limit_def)
  then show ?thesis using assms by (simp add: env_inv_def)
qed

text \<open>The sequences of \<open>s\<close> may be redistributed, or some of them dropped.\<close>
lemma env_inv_move:
  assumes "env_inv s" "env_inv u" "env_config u = env_config s"
    and "mset (free @ map (\<lambda>(i, r). rr_sequence r) reqs) \<subseteq># mset (sequences s)"
    and "distinct (map fst reqs)" and "\<forall>(i, r) \<in> set reqs. record_ok (env_config s) r"
  shows "env_inv (u\<lparr>free_sequences := free, env_requests := reqs\<rparr>)"
proof (rule env_inv_set [OF assms(2)])
  show "distinct (free @ map (\<lambda>(i, r). rr_sequence r) reqs)"
    using assms(1) by (intro distinct_submset [OF assms(4)]) (simp add: env_inv_def)
  have "set (free @ map (\<lambda>(i, r). rr_sequence r) reqs) \<subseteq> set (sequences s)"
    using assms(4) by (metis mset_subset_eqD set_mset_mset subsetI)
  then show "\<forall>q \<in> set (free @ map (\<lambda>(i, r). rr_sequence r) reqs). unat q < unat (max_sequences (env_config u))"
    using assms(1,3) unfolding env_inv_def by (simp only:) blast
qed (use assms in simp_all)

lemma record_at: "env_inv s \<Longrightarrow> map_of (env_requests s) i = Some r \<Longrightarrow> record_ok (env_config s) r"
  by (auto simp: env_inv_def dest!: map_of_SomeD)

lemma delete_facts:
  assumes "env_inv s"
  shows "distinct (map fst (AList.delete i (env_requests s)))"
    "\<forall>(j, r) \<in> set (AList.delete i (env_requests s)). record_ok (env_config s) r"
    "mset (map g (AList.delete i (env_requests s))) \<subseteq># mset (map g (env_requests s))"
proof -
  show "distinct (map fst (AList.delete i (env_requests s)))" using assms by (simp add: env_inv_def distinct_delete)
  show "\<forall>(j, r) \<in> set (AList.delete i (env_requests s)). record_ok (env_config s) r"
    using assms by (auto simp: env_inv_def AList.delete_eq)
  show "mset (map g (AList.delete i (env_requests s))) \<subseteq># mset (map g (env_requests s))"
    by (simp add: AList.delete_eq multiset_filter_subset image_mset_subseteq_mono)
qed

section \<open>Releases\<close>

definition same_pending :: "'m Environment \<Rightarrow> 'm Environment \<Rightarrow> bool" where
  "same_pending s s' \<longleftrightarrow> pending_admission s' = pending_admission s \<and> env_config s' = env_config s \<and>
     (\<forall>i. map_of (env_requests s) i = None \<longrightarrow> map_of (env_requests s') i = None)"

lemma env_ok_same: "env_ok s \<Longrightarrow> env_inv s' \<Longrightarrow> same_pending s s' \<Longrightarrow> env_ok s'"
  by (auto simp: env_ok_def same_pending_def pending_ok_def split: option.splits)

lemma env_inv_release:
  assumes inv: "env_inv s" and r: "map_of (env_requests s) i = Some r"
  shows "env_inv (s\<lparr>free_sequences := free_sequences s @ [rr_sequence r], env_requests := AList.delete i (env_requests s)\<rparr>)"
    "env_inv (s\<lparr>env_requests := AList.delete i (env_requests s)\<rparr>)"
proof -
  let ?g = "\<lambda>(i, r). rr_sequence r"
  have d: "distinct (map fst (env_requests s))" using inv by (simp add: env_inv_def)
  have m: "mset (map ?g (env_requests s)) = add_mset (rr_sequence r) (mset (map ?g (AList.delete i (env_requests s))))"
    using mset_delete [OF r d, of ?g] by simp
  show "env_inv (s\<lparr>free_sequences := free_sequences s @ [rr_sequence r], env_requests := AList.delete i (env_requests s)\<rparr>)"
    by (rule env_inv_move [OF inv inv refl]) (use m delete_facts [OF inv] in \<open>simp_all add: sequences_def\<close>)
  have "env_inv (s\<lparr>free_sequences := free_sequences s, env_requests := AList.delete i (env_requests s)\<rparr>)"
    by (rule env_inv_move [OF inv inv refl]) (use delete_facts [OF inv] in \<open>simp_all add: sequences_def\<close>)
  then show "env_inv (s\<lparr>env_requests := AList.delete i (env_requests s)\<rparr>)" by simp
qed

lemma after_release_request:
  assumes inv: "env_inv s"
  shows "holds_after (\<lambda>s'. env_inv s' \<and> same_pending s s') (release_request L rel s)"
proof -
  have ack: "holds_after (\<lambda>s'. env_inv s' \<and> same_pending s s') (send (AckReport a) t)"
    if "env_inv t" "same_pending s t" for t a
    by (rule after_weaken [OF after_send [OF that(1)]])
      (use that in \<open>auto simp: same_pending_def dest: env_frameD(1,2,6)\<close>)
  show ?thesis
  proof (cases "map_of (env_requests s) (rel_id rel)")
    case None
    then show ?thesis using ack [OF inv] by (simp add: release_request_def same_pending_def)
  next
    case (Some r)
    obtain removed m where l: "llama_memory_seq_rm L (rr_sequence r) (model_state s) = (removed, m)" by (metis surj_pair)
    let ?s = "s\<lparr>model_state := m\<rparr>" and ?i = "rel_id rel"
    show ?thesis
    proof (cases removed)
      case True
      let ?t = "?s\<lparr>free_sequences := free_sequences s @ [rr_sequence r], env_requests := AList.delete ?i (env_requests s)\<rparr>"
      have "env_inv ?t" using env_inv_release(1) [of ?s ?i r] inv Some by simp
      moreover have "same_pending s ?t" by (simp add: same_pending_def delete_conv')
      ultimately show ?thesis using ack [of ?t] Some l True by (simp add: release_request_def)
    next
      case False
      have step: "release_request L rel s = do {
          s \<leftarrow> fail_run DecodeFailed ?s;
          send (AckReport \<lparr>ack_id = ?i\<rparr>) (s\<lparr>env_requests := AList.delete ?i (env_requests s)\<rparr>) }"
        using Some l False by (simp add: release_request_def)
      show ?thesis unfolding step
      proof (rule after_bind [OF after_fail_run])
        show "env_inv ?s" using inv by simp
        fix t
        assume t: "env_inv t \<and> env_frame ?s t \<and> env_fatal t"
        let ?t = "t\<lparr>env_requests := AList.delete ?i (env_requests t)\<rparr>"
        have "env_requests t = env_requests s" "env_config t = env_config s" "pending_admission t = pending_admission s"
          using env_frameD(1,2,6) [of ?s t] t by simp_all
        then have "env_inv ?t" "same_pending s ?t"
          using env_inv_release(2) [of t ?i r] t Some by (simp_all add: same_pending_def delete_conv')
        then show "holds_after (\<lambda>s'. env_inv s' \<and> same_pending s s') (send (AckReport \<lparr>ack_id = ?i\<rparr>) ?t)"
          by (rule ack)
      qed
    qed
  qed
qed

lemma after_release_loop: "env_ok s \<Longrightarrow> holds_after env_ok (release_loop L s)"
proof -
  have "release_loop L s = Some s' \<Longrightarrow> env_ok s \<Longrightarrow> env_ok s'" for s'
  proof (induction rule: release_loop.raw_induct [rotated, consumes 1])
    case (1 loop L s s')
    obtain x t where a: "access try_take_release s = (x, t)" by (metis surj_pair)
    have t: "env_ok t" using access_free [OF env_ok_free a] 1(3) by simp
    show ?case
    proof (cases x)
      case None
      then show ?thesis using 1(2) a t by simp
    next
      case (Some rel)
      obtain u where u: "release_request L rel t = Some u" "loop L u = Some s'"
        using 1(2) a Some by (auto simp: bind_eq_Some_conv)
      have "env_inv u \<and> same_pending t u"
        using afterD [OF after_release_request u(1)] t by (simp add: env_ok_def)
      then show ?thesis using 1(1) [OF u(2)] env_ok_same [OF t] by simp
    qed
  qed
  then show "env_ok s \<Longrightarrow> holds_after env_ok (release_loop L s)" by (simp add: holds_after_def)
qed

section \<open>Admissions\<close>

lemma unat_of_nat64: "n < 2 ^ 64 \<Longrightarrow> unat (of_nat n :: u64) = n"
  by (simp add: unsigned_of_nat take_bit_nat_eq_self)

lemma unat_of_nat32: "n < 2 ^ 32 \<Longrightarrow> unat (of_nat n :: u32) = n"
  by (simp add: unsigned_of_nat take_bit_nat_eq_self)

lemma sint_i32: "sint (x :: i32) < 2 ^ 31" "- (2 ^ 31) \<le> sint x"
  using sint_range_size [of x] by (auto simp: word_size)

lemma length_tokenize:
  assumes "tokenize L txt a b = Inr ts"
  shows "length ts < 2 ^ 31"
proof -
  have pad: "length (take n xs @ replicate (n - length xs) 0) = n" for n and xs :: "Token list" by simp
  have "ts = [] \<or> (\<exists>n :: i32. length ts = nat (sint n))" using assms pad
    by (fastforce simp: tokenize_def simp del: length_append length_take length_replicate split: if_splits sum.splits prod.splits)
  moreover have "nat (sint n) < 2 ^ 31" for n :: i32 using sint_i32(1) [of n] by simp
  ultimately show ?thesis by auto
qed

lemma prompt_fits:
  assumes "n < 2 ^ 32"
  shows "(of_nat n + u64_of_u32 x > u64_of_u32 y) = (n + unat x > unat y)"
proof -
  have "unat (of_nat n + u64_of_u32 x) = n + unat x"
    using assms unat_u32_lt [of x] by (subst unat_add_lt) (simp_all add: unat_of_nat64)
  then show ?thesis by (simp add: word_less_nat_alt)
qed

text \<open>The common end of \<open>check_admission\<close>.\<close>
lemma check_admission_cases:
  assumes p: "pending_ok s p" "\<not> pa_validated p" and c: "check_admission L s p = Inr q"
  shows "pending_ok s q \<and> pa_validated q \<and> pa_admission q = pa_admission p"
proof -
  let ?a = "pa_admission p"
  let ?fits = "\<lambda>p. if pa_error p = NoError \<and> of_nat (length (pa_prompt p)) + u64_of_u32 (adm_max_output_tokens ?a) >
      u64_of_u32 (context_size (env_config s)) then p\<lparr>pa_error := ContextCapacityExceeded\<rparr> else p"
  have finish: "pending_ok s ((?fits r)\<lparr>pa_validated := True\<rparr>)"
    if "pa_admission r = ?a" "length (pa_prompt r) < 2 ^ 32"
      "pa_error r = NoError \<Longrightarrow> pa_prompt r \<noteq> [] \<and> map_of (env_requests s) (adm_id ?a) = None" for r
    using that prompt_fits [OF that(2), where x = "adm_max_output_tokens ?a" and y = "context_size (env_config s)"]
    by (simp add: pending_ok_def not_less)
  have e: "pa_error p = NoError" "pa_prompt p = []" using p by (simp_all add: pending_ok_def)
  show ?thesis
  proof (cases "map_of (env_requests s) (adm_id ?a) = None")
    case False
    then show ?thesis using c e by (auto simp: check_admission_def Let_def pending_ok_def)
  next
    case new: True
    show ?thesis
    proof (cases "adm_synthetic_prompt_tokens ?a")
      case (Some n)
      then show ?thesis using c new e finish [of "p\<lparr>pa_prompt := replicate (unat n) t\<rparr>" for t] unat_u32_lt [of n]
        by (auto simp: check_admission_def Let_def pending_ok_def unat_eq_0 split: option.splits if_splits)
    next
      case None
      then obtain ts where ts: "tokenize L (adm_prompt ?a) True True = Inr ts"
        using c new by (auto simp: check_admission_def Let_def split: sum.splits)
      have "length ts < 2 ^ 32" using length_tokenize [OF ts] by simp
      then show ?thesis using c new e ts None finish [of "p\<lparr>pa_prompt := ts\<rparr>"]
        by (auto simp: check_admission_def Let_def pending_ok_def split: if_splits)
    qed
  qed
qed

lemma after_validate:
  assumes "env_inv s" "pending_ok s p"
  shows "holds_after (\<lambda>(q, t). env_inv t \<and> env_frame s t \<and> pending_ok t q \<and> pa_admission q = pa_admission p \<and>
     (pa_validated q \<or> env_fatal t)) (validate_admission L p s)"
proof (cases "env_fatal s \<or> pa_validated p")
  case True
  then show ?thesis using assms by (auto simp: validate_admission_def holds_after_def env_frame_def)
next
  case fresh: False
  show ?thesis
  proof (cases "check_admission L s p")
    case (Inr q)
    then show ?thesis using check_admission_cases [OF assms(2) _ Inr] fresh assms(1)
      by (auto simp: validate_admission_def holds_after_def env_frame_def)
  next
    case (Inl e)
    have "pending_ok t (p\<lparr>pa_error := EnvironmentStopped, pa_validated := True\<rparr>)" for t :: "'a Environment"
      by (simp add: pending_ok_def)
    then show ?thesis using fresh Inl
      by (auto simp: validate_admission_def intro!: after_bind [OF after_fail_run [OF assms(1)]] after_Some)
  qed
qed

text \<open>What a restored prefix leaves of the record.\<close>
lemma after_reuse_prefix:
  assumes inv: "env_inv s" and r: "record_ok (env_config s) r" "rr_prefill_position r = 0"
  shows "holds_after (\<lambda>((q, e), t). env_inv t \<and> env_requests t = env_requests s \<and> env_config t = env_config s \<and>
     free_sequences t = free_sequences s \<and> pending_admission t = pending_admission s \<and>
     rr_prompt q = rr_prompt r \<and> rr_sequence q = rr_sequence r \<and> record_ok (env_config s) q \<and>
     (if e = NoError then env_fatal t = env_fatal s else env_fatal t)) (reuse_prefix L r s)"
proof (cases "rr_cacheable r \<and> find_longest_full_prefix (prefix_cache s) (rr_prompt r) \<noteq> None")
  case False
  then show ?thesis using assms by (auto simp: reuse_prefix_def holds_after_def)
next
  case True
  then obtain i where i: "find_longest_full_prefix (prefix_cache s) (rr_prompt r) = Some i" by blast
  let ?e = "prefix_cache s ! i"
  have e: "i < length (prefix_cache s)" "length (pc_tokens ?e) \<le> length (rr_prompt r)"
    using find_longest_Some [OF i] by (auto simp: serves_def dest: prefix_length_le)
  obtain n m where set: "llama_state_seq_set_data L (pc_state ?e) (rr_sequence r) (model_state s) = (n, m)"
    by (metis surj_pair)
  obtain removed m' where rm: "llama_memory_seq_rm L (rr_sequence r) m = (removed, m')" by (metis surj_pair)
  have step: "reuse_prefix L r s =
      (if n \<noteq> 0
       then Some ((r\<lparr>rr_prefill_position := of_nat (length (pc_tokens ?e))\<rparr>, NoError),
              s\<lparr>model_state := m, cache_clock := cache_clock s + 1,
                prefix_cache := (prefix_cache s)[i := ?e\<lparr>pc_last_used := cache_clock s + 1\<rparr>]\<rparr>)
       else if removed then Some ((r, NoError), s\<lparr>model_state := m'\<rparr>)
       else Option.bind (fail_run DecodeFailed (s\<lparr>model_state := m'\<rparr>)) (\<lambda>s. Some ((r, DecodeFailed), s)))"
    using True i set rm by (simp add: reuse_prefix_def Let_def)
  have small: "length (pc_tokens ?e) < 2 ^ 32"
    using e(2) r(1) unat_u32_lt [of "context_size (env_config s)"] by (simp add: record_ok_def)
  have pos: "record_ok (env_config s) (r\<lparr>rr_prefill_position := of_nat (length (pc_tokens ?e))\<rparr>)"
    using r(1) e(2) small by (simp add: record_ok_def unat_of_nat32)
  have hit: "env_inv (s\<lparr>model_state := m, cache_clock := c, prefix_cache := (prefix_cache s)[i := x]\<rparr>)" for c x
    using inv by (simp add: env_defs)
  have fail: "holds_after (\<lambda>t. env_inv t \<and> env_frame (s\<lparr>model_state := m'\<rparr>) t \<and> env_fatal t) (fail_run DecodeFailed (s\<lparr>model_state := m'\<rparr>))"
    by (rule after_fail_run) (simp add: inv)
  show ?thesis unfolding step
    using hit pos inv r
    by (auto intro!: after_Some after_bind [OF fail] dest: env_frameD(1,2,3,6))
qed

text \<open>Starting a validated admission on a free sequence.\<close>
lemma after_start_request:
  assumes inv: "env_inv s" and p: "pending_ok s p" "pa_validated p" "pa_error p = NoError"
    and free: "free_sequences s \<noteq> []" and alive: "\<not> env_fatal s"
  shows "holds_after (\<lambda>(m, t). env_inv t \<and> env_config t = env_config s \<and>
     report_ok (env_config s) (AdmissionReport m) \<and> (env_fatal t \<longrightarrow> ar_error m \<noteq> NoError)) (start_request L p s)"
proof -
  let ?a = "pa_admission p"
  obtain created m where init: "llama_sampler_init_greedy L (model_state s) = (created, m)" by (metis surj_pair)
  let ?s = "s\<lparr>model_state := m, free_sequences := butlast (free_sequences s)\<rparr>"
  let ?r = "\<lparr>rr_prompt = pa_prompt p, rr_prefill_position = 0, rr_decoded_tokens = 0, rr_last_token = 0,
     rr_sequence = last (free_sequences s), rr_output_mode = adm_output_mode ?a,
     rr_cacheable = (adm_synthetic_prompt_tokens ?a = None), rr_conversation_id = adm_conversation_id ?a\<rparr>"
  have ok: "pa_prompt p \<noteq> []" "length (pa_prompt p) \<le> unat (context_size (env_config s))"
    "map_of (env_requests s) (adm_id ?a) = None"
    using p by (auto simp: pending_ok_def)
  then have r: "record_ok (env_config ?s) ?r" "rr_prefill_position ?r = 0" by (simp_all add: record_ok_def)
  have split: "free_sequences s = butlast (free_sequences s) @ [last (free_sequences s)]" using free by simp
  have keys: "distinct (map fst (env_requests s))" "\<forall>(i, r) \<in> set (env_requests s). record_ok (env_config s) r"
    using inv by (simp_all add: env_inv_def)
  have s: "env_inv ?s"
  proof -
    have "mset (butlast (free_sequences s)) \<subseteq># mset (free_sequences s)"
      by (subst (2) split) simp
    then have "env_inv (s\<lparr>free_sequences := butlast (free_sequences s), env_requests := env_requests s\<rparr>)"
      by (intro env_inv_move [OF inv inv refl] keys) (simp add: sequences_def)
    then show ?thesis by (simp add: env_defs)
  qed
  show ?thesis
  proof (cases created)
    case False
    then show ?thesis using init inv alive by (auto simp: start_request_def Let_def holds_after_def)
  next
    case True
    have step: "start_request L p s = Option.bind (reuse_prefix L ?r ?s) (\<lambda>((r, error), t).
        Some (\<lparr>ar_id = adm_id ?a, ar_prompt_tokens = of_nat (length (rr_prompt r)), ar_error = error,
              ar_cached_prefix_tokens = rr_prefill_position r\<rparr>,
          if error = NoError then t\<lparr>env_requests := env_requests t @ [(adm_id ?a, r)]\<rparr>
          else t\<lparr>free_sequences := free_sequences t @ [rr_sequence r]\<rparr>))"
      using True init by (simp add: start_request_def Let_def)
    show ?thesis unfolding step
    proof (rule after_bind [OF after_reuse_prefix [OF s r]], goal_cases)
      case (1 x)
      obtain q e t where xt: "x = ((q, e), t)" by (metis surj_pair)
      have t: "env_inv t" "env_requests t = env_requests s" "env_config t = env_config s"
        "free_sequences t = butlast (free_sequences s)" "rr_prompt q = pa_prompt p"
        "rr_sequence q = last (free_sequences s)" "record_ok (env_config s) q"
        "if e = NoError then env_fatal t = env_fatal s else env_fatal t"
        using 1 xt by simp_all
      have n: "unat (of_nat (length (pa_prompt p)) :: u32) = length (pa_prompt p)"
        using ok(2) unat_u32_lt [of "context_size (env_config s)"] by (simp add: unat_of_nat32)
      have q: "unat (rr_prefill_position q) \<le> length (pa_prompt p)" using t(5,7) by (simp add: record_ok_def)
      have back_again: "mset (free_sequences s) = add_mset (last (free_sequences s)) (mset (butlast (free_sequences s)))"
        by (subst split) simp
      have "env_inv (t\<lparr>free_sequences := free_sequences s, env_requests := env_requests s\<rparr>)"
        by (rule env_inv_move [OF inv t(1,3) _ keys]) (simp add: sequences_def)
      moreover have "t\<lparr>free_sequences := free_sequences s, env_requests := env_requests s\<rparr> =
          t\<lparr>free_sequences := free_sequences t @ [rr_sequence q]\<rparr>"
        using t(2,4,6) split by (intro Environment.equality) simp_all
      ultimately have restored: "env_inv (t\<lparr>free_sequences := free_sequences t @ [rr_sequence q]\<rparr>)" by simp
      have "env_inv (t\<lparr>free_sequences := butlast (free_sequences s), env_requests := env_requests s @ [(adm_id ?a, q)]\<rparr>)"
        by (rule env_inv_move [OF inv t(1,3)])
          (use back_again keys ok(3) t(6,7) in \<open>auto simp: sequences_def map_of_eq_None_iff\<close>)
      moreover have "t\<lparr>free_sequences := butlast (free_sequences s), env_requests := env_requests s @ [(adm_id ?a, q)]\<rparr> =
          t\<lparr>env_requests := env_requests t @ [(adm_id ?a, q)]\<rparr>"
        using t(2,4) by (intro Environment.equality) simp_all
      ultimately have added: "env_inv (t\<lparr>env_requests := env_requests t @ [(adm_id ?a, q)]\<rparr>)" by simp
      show ?case
        using restored added t n q ok alive by (auto simp: xt holds_after_def)
    qed
  qed
qed

lemma after_admit_pending:
  assumes inv: "env_inv s" and p: "pending_ok s p"
  shows "holds_after (\<lambda>(b, t). env_ok t) (admit_pending L p s)"
proof -
  have report: "holds_after (\<lambda>t. env_inv t) (send (AdmissionReport m) u)"
    if "env_inv u" "report_ok (env_config u) (AdmissionReport m)" "env_fatal u \<Longrightarrow> ar_error m \<noteq> NoError" for u m
    by (rule after_weaken [OF after_send]) (use that in auto)
  have finish: "holds_after (\<lambda>(b, t). env_ok t)
      (do { s \<leftarrow> send (AdmissionReport m) u; Some (True, s\<lparr>pending_admission := None\<rparr>) })"
    if "env_inv u" "report_ok (env_config u) (AdmissionReport m)" "env_fatal u \<Longrightarrow> ar_error m \<noteq> NoError" for u m
    by (rule after_bind [OF report [OF that]]) (auto simp: holds_after_def env_ok_def)
  show ?thesis unfolding admit_pending_def
  proof (rule after_bind [OF after_validate [OF inv p]], goal_cases)
    case (1 x)
    obtain q t where x: "x = (q, t)" by (metis surj_pair)
    let ?t = "t\<lparr>pending_admission := Some q\<rparr>"
    have t: "env_inv ?t" "pending_ok ?t q" "pa_validated q \<or> env_fatal t"
      using 1 x pending_ok_cong [of ?t t q] by simp_all
    then have ok: "env_ok ?t" by (simp add: env_ok_def)
    define e where "e = (if env_fatal t then EnvironmentStopped else pa_error q)"
    show ?case
    proof (cases "e = NoError")
      case False
      then have "\<not> (e = NoError \<and> free_sequences t = [])" by simp
      then show ?thesis using False finish [OF t(1)] by (simp add: x Let_def e_def)
    next
      case True
      then have alive: "\<not> env_fatal ?t" "pa_error q = NoError" "pa_validated q"
        using t(3) by (auto simp: e_def split: if_splits)
      show ?thesis
      proof (cases "free_sequences t = []")
        case True
        then show ?thesis using ok alive by (simp add: x Let_def after_Some)
      next
        case False
        then have free: "free_sequences ?t \<noteq> []" by simp
        have "holds_after (\<lambda>(b, t). env_ok t) (do { (result, s) \<leftarrow> start_request L q ?t;
            s \<leftarrow> send (AdmissionReport result) s; Some (True, s\<lparr>pending_admission := None\<rparr>) })"
          by (rule after_bind [OF after_start_request [OF t(1,2) alive(3,2) free alive(1)]])
            (auto intro!: finish)
        then show ?thesis using alive False by (simp add: x Let_def)
      qed
    qed
  qed
qed

lemma after_admission_loop: "env_ok s \<Longrightarrow> holds_after env_ok (admission_loop L s)"
proof -
  have "admission_loop L s = Some s' \<Longrightarrow> env_ok s \<Longrightarrow> env_ok s'" for s'
  proof (induction rule: admission_loop.raw_induct [rotated, consumes 1])
    case (1 loop L s s')
    have go_on: "env_ok s'" if ok: "env_inv t" "pending_ok t p"
      and run: "Option.bind (admit_pending L p t) (\<lambda>(again, s). if again then loop L s else Some s) = Some s'" for t p
    proof -
      obtain again u where u: "admit_pending L p t = Some (again, u)" "(if again then loop L u else Some u) = Some s'"
        using run by (auto simp: bind_eq_Some_conv)
      have "env_ok u" using afterD [OF after_admit_pending [OF ok] u(1)] by simp
      then show ?thesis using 1(1) [of L u s'] u(2) by (auto split: if_splits)
    qed
    show ?case
    proof (cases "pending_admission s")
      case (Some p)
      then show ?thesis using 1(2,3) go_on [of s p] by (simp add: env_ok_def)
    next
      case None
      obtain x t where a: "access try_take_admission s = (x, t)" by (metis surj_pair)
      have t: "env_ok t" using access_free [OF env_ok_free a] 1(3) by simp
      show ?thesis
      proof (cases x)
        case None
        then show ?thesis using 1(2) a t \<open>pending_admission s = None\<close> by simp
      next
        case (Some adm)
        let ?p = "\<lparr>pa_admission = adm, pa_prompt = [], pa_error = NoError, pa_validated = False\<rparr>"
        have "pending_ok t ?p" by (simp add: pending_ok_def)
        then show ?thesis using 1(2) a t None Some go_on [of t ?p] by (simp add: env_ok_def)
      qed
    qed
  qed
  then show "env_ok s \<Longrightarrow> holds_after env_ok (admission_loop L s)" by (simp add: holds_after_def)
qed

end
