(* ===== verification/Environment_Plans.thy ===== *)
theory Environment_Plans
  imports Environment_Keep Scheduler_Plan
begin

text \<open>
  The environment and plans: building a batch stays inside its buffers, reporting keeps the
  invariant, and a plan the scheduler has validated is never refused.
\<close>

section \<open>Building the batch\<close>

lemma unat_prompt_size: "length (rr_prompt r) < 2 ^ 32 \<Longrightarrow> unat (prompt_size r) = length (rr_prompt r)"
  by (simp add: prompt_size_def unat_of_nat64)

lemma fill_rows_result:
  assumes "length rows + length ps \<le> cap" and "pf \<Longrightarrow> \<forall>p \<in> set ps. p < length (rr_prompt r)"
  shows "fill_rows cap r pf ps rows = Some (rows @ map (\<lambda>pos.
    \<lparr>row_token = (if pf then rr_prompt r ! pos else rr_last_token r), row_pos = of_nat pos,
     row_seq = rr_sequence r, row_logits = False\<rparr>) ps)"
  using assms
proof (induction ps arbitrary: rows)
  case (Cons p ps)
  let ?row = "\<lparr>row_token = (if pf then rr_prompt r ! p else rr_last_token r), row_pos = of_nat p,
     row_seq = rr_sequence r, row_logits = False\<rparr>"
  have "length (rows @ [?row]) + length ps \<le> cap" "pf \<Longrightarrow> \<forall>p \<in> set ps. p < length (rr_prompt r)"
    using Cons.prems by auto
  from Cons.IH [OF this] show ?case using Cons.prems by auto
qed simp

text \<open>What the checks of an item establish, on unbounded numbers.\<close>
definition item_fits :: "u32 \<Rightarrow> (RequestId \<times> RequestRecord) list \<Rightarrow> RequestId list \<Rightarrow> nat \<Rightarrow> WorkItem \<Rightarrow> RequestRecord \<Rightarrow> bool" where
  "item_fits capacity reqs seen n w r \<longleftrightarrow>
     map_of reqs (work_id w) = Some r \<and> work_id w \<notin> set seen \<and>
     unat (token_begin w) < unat (token_end w) \<and> n + item_tokens w \<le> unat capacity \<and>
     (case work_kind w of
        Prefill \<Rightarrow> token_begin w = rr_prefill_position r \<and> unat (token_end w) \<le> length (rr_prompt r)
      | Decode \<Rightarrow> rr_decoded_tokens r \<noteq> 0 \<and>
          Suc (unat (token_begin w)) = length (rr_prompt r) + unat (rr_decoded_tokens r) \<and>
          unat (token_end w) = Suc (unat (token_begin w))
      | Unknown_kind _ \<Rightarrow> False)"

lemma batch_room:
  assumes "n \<le> unat (capacity :: u32)" "unat (token_begin w) < unat (token_end w)"
  shows "(of_nat n + u64_of_u32 (token_count w) > u64_of_u32 capacity) = (n + item_tokens w > unat capacity)"
proof -
  have t: "unat (token_count w) = item_tokens w"
    using unat_token_count [of w] assms(2) by (simp add: item_tokens_def word_le_nat_alt)
  have n: "n < 2 ^ 32" using assms(1) unat_u32_lt [of capacity] by simp
  have "unat (of_nat n + u64_of_u32 (token_count w)) = n + unat (token_count w)"
    using n unat_u32_lt [of "token_count w"] by (subst unat_add_lt) (simp_all add: unat_of_nat64)
  then show ?thesis by (simp add: word_less_nat_alt t)
qed

lemma next_position:
  assumes "length (rr_prompt r) < 2 ^ 32" "rr_decoded_tokens r \<noteq> 0"
  shows "(u64_of_u32 b = prompt_size r + u64_of_u32 (rr_decoded_tokens r) - 1) =
    (Suc (unat b) = length (rr_prompt r) + unat (rr_decoded_tokens r))"
proof -
  have d: "0 < unat (rr_decoded_tokens r)" using assms(2) by (simp add: unat_gt_0)
  have s: "unat (prompt_size r + u64_of_u32 (rr_decoded_tokens r)) = length (rr_prompt r) + unat (rr_decoded_tokens r)"
    using assms(1) unat_u32_lt [of "rr_decoded_tokens r"] by (subst unat_add_lt) (simp_all add: unat_prompt_size)
  then have "prompt_size r + u64_of_u32 (rr_decoded_tokens r) \<noteq> 0" using d by (metis add_gr_0 less_irrefl unat_0)
  then have "unat (prompt_size r + u64_of_u32 (rr_decoded_tokens r) - 1) = length (rr_prompt r) + unat (rr_decoded_tokens r) - 1"
    using s by (simp add: unat_minus_one)
  then show ?thesis using d by (auto simp: word_unat_eq_iff)
qed

lemma next_end: "unat (b :: u32) < unat e \<Longrightarrow> (e = b + 1) = (unat e = Suc (unat b))"
  using unat_inc [of b e] by (auto simp: word_unat_eq_iff word_less_nat_alt)

lemma check_item_iff:
  assumes "n \<le> unat capacity" and "\<forall>(i, r) \<in> set reqs. length (rr_prompt r) < 2 ^ 32"
  shows "check_item capacity reqs seen n w = Some r \<longleftrightarrow> item_fits capacity reqs seen n w r"
proof (cases "map_of reqs (work_id w)")
  case None
  then show ?thesis by (simp add: check_item_def item_fits_def)
next
  case (Some q)
  have q: "length (rr_prompt q) < 2 ^ 32" using assms(2) map_of_SomeD [OF Some] by auto
  show ?thesis
  proof (cases "unat (token_begin w) < unat (token_end w)")
    case False
    then show ?thesis using Some by (auto simp: check_item_def item_fits_def word_le_nat_alt)
  next
    case True
    show ?thesis
      using Some True batch_room [OF assms(1) True] next_end [OF True] next_position [OF q, of "token_begin w"]
      by (cases "work_kind w")
        (auto simp: check_item_def item_fits_def Let_def word_le_nat_alt word_less_nat_alt unat_prompt_size [OF q] not_less)
  qed
qed

lemma item_rows:
  assumes "item_fits capacity reqs seen (length rows) w r"
  shows "\<exists>new. fill_rows (unat capacity) r (work_kind w = Prefill) [unat (token_begin w)..<unat (token_end w)] rows
      = Some (rows @ new) \<and> length new = item_tokens w"
  using assms by (subst fill_rows_result) (auto simp: item_fits_def item_tokens_def split: WorkKind.splits)

lemma build_batch_step:
  assumes reqs: "\<forall>(i, r) \<in> set reqs. length (rr_prompt r) < 2 ^ 32" and len: "length rows \<le> unat capacity"
    and f: "item_fits capacity reqs seen (length rows) w r"
  shows "\<exists>rows' y. build_batch capacity reqs seen rows items (w # ws) =
      build_batch capacity reqs (work_id w # seen) rows' (items @ [(w, y)]) ws \<and>
    length rows' = length rows + item_tokens w"
proof -
  have c: "check_item capacity reqs seen (length rows) w = Some r" using check_item_iff [OF len reqs] f by simp
  obtain new where "fill_rows (unat capacity) r (work_kind w = Prefill)
      [unat (token_begin w)..<unat (token_end w)] rows = Some (rows @ new)" "length new = item_tokens w"
    using item_rows [OF f] by blast
  then show ?thesis using c by (simp add: Let_def) (metis length_append length_list_update)
qed

text \<open>What the reporting loop needs of an item.\<close>
definition item_ok :: "(RequestId \<times> RequestRecord) list \<Rightarrow> WorkItem \<times> nat option \<Rightarrow> bool" where
  "item_ok reqs item \<longleftrightarrow> (\<exists>r. map_of reqs (work_id (fst item)) = Some r \<and>
     (work_kind (fst item) = Prefill \<longrightarrow> unat (token_end (fst item)) \<le> length (rr_prompt r)))"

lemma build_batch_result:
  assumes reqs: "\<forall>(i, r) \<in> set reqs. length (rr_prompt r) < 2 ^ 32" and "length rows \<le> unat capacity"
    and "list_all (item_ok reqs) items"
  shows "case build_batch capacity reqs seen rows items ws of
      Invalid_plan \<Rightarrow> True
    | Outside_buffer \<Rightarrow> False
    | Batch rows' items' \<Rightarrow> length rows' = length rows + sum_list (map item_tokens ws) \<and>
        length rows' \<le> unat capacity \<and> map fst items' = map fst items @ ws \<and> list_all (item_ok reqs) items'"
  using assms(2,3)
proof (induction ws arbitrary: seen rows items)
  case (Cons w ws)
  show ?case
  proof (cases "check_item capacity reqs seen (length rows) w")
    case (Some r)
    then have f: "item_fits capacity reqs seen (length rows) w r" using check_item_iff [OF Cons.prems(1) reqs] by simp
    obtain rows' y where s: "build_batch capacity reqs seen rows items (w # ws) =
        build_batch capacity reqs (work_id w # seen) rows' (items @ [(w, y)]) ws"
      "length rows' = length rows + item_tokens w"
      using build_batch_step [OF reqs Cons.prems(1) f] by blast
    have "length rows' \<le> unat capacity" "item_ok reqs (w, y)"
      using f s(2) by (auto simp: item_fits_def item_ok_def split: WorkKind.splits)
    then show ?thesis using Cons.IH [of rows' "items @ [(w, y)]" "work_id w # seen"] Cons.prems(2)
      unfolding s(1) by (auto simp: s(2) split: plan_check.splits)
  qed simp
qed simp

text \<open>A plan is built exactly when every item fits, in order.\<close>
lemma build_batch_accepts:
  assumes reqs: "\<forall>(i, r) \<in> set reqs. length (rr_prompt r) < 2 ^ 32"
    and "length rows + sum_list (map item_tokens ws) \<le> unat capacity"
    and "distinct (map work_id ws)" "set (map work_id ws) \<inter> set seen = {}"
    and "\<forall>w \<in> set ws. \<exists>r. item_fits capacity reqs [] 0 w r"
  shows "\<exists>rows' items'. build_batch capacity reqs seen rows items ws = Batch rows' items'"
  using assms(2-5)
proof (induction ws arbitrary: seen rows items)
  case (Cons w ws)
  obtain r where r: "item_fits capacity reqs [] 0 w r" using Cons.prems(4) by auto
  have f: "item_fits capacity reqs seen (length rows) w r" using r Cons.prems(1,3) by (simp add: item_fits_def)
  have "length rows \<le> unat capacity" using Cons.prems(1) by simp
  then obtain rows' y where s: "build_batch capacity reqs seen rows items (w # ws) =
      build_batch capacity reqs (work_id w # seen) rows' (items @ [(w, y)]) ws"
    "length rows' = length rows + item_tokens w"
    using build_batch_step [OF reqs _ f] by blast
  show ?case unfolding s(1) using Cons.prems s(2) by (intro Cons.IH) auto
qed simp

end
