(* ===== verification/Environment_Report.thy ===== *)
theory Environment_Report
  imports Environment_Plans
begin

text \<open>
  The rest of the invariant proof: reporting the items of a plan, the whole iteration, and the
  states an environment can reach.
\<close>

section \<open>Updating one record\<close>

lemma map_entry_fst [simp]: "map fst (AList.map_entry k f al) = map fst al"
  by (induction al) auto

lemma map_map_entry:
  "(\<And>v. map_of al k = Some v \<Longrightarrow> g (k, f v) = g (k, v)) \<Longrightarrow> map g (AList.map_entry k f al) = map g al"
  by (induction al) auto

lemma set_map_entry:
  "(j, q) \<in> set (AList.map_entry k f al) \<Longrightarrow> (j, q) \<in> set al \<or> (j = k \<and> (\<exists>v. map_of al k = Some v \<and> q = f v))"
  by (induction al) (auto split: if_splits)

lemma env_inv_update:
  assumes inv: "env_inv s"
    and f: "\<And>r. map_of (env_requests s) i = Some r \<Longrightarrow> rr_sequence (f r) = rr_sequence r \<and> record_ok (env_config s) (f r)"
  shows "env_inv (update_record i f s)"
proof -
  let ?reqs = "AList.map_entry i f (env_requests s)"
  have m: "map (\<lambda>(i, r). rr_sequence r) ?reqs = map (\<lambda>(i, r). rr_sequence r) (env_requests s)"
    using f by (intro map_map_entry) auto
  have "\<forall>(j, r) \<in> set ?reqs. record_ok (env_config s) r"
    using inv f by (fastforce simp: env_inv_def dest: set_map_entry)
  moreover have "distinct (free_sequences s @ map (\<lambda>(i, r). rr_sequence r) ?reqs)"
    "\<forall>q \<in> set (free_sequences s @ map (\<lambda>(i, r). rr_sequence r) ?reqs). unat q < unat (max_sequences (env_config s))"
    unfolding m using inv by (simp_all add: env_inv_def sequences_def)
  moreover have "distinct (map fst ?reqs)" using inv by (simp add: env_inv_def)
  ultimately have "env_inv (s\<lparr>free_sequences := free_sequences s, env_requests := ?reqs\<rparr>)"
    using env_inv_set [OF inv] by blast
  then show ?thesis by (simp add: update_record_def)
qed

text \<open>What reporting leaves alone: the pending admission, the keys and the prompts.\<close>
definition keeps_prompts :: "'m Environment \<Rightarrow> 'm Environment \<Rightarrow> bool" where
  "keeps_prompts s t \<longleftrightarrow> env_config t = env_config s \<and> pending_admission t = pending_admission s \<and>
     (\<forall>i. map_option rr_prompt (map_of (env_requests t) i) = map_option rr_prompt (map_of (env_requests s) i))"

lemma keeps_prompts_refl [simp]: "keeps_prompts s s"
  by (simp add: keeps_prompts_def)

lemma keeps_prompts_trans: "keeps_prompts s t \<Longrightarrow> keeps_prompts t u \<Longrightarrow> keeps_prompts s u"
  by (simp add: keeps_prompts_def)

lemma keeps_prompts_frame: "env_frame s t \<Longrightarrow> keeps_prompts s t"
  using env_frameD [of s t] by (simp add: keeps_prompts_def)

lemma keeps_prompts_update: "(\<And>r. rr_prompt (f r) = rr_prompt r) \<Longrightarrow> keeps_prompts s (update_record i f s)"
  by (auto simp: keeps_prompts_def update_record_def map_of_map_entry split: option.splits)

lemma keeps_prompts_model [simp]: "keeps_prompts s (t\<lparr>model_state := m\<rparr>) = keeps_prompts s t"
  by (simp add: keeps_prompts_def)

lemma item_ok_keeps:
  assumes "keeps_prompts s t" "item_ok (env_requests s) item"
  shows "item_ok (env_requests t) item"
proof -
  obtain r where r: "map_of (env_requests s) (work_id (fst item)) = Some r"
    "work_kind (fst item) = Prefill \<longrightarrow> unat (token_end (fst item)) \<le> length (rr_prompt r)"
    using assms(2) by (auto simp: item_ok_def)
  then have "map_option rr_prompt (map_of (env_requests t) (work_id (fst item))) = Some (rr_prompt r)"
    using assms(1) by (simp add: keeps_prompts_def)
  then show ?thesis using r(2) by (auto simp: item_ok_def)
qed

lemma env_ok_keeps: "env_ok s \<Longrightarrow> keeps_prompts s t \<Longrightarrow> env_inv t \<Longrightarrow> env_ok t"
proof -
  assume a: "env_ok s" "keeps_prompts s t" "env_inv t"
  have "(map_of (env_requests t) i = None) = (map_of (env_requests s) i = None)" for i
    using a(2) unfolding keeps_prompts_def by (metis map_option_is_None)
  then show ?thesis using a by (auto simp: env_ok_def keeps_prompts_def pending_ok_def split: option.splits)
qed

section \<open>Reporting\<close>

text \<open>With room for at least one entry the cache always takes a prefix.\<close>
lemma remember_prefix_result:
  assumes "env_inv s"
  shows "\<exists>c k. remember_prefix L r s = Some (s\<lparr>prefix_cache := c, cache_clock := k\<rparr>) \<and>
    env_inv (s\<lparr>prefix_cache := c, cache_clock := k\<rparr>)"
proof -
  have stay: "Some s = Some (s\<lparr>prefix_cache := prefix_cache s, cache_clock := cache_clock s\<rparr>) \<and>
      env_inv (s\<lparr>prefix_cache := prefix_cache s, cache_clock := cache_clock s\<rparr>)" using assms by simp
  have kept: "\<exists>es. retain_conversation_prefix (prefix_cache s) e (cache_limit s) = Some es \<and>
      env_inv (s\<lparr>prefix_cache := es, cache_clock := k\<rparr>)" for e k
  proof -
    have "0 < cache_limit s" "length (prefix_cache s) \<le> cache_limit s" using assms by (simp_all add: env_inv_def)
    from retain_within [OF this] obtain es where "retain_conversation_prefix (prefix_cache s) e (cache_limit s) = Some es"
      "length es \<le> cache_limit s" by blast
    then show ?thesis using assms by (auto simp: env_defs)
  qed
  show ?thesis
  proof (cases "rr_cacheable r \<and> rr_prompt r \<noteq> [] \<and> llama_state_seq_get_size L (rr_sequence r) (model_state s) \<noteq> 0")
    case False
    then have "remember_prefix L r s = Some s" by (auto simp: remember_prefix_def)
    then show ?thesis using stay by metis
  next
    case True
    obtain n b where d: "llama_state_seq_get_data L (llama_state_seq_get_size L (rr_sequence r) (model_state s))
        (rr_sequence r) (model_state s) = (n, b)" by (metis surj_pair)
    show ?thesis
    proof (cases "n = 0 \<or> n > llama_state_seq_get_size L (rr_sequence r) (model_state s)")
      case u: True
      then have "remember_prefix L r s = Some s" using True d by (auto simp: remember_prefix_def Let_def)
      then show ?thesis using stay by metis
    next
      case u: False
      obtain es where es: "retain_conversation_prefix (prefix_cache s)
          \<lparr>pc_tokens = rr_prompt r, pc_state = take n b, pc_last_used = cache_clock s + 1,
           pc_conversation_id = rr_conversation_id r\<rparr> (cache_limit s) = Some es"
        "env_inv (s\<lparr>prefix_cache := es, cache_clock := cache_clock s + 1\<rparr>)" using kept by blast
      then have "remember_prefix L r s = Some (s\<lparr>prefix_cache := es, cache_clock := cache_clock s + 1\<rparr>)"
        using True d u by (simp add: remember_prefix_def Let_def)
      then show ?thesis using es(2) by blast
    qed
  qed
qed

definition reported :: "'m Environment \<Rightarrow> 'm Environment \<Rightarrow> bool" where
  "reported s t \<longleftrightarrow> env_inv t \<and> keeps_prompts s t \<and> env_fatal t = env_fatal s"

lemma finish_prefill_result:
  assumes inv: "env_inv s" and i: "item_ok (env_requests s) (w, row)"
  shows "\<exists>t. finish_prefill L w s = Some t \<and> reported s t"
proof (cases "work_kind w = Prefill")
  case False
  then show ?thesis using inv by (simp add: finish_prefill_def reported_def)
next
  case True
  let ?f = "\<lambda>r. r\<lparr>rr_prefill_position := token_end w\<rparr>"
  let ?u = "update_record (work_id w) ?f s"
  obtain r where r: "map_of (env_requests s) (work_id w) = Some r" "unat (token_end w) \<le> length (rr_prompt r)"
    using i True by (auto simp: item_ok_def)
  have u: "env_inv ?u" using record_at [OF inv r(1)] r by (intro env_inv_update [OF inv]) (auto simp: record_ok_def)
  have k: "keeps_prompts s ?u" by (rule keeps_prompts_update) simp
  have fatal: "env_fatal ?u = env_fatal s" by (simp add: update_record_def)
  obtain c q where m: "remember_prefix L (record_of (work_id w) ?u) ?u = Some (?u\<lparr>prefix_cache := c, cache_clock := q\<rparr>)"
    "env_inv (?u\<lparr>prefix_cache := c, cache_clock := q\<rparr>)" using remember_prefix_result [OF u] by blast
  have "keeps_prompts s (?u\<lparr>prefix_cache := c, cache_clock := q\<rparr>)" using k by (simp add: keeps_prompts_def)
  then show ?thesis using True u k m fatal
    by (cases "u64_of_u32 (token_end w) = prompt_size (record_of (work_id w) ?u)")
      (auto simp: finish_prefill_def reported_def Let_def)
qed

lemma reported_trans: "reported s t \<Longrightarrow> reported t u \<Longrightarrow> reported s u"
  by (auto simp: reported_def intro: keeps_prompts_trans)

lemma after_send_alive:
  assumes "reported s t" "\<not> env_fatal s" "\<not> is_fatal m" "report_ok (env_config t) m"
  shows "holds_after (reported s) (send m t)"
proof -
  have t: "env_inv t" "\<not> env_fatal t" using assms by (simp_all add: reported_def)
  show ?thesis
    by (rule after_weaken [OF after_send [OF t(1) assms(4,3)]])
      (use t assms in \<open>auto simp: reported_def intro: keeps_prompts_trans keeps_prompts_frame\<close>)
qed

lemma after_fail_reported:
  assumes "reported s t"
  shows "holds_after (\<lambda>u. env_inv u \<and> keeps_prompts s u) (fail_run e t)"
  by (rule after_weaken [OF after_fail_run])
    (use assms in \<open>auto simp: reported_def intro: keeps_prompts_trans keeps_prompts_frame\<close>)

lemma reported_update:
  assumes "reported s t" and f: "\<And>r. rr_prompt (f r) = rr_prompt r \<and> rr_sequence (f r) = rr_sequence r \<and>
      rr_prefill_position (f r) = rr_prefill_position r"
  shows "reported s (update_record i f t)"
proof -
  have "env_inv (update_record i f t)"
    using record_at [of t i] assms by (intro env_inv_update) (auto simp: reported_def record_ok_def)
  moreover have "keeps_prompts s (update_record i f t)"
    using assms keeps_prompts_update [of f t i] by (auto simp: reported_def intro: keeps_prompts_trans)
  ultimately show ?thesis using assms(1) by (simp add: reported_def update_record_def)
qed

text \<open>What one iteration of the reporting loop leaves: \<open>b\<close> when it goes on.\<close>
definition report_step :: "'m Environment \<Rightarrow> bool \<times> 'm Environment \<Rightarrow> bool" where
  "report_step s x \<longleftrightarrow> env_inv (snd x) \<and> keeps_prompts s (snd x) \<and> (fst x \<longrightarrow> \<not> env_fatal (snd x))"

lemma after_report_item:
  assumes inv: "env_inv s" and i: "item_ok (env_requests s) (w, row)" and alive: "\<not> env_fatal s"
  shows "holds_after (report_step s) (report_item L (w, row) s)"
proof -
  obtain t where t: "finish_prefill L w s = Some t" "reported s t" using finish_prefill_result [OF inv i] by blast
  let ?c = "item_completion w (record_of (work_id w) t)"
  have finish: "holds_after (report_step s) (Option.bind (send (CompletionReport c) u) (\<lambda>s. Some (True, s)))"
    if "reported s u" for c u
    by (rule after_bind [OF after_send_alive [OF that alive]])
      (use alive in \<open>auto simp: holds_after_def report_step_def reported_def\<close>)
  have failed: "holds_after (report_step s) (Option.bind (fail_run e u) (\<lambda>s. Some (False, s)))"
    if "reported s u" for e u
    by (rule after_bind [OF after_fail_reported [OF that]]) (auto simp: holds_after_def report_step_def)
  show ?thesis
  proof (cases row)
    case None
    then show ?thesis using t finish [of t ?c] by (simp add: report_item_def)
  next
    case (Some k)
    obtain tok m where s: "llama_sampler_sample L (rr_sequence (record_of (work_id w) t)) k (model_state t) = (tok, m)"
      by (metis surj_pair)
    let ?t = "t\<lparr>model_state := m\<rparr>"
    have t': "reported s ?t" using t(2) by (simp add: reported_def)
    show ?thesis
    proof (cases "sint tok < 0")
      case True
      then show ?thesis using t(1) Some s failed [OF t'] by (simp add: report_item_def)
    next
      case False
      let ?u = "update_record (work_id w) (\<lambda>r. r\<lparr>rr_last_token := tok, rr_decoded_tokens := rr_decoded_tokens r + 1\<rparr>) ?t"
      have u: "reported s ?u" by (rule reported_update [OF t']) simp
      let ?d = "?c\<lparr>cmp_decoded_tokens := rr_decoded_tokens (record_of (work_id w) ?u), cmp_token := tok,
          cmp_generated_token := True, cmp_eos := llama_vocab_is_eog L tok\<rparr>"
      show ?thesis
      proof (cases "llama_vocab_is_eog L tok")
        case True
        then show ?thesis using t(1) Some s False finish [OF u, of ?d] by (simp add: report_item_def Let_def)
      next
        case eog: False
        show ?thesis
        proof (cases "to_piece L tok")
          case None
          then show ?thesis using t(1) Some s False eog failed [OF u] by (simp add: report_item_def Let_def)
        next
          case (Some piece)
          let ?o = "OutputReport \<lparr>op_id = work_id w, op_token = tok, op_text = piece\<rparr>"
          have "holds_after (report_step s) (Option.bind (send ?o ?u)
              (\<lambda>v. Option.bind (send (CompletionReport ?d) v) (\<lambda>s. Some (True, s))))"
            by (rule after_bind [OF after_send_alive [OF u alive]]) (simp_all add: finish)
          then show ?thesis using t(1) Some \<open>row = Some k\<close> s False eog by (simp add: report_item_def Let_def)
        qed
      qed
    qed
  qed
qed

lemma after_report_items:
  "env_inv s \<Longrightarrow> list_all (item_ok (env_requests s)) items \<Longrightarrow> \<not> env_fatal s \<Longrightarrow>
   holds_after (\<lambda>t. env_inv t \<and> keeps_prompts s t) (report_items L items s)"
proof (induction items arbitrary: s)
  case (Cons item rest)
  obtain w row where item: "item = (w, row)" by (metis surj_pair)
  have step: "holds_after (report_step s) (report_item L item s)"
    using after_report_item [of s w row L] Cons.prems item by simp
  have rest: "holds_after (\<lambda>t. env_inv t \<and> keeps_prompts s t) (case x of (go_on, t) \<Rightarrow> if go_on then report_items L rest t else Some t)"
    if x: "report_step s x" for x
  proof -
    obtain b t where xt: "x = (b, t)" by (metis surj_pair)
    have t: "env_inv t" "keeps_prompts s t" "b \<longrightarrow> \<not> env_fatal t" using x xt by (simp_all add: report_step_def)
    have "list_all (item_ok (env_requests t)) rest"
      using Cons.prems(2) item_ok_keeps [OF t(2)] by (auto simp: list_all_iff)
    then have "b \<Longrightarrow> holds_after (\<lambda>u. env_inv u \<and> keeps_prompts t u) (report_items L rest t)" using Cons.IH t by simp
    then show ?thesis using t xt by (auto simp: holds_after_def intro: keeps_prompts_trans)
  qed
  show ?case unfolding report_items.simps by (rule after_bind [OF step]) (rule rest)
qed (simp add: holds_after_def)

section \<open>The iteration\<close>

lemma records_small: "env_inv s \<Longrightarrow> \<forall>(i, r) \<in> set (env_requests s). length (rr_prompt r) < 2 ^ 32"
  using unat_u32_lt [of "context_size (env_config s)"] by (fastforce simp: env_inv_def record_ok_def)

lemma after_execute_plan:
  assumes inv: "env_inv s" and alive: "\<not> env_fatal s"
  shows "holds_after (\<lambda>t. env_inv t \<and> keeps_prompts s t) (execute_plan L ws s)"
proof -
  have fail: "holds_after (\<lambda>t. env_inv t \<and> keeps_prompts s t) (fail_run e u)" if "reported s u" for e u
    using after_fail_reported [OF that] .
  have s: "reported s s" using inv by (simp add: reported_def)
  show ?thesis
  proof (cases "build_batch (batch_capacity (env_config s)) (env_requests s) [] [] [] ws")
    case Invalid_plan
    then show ?thesis using fail [OF s] by (simp add: execute_plan_def)
  next
    case Outside_buffer
    then show ?thesis by (simp add: execute_plan_def holds_after_def)
  next
    case (Batch rows items)
    then have items: "list_all (item_ok (env_requests s)) items"
      using build_batch_result [OF records_small [OF inv], where rows = "[]" and items = "[]" and seen = "[]"
          and capacity = "batch_capacity (env_config s)" and ws = ws] by simp
    obtain st m where d: "llama_decode L rows (model_state s) = (st, m)" by (metis surj_pair)
    let ?s = "s\<lparr>model_state := m\<rparr>"
    have s': "reported s ?s" using inv by (simp add: reported_def)
    have "holds_after (\<lambda>t. env_inv t \<and> keeps_prompts ?s t) (report_items L items ?s)"
      using inv items alive by (intro after_report_items) simp_all
    then have "holds_after (\<lambda>t. env_inv t \<and> keeps_prompts s t) (report_items L items ?s)"
      by (rule after_weaken) (simp add: keeps_prompts_def)
    then show ?thesis using Batch d fail [OF s] fail [OF s'] by (simp add: execute_plan_def Let_def)
  qed
qed

lemma after_run_plan:
  assumes "env_ok s"
  shows "holds_after env_ok (run_plan L s)"
proof (cases "env_fatal s")
  case True
  then show ?thesis using assms by (simp add: run_plan_def holds_after_def)
next
  case alive: False
  obtain x t where a: "access consume_plan s = (x, t)" by (metis surj_pair)
  have t: "env_ok t" "\<not> env_fatal t" using access_free [OF env_ok_free a] env_frame_access [OF a] assms alive by simp_all
  show ?thesis
  proof (cases x)
    case None
    then show ?thesis using alive a t by (simp add: run_plan_def holds_after_def)
  next
    case (Some p)
    have exec: "holds_after env_ok (execute_plan L (plan_work (pool (env_handoff t) ! p)) t)"
    proof (rule after_weaken)
      show "holds_after (\<lambda>u. env_inv u \<and> keeps_prompts t u) (execute_plan L (plan_work (pool (env_handoff t) ! p)) t)"
        by (rule after_execute_plan) (use t in \<open>simp_all add: env_ok_def\<close>)
    qed (use t env_ok_keeps in blast)
    have "holds_after env_ok (Option.bind (execute_plan L (plan_work (pool (env_handoff t) ! p)) t)
        (\<lambda>s. Some (snd (access (\<lambda>h. ((), retire_plan p h)) s))))"
    proof (rule after_bind [OF exec])
      fix u :: "'a Environment"
      assume u: "env_ok u"
      have "env_ok (snd (access (\<lambda>h. ((), retire_plan p h)) u)) = env_ok u"
        by (simp add: access_def env_ok_free [unfolded handoff_free_def, rule_format])
      then show "holds_after env_ok (Some (snd (access (\<lambda>h. ((), retire_plan p h)) u)))"
        using u by (simp add: holds_after_def)
    qed
    then show ?thesis using alive a Some by (simp add: run_plan_def)
  qed
qed

lemma after_env_iteration: "env_ok s \<Longrightarrow> holds_after env_ok (env_iteration L s)"
  unfolding env_iteration_def
  by (intro after_bind [OF after_release_loop] after_bind [OF after_admission_loop] after_run_plan)

section \<open>Reachable environments\<close>

text \<open>The profile is only handed on, so its type does not matter here.\<close>
inductive env_reachable :: "'m Llama \<Rightarrow> 'm Environment \<Rightarrow> bool" for L where
  started: "startup L (u :: unit LlamaStartup) oth h c m = Inr (profile, s) \<Longrightarrow> env_reachable L s"
| iterated: "env_reachable L s \<Longrightarrow> env_iteration L s = Some t \<Longrightarrow> env_reachable L t"
| looked: "env_reachable L s \<Longrightarrow> env_reachable L (s\<lparr>env_handoff := h, accesses := n\<rparr>)"

lemma initial_sequences_ok:
  "distinct (initial_sequences n)" "q \<in> set (initial_sequences n) \<Longrightarrow> unat q < unat n"
  "length (initial_sequences n) = unat n"
proof -
  have small: "i < unat n \<Longrightarrow> unat (of_nat i :: seq_id) = i" for i
    using unat_u32_lt [of n] by (intro unat_of_nat32) simp
  then have "inj_on (of_nat :: nat \<Rightarrow> seq_id) {0..<unat n}" by (auto intro!: inj_on_inverseI [of _ unat])
  then show "distinct (initial_sequences n)" by (simp add: initial_sequences_def distinct_map)
  show "q \<in> set (initial_sequences n) \<Longrightarrow> unat q < unat n" using small by (auto simp: initial_sequences_def)
  show "length (initial_sequences n) = unat n" by (simp add: initial_sequences_def)
qed

lemma startup_ok:
  assumes "startup L u oth h c m = Inr (profile, s)"
  shows "env_ok s \<and> env_config s = c \<and> valid_config c \<and> sent s = [] \<and> free_sequences s = initial_sequences (max_sequences c)"
proof -
  have v: "valid_config c" using assms by (auto simp: startup_def split: if_splits)
  obtain tok where s: "s = \<lparr>env_config = c, env_handoff = h, others = oth, accesses = 0, sent = [],
       model_state = m, synthetic_token = tok, free_sequences = initial_sequences (max_sequences c), env_requests = [],
       prefix_cache = [], cache_clock = 0, env_fatal = False, pending_admission = None\<rparr>"
    using assms by (auto simp: startup_def split: if_splits option.splits sum.splits)
  have "0 < unat (resolve_prefix_cache_capacity (cfg_prefix_cache_capacity c) (max_sequences c))"
    using v by (auto simp: valid_config_def resolve_prefix_cache_capacity_def unat_gt_0)
  then show ?thesis using v s initial_sequences_ok(1) [of "max_sequences c"] initial_sequences_ok(2) [of _ "max_sequences c"]
    by (auto simp: env_ok_def env_defs)
qed

lemma env_reachable_ok: "env_reachable L s \<Longrightarrow> env_ok s"
proof (induction rule: env_reachable.induct)
  case (started u oth h c m profile s)
  then show ?case by (simp add: startup_ok)
next
  case (iterated s t)
  then show ?case using after_env_iteration by (blast dest: afterD)
next
  case (looked s h n)
  then show ?case by (simp add: env_ok_free [unfolded handoff_free_def, rule_format])
qed

end
