(* ===== verification/Environment_Examples.thy ===== *)
theory Environment_Examples
  imports Environment_Report
begin

text \<open>
  A small environment evaluated by the simplifier, for the witnesses: two sequences of eight
  tokens, a tokenizer that makes two tokens of any text, a model that always samples token 7,
  and a scheduler that admits one request before the first access.
\<close>

text \<open>One unfolding of each loop, as conditional rewrite rules.\<close>
lemma send_now: "fst (access (push_message m) s) \<Longrightarrow>
    send m s = Some ((snd (access (push_message m) s))\<lparr>sent := sent s @ [m]\<rparr>)"
  using access_state [of "push_message m" s] by (subst send_def, subst retry.simps) (auto split: prod.splits)

lemma release_loop_now: "fst (access try_take_release s) = None \<Longrightarrow>
    release_loop L s = Some (snd (access try_take_release s))"
  by (subst release_loop.simps) (auto split: prod.splits)

lemma admission_loop_stop: "pending_admission s = None \<Longrightarrow> fst (access try_take_admission s) = None \<Longrightarrow>
    admission_loop L s = Some (snd (access try_take_admission s))"
  by (subst admission_loop.simps) (auto split: prod.splits)

lemma admission_loop_take:
  "pending_admission s = None \<Longrightarrow> access try_take_admission s = (Some a, t) \<Longrightarrow>
   admit_pending L \<lparr>pa_admission = a, pa_prompt = [], pa_error = NoError, pa_validated = False\<rparr> t = Some (True, u) \<Longrightarrow>
   admission_loop L s = admission_loop L u"
  by (subst admission_loop.simps) simp

definition demo_llama :: "unit Llama" where
  "demo_llama = \<lparr>
     llama_tokenize = (\<lambda>txt n sp ps. Inr (if n = 0 then (- 2, []) else (2, [1, 2]))),
     llama_token_to_piece = (\<lambda>t n. (1, ''a'')), llama_vocab_is_eog = (\<lambda>t. False),
     llama_vocab_n_tokens = 9, llama_memory_seq_rm = (\<lambda>q m. (True, m)),
     llama_state_seq_get_size = (\<lambda>q m. 1), llama_state_seq_get_data = (\<lambda>n q m. (1, [0])),
     llama_state_seq_set_data = (\<lambda>d q m. (1, m)), llama_sampler_init_greedy = (\<lambda>m. (True, m)),
     llama_sampler_sample = (\<lambda>q i m. (7, m)), llama_decode = (\<lambda>rows m. (0, m))\<rparr>"

definition demo_config :: EnvironmentConfig where
  "demo_config = \<lparr>model_path = ''m'', context_size = 8, batch_capacity = 8, max_sequences = 2,
     cfg_prefix_cache_capacity = 0\<rparr>"

definition demo_admission :: Admission where
  "demo_admission = \<lparr>adm_id = 5, adm_prompt = ''hi'', adm_max_output_tokens = 3,
     adm_synthetic_prompt_tokens = None, adm_output_mode = Natural, adm_conversation_id = []\<rparr>"

definition demo_channels :: Handoff where
  "demo_channels = \<lparr>pool_size = 2, completed_epoch = 0, published = None,
     handoff_stop_requested = False, scheduler_progress_generation = 0,
     retired = empty_ring 4, admissions = empty_ring 4, releases = empty_ring 4,
     admission_results = empty_ring 4, completions = empty_ring 4, outputs = empty_ring 4,
     release_acks = empty_ring 4, fatals = empty_ring 4,
     pool = [\<lparr>plan_work = [], plan_epoch = 0\<rparr>], spare = 0, handoff_epoch = 0\<rparr>"

definition demo_startup :: "unit LlamaStartup" where
  "demo_startup = \<lparr>model_loaded = True, loaded_profile = Some (), context_created = True,
     vocab_present = True, batch_allocated = True\<rparr>"

definition demo_others :: "nat \<Rightarrow> Handoff \<Rightarrow> Handoff" where
  "demo_others n h = (if n = 0 then snd (try_admit demo_admission h) else h)"

definition demo_env :: "unit Environment" where
  "demo_env = \<lparr>env_config = demo_config, env_handoff = demo_channels, others = demo_others, accesses = 0, sent = [],
     model_state = (), synthetic_token = Some 1, free_sequences = [1, 0], env_requests = [],
     prefix_cache = [], cache_clock = 0, env_fatal = False, pending_admission = None\<rparr>"

lemma demo_tokenize: "int32_max \<ge> length txt \<Longrightarrow> tokenize demo_llama txt a b = Inr [1, 2]"
  by (simp add: tokenize_def demo_llama_def)

lemma demo_env_start: "startup demo_llama demo_startup demo_others demo_channels demo_config () = Inr ((), demo_env)"
proof -
  have c: "valid_config demo_config"
    by (simp add: valid_config_def demo_config_def word_less_nat_alt u64_of_u32_def u32_max_def)
  have t: "choose_synthetic_token demo_llama = Inr (Some 1)"
    by (simp add: choose_synthetic_token_def demo_tokenize int32_max_def) (simp add: demo_llama_def)
  have q: "initial_sequences 2 = [1, 0]" by (simp add: initial_sequences_def upt_rec)
  show ?thesis using c t q by (simp add: startup_def demo_startup_def demo_env_def) (simp add: demo_config_def)
qed

lemma demo_env_reachable: "env_reachable demo_llama demo_env"
  by (rule env_reachable.started [OF demo_env_start])

text \<open>The states between the steps of its first iteration.\<close>
definition demo_env1 :: "unit Environment" where
  "demo_env1 = snd (access try_take_release demo_env)"

definition demo_env2 :: "unit Environment" where
  "demo_env2 = snd (access try_take_admission demo_env1)"

lemmas demo_eval = access_def try_take_release_def try_take_admission_def try_admit_def try_push_def try_pop_def
  empty_ring_def slot_def word_le_nat_alt Let_def demo_channels_def

lemma demo_step1: "release_loop demo_llama demo_env = Some demo_env1"
  unfolding demo_env1_def
  by (rule release_loop_now) (simp add: demo_eval demo_env_def demo_others_def)

lemma demo_step2: "access try_take_admission demo_env1 = (Some demo_admission, demo_env2)"
  by (simp add: demo_env2_def demo_env1_def demo_eval demo_env_def demo_others_def)


lemma demo_env2_handoff:
  "\<exists>h. demo_env2 = demo_env\<lparr>env_handoff := h, accesses := 2\<rparr> \<and> admission_results h = empty_ring 4 \<and>
     admissions h = (empty_ring 4)\<lparr>read_index := 1, write_index := 1\<rparr> \<and> published h = None \<and>
     fatals h = empty_ring 4"
  by (simp add: demo_env2_def demo_env1_def demo_eval demo_env_def demo_others_def fun_eq_iff)

text \<open>The environment once it has admitted request 5.\<close>
definition demo_record :: RequestRecord where
  "demo_record = \<lparr>rr_prompt = [1, 2], rr_prefill_position = 0, rr_decoded_tokens = 0, rr_last_token = 0,
     rr_sequence = 0, rr_output_mode = Natural, rr_cacheable = True, rr_conversation_id = []\<rparr>"

definition demo_report :: AdmissionResult where
  "demo_report = \<lparr>ar_id = 5, ar_prompt_tokens = 2, ar_error = NoError, ar_cached_prefix_tokens = 0\<rparr>"

lemma demo_step3:
  "\<exists>t. admit_pending demo_llama
     \<lparr>pa_admission = demo_admission, pa_prompt = [], pa_error = NoError, pa_validated = False\<rparr> demo_env2 = Some (True, t) \<and>
   (\<exists>h. t = demo_env\<lparr>env_handoff := h, accesses := 3, sent := [AdmissionReport demo_report],
      free_sequences := [1], env_requests := [(5, demo_record)]\<rparr> \<and>
    admissions h = (empty_ring 4)\<lparr>read_index := 1, write_index := 1\<rparr> \<and> published h = None)"
proof -
  obtain h where h: "demo_env2 = demo_env\<lparr>env_handoff := h, accesses := 2\<rparr>" "admission_results h = empty_ring 4"
    "admissions h = (empty_ring 4)\<lparr>read_index := 1, write_index := 1\<rparr>" "published h = None"
    using demo_env2_handoff by blast
  let ?p = "\<lparr>pa_admission = demo_admission, pa_prompt = [], pa_error = NoError, pa_validated = False\<rparr>"
  let ?q = "\<lparr>pa_admission = demo_admission, pa_prompt = [1, 2], pa_error = NoError, pa_validated = True\<rparr>"
  have v: "validate_admission demo_llama ?p demo_env2 = Some (?q, demo_env2)"
    by (simp add: validate_admission_def check_admission_def h(1) demo_env_def demo_admission_def demo_tokenize int32_max_def
        demo_config_def u64_of_u32_def word_less_nat_alt)
  have s: "start_request demo_llama ?q (demo_env2\<lparr>pending_admission := Some ?q\<rparr>) = Some (demo_report,
      demo_env2\<lparr>pending_admission := Some ?q, free_sequences := [1], env_requests := [(5, demo_record)]\<rparr>)"
    by (simp add: start_request_def reuse_prefix_def find_longest_full_prefix_def demo_llama_def h(1) demo_env_def
        demo_admission_def demo_record_def demo_report_def)
  have w: "send (AdmissionReport demo_report) (demo_env2\<lparr>pending_admission := Some ?q, free_sequences := [1],
        env_requests := [(5, demo_record)]\<rparr>) =
      Some (demo_env\<lparr>env_handoff := snd (try_report_admission demo_report h), accesses := 3, pending_admission := Some ?q,
        free_sequences := [1], env_requests := [(5, demo_record)], sent := [AdmissionReport demo_report]\<rparr>)"
    by (subst send_now) (simp_all add: access_def h demo_env_def demo_others_def try_report_admission_def demo_eval
        notify_scheduler_progress_def)
  have f: "admissions (snd (try_report_admission m h)) = admissions h" "published (snd (try_report_admission m h)) = published h" for m
    by (simp_all add: try_report_admission_def notify_scheduler_progress_def split: prod.splits)
  have e: "env_fatal demo_env2 = False" "free_sequences demo_env2 = [1, 0]" by (simp_all add: h(1) demo_env_def)
  have "admit_pending demo_llama ?p demo_env2 = Some (True, demo_env\<lparr>env_handoff := snd (try_report_admission demo_report h),
      accesses := 3, pending_admission := None, free_sequences := [1], env_requests := [(5, demo_record)],
      sent := [AdmissionReport demo_report]\<rparr>)"
    by (simp add: admit_pending_def v s w e)
  moreover have "demo_env\<lparr>env_handoff := snd (try_report_admission demo_report h),
      accesses := 3, pending_admission := None, free_sequences := [1], env_requests := [(5, demo_record)],
      sent := [AdmissionReport demo_report]\<rparr> = demo_env\<lparr>env_handoff := snd (try_report_admission demo_report h),
      accesses := 3, sent := [AdmissionReport demo_report], free_sequences := [1], env_requests := [(5, demo_record)]\<rparr>"
    by (simp add: demo_env_def)
  ultimately show ?thesis using f [of demo_report] h(3,4) by metis
qed

lemma demo_iteration:
  "\<exists>t. env_iteration demo_llama demo_env = Some t \<and> env_requests t = [(5, demo_record)] \<and>
     free_sequences t = [1] \<and> env_config t = demo_config \<and> \<not> env_fatal t \<and> sent t = [AdmissionReport demo_report]"
proof -
  obtain t h where t: "admit_pending demo_llama
     \<lparr>pa_admission = demo_admission, pa_prompt = [], pa_error = NoError, pa_validated = False\<rparr> demo_env2 = Some (True, t)"
    "t = demo_env\<lparr>env_handoff := h, accesses := 3, sent := [AdmissionReport demo_report],
      free_sequences := [1], env_requests := [(5, demo_record)]\<rparr>"
    "admissions h = (empty_ring 4)\<lparr>read_index := 1, write_index := 1\<rparr>" "published h = None"
    using demo_step3 by blast
  have none: "pending_admission demo_env1 = None" by (simp add: demo_env1_def access_def demo_env_def split: prod.splits)
  have stop: "admission_loop demo_llama t = Some (snd (access try_take_admission t))"
    by (rule admission_loop_stop)
      (simp_all add: t(2,3) demo_env_def access_def demo_others_def try_take_admission_def try_pop_def)
  have plan: "run_plan demo_llama (snd (access try_take_admission t)) =
      Some (snd (access consume_plan (snd (access try_take_admission t))))"
    by (simp add: run_plan_def t(2,3,4) demo_env_def access_def demo_others_def try_take_admission_def try_pop_def consume_plan_def)
  show ?thesis
    by (simp add: env_iteration_def demo_step1 admission_loop_take [OF none demo_step2 t(1)] stop plan)
      (simp add: t(2,3) demo_env_def access_def demo_others_def try_take_admission_def try_pop_def consume_plan_def)
qed

end
