(* ===== verification/Environment_Props.thy ===== *)
theory Environment_Props
  imports Environment_Examples Scheduler_Run
begin

text \<open>The properties of the environment, alone and together with the scheduler.\<close>

lemma demo_after: "\<exists>t. env_reachable demo_llama t \<and> env_requests t = [(5, demo_record)] \<and> free_sequences t = [1] \<and>
    env_config t = demo_config \<and> \<not> env_fatal t \<and> sent t = [AdmissionReport demo_report]"
  using demo_iteration env_reachable.iterated [OF demo_env_reachable] by blast

section \<open>Sequences, records, reports\<close>

text \<open>
  C12. No two requests share a sequence of the model context: in every reachable environment
  the free sequences and those of the live requests are pairwise distinct and their numbers are
  below the configured number of sequences, so at most that many requests are live; request ids
  are distinct, every live prompt is nonempty and fits the context, and no prefill position is
  past its prompt.
\<close>
theorem sequences_exclusive:
  assumes "env_reachable L s"
  shows "distinct (free_sequences s @ map (\<lambda>(i, r). rr_sequence r) (env_requests s)) \<and>
    list_all (\<lambda>q. unat q < unat (max_sequences (env_config s)))
      (free_sequences s @ map (\<lambda>(i, r). rr_sequence r) (env_requests s)) \<and>
    length (free_sequences s) + length (env_requests s) \<le> unat (max_sequences (env_config s)) \<and>
    distinct (map fst (env_requests s)) \<and>
    list_all (\<lambda>(i, r). rr_prompt r \<noteq> [] \<and> length (rr_prompt r) \<le> unat (context_size (env_config s)) \<and>
      unat (rr_prefill_position r) \<le> length (rr_prompt r)) (env_requests s)"
proof -
  let ?q = "sequences s"
  have inv: "env_inv s" using env_reachable_ok [OF assms] by (simp add: env_ok_def)
  have d: "distinct ?q" "\<forall>q \<in> set ?q. unat q < unat (max_sequences (env_config s))" using inv by (simp_all add: env_inv_def)
  have "length ?q = card (unat ` set ?q)"
    using d(1) by (subst card_image) (auto simp: distinct_card inj_on_def word_unat_eq_iff)
  also have "\<dots> \<le> card {..<unat (max_sequences (env_config s))}" using d(2) by (intro card_mono) auto
  finally have "length ?q \<le> unat (max_sequences (env_config s))" by simp
  moreover have "list_all (\<lambda>q. unat q < unat (max_sequences (env_config s))) ?q" using d(2) by (simp add: list_all_iff)
  ultimately show ?thesis using inv d(1)
    by (auto simp: env_inv_def sequences_def record_ok_def list_all_iff)
qed

theorem sequences_exclusive_witness:
  "\<exists>t. env_reachable demo_llama t \<and> length (env_requests t) = 1 \<and>
     list_all (\<lambda>q. unat q < 2) (free_sequences t @ map (\<lambda>(i, r). rr_sequence r) (env_requests t))"
proof -
  obtain t where t: "env_reachable demo_llama t" "env_requests t = [(5, demo_record)]" "env_config t = demo_config"
    using demo_after by blast
  from sequences_exclusive [OF t(1)] t show ?thesis by (intro exI [of _ t]) (simp add: demo_config_def)
qed

text \<open>
  A successful admission report can be relied on: the prompt it announces is nonempty and
  fits the context, and the cached prefix is no longer than the prompt.
\<close>
theorem admission_reports_bounded:
  assumes "env_reachable L s" and "AdmissionReport m \<in> set (sent s)" and "ar_error m = NoError"
  shows "0 < unat (ar_prompt_tokens m) \<and> unat (ar_cached_prefix_tokens m) \<le> unat (ar_prompt_tokens m) \<and>
    unat (ar_prompt_tokens m) \<le> unat (context_size (env_config s))"
proof -
  have "list_all (report_ok (env_config s)) (sent s)" using env_reachable_ok [OF assms(1)] by (simp add: env_ok_def env_inv_def)
  then have "report_ok (env_config s) (AdmissionReport m)" using assms(2) unfolding list_all_iff by blast
  then show ?thesis using assms(3) by simp
qed

theorem admission_reports_bounded_witness:
  "\<exists>t. env_reachable demo_llama t \<and> AdmissionReport demo_report \<in> set (sent t) \<and>
     0 < unat (ar_prompt_tokens demo_report)"
proof -
  obtain t where t: "env_reachable demo_llama t" "sent t = [AdmissionReport demo_report]" using demo_after by blast
  then have m: "AdmissionReport demo_report \<in> set (sent t)" by simp
  have "ar_error demo_report = NoError" by (simp add: demo_report_def)
  from admission_reports_bounded [OF t(1) m this] t(1) m show ?thesis by blast
qed

text \<open>
  C18. A failure is reported once and is final: at most one fatal message is ever sent, and
  after it the environment sends no completion, no output and no successful admission, only
  acknowledgements and refusals.
\<close>
theorem fatal_is_final:
  assumes "env_reachable L s" and "sent s = before @ FatalReport m # later"
  shows "\<not> list_ex is_fatal before \<and> list_all quiet later \<and> env_fatal s"
proof -
  have inv: "length (filter is_fatal (sent s)) = (if env_fatal s then 1 else 0)" "quiet_after False (sent s)"
    using env_reachable_ok [OF assms(1)] by (simp_all add: env_ok_def env_inv_def)
  have f: "env_fatal s" using inv(1) assms(2) by (auto split: if_splits)
  then have b: "filter is_fatal before = []" using inv(1) assms(2) by simp
  have "quiet_after True ms \<Longrightarrow> list_all quiet ms" for ms by (induction ms) auto
  then have "list_all quiet later" using inv(2) assms(2) by (simp add: quiet_after_append)
  then show ?thesis using b f by (auto simp: list_ex_iff filter_empty_conv)
qed

text \<open>The same environment with a tokenizer that throws on the admitted prompt.\<close>
definition broken_llama :: "unit Llama" where
  "broken_llama = demo_llama\<lparr>llama_tokenize := (\<lambda>txt n sp ps.
     if txt = ''hi'' then Inl (Runtime_error ''tokenizer'') else llama_tokenize demo_llama txt n sp ps)\<rparr>"

lemma broken_start: "startup broken_llama demo_startup demo_others demo_channels demo_config () = Inr ((), demo_env)"
proof -
  have "tokenize broken_llama '' QuickServe benchmark'' a b = tokenize demo_llama '' QuickServe benchmark'' a b" for a b
  proof -
    have "llama_tokenize broken_llama '' QuickServe benchmark'' n a b = llama_tokenize demo_llama '' QuickServe benchmark'' n a b" for n
      by (simp add: broken_llama_def)
    then show ?thesis by (simp only: tokenize_def)
  qed
  moreover have "llama_vocab_is_eog broken_llama = llama_vocab_is_eog demo_llama"
    "llama_token_to_piece broken_llama = llama_token_to_piece demo_llama"
    "llama_vocab_n_tokens broken_llama = llama_vocab_n_tokens demo_llama"
    by (simp_all add: broken_llama_def)
  ultimately have "choose_synthetic_token broken_llama = choose_synthetic_token demo_llama"
    by (simp only: choose_synthetic_token_def to_piece_def)
  then have "startup broken_llama = (startup demo_llama :: unit LlamaStartup \<Rightarrow> _)" by (simp only: startup_def fun_eq_iff simp_thms)
  then show ?thesis using demo_env_start by simp
qed

definition refused :: AdmissionResult where
  "refused = \<lparr>ar_id = 5, ar_prompt_tokens = 0, ar_error = EnvironmentStopped, ar_cached_prefix_tokens = 0\<rparr>"

lemma broken_admission:
  "\<exists>t h. admit_pending broken_llama
     \<lparr>pa_admission = demo_admission, pa_prompt = [], pa_error = NoError, pa_validated = False\<rparr> demo_env2 = Some (True, t) \<and>
   t = demo_env\<lparr>env_handoff := h, accesses := 4, env_fatal := True,
      sent := [FatalReport \<lparr>fatal_error = EnvironmentStopped\<rparr>, AdmissionReport refused]\<rparr> \<and>
   admissions h = (empty_ring 4)\<lparr>read_index := 1, write_index := 1\<rparr>"
proof -
  obtain h where h: "demo_env2 = demo_env\<lparr>env_handoff := h, accesses := 2\<rparr>" "admission_results h = empty_ring 4"
    "admissions h = (empty_ring 4)\<lparr>read_index := 1, write_index := 1\<rparr>" "fatals h = empty_ring 4"
    using demo_env2_handoff by blast
  let ?p = "\<lparr>pa_admission = demo_admission, pa_prompt = [], pa_error = NoError, pa_validated = False\<rparr>"
  let ?q = "\<lparr>pa_admission = demo_admission, pa_prompt = [], pa_error = EnvironmentStopped, pa_validated = True\<rparr>"
  let ?f = "FatalReport \<lparr>fatal_error = EnvironmentStopped\<rparr>"
  let ?h = "snd (try_report_fatal \<lparr>fatal_error = EnvironmentStopped\<rparr> h)"
  let ?t = "demo_env\<lparr>env_handoff := ?h, accesses := 3, env_fatal := True, sent := [?f]\<rparr>"
  have c: "check_admission broken_llama demo_env2 ?p = Inl (Runtime_error ''tokenizer'')"
    by (simp add: check_admission_def h(1) demo_env_def demo_admission_def broken_llama_def tokenize_def int32_max_def)
  have f: "fail_run EnvironmentStopped demo_env2 = Some ?t"
    by (simp add: fail_run_def h(1) demo_env_def, subst send_now)
      (simp_all add: access_def demo_others_def try_report_fatal_def demo_eval h(4) notify_scheduler_progress_def)
  have id: "adm_id demo_admission = 5" by (simp add: demo_admission_def)
  have v: "validate_admission broken_llama ?p demo_env2 = Some (?q, ?t)"
    by (simp add: validate_admission_def c f) (simp add: h(1) demo_env_def)
  have r: "admission_results ?h = empty_ring 4" "admissions ?h = admissions h"
    using h(2) by (simp_all add: try_report_fatal_def notify_scheduler_progress_def split: prod.splits)
  have w: "send (AdmissionReport refused) (?t\<lparr>pending_admission := Some ?q\<rparr>) = Some (?t\<lparr>pending_admission := Some ?q,
      env_handoff := snd (push_message (AdmissionReport refused) ?h), accesses := 4, sent := [?f, AdmissionReport refused]\<rparr>)"
    by (subst send_now, simp_all add: access_def demo_env_def demo_others_def try_report_admission_def r
        notify_scheduler_progress_def)
      (simp_all add: try_push_def empty_ring_def word_le_nat_alt)
  have a: "admissions (snd (push_message (AdmissionReport refused) ?h)) = admissions h"
    using r(2) by (simp add: try_report_admission_def notify_scheduler_progress_def split: prod.splits)
  have "admit_pending broken_llama ?p demo_env2 = Some (True, ?t\<lparr>env_handoff := snd (push_message (AdmissionReport refused) ?h),
      accesses := 4, sent := [?f, AdmissionReport refused]\<rparr>)"
    using w by (simp add: admit_pending_def v refused_def id) (simp add: demo_env_def)
  then show ?thesis using a h(3) by (intro exI [of _ "?t\<lparr>env_handoff := snd (push_message (AdmissionReport refused) ?h),
      accesses := 4, sent := [?f, AdmissionReport refused]\<rparr>"] exI [of _ "snd (push_message (AdmissionReport refused) ?h)"]) simp
qed

lemma broken_iteration:
  "\<exists>t. env_iteration broken_llama demo_env = Some t \<and>
     sent t = [FatalReport \<lparr>fatal_error = EnvironmentStopped\<rparr>, AdmissionReport refused]"
proof -
  obtain t h where t: "admit_pending broken_llama
     \<lparr>pa_admission = demo_admission, pa_prompt = [], pa_error = NoError, pa_validated = False\<rparr> demo_env2 = Some (True, t)"
    "t = demo_env\<lparr>env_handoff := h, accesses := 4, env_fatal := True,
      sent := [FatalReport \<lparr>fatal_error = EnvironmentStopped\<rparr>, AdmissionReport refused]\<rparr>"
    "admissions h = (empty_ring 4)\<lparr>read_index := 1, write_index := 1\<rparr>"
    using broken_admission by blast
  have first: "release_loop broken_llama demo_env = Some demo_env1"
    unfolding demo_env1_def
    by (rule release_loop_now) (simp add: demo_eval demo_env_def demo_others_def)
  have none: "pending_admission demo_env1 = None" by (simp add: demo_env1_def access_def demo_env_def split: prod.splits)
  have stop: "admission_loop broken_llama t = Some (snd (access try_take_admission t))"
    by (rule admission_loop_stop)
      (simp_all add: t(2,3) demo_env_def access_def demo_others_def try_take_admission_def try_pop_def)
  have plan: "run_plan broken_llama (snd (access try_take_admission t)) = Some (snd (access try_take_admission t))"
    by (simp add: run_plan_def t(2,3) demo_env_def access_def demo_others_def try_take_admission_def try_pop_def)
  show ?thesis
    by (simp add: env_iteration_def first admission_loop_take [OF none demo_step2 t(1)] stop plan)
      (simp add: t(2,3) demo_env_def access_def demo_others_def try_take_admission_def try_pop_def)
qed

theorem fatal_is_final_witness:
  "\<exists>t. env_reachable broken_llama t \<and> sent t = [] @ FatalReport \<lparr>fatal_error = EnvironmentStopped\<rparr> # [AdmissionReport refused] \<and>
     list_all quiet [AdmissionReport refused] \<and> env_fatal t"
proof -
  obtain t where t: "env_iteration broken_llama demo_env = Some t"
    "sent t = [] @ FatalReport \<lparr>fatal_error = EnvironmentStopped\<rparr> # [AdmissionReport refused]"
    using broken_iteration by auto
  have "env_reachable broken_llama t"
    using env_reachable.iterated [OF env_reachable.started [OF broken_start] t(1)] .
  from fatal_is_final [OF this t(2)] this t(2) show ?thesis by blast
qed

text \<open>
  C16. Building a batch never writes past the rows allocated for it and never reads past the
  end of a prompt, for any plan whatsoever; an accepted plan fills exactly one row per token.
\<close>
theorem batch_inside_buffers:
  assumes "env_reachable L s"
  shows "case build_batch (batch_capacity (env_config s)) (env_requests s) [] [] [] ws of
      Invalid_plan \<Rightarrow> True
    | Outside_buffer \<Rightarrow> False
    | Batch rows items \<Rightarrow> length rows = sum_list (map item_tokens ws) \<and>
        length rows \<le> unat (batch_capacity (env_config s)) \<and> map fst items = ws"
proof -
  have "env_inv s" using env_reachable_ok [OF assms] by (simp add: env_ok_def)
  from build_batch_result [OF records_small [OF this], where rows = "[]" and items = "[]" and seen = "[]" and ws = ws
      and capacity = "batch_capacity (env_config s)"]
  show ?thesis by (auto split: plan_check.splits)
qed

theorem batch_inside_buffers_witness:
  "\<exists>t. env_reachable demo_llama t \<and> build_batch (batch_capacity (env_config t)) (env_requests t) [] [] []
     [\<lparr>work_id = 5, token_begin = 0, token_end = 9, work_kind = Prefill\<rparr>] \<noteq> Outside_buffer"
proof -
  obtain t where t: "env_reachable demo_llama t" using demo_after by blast
  from batch_inside_buffers [OF t, of "[\<lparr>work_id = 5, token_begin = 0, token_end = 9, work_kind = Prefill\<rparr>]"] t
  show ?thesis by (intro exI [of _ t]) (auto split: plan_check.splits)
qed

text \<open>
  The prefix cache stays within its capacity and can always take another prefix: storing
  one never reaches the undefined erase, whatever state the model returns.
\<close>
theorem prefix_cache_bounded:
  assumes "env_reachable L s"
  shows "length (prefix_cache s) \<le> cache_limit s \<and>
    (\<exists>t. remember_prefix L r s = Some t \<and> length (prefix_cache t) \<le> cache_limit s)"
proof -
  have inv: "env_inv s" using env_reachable_ok [OF assms] by (simp add: env_ok_def)
  obtain c k where t: "remember_prefix L r s = Some (s\<lparr>prefix_cache := c, cache_clock := k\<rparr>)"
    "env_inv (s\<lparr>prefix_cache := c, cache_clock := k\<rparr>)" using remember_prefix_result [OF inv] by blast
  then have "length c \<le> cache_limit s" by (simp add: env_inv_def cache_limit_def)
  then show ?thesis using t(1) inv by (simp add: env_inv_def)
qed

theorem prefix_cache_bounded_witness:
  "\<exists>t. remember_prefix demo_llama demo_record demo_env = Some t \<and> length (prefix_cache t) \<le> 2"
  using prefix_cache_bounded [OF demo_env_reachable, of demo_record]
  by (simp add: cache_limit_def demo_env_def demo_config_def resolve_prefix_cache_capacity_def)

text \<open>
  A release is final and always acknowledged: the request disappears and no other changes,
  the acknowledgement is the last message sent, and its sequence becomes free exactly when the
  model could clear it; otherwise the run fails and the sequence is never handed out again.
\<close>
theorem release_frees_and_acknowledges:
  assumes "map_of (env_requests s) (rel_id rel) = Some r" and "release_request L rel s = Some t"
  shows "map_of (env_requests t) = (map_of (env_requests s))(rel_id rel := None) \<and>
    last (sent t) = AckReport \<lparr>ack_id = rel_id rel\<rparr> \<and>
    free_sequences t = free_sequences s @
      (if fst (llama_memory_seq_rm L (rr_sequence r) (model_state s)) then [rr_sequence r] else []) \<and>
    env_fatal t = (env_fatal s \<or> \<not> fst (llama_memory_seq_rm L (rr_sequence r) (model_state s)))"
proof -
  obtain removed m where l: "llama_memory_seq_rm L (rr_sequence r) (model_state s) = (removed, m)" by (metis surj_pair)
  let ?i = "rel_id rel"
  have send: "send x u = Some v \<Longrightarrow> env_requests v = env_requests u \<and> free_sequences v = free_sequences u \<and>
      env_fatal v = env_fatal u \<and> last (sent v) = x" for x u v
    using send_state [of x u v] by auto
  have fail: "fail_run e u = Some v \<Longrightarrow> env_requests v = env_requests u \<and> free_sequences v = free_sequences u \<and> env_fatal v" for e u v
    using send [of _ "u\<lparr>env_fatal := True\<rparr>" v] by (auto simp: fail_run_def split: if_splits)
  obtain u where u: "(if \<not> removed then fail_run DecodeFailed (s\<lparr>model_state := m\<rparr>)
      else Some (s\<lparr>model_state := m, free_sequences := free_sequences s @ [rr_sequence r]\<rparr>)) = Some u"
    "send (AckReport \<lparr>ack_id = ?i\<rparr>) (u\<lparr>env_requests := AList.delete ?i (env_requests u)\<rparr>) = Some t"
    using assms l by (cases removed) (auto simp: release_request_def Let_def split: bind_splits)
  have "env_requests u = env_requests s" "free_sequences u = free_sequences s @ (if removed then [rr_sequence r] else [])"
    "env_fatal u = (env_fatal s \<or> \<not> removed)"
    using u(1) fail [of DecodeFailed "s\<lparr>model_state := m\<rparr>" u] by (auto split: if_splits)
  then show ?thesis using send [OF u(2)] l by (simp add: delete_conv')
qed

theorem release_frees_and_acknowledges_witness:
  "\<exists>t. release_request demo_llama \<lparr>rel_id = 5\<rparr> (demo_env\<lparr>env_requests := [(5, demo_record)], free_sequences := [1]\<rparr>) = Some t \<and>
     map_of (env_requests t) 5 = None \<and> free_sequences t = [1, 0]"
proof -
  let ?s = "demo_env\<lparr>env_requests := [(5, demo_record)], free_sequences := [1]\<rparr>"
  let ?u = "?s\<lparr>free_sequences := [1, 0], env_requests := []\<rparr>"
  have a: "fst (access (push_message (AckReport \<lparr>ack_id = 5\<rparr>)) (demo_env\<lparr>env_requests := [], free_sequences := [1, 0]\<rparr>))"
    by (simp add: access_def demo_env_def demo_others_def demo_channels_def try_admit_def try_acknowledge_release_def
        notify_scheduler_progress_def try_push_def empty_ring_def word_le_nat_alt split: prod.splits)
  obtain t where t: "release_request demo_llama \<lparr>rel_id = 5\<rparr> ?s = Some t"
    using send_now [OF a] by (simp add: release_request_def demo_llama_def demo_record_def demo_env_def)
  have r: "map_of (env_requests ?s) (rel_id \<lparr>rel_id = 5\<rparr>) = Some demo_record" by simp
  from release_frees_and_acknowledges [OF r t] t show ?thesis
    by (auto simp: demo_llama_def demo_record_def)
qed

section \<open>Sending\<close>





















end
