(* ===== verification/Serving.thy ===== *)
theory Serving
  imports Environment_Examples Scheduler_Examples
begin

text \<open>
  The scheduler and the environment together. Each keeps its own account of a request, the
  scheduler's \<open>RequestState\<close> and the environment's \<open>RequestRecord\<close>, and they exchange only
  messages. \<open>in_step\<close> says when the two accounts agree; an admission establishes it, a completion
  keeps it, and while it holds the environment accepts every plan the scheduler has validated.
\<close>

section \<open>Two accounts of one request\<close>

definition in_step :: "RequestState \<Rightarrow> RequestRecord \<Rightarrow> bool" where
  "in_step q r \<longleftrightarrow>
     unat (prompt_length q) = length (rr_prompt r) \<and> prefill_position q = rr_prefill_position r \<and>
     decoded_count q = rr_decoded_tokens r \<and> unat (rr_prefill_position r) \<le> length (rr_prompt r) \<and>
     (is_schedulable q \<longrightarrow> decoded_count q < max_output_tokens q) \<and>
     (stage q = DecodeStage \<longrightarrow> prefill_position q = prompt_length q)"

definition both_in_step :: "('x, 'p) Scheduler \<Rightarrow> 'm Environment \<Rightarrow> RequestId \<Rightarrow> bool" where
  "both_in_step s e i = (case find_request i s of
     None \<Rightarrow> True
   | Some q \<Rightarrow> (case map_of (env_requests e) i of None \<Rightarrow> False | Some r \<Rightarrow> in_step q r))"

lemma in_step_item:
  assumes "in_step q r" "valid_item q w" "map_of reqs (work_id w) = Some r" "item_tokens w \<le> unat capacity"
  shows "item_fits capacity reqs [] 0 w r"
  using assms by (auto simp: in_step_def valid_item_def item_fits_def split: WorkKind.splits)

section \<open>What the environment reports of a work item\<close>

lemma send_sent: "send m s = Some t \<Longrightarrow> sent t = sent s @ [m] \<and> env_requests t = env_requests s"
  using send_state [of m s t] by auto

lemma remember_prefix_frame:
  "remember_prefix L r s = Some t \<Longrightarrow> env_requests t = env_requests s \<and> sent t = sent s"
  by (auto simp: remember_prefix_def Let_def split: if_splits prod.splits option.splits)

lemma map_of_update: "map_of (env_requests (update_record i f s)) j =
    (if i = j then map_option f (map_of (env_requests s) j) else map_of (env_requests s) j)"
  by (simp add: update_record_def map_of_map_entry map_option_case split: option.splits)

lemma finish_prefill_record:
  assumes r: "map_of (env_requests s) (work_id w) = Some r" and f: "finish_prefill L w s = Some t"
  shows "map_of (env_requests t) (work_id w) =
    Some (if work_kind w = Prefill then r\<lparr>rr_prefill_position := token_end w\<rparr> else r)"
proof (cases "work_kind w = Prefill")
  case False
  then show ?thesis using r f by (simp add: finish_prefill_def)
next
  case True
  let ?u = "update_record (work_id w) (\<lambda>r. r\<lparr>rr_prefill_position := token_end w\<rparr>) s"
  have "env_requests t = env_requests ?u"
    using f True remember_prefix_frame [of L _ ?u t] by (auto simp: finish_prefill_def Let_def split: if_splits)
  then show ?thesis using r True by (simp add: map_of_update)
qed

text \<open>The record and the completion after an item with or without a sampled token.\<close>
lemma report_item_completion:
  assumes r: "map_of (env_requests s) (work_id w) = Some r"
    and run: "report_item L (w, row) s = Some (True, t)"
  shows "\<exists>c r'. last (sent t) = CompletionReport c \<and> map_of (env_requests t) (work_id w) = Some r' \<and>
    rr_prompt r' = rr_prompt r \<and> cmp_id c = work_id w \<and> cmp_error c = NoError \<and>
    rr_prefill_position r' = (if work_kind w = Prefill then token_end w else rr_prefill_position r) \<and>
    cmp_prefill_position c = (if work_kind w = Prefill then token_end w else of_nat (length (rr_prompt r))) \<and>
    rr_decoded_tokens r' = rr_decoded_tokens r + (if row = None then 0 else 1) \<and>
    cmp_decoded_tokens c = rr_decoded_tokens r'"
proof -
  let ?r = "if work_kind w = Prefill then r\<lparr>rr_prefill_position := token_end w\<rparr> else r"
  obtain u where u: "finish_prefill L w s = Some u" using run by (auto simp: report_item_def split: bind_splits)
  have m: "map_of (env_requests u) (work_id w) = Some ?r" by (rule finish_prefill_record [OF r u])
  have rec: "record_of (work_id w) u = ?r" using m by (simp add: record_of_def)
  show ?thesis
  proof (cases row)
    case None
    then have "send (CompletionReport (item_completion w ?r)) u = Some t"
      using run u by (auto simp: report_item_def rec split: bind_splits)
    from send_sent [OF this] show ?thesis using None m by (auto simp: item_completion_def)
  next
    case (Some k)
    obtain tok md where smp: "llama_sampler_sample L (rr_sequence ?r) k (model_state u) = (tok, md)" by (metis surj_pair)
    let ?v = "update_record (work_id w) (\<lambda>r. r\<lparr>rr_last_token := tok, rr_decoded_tokens := rr_decoded_tokens r + 1\<rparr>)
       (u\<lparr>model_state := md\<rparr>)"
    let ?q = "?r\<lparr>rr_last_token := tok, rr_decoded_tokens := rr_decoded_tokens ?r + 1\<rparr>"
    let ?c = "(item_completion w ?r)\<lparr>cmp_decoded_tokens := rr_decoded_tokens ?q, cmp_token := tok,
        cmp_generated_token := True, cmp_eos := llama_vocab_is_eog L tok\<rparr>"
    have v: "map_of (env_requests ?v) (work_id w) = Some ?q" using m by (simp add: map_of_update)
    then have rv: "record_of (work_id w) ?v = ?q" by (simp add: record_of_def)
    have "\<exists>x. env_requests x = env_requests ?v \<and> send (CompletionReport ?c) x = Some t"
    proof (cases "llama_vocab_is_eog L tok")
      case True
      then show ?thesis using run u Some smp
        by (intro exI [of _ ?v]) (auto simp: report_item_def rec rv Let_def split: bind_splits if_splits)
    next
      case False
      then obtain piece y where "send (OutputReport \<lparr>op_id = work_id w, op_token = tok, op_text = piece\<rparr>) ?v = Some y"
        "send (CompletionReport ?c) y = Some t"
        using run u Some smp
        by (auto simp: report_item_def rec rv Let_def split: bind_splits if_splits option.splits)
      then show ?thesis using send_sent by blast
    qed
    then obtain x where x: "env_requests x = env_requests ?v" "send (CompletionReport ?c) x = Some t" by blast
    then show ?thesis using v Some send_sent [OF x(2)] by (auto simp: item_completion_def)
  qed
qed

section \<open>What the scheduler makes of it\<close>

lemma settle_fields [simp]:
  "prompt_length (settle_completion c q) = prompt_length q"
  "prefill_position (settle_completion c q) = prefill_position q"
  "decoded_count (settle_completion c q) = decoded_count q"
  "max_output_tokens (settle_completion c q) = max_output_tokens q"
  by (simp_all add: settle_completion_def pending_release_def Let_def)

lemma count_fields [simp]:
  "prompt_length (count_tokens t c q) = prompt_length q"
  "prefill_position (count_tokens t c q) = prefill_position q"
  "decoded_count (count_tokens t c q) = cmp_decoded_tokens c"
  "max_output_tokens (count_tokens t c q) = max_output_tokens q"
  by (simp_all add: count_tokens_def record_token_def)

lemma settle_stage:
  "is_schedulable (settle_completion c q) \<Longrightarrow> decoded_count q < max_output_tokens q"
  "stage (settle_completion c q) = DecodeStage \<Longrightarrow> stage q \<noteq> PendingRelease \<Longrightarrow> prompt_length q \<le> prefill_position q"
  by (auto simp: settle_completion_def pending_release_def is_schedulable_def prefill_done_def Let_def split: if_splits)

lemma completed_id: "req_id (completed t c b q) = req_id q"
  by (simp add: completed_def settle_completion_def pending_release_def Let_def)

lemma completed_in_step:
  assumes i: "in_step q r" and v: "valid_item q w"
    and r': "rr_prompt r' = rr_prompt r"
      "rr_prefill_position r' = (if work_kind w = Prefill then token_end w else rr_prefill_position r)"
      "rr_decoded_tokens r' = rr_decoded_tokens r + (if row = None then 0 else 1)"
    and c: "cmp_prefill_position c = (if work_kind w = Prefill then token_end w else of_nat (length (rr_prompt r)))"
      "cmp_decoded_tokens c = rr_decoded_tokens r'"
  shows "in_step (completed t c (cmp_decoded_tokens c > decoded_count q) q) r'"
proof -
  let ?p = "max (prefill_position q) (cmp_prefill_position c)"
  let ?q = "completed t c (cmp_decoded_tokens c > decoded_count q) q"
  have s: "is_schedulable q" using v by (auto simp: valid_item_def is_schedulable_def split: WorkKind.splits)
  then have lt: "decoded_count q < max_output_tokens q" using i unfolding in_step_def by blast
  then have up: "row \<noteq> None \<Longrightarrow> cmp_decoded_tokens c > decoded_count q"
    using i r'(3) c(2) unat_inc [of "decoded_count q" "max_output_tokens q"] lt
    by (auto simp: in_step_def word_less_nat_alt)
  have d: "decoded_count ?q = rr_decoded_tokens r'"
    using up i r'(3) c(2) by (cases row) (auto simp: completed_def in_step_def)
  have p: "?p = rr_prefill_position r'"
  proof (cases "work_kind w = Prefill")
    case True
    then have "prefill_position q \<le> token_end w" using v by (auto simp: valid_item_def word_le_nat_alt)
    then show ?thesis using True r'(2) c(1) by (simp add: max_def)
  next
    case False
    then have "stage q = DecodeStage" using v by (auto simp: valid_item_def split: WorkKind.splits)
    then have e: "prefill_position q = prompt_length q" using i unfolding in_step_def by blast
    have "cmp_prefill_position c = prompt_length q"
    proof -
      have "unat (prompt_length q) = length (rr_prompt r)" using i by (simp add: in_step_def)
      then have "of_nat (length (rr_prompt r)) = prompt_length q"
        using unat_u32_lt [of "prompt_length q"] by (simp add: word_unat_eq_iff unat_of_nat32)
      then show ?thesis using False c(1) by simp
    qed
    then show ?thesis using False r'(2) i e by (simp add: in_step_def max_def)
  qed
  have f: "prefill_position ?q = ?p" "prompt_length ?q = prompt_length q" "max_output_tokens ?q = max_output_tokens q"
    by (simp_all add: completed_def)
  have bound: "unat (rr_prefill_position r') \<le> length (rr_prompt r)"
    using i v r'(2) by (auto simp: in_step_def valid_item_def split: WorkKind.splits)
  have sched: "is_schedulable ?q \<Longrightarrow> decoded_count ?q < max_output_tokens ?q"
    by (auto simp: completed_def dest: settle_stage(1))
  have stage: "stage ?q = DecodeStage \<Longrightarrow> prefill_position ?q = prompt_length ?q"
  proof -
    assume "stage ?q = DecodeStage"
    then have "prompt_length q \<le> ?p"
      using s by (auto simp: completed_def is_schedulable_def dest!: settle_stage(2) split: if_splits)
    moreover have "?p \<le> prompt_length q" using bound i unfolding p by (simp add: in_step_def word_le_nat_alt)
    ultimately show ?thesis using f by simp
  qed
  show ?thesis using i d p f bound sched stage r'(1) by (auto simp: in_step_def)
qed

section \<open>Admission\<close>

lemma find_increment: "find_request i (increment_active s) = find_request i s"
  by (simp add: increment_active_def find_request_def)

lemma fail_run_requests: "fail_run e s = Some t \<Longrightarrow> env_requests t = env_requests s"
  by (auto simp: fail_run_def split: if_splits dest: send_sent)

lemma reuse_prefix_record:
  assumes "reuse_prefix L r s = Some ((q, e), t)" and "rr_prefill_position r = 0" and "length (rr_prompt r) < 2 ^ 32"
  shows "env_requests t = env_requests s \<and> rr_prompt q = rr_prompt r \<and> rr_decoded_tokens q = rr_decoded_tokens r \<and>
    unat (rr_prefill_position q) \<le> length (rr_prompt r)"
proof (cases "find_longest_full_prefix (prefix_cache s) (rr_prompt r)")
  case None
  then show ?thesis using assms by (auto simp: reuse_prefix_def split: if_splits)
next
  case (Some i)
  then have "length (pc_tokens (prefix_cache s ! i)) \<le> length (rr_prompt r)"
    using find_longest_Some [OF Some] by (auto simp: serves_def dest: prefix_length_le)
  then have "unat (of_nat (length (pc_tokens (prefix_cache s ! i))) :: u32) \<le> length (rr_prompt r)"
    using assms(3) by (simp add: unat_of_nat32)
  then show ?thesis using assms(1,2) Some
    by (auto simp: reuse_prefix_def Let_def dest: fail_run_requests split: if_splits prod.splits bind_splits)
qed

lemma start_request_record:
  assumes run: "start_request L p e = Some (m, e')" and ok: "ar_error m = NoError"
    and new: "adm_id (pa_admission p) \<notin> fst ` set (env_requests e)" and n: "length (pa_prompt p) < 2 ^ 32"
  shows "\<exists>r. map_of (env_requests e') (ar_id m) = Some r \<and> rr_decoded_tokens r = 0 \<and>
    unat (rr_prefill_position r) \<le> length (rr_prompt r) \<and>
    unat (ar_prompt_tokens m) = length (rr_prompt r) \<and> ar_cached_prefix_tokens m = rr_prefill_position r"
proof -
  let ?a = "pa_admission p"
  let ?r = "\<lparr>rr_prompt = pa_prompt p, rr_prefill_position = 0, rr_decoded_tokens = 0, rr_last_token = 0,
     rr_sequence = last (free_sequences e), rr_output_mode = adm_output_mode ?a,
     rr_cacheable = (adm_synthetic_prompt_tokens ?a = None), rr_conversation_id = adm_conversation_id ?a\<rparr>"
  obtain created md where init: "llama_sampler_init_greedy L (model_state e) = (created, md)" by (metis surj_pair)
  let ?s = "e\<lparr>model_state := md, free_sequences := butlast (free_sequences e)\<rparr>"
  have created using run ok init by (auto simp: start_request_def Let_def split: if_splits)
  then obtain q err t where "reuse_prefix L ?r ?s = Some ((q, err), t)" and
    "(m, e') = (\<lparr>ar_id = adm_id ?a, ar_prompt_tokens = of_nat (length (rr_prompt q)), ar_error = err,
        ar_cached_prefix_tokens = rr_prefill_position q\<rparr>,
      if err = NoError then t\<lparr>env_requests := env_requests t @ [(adm_id ?a, q)]\<rparr>
      else t\<lparr>free_sequences := free_sequences t @ [rr_sequence q]\<rparr>)"
    using run init by (auto simp: start_request_def Let_def split: bind_splits)
  then have s: "env_requests ?s = env_requests e" "reuse_prefix L ?r ?s = Some ((q, NoError), t)"
    "ar_id m = adm_id ?a" "ar_prompt_tokens m = of_nat (length (rr_prompt q))"
    "ar_cached_prefix_tokens m = rr_prefill_position q" "e' = t\<lparr>env_requests := env_requests t @ [(adm_id ?a, q)]\<rparr>"
    using ok by auto
  have t: "env_requests t = env_requests e" "rr_prompt q = pa_prompt p" "rr_decoded_tokens q = 0"
    "unat (rr_prefill_position q) \<le> length (pa_prompt p)"
    using reuse_prefix_record [OF s(2)] s(1) n by simp_all
  have "map_of (env_requests e) (adm_id ?a) = None" using new by (simp add: map_of_eq_None_iff)
  then have "map_of (env_requests e') (ar_id m) = Some q" by (simp add: s(3,6) t(1) map_add_def)
  then show ?thesis using t s(4,5) n by (simp add: unat_of_nat32)
qed

section \<open>The properties\<close>

text \<open>
  An admission puts the two accounts in step: when the environment admits a request, the
  record it keeps agrees with what the scheduler makes of the report, for any request that is
  to produce a token and is admitted before a drain.
\<close>
theorem admission_establishes_agreement:
  assumes "start_request L p e = Some (m, e')" and "ar_error m = NoError"
    and "adm_id (pa_admission p) \<notin> fst ` set (env_requests e)" and "length (pa_prompt p) < 2 ^ 32"
    and "find_request (ar_id m) s = Some q" and "admission q = InFlight" and "stage q \<noteq> Terminal"
    and "\<not> draining s" and "decoded_count q = 0" and "max_output_tokens q \<noteq> 0"
  shows "\<exists>s' q' r. on_admission_result m s = (Inr (), s') \<and> find_request (ar_id m) s' = Some q' \<and>
    stage q' = PrefillStage \<and> map_of (env_requests e') (ar_id m) = Some r \<and> in_step q' r"
proof -
  obtain r where r: "map_of (env_requests e') (ar_id m) = Some r" "rr_decoded_tokens r = 0"
    "unat (rr_prefill_position r) \<le> length (rr_prompt r)" "unat (ar_prompt_tokens m) = length (rr_prompt r)"
    "ar_cached_prefix_tokens m = rr_prefill_position r"
    using start_request_record [OF assms(1-4)] by blast
  let ?f = "\<lambda>r. r\<lparr>admission := EnvironmentOwned, admission_succeeded := True, prompt_length := ar_prompt_tokens m,
     cached_prefix_tokens := ar_cached_prefix_tokens m, prefill_position := ar_cached_prefix_tokens m\<rparr>"
  let ?g = "\<lambda>r. r\<lparr>stage := PrefillStage\<rparr>"
  let ?s = "update_request (ar_id m) ?g (increment_active (update_request (ar_id m) ?f s))"
  have id: "req_id q = ar_id m" using find_request_SomeD [OF assms(5)] by simp
  have "draining (increment_active (update_request (ar_id m) ?f s)) = draining s"
    by (simp add: increment_active_def update_request_def)
  then have run: "on_admission_result m s = (Inr (), ?s)"
    using assms(2,5-8,10) by (simp add: on_admission_result_def id run_simps)
  have f: "find_request (ar_id m) ?s = Some (?g (?f q))" using assms(5) by (simp add: find_increment find_update_request)
  have "in_step (?g (?f q)) r" using r(2-5) assms(9,10)
    by (simp add: in_step_def is_schedulable_def word_neq_0_conv)
  then show ?thesis using run f r(1) by (intro exI [of _ ?s] exI [of _ "?g (?f q)"] exI [of _ r]) simp
qed

text \<open>Request 5 on both sides, before and after its admission.\<close>
definition waiting_request :: RequestState where
  "waiting_request = new_request\<lparr>req_id := 5, admission := InFlight, max_output_tokens := 3\<rparr>"

definition ready_request :: RequestState where
  "ready_request = new_request\<lparr>req_id := 5, stage := PrefillStage, admission := EnvironmentOwned,
     prompt_length := 2, max_output_tokens := 3\<rparr>"

definition demo_pending :: PendingAdmission where
  "demo_pending = \<lparr>pa_admission = demo_admission, pa_prompt = [1, 2], pa_error = NoError, pa_validated = True\<rparr>"

lemmas demo_sides = demo_scheduler_def new_scheduler_def waiting_request_def ready_request_def new_request_def
  demo_record_def demo_pending_def demo_admission_def demo_env_def

theorem admission_establishes_agreement_witness:
  "\<exists>e' s' q' r. start_request demo_llama demo_pending demo_env = Some (demo_report, e') \<and>
    on_admission_result demo_report (demo_scheduler\<lparr>live_requests := [waiting_request]\<rparr>) = (Inr (), s') \<and>
    find_request 5 s' = Some q' \<and> map_of (env_requests e') 5 = Some r \<and> in_step q' r"
proof -
  let ?s = "demo_scheduler\<lparr>live_requests := [waiting_request]\<rparr>"
  have m: "ar_id demo_report = 5" "ar_error demo_report = NoError" by (simp_all add: demo_report_def)
  obtain e' where e: "start_request demo_llama demo_pending demo_env = Some (demo_report, e')"
    by (auto simp: start_request_def reuse_prefix_def find_longest_full_prefix_def demo_llama_def demo_sides demo_report_def)
  have q: "find_request (ar_id demo_report) ?s = Some waiting_request"
    unfolding m by (simp add: find_request_def waiting_request_def)
  obtain s' q' r where "on_admission_result demo_report ?s = (Inr (), s')" "find_request (ar_id demo_report) s' = Some q'"
    "map_of (env_requests e') (ar_id demo_report) = Some r" "in_step q' r"
    using admission_establishes_agreement [OF e m(2) _ _ q] by (auto simp: demo_sides)
  then show ?thesis using e m by auto
qed

text \<open>
  C1. While the accounts agree the environment accepts every plan the scheduler validates,
  provided that the token budget is at most the batch capacity: no item is refused and every
  token has its row. Neither the scheduler nor the environment checks that condition; the
  benchmark refuses command lines that break it (\<open>benchmark_main.cpp\<close>), and without it a valid
  plan of more tokens than the capacity is refused.
\<close>
theorem environment_accepts_validated_plans:
  assumes "err_valid (validate_plan ws s)" and "env_reachable L e"
    and "unat (token_budget s) \<le> unat (batch_capacity (env_config e))"
    and "list_all (\<lambda>w. both_in_step s e (work_id w)) ws"
  shows "\<exists>rows items. build_batch (batch_capacity (env_config e)) (env_requests e) [] [] [] ws = Batch rows items \<and>
    length rows = sum_list (map item_tokens ws) \<and> (rows = [] \<longleftrightarrow> ws = [])"
proof -
  let ?cap = "batch_capacity (env_config e)"
  have plan: "distinct (map work_id ws)" "sum_list (map item_tokens ws) \<le> unat (token_budget s)"
    "\<And>w. w \<in> set ws \<Longrightarrow> \<exists>q. find_request (work_id w) s = Some q \<and> valid_item q w"
    using assms(1) by (auto simp: validate_plan_spec valid_plan_def)
  have small: "\<forall>(i, r) \<in> set (env_requests e). length (rr_prompt r) < 2 ^ 32"
    using env_reachable_ok [OF assms(2)] by (intro records_small) (simp add: env_ok_def)
  have one: "item_tokens w \<le> unat ?cap" "0 < item_tokens w" if "w \<in> set ws" for w
  proof -
    have "item_tokens w \<le> sum_list (map item_tokens ws)" using that by (intro member_le_sum_list) auto
    then show "item_tokens w \<le> unat ?cap" using plan(2) assms(3) by simp
    show "0 < item_tokens w" using plan(3) [OF that] by (auto simp: valid_item_def item_tokens_def)
  qed
  have fits: "\<exists>r. item_fits ?cap (env_requests e) [] 0 w r" if w: "w \<in> set ws" for w
  proof -
    obtain q where q: "find_request (work_id w) s = Some q" "valid_item q w" using plan(3) [OF w] by blast
    have "both_in_step s e (work_id w)" using assms(4) w by (simp add: list_all_iff)
    then obtain r where "map_of (env_requests e) (work_id w) = Some r" "in_step q r"
      using q(1) by (auto simp: both_in_step_def split: option.splits)
    then show ?thesis using in_step_item q(2) one(1) [OF w] by blast
  qed
  obtain rows items where b: "build_batch ?cap (env_requests e) [] [] [] ws = Batch rows items"
    using build_batch_accepts [OF small _ plan(1), where rows = "[]" and items = "[]" and seen = "[]" and capacity = ?cap]
      fits plan(2) assms(3) by fastforce
  then have n: "length rows = sum_list (map item_tokens ws)"
    using build_batch_result [OF small, where rows = "[]" and items = "[]" and seen = "[]" and ws = ws and capacity = ?cap] by simp
  have "ws \<noteq> [] \<Longrightarrow> rows \<noteq> []" using n one(2) by (cases ws) fastforce+
  then show ?thesis using b n by (cases ws) auto
qed

theorem environment_accepts_validated_plans_witness:
  "\<exists>e rows items. env_reachable demo_llama e \<and> build_batch (batch_capacity (env_config e)) (env_requests e) [] [] []
     [\<lparr>work_id = 5, token_begin = 0, token_end = 2, work_kind = Prefill\<rparr>] = Batch rows items \<and> length rows = 2"
proof -
  let ?s = "demo_scheduler\<lparr>live_requests := [ready_request]\<rparr>"
  let ?w = "\<lparr>work_id = 5, token_begin = 0, token_end = 2, work_kind = Prefill\<rparr>"
  obtain e where e: "env_reachable demo_llama e" "env_requests e = [(5, demo_record)]" "env_config e = demo_config"
    using demo_iteration env_reachable.iterated [OF demo_env_reachable] by blast
  have v: "err_valid (validate_plan [?w] ?s)"
    by (simp add: validate_plan_def find_request_def check_kind_def demo_sides Let_def word_le_nat_alt token_count_def
        u64_of_u32_def no_error_def)
  have n: "unat (token_budget ?s) \<le> unat (batch_capacity (env_config e))"
    by (simp add: e(3) demo_config_def demo_scheduler_def new_scheduler_def)
  have b: "list_all (\<lambda>w. both_in_step ?s e (work_id w)) [?w]"
    by (simp add: both_in_step_def find_request_def e(2) in_step_def demo_sides is_schedulable_def)
  from environment_accepts_validated_plans [OF v e(1) n b] e(1) show ?thesis
    by (auto simp: item_tokens_def)
qed

text \<open>
  C2. A completion keeps the accounts in step: after the environment has executed a validated
  work item and the scheduler has handled the completion it sent, both have the same prefill
  position and the same token count again, and the request asks for another token only below
  its limit, so that the 32-bit counts never wrap.
\<close>
theorem completion_keeps_agreement:
  assumes "find_request (work_id w) s = Some q" and "admission q = EnvironmentOwned" and "valid_item q w"
    and "map_of (env_requests e) (work_id w) = Some r" and "in_step q r"
    and "report_item L (w, row) e = Some (True, e')" and "last (sent e') = CompletionReport c"
    and "on_completion pol c s = (Inr (), s')"
  shows "find_request (work_id w) s' \<noteq> None \<and> both_in_step s' e' (work_id w)"
proof -
  obtain c' r' where x: "last (sent e') = CompletionReport c'" "map_of (env_requests e') (work_id w) = Some r'"
    "rr_prompt r' = rr_prompt r" "cmp_id c' = work_id w"
    "rr_prefill_position r' = (if work_kind w = Prefill then token_end w else rr_prefill_position r)"
    "cmp_prefill_position c' = (if work_kind w = Prefill then token_end w else of_nat (length (rr_prompt r)))"
    "rr_decoded_tokens r' = rr_decoded_tokens r + (if row = None then 0 else 1)"
    "cmp_decoded_tokens c' = rr_decoded_tokens r'"
    using report_item_completion [OF assms(4,6)] by blast
  have c: "c' = c" using x(1) assms(7) by simp
  have live: "stage q \<noteq> Terminal" using assms(3) by (auto simp: valid_item_def split: WorkKind.splits)
  let ?f = "completed (current_time s) c (cmp_decoded_tokens c > decoded_count q)"
  have "Scheduler_Keep.core s' = Scheduler_Keep.core (update_request (work_id w) ?f s)"
    using on_completion_cases [of c s q, OF _ assms(2) live assms(8)] assms(1) x(4) c by auto
  then have "live_requests s' = live_requests (update_request (work_id w) ?f s)" by (simp add: Scheduler_Keep.core_def)
  then have "find_request (work_id w) s' = find_request (work_id w) (update_request (work_id w) ?f s)"
    by (simp add: find_request_def)
  also have "\<dots> = Some (?f q)" using assms(1) by (subst find_update_request) (simp_all only: completed_id option.map)
  finally have f: "find_request (work_id w) s' = Some (?f q)" .
  have "in_step (?f q) r'" using completed_in_step [OF assms(5,3) x(3,5,7)] x(6,8) c by simp
  then show ?thesis using f x(2) by (simp add: both_in_step_def)
qed

theorem completion_keeps_agreement_witness:
  "\<exists>e' c s'. report_item demo_llama (\<lparr>work_id = 5, token_begin = 0, token_end = 1, work_kind = Prefill\<rparr>, None)
      (demo_env\<lparr>env_requests := [(5, demo_record)]\<rparr>) = Some (True, e') \<and> last (sent e') = CompletionReport c \<and>
    on_completion idle_policy c (demo_scheduler\<lparr>live_requests := [ready_request]\<rparr>) = (Inr (), s') \<and>
    both_in_step s' e' 5"
proof -
  let ?s = "demo_scheduler\<lparr>live_requests := [ready_request]\<rparr>"
  let ?w = "\<lparr>work_id = 5, token_begin = 0, token_end = 1, work_kind = Prefill\<rparr>"
  let ?e = "demo_env\<lparr>env_requests := [(5, demo_record)]\<rparr>"
  let ?u = "update_record 5 (\<lambda>r. r\<lparr>rr_prefill_position := 1\<rparr>) ?e"
  let ?c = "item_completion ?w (record_of 5 ?u)"
  have "finish_prefill demo_llama ?w ?e = Some ?u"
    by (simp add: finish_prefill_def record_of_def update_record_def demo_sides prompt_size_def u64_of_u32_def)
  moreover have a: "fst (access (push_message (CompletionReport ?c)) ?u)"
    by (simp add: access_def update_record_def demo_env_def demo_others_def demo_channels_def try_admit_def
        try_report_completion_def notify_scheduler_progress_def try_push_def empty_ring_def word_le_nat_alt split: prod.splits)
  ultimately obtain e' where e: "report_item demo_llama (?w, None) ?e = Some (True, e')" "last (sent e') = CompletionReport ?c"
    by (simp add: report_item_def send_now [OF a])
  have q: "find_request (work_id ?w) ?s = Some ready_request" "admission ready_request = EnvironmentOwned"
    "valid_item ready_request ?w" "map_of (env_requests ?e) (work_id ?w) = Some demo_record" "in_step ready_request demo_record"
    by (simp_all add: find_request_def valid_item_def in_step_def is_schedulable_def demo_sides)
  obtain s' where s: "on_completion idle_policy ?c ?s = (Inr (), s')"
    by (simp add: on_completion_def find_request_def item_completion_def record_of_def update_record_def demo_sides
        run_simps then_op_def bind_op_def)
  from completion_keeps_agreement [OF q e s] e s show ?thesis by auto
qed

end
