(* ===== verification/Sha256.thy ===== *)
theory Sha256
  imports Prelude
begin

text \<open>
  The incremental SHA-256 of \<open>src/benchmark/trace.cpp\<close> (class \<open>Sha256\<close>, \<open>hex\<close>, \<open>sha256_hex\<close>) and
  its equivalence with the definition of the standard, which pads the whole message and
  compresses its blocks in order. A byte is a \<open>u8\<close>; \<open>size_t\<close> counts are natural numbers.
\<close>

section \<open>The compression function\<close>

definition rotr :: "u32 \<Rightarrow> nat \<Rightarrow> u32" where
  "rotr x n = drop_bit n x OR push_bit (32 - n) x"

text \<open>The constants, eight to a 256-bit row with the first one on top.\<close>
definition row_words :: "256 word \<Rightarrow> u32 list" where
  "row_words row = map (\<lambda>i. ucast (drop_bit (224 - i * 32) row)) [0..<8]"

definition sha_k :: "u32 list" where
  "sha_k = concat (map row_words [
     0x428a2f9871374491b5c0fbcfe9b5dba53956c25b59f111f1923f82a4ab1c5ed5,
     0xd807aa9812835b01243185be550c7dc372be5d7480deb1fe9bdc06a7c19bf174,
     0xe49b69c1efbe47860fc19dc6240ca1cc2de92c6f4a7484aa5cb0a9dc76f988da,
     0x983e5152a831c66db00327c8bf597fc7c6e00bf3d5a7914706ca635114292967,
     0x27b70a852e1b21384d2c6dfc53380d13650a7354766a0abb81c2c92e92722c85,
     0xa2bfe8a1a81a664bc24b8b70c76c51a3d192e819d6990624f40e3585106aa070,
     0x19a4c1161e376c082748774c34b0bcb5391c0cb34ed8aa4a5b9cca4f682e6ff3,
     0x748f82ee78a5636f84c878148cc7020890befffaa4506cebbef9a3f7c67178f2])"

definition sha_iv :: "u32 list" where
  "sha_iv = [0x6a09e667,0xbb67ae85,0x3c6ef372,0xa54ff53a,0x510e527f,0x9b05688c,0x1f83d9ab,0x5be0cd19]"

text \<open>The first 16 words of the schedule are the block, big endian; the other 48 are computed.\<close>
definition block_word :: "u8 list \<Rightarrow> nat \<Rightarrow> u32" where
  "block_word block i =
     push_bit 24 (ucast (block ! (i * 4))) OR push_bit 16 (ucast (block ! (i * 4 + 1))) OR
     push_bit 8 (ucast (block ! (i * 4 + 2))) OR ucast (block ! (i * 4 + 3))"

definition schedule_word :: "nat \<Rightarrow> u32 list \<Rightarrow> u32 list" where
  "schedule_word i w =
     (let s0 = rotr (w ! (i - 15)) 7 XOR rotr (w ! (i - 15)) 18 XOR drop_bit 3 (w ! (i - 15));
          s1 = rotr (w ! (i - 2)) 17 XOR rotr (w ! (i - 2)) 19 XOR drop_bit 10 (w ! (i - 2)) in
      w[i := w ! (i - 16) + s0 + w ! (i - 7) + s1])"

definition schedule :: "u8 list \<Rightarrow> u32 list" where
  "schedule block =
     fold schedule_word [16..<64] (fold (\<lambda>i w. w[i := block_word block i]) [0..<16] (replicate 64 0))"

type_synonym sha_vars = "u32 \<times> u32 \<times> u32 \<times> u32 \<times> u32 \<times> u32 \<times> u32 \<times> u32"

definition sha_round :: "u32 list \<Rightarrow> nat \<Rightarrow> sha_vars \<Rightarrow> sha_vars" where
  "sha_round w i = (\<lambda>(a, b, c, d, e, f, g, h).
     let s1 = rotr e 6 XOR rotr e 11 XOR rotr e 25;
         ch = (e AND f) XOR (NOT e AND g);
         t1 = h + s1 + ch + sha_k ! i + w ! i;
         s0 = rotr a 2 XOR rotr a 13 XOR rotr a 22;
         maj = (a AND b) XOR (a AND c) XOR (b AND c);
         t2 = s0 + maj in
     (t1 + t2, a, b, c, d + t1, e, f, g))"

text \<open>\<open>transform\<close>: the new state from the old one and the block.\<close>
definition transform :: "u32 list \<Rightarrow> u8 list \<Rightarrow> u32 list" where
  "transform st block =
     (let w = schedule block;
          (a, b, c, d, e, f, g, h) = fold (sha_round w) [0..<64]
            (st ! 0, st ! 1, st ! 2, st ! 3, st ! 4, st ! 5, st ! 6, st ! 7) in
      [st ! 0 + a, st ! 1 + b, st ! 2 + c, st ! 3 + d, st ! 4 + e, st ! 5 + f, st ! 6 + g, st ! 7 + h])"

section \<open>The incremental object\<close>

record Sha256 =
  sha_state :: "u32 list"
  sha_block :: "u8 list"
  sha_used :: nat
  sha_bits :: u64

definition sha_new :: Sha256 where
  "sha_new = \<lparr>sha_state = sha_iv, sha_block = replicate 64 0, sha_used = 0, sha_bits = 0\<rparr>"

text \<open>One pass of the copying loop, for the first \<open>n\<close> bytes of the data.\<close>
definition absorb :: "nat \<Rightarrow> u8 list \<Rightarrow> Sha256 \<Rightarrow> Sha256" where
  "absorb n data h =
     (let block = take (sha_used h) (sha_block h) @ take n data @ drop (sha_used h + n) (sha_block h);
          used = sha_used h + n in
      if used = length block
      then h\<lparr>sha_block := block, sha_state := transform (sha_state h) block, sha_used := 0\<rparr>
      else h\<lparr>sha_block := block, sha_used := used\<rparr>)"

text \<open>The loop itself; it would not end if the block were full already.\<close>
partial_function (option) update_loop :: "u8 list \<Rightarrow> Sha256 \<Rightarrow> Sha256 option" where
  "update_loop data h =
     (if data = [] then Some h
      else let n = min (length data) (length (sha_block h) - sha_used h) in
        update_loop (drop n data) (absorb n data h))"

declare update_loop.simps [code]

definition sha_update :: "u8 list \<Rightarrow> Sha256 \<Rightarrow> Sha256 option" where
  "sha_update data h = update_loop data (h\<lparr>sha_bits := sha_bits h + of_nat (length data) * 8\<rparr>)"

text \<open>\<open>std::fill\<close> with zeros from \<open>from\<close> to \<open>to\<close>.\<close>
definition fill_zero :: "nat \<Rightarrow> nat \<Rightarrow> u8 list \<Rightarrow> u8 list" where
  "fill_zero from to block = take from block @ replicate (to - from) 0 @ drop to block"

definition sha_finish :: "Sha256 \<Rightarrow> u8 list" where
  "sha_finish h =
     (let block = (sha_block h)[sha_used h := 0x80];
          used = sha_used h + 1;
          (block, st, used) =
            (if used > 56
             then (fill_zero used (length block) block,
                   transform (sha_state h) (fill_zero used (length block) block), 0)
             else (block, sha_state h, used));
          block = fill_zero used 56 block;
          block = fold (\<lambda>i b. b[63 - i := ucast (drop_bit (i * 8) (sha_bits h))]) [0..<8] block;
          st = transform st block in
      concat (map (\<lambda>i. map (\<lambda>j. ucast (drop_bit (24 - j * 8) (st ! i))) [0..<4]) [0..<length st]))"

text \<open>\<open>hex\<close>: two lower-case digits for each byte.\<close>
definition hex_digit :: "nat \<Rightarrow> char" where
  "hex_digit n = ''0123456789abcdef'' ! n"

definition hex :: "u8 list \<Rightarrow> string" where
  "hex digest = concat (map (\<lambda>b. [hex_digit (unat b div 16), hex_digit (unat b mod 16)]) digest)"

text \<open>The bytes of a C++ string.\<close>
definition bytes_of :: "string \<Rightarrow> u8 list" where
  "bytes_of s = map (\<lambda>c. of_nat (of_char c)) s"

definition sha256_hex :: "string \<Rightarrow> string option" where
  "sha256_hex s = map_option (\<lambda>h. hex (sha_finish h)) (sha_update (bytes_of s) sha_new)"

section \<open>The standard\<close>

text \<open>Whole blocks of a list; the length is a multiple of 64 where this is used.\<close>
fun blocks :: "u8 list \<Rightarrow> u8 list list" where
  "blocks [] = []"
| "blocks (x # xs) = take 64 (x # xs) # blocks (drop 64 (x # xs))"

definition big_endian :: "u64 \<Rightarrow> u8 list" where
  "big_endian n = map (\<lambda>i. ucast (drop_bit (8 * i) n)) (rev [0..<8])"

text \<open>A one bit, zeros up to eight bytes before a block boundary, and the length in bits.\<close>
definition padded :: "u8 list \<Rightarrow> u8 list" where
  "padded m = m @ [0x80] @ replicate ((119 - length m mod 64) mod 64) 0 @ big_endian (of_nat (8 * length m))"

definition sha256_standard :: "u8 list \<Rightarrow> u8 list" where
  "sha256_standard m =
     concat (map (\<lambda>x. map (\<lambda>j. ucast (drop_bit j x)) [24, 16, 8, 0]) (foldl transform sha_iv (blocks (padded m))))"

section \<open>Absorbing\<close>

text \<open>The object after hashing \<open>m\<close>: full blocks \<open>bs\<close> compressed, the rest in the buffer.\<close>
definition buffered :: "Sha256 \<Rightarrow> u8 list \<Rightarrow> u8 list list \<Rightarrow> bool" where
  "buffered h m bs \<longleftrightarrow> m = concat bs @ take (sha_used h) (sha_block h) \<and> (\<forall>b \<in> set bs. length b = 64) \<and>
     sha_state h = foldl transform sha_iv bs \<and> length (sha_block h) = 64 \<and> sha_used h < 64"

definition hashed :: "Sha256 \<Rightarrow> u8 list \<Rightarrow> bool" where
  "hashed h m \<longleftrightarrow> (\<exists>bs. buffered h m bs) \<and> sha_bits h = of_nat (8 * length m)"

lemma hashed_new: "hashed sha_new []"
  by (auto simp: hashed_def buffered_def sha_new_def intro: exI [of _ "[]"])

lemma buffered_bits [simp]: "buffered (h\<lparr>sha_bits := n\<rparr>) m bs = buffered h m bs"
  by (simp add: buffered_def)

lemma absorb_bits [simp]: "sha_bits (absorb n data h) = sha_bits h"
  by (simp add: absorb_def Let_def)

lemma buffered_absorb:
  assumes h: "buffered h m bs" and n: "n \<le> length data" "sha_used h + n \<le> 64"
  shows "\<exists>bs. buffered (absorb n data h) (m @ take n data) bs"
proof -
  have bs: "m = concat bs @ take (sha_used h) (sha_block h)" "\<forall>b \<in> set bs. length b = 64"
    "sha_state h = foldl transform sha_iv bs" and len: "length (sha_block h) = 64" "sha_used h < 64"
    using h by (simp_all add: buffered_def)
  define block where "block = take (sha_used h) (sha_block h) @ take n data @ drop (sha_used h + n) (sha_block h)"
  have l: "length block = 64" using len n by (simp add: block_def)
  have t: "take (sha_used h + n) block = take (sha_used h) (sha_block h) @ take n data"
    using len n by (simp add: block_def)
  have a: "absorb n data h = (if sha_used h + n = length block
      then h\<lparr>sha_block := block, sha_state := transform (sha_state h) block, sha_used := 0\<rparr>
      else h\<lparr>sha_block := block, sha_used := sha_used h + n\<rparr>)"
    by (simp only: absorb_def block_def Let_def)
  show ?thesis
  proof (cases "sha_used h + n = 64")
    case True
    then have "absorb n data h = h\<lparr>sha_block := block, sha_state := transform (sha_state h) block, sha_used := 0\<rparr>"
      using l by (simp add: a)
    then have "buffered (absorb n data h) (m @ take n data) (bs @ [block])"
      using t True l bs by (simp add: buffered_def)
    then show ?thesis by blast
  next
    case False
    then have "absorb n data h = h\<lparr>sha_block := block, sha_used := sha_used h + n\<rparr>"
      using l by (simp add: a)
    then have "buffered (absorb n data h) (m @ take n data) bs"
      using t False n(2) l bs by (simp add: buffered_def)
    then show ?thesis by blast
  qed
qed

lemma update_loop_hashes:
  "buffered h m bs \<Longrightarrow> \<exists>h' bs. update_loop data h = Some h' \<and> buffered h' (m @ data) bs \<and> sha_bits h' = sha_bits h"
proof (induction "length data" arbitrary: data h m bs rule: less_induct)
  case less
  show ?case
  proof (cases "data = []")
    case True
    then show ?thesis using less.prems by (subst update_loop.simps) auto
  next
    case False
    let ?n = "min (length data) (length (sha_block h) - sha_used h)"
    have "sha_used h < 64" "length (sha_block h) = 64" using less.prems by (simp_all add: buffered_def)
    then have n: "?n \<le> length data" "sha_used h + ?n \<le> 64" "0 < ?n" using False by auto
    obtain bs' where "buffered (absorb ?n data h) (m @ take ?n data) bs'"
      using buffered_absorb [OF less.prems n(1,2)] by blast
    from less.hyps [OF _ this, of "drop ?n data"] n(3)
    obtain h' bs where "update_loop (drop ?n data) (absorb ?n data h) = Some h'"
      "buffered h' ((m @ take ?n data) @ drop ?n data) bs" "sha_bits h' = sha_bits h"
      using False by auto
    then show ?thesis using False by (subst update_loop.simps) (auto simp: Let_def)
  qed
qed

lemma sha_update_hashes: "hashed h m \<Longrightarrow> \<exists>h'. sha_update data h = Some h' \<and> hashed h' (m @ data)"
proof -
  assume h: "hashed h m"
  then obtain bs where "buffered (h\<lparr>sha_bits := sha_bits h + of_nat (length data) * 8\<rparr>) m bs" by (auto simp: hashed_def)
  from update_loop_hashes [OF this, of data] h show ?thesis
    by (auto simp: sha_update_def hashed_def algebra_simps)
qed

section \<open>Finishing\<close>

lemma blocks_concat: "\<forall>b \<in> set bs. length b = 64 \<Longrightarrow> blocks (concat bs) = bs"
proof (induction bs)
  case (Cons b bs)
  then have "b \<noteq> []" by auto
  then obtain x xs where "b @ concat bs = x # xs" by (cases b) auto
  then have "blocks (b @ concat bs) = take 64 (b @ concat bs) # blocks (drop 64 (b @ concat bs))" by simp
  then show ?case using Cons by simp
qed simp

lemma eight_elements: "length ys = 8 \<Longrightarrow> \<exists>a b c d e f g h. ys = [a, b, c, d, e, f, g, h]"
  by (auto simp: numeral_eq_Suc length_Suc_conv)

lemma write_length:
  assumes "length block = 64"
  shows "fold (\<lambda>i b. b[63 - i := ucast (drop_bit (i * 8) n)]) [0..<8] block = take 56 block @ big_endian n"
proof -
  have "block = take 56 block @ drop 56 block" by simp
  moreover obtain a b c d e f g h where "drop 56 block = [a, b, c, d, e, f, g, h]"
    using eight_elements [of "drop 56 block"] assms by auto
  ultimately have b: "block = take 56 block @ [a, b, c, d, e, f, g, h]" by simp
  have l: "length (take 56 block) = 56" using assms by simp
  show ?thesis using l by (subst b) (simp add: upt_rec big_endian_def list_update_append)
qed

lemma length_big_endian [simp]: "length (big_endian n) = 8"
  by (simp add: big_endian_def)

lemma fill_zero_take: "from \<le> to \<Longrightarrow> to \<le> length block \<Longrightarrow>
    take to (fill_zero from to block) = take from block @ replicate (to - from) 0"
  by (simp add: fill_zero_def)

lemma length_fill_zero [simp]: "from \<le> to \<Longrightarrow> to \<le> length block \<Longrightarrow> length (fill_zero from to block) = length block"
  by (simp add: fill_zero_def)

lemma digest_bytes:
  assumes "length st = 8"
  shows "concat (map (\<lambda>i. map (\<lambda>j. ucast (drop_bit (24 - j * 8) (st ! i))) [0..<4]) [0..<8]) =
    concat (map (\<lambda>x. map (\<lambda>j. ucast (drop_bit j x)) [24, 16, 8, 0]) st)" (is "concat ?l = concat ?r")
proof -
  have four: "[0..<4] = [0, 1, 2, 3 :: nat]" by (simp add: upt_rec)
  have "?l = ?r" unfolding four by (rule nth_equalityI) (simp_all add: assms)
  then show ?thesis by simp
qed

lemma length_transform [simp]: "length (transform st block) = 8"
  by (simp add: transform_def Let_def split: prod.splits)

text \<open>Both ways of padding, with and without a further block, give the padded message.\<close>
lemma finish_blocks:
  assumes "hashed h m"
  shows "sha_finish h = sha256_standard m"
proof -
  obtain bs where bs: "m = concat bs @ take (sha_used h) (sha_block h)" "\<forall>b \<in> set bs. length b = 64"
    "sha_state h = foldl transform sha_iv bs" and len: "length (sha_block h) = 64" "sha_used h < 64"
    and bits: "sha_bits h = of_nat (8 * length m)"
    using assms by (auto simp: hashed_def buffered_def)
  let ?u = "sha_used h" and ?n = "sha_bits h"
  define block where "block = (sha_block h)[?u := 0x80]"
  have b: "length block = 64" "take (Suc ?u) block = take ?u (sha_block h) @ [0x80]"
    using len by (simp_all add: block_def take_Suc_conv_app_nth)
  have "length (concat bs) mod 64 = 0" using bs(2) by (induction bs) auto
  moreover have "length m = length (concat bs) + ?u" using len by (subst bs(1)) simp
  ultimately have r: "length m mod 64 = ?u" using len(2) by (metis add_0 mod_add_left_eq mod_less)
  have "\<exists>more. (\<forall>b \<in> set more. length b = 64) \<and> padded m = concat (bs @ more) \<and>
      sha_finish h = concat (map (\<lambda>x. map (\<lambda>j. ucast (drop_bit j x)) [24, 16, 8, 0]) (foldl transform (sha_state h) more))"
  proof (cases "?u + 1 > 56")
    case True
    let ?one = "fill_zero (?u + 1) 64 block"
    let ?two = "replicate 56 0 @ big_endian ?n"
    have z: "(119 - ?u) mod 64 = (64 - (?u + 1)) + 56" using True len(2) by (simp add: mod_if)
    have one: "?one = take ?u (sha_block h) @ [0x80] @ replicate (64 - (?u + 1)) 0"
      using b len(2) by (simp add: fill_zero_def)
    have "padded m = concat (bs @ [?one, ?two])"
      unfolding padded_def r z replicate_add bits [symmetric] one by (subst bs(1)) simp
    moreover have "take 56 (fill_zero 0 56 ?one) = replicate 56 0" using b len(2) by (simp add: fill_zero_def)
    then have "fold (\<lambda>i b. b[63 - i := ucast (drop_bit (i * 8) ?n)]) [0..<8] (fill_zero 0 56 ?one) = ?two"
      using b len by (subst write_length) (simp_all add: fill_zero_def)
    then have "sha_finish h = concat (map (\<lambda>x. map (\<lambda>j. ucast (drop_bit j x)) [24, 16, 8, 0])
        (foldl transform (sha_state h) [?one, ?two]))"
      using True b(1) by (simp add: sha_finish_def Let_def digest_bytes [simplified] flip: block_def)
    moreover have "\<forall>b \<in> set [?one, ?two]. length b = 64" using b len by (simp add: fill_zero_def)
    ultimately show ?thesis by blast
  next
    case False
    let ?one = "take ?u (sha_block h) @ [0x80] @ replicate (56 - (?u + 1)) 0 @ big_endian ?n"
    have z: "(119 - ?u) mod 64 = 56 - (?u + 1)" using False by (simp add: mod_if)
    have "padded m = concat (bs @ [?one])"
      unfolding padded_def r z bits [symmetric] by (subst bs(1)) simp
    moreover have "fold (\<lambda>i b. b[63 - i := ucast (drop_bit (i * 8) ?n)]) [0..<8] (fill_zero (?u + 1) 56 block) = ?one"
      using b False by (subst write_length) (simp_all add: fill_zero_take)
    then have "sha_finish h = concat (map (\<lambda>x. map (\<lambda>j. ucast (drop_bit j x)) [24, 16, 8, 0])
        (foldl transform (sha_state h) [?one]))"
      using False by (simp add: sha_finish_def Let_def digest_bytes [simplified] flip: block_def)
    moreover have "\<forall>b \<in> set [?one]. length b = 64" using len False by simp
    ultimately show ?thesis by blast
  qed
  then obtain more where "\<forall>b \<in> set (bs @ more). length b = 64" "padded m = concat (bs @ more)"
    "sha_finish h = concat (map (\<lambda>x. map (\<lambda>j. ucast (drop_bit j x)) [24, 16, 8, 0]) (foldl transform (sha_state h) more))"
    using bs(2) by auto
  then show ?thesis using blocks_concat [of "bs @ more"] by (simp add: sha256_standard_def bs(3))
qed

text \<open>
  C30. Hashing incrementally gives the SHA-256 of the standard: however the bytes are split over
  calls of \<open>update\<close>, the copying loop ends and the digest is that of the padded message.
\<close>
theorem sha256_incremental:
  "case fold (\<lambda>part h. Option.bind h (sha_update part)) parts (Some sha_new) of
     None \<Rightarrow> False
   | Some h \<Rightarrow> sha_finish h = sha256_standard (concat parts)"
proof -
  have "\<exists>h'. fold (\<lambda>part h. Option.bind h (sha_update part)) parts (Some h) = Some h' \<and> hashed h' (m @ concat parts)"
    if "hashed h m" for h m
    using that
  proof (induction parts arbitrary: h m)
    case (Cons part parts)
    obtain h' where "sha_update part h = Some h'" "hashed h' (m @ part)" using sha_update_hashes [OF Cons.prems] by blast
    with Cons.IH [of h' "m @ part"] show ?case by simp
  qed simp
  from this [OF hashed_new] show ?thesis using finish_blocks by auto
qed

lemma sha256_hex_standard: "sha256_hex s = Some (hex (sha256_standard (bytes_of s)))"
  using sha_update_hashes [OF hashed_new, of "bytes_of s"] finish_blocks by (auto simp: sha256_hex_def)

end
