(* ===== verification/Trace_Text.thy ===== *)
theory Trace_Text
  imports Prelude "HOL-Library.Signed_Division"
begin

text \<open>
  The text side of \<open>src/benchmark/trace.cpp\<close>: lines, fields, counts and timestamps of the source
  CSV. A \<open>std::string\<close> is a list of characters; positions are natural numbers. The errors are
  the exceptions of the code, with their messages.
\<close>

text \<open>Sequencing of computations that may throw.\<close>
definition sbind :: "exn + 'a \<Rightarrow> ('a \<Rightarrow> exn + 'b) \<Rightarrow> exn + 'b" where
  "sbind m k = (case m of Inl e \<Rightarrow> Inl e | Inr x \<Rightarrow> k x)"

lemma sbind_simps [simp]: "sbind (Inl e) k = Inl e" "sbind (Inr x) k = k x"
  by (simp_all add: sbind_def)

lemma sbind_Inr: "sbind m k = Inr y \<longleftrightarrow> (\<exists>x. m = Inr x \<and> k x = Inr y)"
  by (cases m) simp_all

section \<open>Digits\<close>

definition is_digit :: "char \<Rightarrow> bool" where
  "is_digit c \<longleftrightarrow> of_char (CHR ''0'') \<le> (of_char c :: nat) \<and> (of_char c :: nat) \<le> of_char (CHR ''9'')"

definition digit_value :: "char \<Rightarrow> int" where
  "digit_value c = of_char c - of_char (CHR ''0'')"

lemma digit_value_nonneg: "is_digit c \<Longrightarrow> 0 \<le> digit_value c"
proof -
  assume "is_digit c"
  then have "48 \<le> (of_char c :: nat)" by (simp add: is_digit_def)
  then have "int 48 \<le> int (of_char c)" by (simp only: of_nat_le_iff)
  then show ?thesis unfolding of_nat_of_char by (simp add: digit_value_def)
qed

fun digits_loop :: "int \<Rightarrow> string \<Rightarrow> int option" where
  "digits_loop v [] = Some v"
| "digits_loop v (c # cs) = (if is_digit c then digits_loop (v * 10 + digit_value c) cs else None)"

definition parse_digits :: "string \<Rightarrow> nat \<Rightarrow> nat \<Rightarrow> exn + int" where
  "parse_digits s pos n =
     (if pos + n > length s then Inl (Runtime_error ''invalid timestamp'')
      else case digits_loop 0 (take n (drop pos s)) of
        None \<Rightarrow> Inl (Runtime_error ''invalid timestamp'')
      | Some v \<Rightarrow> Inr v)"

text \<open>\<open>std::from_chars\<close> over the whole view, into 64 bits, and the checks on its result.\<close>
definition parse_count :: "string \<Rightarrow> exn + u32" where
  "parse_count s =
     (case digits_loop 0 s of
        None \<Rightarrow> Inl (Runtime_error ''invalid token count'')
      | Some v \<Rightarrow>
          if s = [] \<or> v > 2 ^ 64 - 1 \<or> v = 0 \<or> v > 2 ^ 32 - 1 then Inl (Runtime_error ''invalid token count'')
          else Inr (of_int v))"

section \<open>Dates\<close>

definition days_from_civil :: "int \<Rightarrow> u32 \<Rightarrow> u32 \<Rightarrow> int" where
  "days_from_civil y0 m d =
     (let y = y0 - (if m \<le> 2 then 1 else 0);
          era = (if y \<ge> 0 then y else y - 399) sdiv 400;
          yoe = (of_int (y - era * 400) :: u32);
          doy = (153 * (m + (if m > 2 then -3 else 9)) + 2) div 5 + d - 1;
          doe = yoe * 365 + yoe div 4 - yoe div 100 + doy in
      era * 146097 + uint doe - 719468)"

definition leap :: "int \<Rightarrow> bool" where
  "leap y \<longleftrightarrow> y smod 4 = 0 \<and> (y smod 100 \<noteq> 0 \<or> y smod 400 = 0)"

definition month_lengths :: "int \<Rightarrow> int list" where
  "month_lengths y = [31, 28 + (if leap y then 1 else 0), 31, 30, 31, 30, 31, 31, 30, 31, 30, 31]"

section \<open>Timestamps\<close>

function fraction_loop :: "string \<Rightarrow> nat \<Rightarrow> nat \<Rightarrow> int \<Rightarrow> int \<times> nat" where
  "fraction_loop s start p frac =
     (if p < length s \<and> is_digit (s ! p) \<and> p - start < 9
      then fraction_loop s start (p + 1) (frac * 10 + digit_value (s ! p))
      else (frac, p))"
  by auto
termination by (relation "measure (\<lambda>(s, start, p, frac). length s - p)") auto

declare fraction_loop.simps [simp del]

definition parse_fraction :: "string \<Rightarrow> nat \<Rightarrow> exn + int \<times> nat" where
  "parse_fraction s p =
     (if p < length s \<and> s ! p = CHR ''.''
      then
        (let start = p + 1;
             (frac, q) = fraction_loop s start start 0;
             digits = q - start in
         if digits = 0 \<or> (q < length s \<and> is_digit (s ! q))
         then Inl (Runtime_error ''invalid timestamp precision'')
         else Inr (frac * 10 ^ (9 - digits), q))
      else Inr (0, p))"

definition parse_zone :: "string \<Rightarrow> nat \<Rightarrow> exn + int \<times> nat" where
  "parse_zone s p =
     (if p < length s \<and> s ! p = CHR ''Z'' then Inr (0, p + 1)
      else if p + 6 = length s \<and> (s ! p = CHR ''+'' \<or> s ! p = CHR ''-'') \<and> s ! (p + 3) = CHR '':''
      then
        sbind (parse_digits s (p + 1) 2) (\<lambda>oh.
        sbind (parse_digits s (p + 4) 2) (\<lambda>om.
          if oh > 23 \<or> om > 59 then Inl (Runtime_error ''invalid timezone'')
          else Inr ((oh * 60 + om) * 60 * (if s ! p = CHR ''+'' then 1 else - 1), p + 6)))
      else Inl (Runtime_error ''timestamp timezone required''))"

text \<open>The checks of the date and time of day.\<close>
definition valid_date :: "int \<Rightarrow> int \<Rightarrow> int \<Rightarrow> int \<Rightarrow> int \<Rightarrow> int \<Rightarrow> bool" where
  "valid_date y mo d hh mm ss \<longleftrightarrow>
     \<not> (mo < 1 \<or> mo > 12 \<or> d < 1 \<or> d > month_lengths y ! nat (mo - 1) \<or> hh > 23 \<or> mm > 59 \<or> ss > 59)"

text \<open>The nanosecond count, computed in 128 bits.\<close>
definition timestamp_ns :: "int \<Rightarrow> int \<Rightarrow> int \<Rightarrow> int \<Rightarrow> int \<Rightarrow> int \<Rightarrow> int \<Rightarrow> int \<Rightarrow> int" where
  "timestamp_ns y mo d hh mm ss offset frac =
     (days_from_civil y (of_int mo) (of_int d) * 86400 + hh * 3600 + mm * 60 + ss - offset) * 1000000000 + frac"

definition parse_timestamp :: "string \<Rightarrow> exn + u64" where
  "parse_timestamp s =
     (if length s < 20 \<or> s ! 4 \<noteq> CHR ''-'' \<or> s ! 7 \<noteq> CHR ''-'' \<or> s ! 10 \<noteq> CHR '' '' \<or>
         s ! 13 \<noteq> CHR '':'' \<or> s ! 16 \<noteq> CHR '':''
      then Inl (Runtime_error ''invalid timestamp'')
      else
        sbind (parse_digits s 0 4) (\<lambda>y. sbind (parse_digits s 5 2) (\<lambda>mo. sbind (parse_digits s 8 2) (\<lambda>d.
        sbind (parse_digits s 11 2) (\<lambda>hh. sbind (parse_digits s 14 2) (\<lambda>mm. sbind (parse_digits s 17 2) (\<lambda>ss.
          if \<not> valid_date y mo d hh mm ss then Inl (Runtime_error ''invalid timestamp'')
          else
            sbind (parse_fraction s 19) (\<lambda>(frac, p). sbind (parse_zone s p) (\<lambda>(offset, p).
              if p \<noteq> length s then Inl (Runtime_error ''invalid timestamp'')
              else
                let ns = timestamp_ns y mo d hh mm ss offset frac in
                if ns < - (2 ^ 63) \<or> ns > 2 ^ 63 - 1 then Inl (Runtime_error ''timestamp out of range'')
                else Inr (of_int ns))))))))))"

section \<open>Lines and fields\<close>

abbreviation newline :: char where "newline \<equiv> CHR 0x0A"
abbreviation carriage_return :: char where "carriage_return \<equiv> CHR 0x0D"

text \<open>
  \<open>std::getline\<close> on what is left of the stream: the line, the rest, and whether it ended at the
  end of the file rather than at a newline. Nothing left is the failure that ends the loop.
\<close>
definition getline :: "string \<Rightarrow> (string \<times> string \<times> bool) option" where
  "getline input =
     (if input = [] then None
      else let line = takeWhile (\<lambda>c. c \<noteq> newline) input in
        Some (line, drop (length line + 1) input, length line = length input))"

text \<open>\<open>if (!line.empty() && line.back() == '\r') line.pop_back()\<close>.\<close>
definition strip_return :: "string \<Rightarrow> string" where
  "strip_return line = (if line \<noteq> [] \<and> last line = carriage_return then butlast line else line)"

text \<open>The line up to the first comma and what follows it, \<open>None\<close> when there is none.\<close>
definition at_comma :: "string \<Rightarrow> string \<times> string option" where
  "at_comma s = (let f = takeWhile (\<lambda>c. c \<noteq> CHR '','') s in
     (f, if length f = length s then None else Some (drop (length f + 1) s)))"

definition fields :: "string \<Rightarrow> exn + string \<times> string \<times> string" where
  "fields line =
     (case at_comma line of
        (f0, None) \<Rightarrow> Inl (Runtime_error ''invalid CSV row'')
      | (f0, Some rest) \<Rightarrow>
          (case at_comma rest of
             (f1, None) \<Rightarrow> Inl (Runtime_error ''invalid CSV row'')
           | (f1, Some rest) \<Rightarrow>
               (case at_comma rest of
                  (f2, None) \<Rightarrow> Inr (f0, f1, f2)
                | (f2, Some _) \<Rightarrow> Inl (Runtime_error ''invalid CSV row''))))"

section \<open>The calendar\<close>

text \<open>Days counted year by year and month by month from the first of January of year 0.\<close>
fun days_before_year :: "nat \<Rightarrow> int" where
  "days_before_year 0 = 0"
| "days_before_year (Suc y) = days_before_year y + (if leap (int y) then 366 else 365)"

definition calendar_days :: "nat \<Rightarrow> nat \<Rightarrow> nat \<Rightarrow> int" where
  "calendar_days y m d = days_before_year y + sum_list (take (m - 1) (month_lengths (int y))) + int d - 1"

lemma leap_iff: "0 \<le> y \<Longrightarrow> leap y \<longleftrightarrow> 4 dvd y \<and> (\<not> 100 dvd y \<or> 400 dvd y)"
  by (cases "y = 0") (simp_all add: leap_def signed_modulo_int_def dvd_eq_mod_eq_0)

lemma ceiling_step:
  assumes "0 < (c::int)" "b = c - 1"
  shows "(y + c) div c = (y + b) div c + (if c dvd y then 1 else 0)"
proof -
  define q r where "q = y div c" and "r = y mod c"
  have y: "y = c * q + r" "0 \<le> r" "r < c" using assms(1) by (simp_all add: q_def r_def)
  have "(y + c) div c = q + 1" by (rule int_div_pos_eq [of _ _ _ r]) (use y in \<open>simp_all add: algebra_simps\<close>)
  moreover have "(y + b) div c = (if r = 0 then q else q + 1)"
    by (rule int_div_pos_eq [of _ _ _ "if r = 0 then c - 1 else r - 1"]) (use y assms(2) in \<open>auto simp: algebra_simps\<close>)
  moreover have "c dvd y \<longleftrightarrow> r = 0" by (simp add: r_def dvd_eq_mod_eq_0)
  ultimately show ?thesis by simp
qed

lemma leap_count: "(C \<longrightarrow> B) \<Longrightarrow> (B \<longrightarrow> A) \<Longrightarrow> (if A \<and> (\<not> B \<or> C) then 366 else 365) =
    365 + (if A then 1 else 0) - (if B then 1 else 0) + (if C then 1 else (0::int))"
  by (cases A; cases B; cases C; simp)

lemma days_before_year_closed:
  "days_before_year y = 365 * int y + (int y + 3) div 4 - (int y + 99) div 100 + (int y + 399) div 400"
proof (induction y)
  case (Suc y)
  have steps: "(int y + 4) div 4 = (int y + 3) div 4 + (if 4 dvd int y then 1 else 0)"
    "(int y + 100) div 100 = (int y + 99) div 100 + (if 100 dvd int y then 1 else 0)"
    "(int y + 400) div 400 = (int y + 399) div 400 + (if 400 dvd int y then 1 else 0)"
    by (rule ceiling_step; simp)+
  have dvd: "400 dvd int y \<Longrightarrow> 100 dvd int y" "100 dvd int y \<Longrightarrow> 4 dvd int y"
    using dvd_trans [of "100::int" 400 "int y"] dvd_trans [of "4::int" 100 "int y"] by simp_all
  have d: "(if leap (int y) then 366 else 365) = 365 + (if 4 dvd int y then 1 else 0) -
      (if 100 dvd int y then 1 else 0) + (if 400 dvd int y then 1 else (0::int))"
    unfolding leap_iff [OF of_nat_0_le_iff] by (rule leap_count) (use dvd in blast)+
  have e: "int (Suc y) + 3 = int y + 4" "int (Suc y) + 99 = int y + 100" "int (Suc y) + 399 = int y + 400" by simp_all
  show ?case unfolding days_before_year.simps Suc d e steps by simp
qed simp

lemma era_sum: "y = 400 * era + yoe \<Longrightarrow>
    era * 146097 + (yoe * 365 + a - b) = 365 * y + (100 * era + a) - (4 * era + b) + (era :: int)"
  by simp

text \<open>The closed form of the code on unbounded numbers: \<open>y\<close> is the year that starts in March.\<close>
lemma era_days:
  assumes "y = 400 * era + yoe" "0 \<le> yoe" "yoe < (400::int)"
  shows "era * 146097 + (yoe * 365 + yoe div 4 - yoe div 100) = 365 * y + y div 4 - y div 100 + y div 400"
proof -
  have "y div 4 = 100 * era + yoe div 4" "y div 100 = 4 * era + yoe div 100" "y div 400 = era"
    using assms by (simp_all add: div_add1_eq)
  then show ?thesis by (simp only: era_sum [OF assms(1)])
qed

lemma unat_of_nat_u32: "n < 2 ^ 32 \<Longrightarrow> unat (of_nat n :: u32) = n"
  by (simp add: unat_of_nat take_bit_nat_eq_self)

lemma small_sum: "a \<le> 146000 \<Longrightarrow> b \<le> 100 \<Longrightarrow> e \<le> 367 \<Longrightarrow> d \<le> 31 \<Longrightarrow> a + b - c + (e + d - 1) < (2::nat) ^ 32"
  by simp

text \<open>The words of the code never wrap: \<open>k\<close> months after March, day \<open>d\<close>, year \<open>yoe\<close> of the era.\<close>
lemma day_of_era:
  assumes "k < 12" "1 \<le> d" "d \<le> 31" "yoe < 400"
  shows "uint (of_nat yoe * 365 + of_nat yoe div 4 - of_nat yoe div 100 +
      ((153 * of_nat k + 2) div 5 + of_nat d - 1) :: u32) =
    int (yoe * 365 + yoe div 4 - yoe div 100 + ((153 * k + 2) div 5 + d - 1))"
proof -
  have p: "unat (153 * of_nat k + 2 :: u32) = 153 * k + 2"
    using unat_of_nat_u32 [of "153 * k + 2"] assms(1) by (simp add: add.commute)
  have q: "(153 * of_nat k + 2) div 5 = (of_nat ((153 * k + 2) div 5) :: u32)"
    using assms(1) p by (simp add: word_unat_eq_iff unat_div_distrib unat_of_nat_u32)
  have r: "of_nat yoe div 4 = (of_nat (yoe div 4) :: u32)" "of_nat yoe div 100 = (of_nat (yoe div 100) :: u32)"
    using assms(4) by (simp_all add: word_unat_eq_iff unat_div_distrib unat_of_nat_u32)
  have le: "yoe div 100 \<le> yoe * 365 + yoe div 4" by simp
  have "of_nat yoe * 365 + of_nat yoe div 4 - of_nat yoe div 100 + ((153 * of_nat k + 2) div 5 + of_nat d - 1) =
      (of_nat (yoe * 365 + yoe div 4 - yoe div 100 + ((153 * k + 2) div 5 + d - 1)) :: u32)"
    unfolding q r using le assms(2) by (simp add: of_nat_diff)
  moreover have "yoe * 365 + yoe div 4 - yoe div 100 + ((153 * k + 2) div 5 + d - 1) < 2 ^ 32"
  proof -
    have 1: "yoe * 365 \<le> 146000" using assms(4) by simp
    have "yoe \<le> 400" "153 * k + 2 \<le> 1838" using assms(1,4) by simp_all
    then have "yoe div 4 \<le> 400 div 4" "(153 * k + 2) div 5 \<le> 1838 div 5" by (blast intro: div_le_mono)+
    then have 2: "yoe div 4 \<le> 100" "(153 * k + 2) div 5 \<le> 367" by simp_all
    show ?thesis by (rule small_sum [OF 1 2 assms(3)])
  qed
  ultimately show ?thesis by (simp only: uint_nat unat_of_nat_u32)
qed

lemma era_floor: "(if 0 \<le> y then y else y - 399) sdiv 400 = y div (400::int)"
proof (cases "0 \<le> y")
  case False
  have "(- y + 400) div 400 = (- y) div 400 + 1" by (rule div_add_self2) simp
  moreover have "(- y + 400) div 400 = (- y + 399) div 400 + (if 400 dvd y then 1 else 0)"
    using ceiling_step [where c = 400 and b = 399 and y = "- y"] by simp
  moreover have "- y div 400 = (if 400 dvd y then - (y div 400) else - (y div 400) - 1)"
    using zdiv_zminus1_eq_if [of 400 y] by (simp add: dvd_eq_mod_eq_0)
  ultimately have "(- y + 399) div 400 = - (y div 400)"
    by (cases "400 dvd y"; simp only: if_True if_False; simp only: add_diff_eq diff_add_cancel add_right_cancel add_0_right)
  then have "(399 - y) div 400 = - (y div 400)" by (simp only: uminus_add_conv_diff)
  then show ?thesis using False by (simp add: signed_divide_int_def)
next
  case True
  then show ?thesis by (cases "y = 0") (simp_all add: signed_divide_int_def)
qed

lemma plus_period:
  assumes "0 < (c::int)" "b = c - 1"
  shows "(y + b) div c = (y - 1) div c + 1"
proof -
  have "y + b = (y - 1) + c" using assms(2) by simp
  moreover have "(y - 1 + c) div c = (y - 1) div c + 1" by (rule div_add_self2) (use assms(1) in simp)
  ultimately show ?thesis by (simp only:)
qed

lemma floor_step:
  assumes "0 < (c::int)"
  shows "y div c = (y - 1) div c + (if c dvd y then 1 else 0)"
proof -
  have "(y + c) div c = y div c + 1" "(y + (c - 1)) div c = (y - 1) div c + 1"
    using assms div_add_self2 [of c y] div_add_self2 [of c "y - 1"] by (simp_all add: algebra_simps)
  then show ?thesis using ceiling_step [OF assms refl, of y] by simp
qed

lemma leap_years:
  "int y div 4 - int y div 100 + int y div 400 =
    (int y - 1) div 4 - (int y - 1) div 100 + (int y - 1) div 400 + (if leap (int y) then 1 else 0)"
proof -
  have s: "int y div 4 = (int y - 1) div 4 + (if 4 dvd int y then 1 else 0)"
    "int y div 100 = (int y - 1) div 100 + (if 100 dvd int y then 1 else 0)"
    "int y div 400 = (int y - 1) div 400 + (if 400 dvd int y then 1 else 0)"
    by (rule floor_step; simp)+
  have dvd: "400 dvd int y \<longrightarrow> 100 dvd int y" "100 dvd int y \<longrightarrow> 4 dvd int y"
    using dvd_trans [of "100::int" 400 "int y"] dvd_trans [of "4::int" 100 "int y"] by simp_all
  show ?thesis unfolding s leap_iff [OF of_nat_0_le_iff] using leap_count [OF dvd]
    by (cases "4 dvd int y"; cases "100 dvd int y"; cases "400 dvd int y"; simp)
qed

text \<open>The whole computation on unbounded numbers.\<close>
lemma days_from_civil_closed:
  assumes m: "1 \<le> m" "m \<le> 12" and d: "1 \<le> d" "d \<le> 31"
  shows "days_from_civil y0 (of_nat m) (of_nat d) =
    (let y = y0 - (if m \<le> 2 then 1 else 0) in
     365 * y + y div 4 - y div 100 + y div 400 + (153 * int (if m > 2 then m - 3 else m + 9) + 2) div 5 + int d - 719469)"
proof -
  define y where "y = y0 - (if m \<le> 2 then 1 else 0)"
  define k where "k = (if m > 2 then m - 3 else m + 9)"
  define yoe where "yoe = nat (y mod 400)"
  have yoe: "yoe < 400" "y - y div 400 * 400 = int yoe" "y = 400 * (y div 400) + int yoe"
    by (simp_all add: yoe_def nat_less_iff minus_div_mult_eq_mod)
  have k: "k < 12" using m unfolding k_def by (cases "m > 2"; simp)
  have w: "((of_nat m :: u32) \<le> 2) = (m \<le> 2)" "((of_nat m :: u32) > 2) = (m > 2)"
    using m unat_of_nat_u32 [of m] by (simp_all add: word_le_nat_alt word_less_nat_alt)
  have mk: "(of_nat m + (if (of_nat m :: u32) > 2 then - 3 else 9)) = (of_nat k :: u32)"
    unfolding w k_def by (simp add: of_nat_diff)
  have "days_from_civil y0 (of_nat m) (of_nat d) = y div 400 * 146097 +
      uint ((of_nat yoe * 365 + of_nat yoe div 4 - of_nat yoe div 100 + ((153 * of_nat k + 2) div 5 + of_nat d - 1)) :: u32) - 719468"
    using yoe(2) by (simp only: days_from_civil_def Let_def w(1) y_def [symmetric] era_floor mk of_int_of_nat_eq)
  also have "\<dots> = y div 400 * 146097 + int (yoe * 365 + yoe div 4 - yoe div 100) + int ((153 * k + 2) div 5) + int d - 719469"
    using d by (subst day_of_era [OF k d yoe(1)]) (simp add: of_nat_diff)
  also have "int (yoe * 365 + yoe div 4 - yoe div 100) = int yoe * 365 + int yoe div 4 - int yoe div 100"
    by (simp add: of_nat_diff zdiv_int)
  also have "y div 400 * 146097 + (int yoe * 365 + int yoe div 4 - int yoe div 100) =
      365 * y + y div 4 - y div 100 + y div 400"
    by (rule era_days [OF yoe(3)]) (use yoe(1) in simp_all)
  finally have "days_from_civil y0 (of_nat m) (of_nat d) =
      365 * y + y div 4 - y div 100 + y div 400 + int ((153 * k + 2) div 5) + int d - 719469" .
  moreover have "int ((153 * k + 2) div 5) = (153 * int k + 2) div 5" by (simp add: zdiv_int)
  ultimately show ?thesis by (simp only: Let_def y_def [symmetric] k_def [symmetric])
qed

lemma year_sum: "a + (p + 1) - (q + 1) + (r + 1) = a + p - q + r + (1::int)"
  by simp

lemma january_start: "q4 - q100 + q400 = p4 - p100 + p400 + l \<Longrightarrow>
    365 * (Y - 1) + p4 - p100 + p400 + K + d - 719469 =
    365 * Y + p4 - p100 + p400 + 1 + (K + - 306) + d - 1 - (719528::int)"
  by simp

lemma march_start: "q4 - q100 + q400 = p4 - p100 + p400 + l \<Longrightarrow>
    365 * Y + q4 - q100 + q400 + K + d - 719469 =
    365 * Y + p4 - p100 + p400 + 1 + (K + (59 + l)) + d - 1 - (719528::int)"
  by simp

lemma month_table:
  assumes "1 \<le> m" "m \<le> 12"
  shows "sum_list (take (m - 1) (month_lengths y)) = (153 * int (if m > 2 then m - 3 else m + 9) + 2) div 5 +
      (if m \<le> 2 then - 306 else 59 + (if leap y then 1 else 0))"
proof -
  have "m = 1 \<or> m = 2 \<or> m = 3 \<or> m = 4 \<or> m = 5 \<or> m = 6 \<or> m = 7 \<or> m = 8 \<or> m = 9 \<or> m = 10 \<or> m = 11 \<or> m = 12"
    using assms by presburger
  then show ?thesis by (elim disjE; simp add: month_lengths_def)
qed

text \<open>
  The conversion of a date to a day number is the calendar: for every year and every day of a
  month it is the number of days since the first of January 1970, leap years included, and the
  unsigned 32-bit steps of the code never wrap.
\<close>
theorem days_from_civil_calendar:
  assumes "1 \<le> m" "m \<le> 12" "1 \<le> d" "d \<le> 31"
  shows "days_from_civil (int y) (of_nat m) (of_nat d) = calendar_days y m d - calendar_days 1970 1 1"
proof -
  have e: "calendar_days 1970 1 1 = 719528"
    by (simp add: calendar_days_def days_before_year_closed)
  have "(int y + 3) div 4 = (int y - 1) div 4 + 1" "(int y + 99) div 100 = (int y - 1) div 100 + 1"
    "(int y + 399) div 400 = (int y - 1) div 400 + 1"
    by (rule plus_period; simp)+
  then have b: "days_before_year y = 365 * int y + (int y - 1) div 4 - (int y - 1) div 100 + (int y - 1) div 400 + 1"
    by (simp only: days_before_year_closed year_sum)
  have m: "sum_list (take (m - 1) (month_lengths (int y))) = (153 * int (if m > 2 then m - 3 else m + 9) + 2) div 5 +
      (if m \<le> 2 then - 306 else 59 + (if leap (int y) then 1 else 0))"
    using month_table [OF assms(1,2)] .
  show ?thesis
    unfolding days_from_civil_closed [OF assms] e Let_def
    unfolding calendar_days_def b m using january_start [OF leap_years [of y]] march_start [OF leap_years [of y]]
    by (cases "m \<le> 2"; simp only: if_True if_False diff_zero)
qed

theorem days_from_civil_calendar_witness:
  "days_from_civil 2024 2 29 = calendar_days 2024 2 29 - calendar_days 1970 1 1"
  using days_from_civil_calendar [of 2 29 2024] by simp

end
