(* ===== verification/Trace.thy ===== *)
theory Trace
  imports Sha256 Trace_Text
begin

text \<open>
  The binary trace of \<open>src/benchmark/trace.{hpp,cpp}\<close>: writing one from the source CSV
  (\<open>prepare_trace\<close>), opening one (\<open>TraceReader\<close>) and reading its records (\<open>TraceCursor\<close>). A file
  is the string of its bytes; opening, syncing, renaming and disk errors are not modelled. A
  signed 64-bit value is a \<open>u64\<close> read with \<open>sint\<close>. Hashing returns an option, as in theory
  \<open>Sha256\<close>; so does everything that hashes.
\<close>

section \<open>Little-endian fields\<close>

definition put_le :: "'a::len word \<Rightarrow> string" where
  "put_le u = map (\<lambda>i. char_of (unat (drop_bit (i * 8) u))) [0..<LENGTH('a) div 8]"

fun get_le_loop :: "nat \<Rightarrow> nat \<Rightarrow> 'a::len word \<Rightarrow> string \<Rightarrow> exn + 'a word \<times> string" where
  "get_le_loop 0 i u input = Inr (u, input)"
| "get_le_loop (Suc n) i u [] = Inl (Runtime_error ''truncated trace'')"
| "get_le_loop (Suc n) i u (c # cs) = get_le_loop n (Suc i) (u OR push_bit (i * 8) (of_nat (of_char c))) cs"

definition get_le :: "string \<Rightarrow> exn + 'a::len word \<times> string" where
  "get_le input = get_le_loop (LENGTH('a) div 8) 0 0 input"

text \<open>\<open>istream::read\<close> of a fixed number of bytes, \<open>None\<close> when the stream has fewer.\<close>
definition read_bytes :: "nat \<Rightarrow> string \<Rightarrow> (string \<times> string) option" where
  "read_bytes n input = (if length input < n then None else Some (take n input, drop n input))"

section \<open>Preparing a trace\<close>

definition trace_magic :: string where
  "trace_magic = ''QSTRACE'' @ [CHR 0x00]"

definition conversation_magic :: string where
  "conversation_magic = ''QSCONV'' @ [CHR 0x00, CHR 0x00]"

definition hashed_getline :: "string \<Rightarrow> Sha256 \<Rightarrow> (string \<times> string \<times> Sha256) option option" where
  "hashed_getline input h =
     (case getline input of
        None \<Rightarrow> Some None
      | Some (line, rest, at_eof) \<Rightarrow>
          Option.bind (sha_update (bytes_of line) h) (\<lambda>h.
          Option.bind (if at_eof then Some h else sha_update [0x0A] h) (\<lambda>h.
            Some (Some (line, rest, h)))))"

type_synonym row = "u64 \<times> u32 \<times> u32" \<comment> \<open>timestamp, context tokens, generated tokens\<close>

definition parse_row :: "string \<Rightarrow> exn + row" where
  "parse_row raw =
     (let line = strip_return raw in
      if line = [] then Inl (Runtime_error ''empty CSV row'')
      else sbind (fields line) (\<lambda>(f0, f1, f2). sbind (parse_timestamp f0) (\<lambda>ts.
        sbind (parse_count f1) (\<lambda>ctx. sbind (parse_count f2) (\<lambda>gen. Inr (ts, ctx, gen))))))"

text \<open>The variables of the loop and what it has written after the space left for the header.\<close>
record TraceWriter =
  tw_count :: u64
  tw_first :: u64
  tw_last :: u64
  tw_records :: string

definition new_writer :: TraceWriter where
  "new_writer = \<lparr>tw_count = 0, tw_first = 0, tw_last = 0, tw_records = []\<rparr>"

definition write_row :: "row \<Rightarrow> TraceWriter \<Rightarrow> exn + TraceWriter" where
  "write_row row w =
     (let (ts, ctx, gen) = row in
      if tw_count w \<noteq> 0 \<and> sint ts < sint (tw_last w) then Inl (Runtime_error ''timestamps decrease'')
      else
        (let first = (if tw_count w = 0 then ts else tw_first w);
             delta = sint ts - sint first in
         if delta < 0 \<or> delta > 2 ^ 64 - 1 then Inl (Runtime_error ''arrival offset overflow'')
         else if tw_count w = - 1 then Inl (Runtime_error ''record count overflow'')
         else Inr \<lparr>tw_count = tw_count w + 1, tw_first = first, tw_last = ts,
                   tw_records = tw_records w @ put_le (of_int delta :: u64) @ put_le ctx @ put_le gen\<rparr>))"

lemma getline_shorter: "getline input = Some (line, rest, e) \<Longrightarrow> length rest < length input"
  by (auto simp: getline_def Let_def split: if_splits)

lemma hashed_getline_rest: "hashed_getline input h = Some (Some (line, rest, h')) \<Longrightarrow> length rest < length input"
  by (auto simp: hashed_getline_def getline_shorter split: option.splits bind_splits)

function csv_loop :: "string \<Rightarrow> Sha256 \<Rightarrow> TraceWriter \<Rightarrow> (exn + Sha256 \<times> TraceWriter) option" where
  "csv_loop input h w =
     (case hashed_getline input h of
        None \<Rightarrow> None
      | Some None \<Rightarrow> Some (Inr (h, w))
      | Some (Some (line, rest, h')) \<Rightarrow>
          (case sbind (parse_row line) (\<lambda>row. write_row row w) of
             Inl e \<Rightarrow> Some (Inl e)
           | Inr w' \<Rightarrow> csv_loop rest h' w'))"
  by auto
termination by (relation "measure (\<lambda>(input, h, w). length input)") (auto dest: hashed_getline_rest)

declare csv_loop.simps [simp del]

definition csv_schema :: string where
  "csv_schema = ''TIMESTAMP,ContextTokens,GeneratedTokens''"

text \<open>The 96 bytes written over the space at the front once all records are out.\<close>
definition trace_header :: "TraceWriter \<Rightarrow> u8 list \<Rightarrow> string" where
  "trace_header w digest =
     trace_magic @ put_le (1 :: u32) @ put_le (96 :: u32) @ put_le (16 :: u32) @ put_le (0 :: u32) @
     put_le (tw_count w) @ put_le (tw_first w) @ put_le (tw_last w) @
     map (\<lambda>b. char_of (unat b)) digest @ replicate 16 (CHR 0x00)"

definition prepare_trace :: "string \<Rightarrow> (exn + string) option" where
  "prepare_trace csv =
     (case hashed_getline csv sha_new of
        None \<Rightarrow> None
      | Some None \<Rightarrow> Some (Inl (Runtime_error ''empty CSV''))
      | Some (Some (line, rest, h)) \<Rightarrow>
          if strip_return line \<noteq> csv_schema then Some (Inl (Runtime_error ''invalid CSV schema''))
          else
            (case csv_loop rest h new_writer of
               None \<Rightarrow> None
             | Some (Inl e) \<Rightarrow> Some (Inl e)
             | Some (Inr (h, w)) \<Rightarrow>
                 if tw_count w = 0 then Some (Inl (Runtime_error ''empty trace''))
                 else Some (Inr (trace_header w (sha_finish h) @ tw_records w))))"

section \<open>Opening and reading a trace\<close>

record TraceHeader =
  record_count :: u64
  first_timestamp_ns :: u64
  last_timestamp_ns :: u64
  source_sha256_hex :: string

record TraceRecord =
  arrival_offset_ns :: u64
  context_tokens :: u32
  generated_tokens :: u32
  turn_index :: u32
  conversation_id :: string
  record_prompt :: string

definition read_conversation_record :: "string \<Rightarrow> exn + TraceRecord \<times> string" where
  "read_conversation_record input =
     sbind (get_le input) (\<lambda>(offset, input). sbind (get_le input) (\<lambda>(gen, input).
     sbind (get_le input) (\<lambda>(turn, input). sbind (get_le input) (\<lambda>(size, input).
     sbind (get_le input) (\<lambda>(zero :: u32, input).
       if zero \<noteq> 0 \<or> size = (0 :: u32) \<or> gen = (0 :: u32)
       then Inl (Runtime_error ''invalid conversation trace record'')
       else
         (case read_bytes 32 input of
            None \<Rightarrow> Inl (Runtime_error ''truncated trace'')
          | Some (ident, input) \<Rightarrow>
              (let name = takeWhile (\<lambda>c. c \<noteq> CHR 0x00) ident in
               if name = [] then Inl (Runtime_error ''empty conversation ID'')
               else
                 (case read_bytes (unat size) input of
                    None \<Rightarrow> Inl (Runtime_error ''truncated trace'')
                  | Some (text, input) \<Rightarrow>
                      Inr (\<lparr>arrival_offset_ns = offset, context_tokens = 0, generated_tokens = gen,
                            turn_index = turn, conversation_id = name, record_prompt = text\<rparr>, input)))))))))"

text \<open>The plain record: two counts after the offset.\<close>
definition read_record :: "string \<Rightarrow> exn + TraceRecord \<times> string" where
  "read_record input =
     sbind (get_le input) (\<lambda>(offset, input). sbind (get_le input) (\<lambda>(ctx, input).
     sbind (get_le input) (\<lambda>(gen, input).
       Inr (\<lparr>arrival_offset_ns = offset, context_tokens = ctx, generated_tokens = gen,
             turn_index = 0, conversation_id = [], record_prompt = []\<rparr>, input))))"

text \<open>
  The header. A short read of the magic leaves zeros in the buffer and the stream at its end;
  short reads of the digest or of the reserved bytes are caught by the check of the stream.
\<close>
definition read_header :: "string \<Rightarrow> exn + TraceHeader \<times> bool \<times> string" where
  "read_header file =
     (let got = take 8 (file @ replicate 8 (CHR 0x00));
          conversation = (got = conversation_magic);
          input = drop 8 file in
      if got \<noteq> trace_magic \<and> \<not> conversation then Inl (Runtime_error ''invalid trace magic'')
      else
        sbind (get_le input) (\<lambda>(version :: u32, input). sbind (get_le input) (\<lambda>(hs :: u32, input).
        sbind (get_le input) (\<lambda>(rs :: u32, input). sbind (get_le input) (\<lambda>(flags :: u32, input).
          if version \<noteq> 1 \<or> hs \<noteq> 96 \<or> (if conversation then rs \<noteq> 0 \<or> flags \<noteq> 1 else rs \<noteq> 16 \<or> flags \<noteq> 0)
          then Inl (Runtime_error ''unsupported trace header'')
          else
            sbind (get_le input) (\<lambda>(n, input). sbind (get_le input) (\<lambda>(first, input).
            sbind (get_le input) (\<lambda>(last, input).
              if length input < 48 \<or> list_ex (\<lambda>c. c \<noteq> CHR 0x00) (take 16 (drop 32 input))
              then Inl (Runtime_error ''invalid reserved bytes'')
              else if n = 0 then Inl (Runtime_error ''empty trace'')
              else if sint last < sint (first :: u64) then Inl (Runtime_error ''trace timestamps decrease'')
              else Inr (\<lparr>record_count = n, first_timestamp_ns = first, last_timestamp_ns = last,
                         source_sha256_hex = hex (bytes_of (take 32 input))\<rparr>,
                        conversation, drop 48 input)))))))))"

record TraceReader =
  rd_file :: string
  rd_header :: TraceHeader
  rd_conversation :: bool
  rd_offsets :: "nat list"

text \<open>The pass over a conversation trace that checks the records and notes where each begins.\<close>
fun conversation_loop :: "nat \<Rightarrow> nat \<Rightarrow> string \<Rightarrow> u64 \<Rightarrow> nat list \<Rightarrow> string \<Rightarrow> exn + u64 \<times> nat list \<times> string" where
  "conversation_loop 0 i file previous offsets input = Inr (previous, offsets, input)"
| "conversation_loop (Suc n) i file previous offsets input =
     sbind (read_conversation_record input) (\<lambda>(r, rest).
       if (i = 0 \<and> arrival_offset_ns r \<noteq> 0) \<or> (i \<noteq> 0 \<and> arrival_offset_ns r < previous)
       then Inl (Runtime_error ''invalid trace record'')
       else conversation_loop n (Suc i) file (arrival_offset_ns r)
              (offsets @ [length file - length input]) rest)"

text \<open>The constructor of \<open>TraceReader\<close>.\<close>
definition open_trace :: "string \<Rightarrow> exn + TraceReader" where
  "open_trace file =
     sbind (read_header file) (\<lambda>(h, conversation, input).
       if \<not> conversation
       then
         (if unat (record_count h) > (2 ^ 64 - 1 - 96) div 16 \<or> length file \<noteq> 96 + unat (record_count h) * 16
          then Inl (Runtime_error ''trace size mismatch'')
          else Inr \<lparr>rd_file = file, rd_header = h, rd_conversation = False, rd_offsets = []\<rparr>)
       else
         sbind (conversation_loop (unat (record_count h)) 0 file 0 [] input) (\<lambda>(previous, offsets, input).
           if input \<noteq> [] then Inl (Runtime_error ''trace size mismatch'')
           else if sint (first_timestamp_ns h) + uint previous \<noteq> sint (last_timestamp_ns h)
           then Inl (Runtime_error ''trace timestamp mismatch'')
           else Inr \<lparr>rd_file = file, rd_header = h, rd_conversation = True, rd_offsets = offsets\<rparr>))"

definition reader_record :: "TraceReader \<Rightarrow> u64 \<Rightarrow> exn + TraceRecord" where
  "reader_record rd index =
     (if index \<ge> record_count (rd_header rd) then Inl (Out_of_range ''trace record index'')
      else if rd_conversation rd
      then sbind (read_conversation_record (drop (rd_offsets rd ! unat index) (rd_file rd))) (\<lambda>(r, _). Inr r)
      else sbind (read_record (drop (unat (96 + index * 16)) (rd_file rd))) (\<lambda>(r, _). Inr r))"

record TraceCursor =
  tc_input :: string
  tc_header :: TraceHeader
  tc_index :: u64
  tc_previous :: u64
  tc_conversation :: bool

definition cursor :: "TraceReader \<Rightarrow> TraceCursor" where
  "cursor rd = \<lparr>tc_input = drop 96 (rd_file rd), tc_header = rd_header rd, tc_index = 0, tc_previous = 0,
     tc_conversation = rd_conversation rd\<rparr>"

text \<open>\<open>TraceCursor::next\<close>: \<open>None\<close> is its \<open>false\<close>.\<close>
definition cursor_next :: "TraceCursor \<Rightarrow> exn + (TraceRecord \<times> TraceCursor) option" where
  "cursor_next c =
     (if tc_index c = record_count (tc_header c) then Inr None
      else
        sbind (if tc_conversation c then read_conversation_record (tc_input c) else read_record (tc_input c))
          (\<lambda>(r, input).
            if (tc_index c = 0 \<and> arrival_offset_ns r \<noteq> 0) \<or>
               (tc_index c \<noteq> 0 \<and> arrival_offset_ns r < tc_previous c) \<or>
               (\<not> tc_conversation c \<and> context_tokens r = 0) \<or> generated_tokens r = 0
            then Inl (Runtime_error ''invalid trace record'')
            else
              (let c' = c\<lparr>tc_input := input, tc_previous := arrival_offset_ns r, tc_index := tc_index c + 1\<rparr> in
               if tc_index c' = record_count (tc_header c') \<and>
                  sint (first_timestamp_ns (tc_header c')) + uint (tc_previous c') \<noteq> sint (last_timestamp_ns (tc_header c'))
               then Inl (Runtime_error ''trace timestamp mismatch'')
               else Inr (Some (r, c')))))"

end
