(* ===== verification/Trace_Props.thy ===== *)
theory Trace_Props
  imports Trace
begin

text \<open>
  Preparing a trace and reading it back: the fields survive, the records come back in order, and
  the header carries the SHA-256 of the source.
\<close>

section \<open>Fields\<close>

lemma byte_back: "of_nat (unat x mod 256) = take_bit 8 (x :: 'a::len word)"
proof -
  have "unat x mod 256 = take_bit 8 (unat x)" by (simp add: take_bit_eq_mod)
  then show ?thesis by (simp add: of_nat_take_bit)
qed

lemma add_byte: "take_bit (i * 8) u OR push_bit (i * 8) (take_bit 8 (drop_bit (i * 8) u)) =
    take_bit (Suc i * 8) (u :: 'a::len word)"
  by (rule bit_word_eqI) (auto simp: bit_or_iff bit_take_bit_iff bit_push_bit_iff bit_drop_bit_eq)

lemma get_le_loop_put:
  "get_le_loop n i (take_bit (i * 8) u) (map (\<lambda>j. char_of (unat (drop_bit (j * 8) u))) [i..<i + n] @ rest) =
    Inr (take_bit ((i + n) * 8) u, rest)"
proof (induction n arbitrary: i)
  case (Suc n)
  have "[i..<i + Suc n] = i # [Suc i..<Suc i + n]" by (simp add: upt_conv_Cons)
  then show ?case using Suc [of "Suc i"] add_byte [of i u] by (simp add: byte_back del: upt_Suc)
qed simp

text \<open>Every whole number of bytes survives.\<close>
lemma get_put_le:
  assumes "LENGTH('a::len) mod 8 = 0"
  shows "get_le (put_le (u :: 'a word) @ rest) = Inr (u, rest)"
proof -
  have "LENGTH('a) div 8 * 8 = LENGTH('a)" using assms by auto
  then show ?thesis using get_le_loop_put [of "LENGTH('a) div 8" 0 u rest]
    by (simp add: get_le_def put_le_def)
qed

lemmas get_put [simp] = get_put_le [where 'a = 32, simplified] get_put_le [where 'a = 64, simplified]

lemma length_put_le [simp]: "length (put_le (u :: 'a::len word)) = LENGTH('a) div 8"
  by (simp add: put_le_def)

section \<open>Lines\<close>

text \<open>The lines of a text as \<open>getline\<close> delivers them.\<close>
function csv_lines :: "string \<Rightarrow> string list" where
  "csv_lines input = (case getline input of None \<Rightarrow> [] | Some (line, rest, e) \<Rightarrow> line # csv_lines rest)"
  by auto
termination by (relation "measure length") (auto dest: getline_shorter)

declare csv_lines.simps [simp del]

lemma getline_bytes:
  assumes "getline input = Some (line, rest, at_eof)"
  shows "input = line @ (if at_eof then [] else newline # rest) \<and> (at_eof \<longrightarrow> rest = [])"
proof -
  have l: "line = takeWhile (\<lambda>c. c \<noteq> newline) input" "rest = drop (length line + 1) input"
    "at_eof = (length line = length input)"
    using assms by (auto simp: getline_def Let_def split: if_splits)
  have i: "input = line @ dropWhile (\<lambda>c. c \<noteq> newline) input" using l(1) by simp
  show ?thesis
  proof (cases "dropWhile (\<lambda>c. c \<noteq> newline) input")
    case Nil
    then have "input = line" using i unfolding Nil by simp
    then show ?thesis using l(2,3) by simp
  next
    case (Cons c cs)
    then have "c = newline" by (metis (mono_tags) dropWhile_eq_Cons_conv)
    moreover have "rest = cs"
    proof -
      have "drop (length line + 1) (line @ c # cs) = cs" by simp
      then show ?thesis using l(2) i unfolding Cons by simp
    qed
    ultimately show ?thesis using i l(3) Cons by auto
  qed
qed

lemma bytes_of_append [simp]: "bytes_of (a @ b) = bytes_of a @ bytes_of b" "bytes_of (c # cs) = of_nat (of_char c) # bytes_of cs" "bytes_of [] = []"
  by (simp_all add: bytes_of_def)

text \<open>Hashing line by line hashes the text, with or without a newline at its end.\<close>
lemma hashed_getline_result:
  assumes "hashed h m"
  shows "case getline input of
      None \<Rightarrow> hashed_getline input h = Some None \<and> input = []
    | Some (line, rest, e) \<Rightarrow> \<exists>h' done. hashed_getline input h = Some (Some (line, rest, h')) \<and>
        hashed h' (m @ done) \<and> bytes_of input = done @ bytes_of rest"
proof (cases "getline input")
  case None
  then show ?thesis by (auto simp: hashed_getline_def getline_def Let_def split: if_splits)
next
  case (Some x)
  obtain line rest e where x: "x = (line, rest, e)" by (metis surj_pair)
  have g: "getline input = Some (line, rest, e)" using Some x by simp
  obtain h1 where h1: "sha_update (bytes_of line) h = Some h1" "hashed h1 (m @ bytes_of line)"
    using sha_update_hashes [OF assms] by blast
  obtain h2 where h2: "sha_update [0x0A] h1 = Some h2" "hashed h2 ((m @ bytes_of line) @ [0x0A])"
    using sha_update_hashes [OF h1(2)] by blast
  show ?thesis
  proof (cases e)
    case True
    then show ?thesis using g h1 getline_bytes [OF g] by (auto simp: hashed_getline_def)
  next
    case False
    then have "bytes_of input = (bytes_of line @ [0x0A]) @ bytes_of rest" using getline_bytes [OF g] by simp
    then show ?thesis using g h1 h2 False
      by (auto simp: hashed_getline_def intro!: exI [of _ "bytes_of line @ [0x0A]"])
  qed
qed

section \<open>Rows\<close>

fun write_rows :: "row list \<Rightarrow> TraceWriter \<Rightarrow> exn + TraceWriter" where
  "write_rows [] w = Inr w"
| "write_rows (r # rs) w = sbind (write_row r w) (write_rows rs)"

lemma csv_loop_result:
  "hashed h m \<Longrightarrow> \<exists>r. csv_loop input h w = Some r \<and> (case r of Inl e \<Rightarrow> True | Inr (h', w') \<Rightarrow>
     hashed h' (m @ bytes_of input) \<and>
     (\<exists>rows. map parse_row (csv_lines input) = map Inr rows \<and> write_rows rows w = Inr w'))"
proof (induction input h w arbitrary: m rule: csv_loop.induct)
  case (1 input h w)
  show ?case
  proof (cases "getline input")
    case None
    have r: "hashed_getline input h = Some None \<and> input = []"
      using hashed_getline_result [OF 1(2), of input] unfolding None option.case .
    have "csv_lines input = []" using None by (simp add: csv_lines.simps)
    with r show ?thesis using 1(2) by (subst csv_loop.simps) (auto intro: exI [of _ "[]"])
  next
    case (Some x)
    obtain line rest e where g: "getline input = Some (line, rest, e)" using Some by (metis surj_pair)
    obtain h' part where h': "hashed_getline input h = Some (Some (line, rest, h'))" "hashed h' (m @ part)"
      "bytes_of input = part @ bytes_of rest" using hashed_getline_result [OF 1(2), of input] g by auto
    have lines: "csv_lines input = line # csv_lines rest" using g by (simp add: csv_lines.simps)
    show ?thesis
    proof (cases "sbind (parse_row line) (\<lambda>row. write_row row w)")
      case (Inl e)
      then show ?thesis using h'(1) by (subst csv_loop.simps) simp
    next
      case (Inr w')
      then obtain row where row: "parse_row line = Inr row" "write_row row w = Inr w'" by (auto simp: sbind_Inr)
      have step: "csv_loop input h w = csv_loop rest h' w'" using h'(1) Inr by (subst csv_loop.simps) simp
      from 1(1) [OF h'(1) refl refl refl Inr h'(2)] obtain r where r: "csv_loop rest h' w' = Some r"
        "case r of Inl e \<Rightarrow> True | Inr (h'', w'') \<Rightarrow> hashed h'' ((m @ part) @ bytes_of rest) \<and>
          (\<exists>rows. map parse_row (csv_lines rest) = map Inr rows \<and> write_rows rows w' = Inr w'')" by blast
      show ?thesis
      proof (cases r)
        case (Inl e)
        then show ?thesis using r(1) step by simp
      next
        case (Inr y)
        obtain h'' w'' where y: "y = (h'', w'')" by (metis surj_pair)
        obtain rows where rows: "map parse_row (csv_lines rest) = map Inr rows" "write_rows rows w' = Inr w''"
          "hashed h'' ((m @ part) @ bytes_of rest)" using r(2) Inr y by auto
        have "map parse_row (csv_lines input) = map Inr (row # rows)" "write_rows (row # rows) w = Inr w''"
          using rows(1,2) lines row by simp_all
        then have "\<exists>rows. map parse_row (csv_lines input) = map Inr rows \<and> write_rows rows w = Inr w''" by blast
        moreover have "hashed h'' (m @ bytes_of input)" using rows(3) h'(3) by simp
        moreover have "csv_loop input h w = Some (Inr (h'', w''))" using r(1) step Inr y by simp
        ultimately show ?thesis by simp
      qed
    qed
  qed
qed

section \<open>What the writer has written\<close>

definition offset_of :: "row \<Rightarrow> row \<Rightarrow> u64" where
  "offset_of r0 r = of_int (sint (fst r) - sint (fst r0))"

definition encode_row :: "row \<Rightarrow> row \<Rightarrow> string" where
  "encode_row r0 r = put_le (offset_of r0 r) @ put_le (fst (snd r)) @ put_le (snd (snd r))"

definition written :: "row list \<Rightarrow> TraceWriter \<Rightarrow> bool" where
  "written rows w \<longleftrightarrow> tw_count w = of_nat (length rows) \<and> length rows < 2 ^ 64 \<and>
     (rows \<noteq> [] \<longrightarrow> tw_first w = fst (hd rows) \<and> tw_last w = fst (last rows)) \<and>
     sorted_wrt (\<lambda>a b. sint (fst a) \<le> sint (fst b)) rows \<and>
     tw_records w = concat (map (encode_row (hd rows)) rows)"

lemma unat_count: "n < 2 ^ 64 \<Longrightarrow> unat (of_nat n :: u64) = n"
  by (simp add: unat_of_nat take_bit_nat_eq_self)

lemma written_new: "written [] new_writer"
  by (simp add: written_def new_writer_def)

lemma written_row:
  assumes w: "written rows w" and r: "write_row row w = Inr w'"
  shows "written (rows @ [row]) w'"
proof -
  obtain ts ctx gen where row: "row = (ts, ctx, gen)" by (metis surj_pair)
  have n: "tw_count w = of_nat (length rows)" "length rows < 2 ^ 64" using w by (simp_all add: written_def)
  have zero: "tw_count w = 0 \<longleftrightarrow> rows = []" using unat_count [OF n(2)] unfolding n(1) word_unat_eq_iff by simp
  let ?first = "if tw_count w = 0 then ts else tw_first w"
  have c: "tw_count w \<noteq> - 1" "rows \<noteq> [] \<longrightarrow> sint (tw_last w) \<le> sint ts"
    "w' = \<lparr>tw_count = tw_count w + 1, tw_first = ?first, tw_last = ts,
       tw_records = tw_records w @ put_le (of_int (sint ts - sint ?first) :: u64) @ put_le ctx @ put_le gen\<rparr>"
    using r zero by (auto simp: write_row_def row Let_def split: if_splits)
  have first: "?first = fst (hd (rows @ [row]))" using w zero by (auto simp: written_def row)
  have "length rows \<noteq> 2 ^ 64 - 1"
  proof
    assume "length rows = 2 ^ 64 - 1"
    moreover have "unat (- 1 :: u64) = 2 ^ 64 - 1" by (simp add: unsigned_minus_1_eq_mask mask_eq_exp_minus_1)
    ultimately have "unat (tw_count w) = unat (- 1 :: u64)" using unat_count [OF n(2)] n(1) by simp
    then show False using c(1) by (simp add: word_unat_eq_iff)
  qed
  then have "length (rows @ [row]) < 2 ^ 64" using n(2) by simp
  moreover have "sorted_wrt (\<lambda>a b. sint (fst a) \<le> sint (fst b)) (rows @ [row])"
  proof (cases rows rule: rev_cases)
    case (snoc ys y)
    then have "sint (fst y) \<le> sint ts" "sorted_wrt (\<lambda>a b. sint (fst a) \<le> sint (fst b)) (ys @ [y])"
      using w c(2) by (auto simp: written_def)
    then show ?thesis using snoc row by (fastforce simp: sorted_wrt_append)
  qed (simp add: row)
  moreover have "tw_records w' = concat (map (encode_row (hd (rows @ [row]))) (rows @ [row]))"
    using w c(3) first by (cases rows) (auto simp: written_def encode_row_def offset_of_def row)
  ultimately show ?thesis using c(3) first n(1) by (auto simp: written_def row)
qed

lemma write_rows_written: "written done w \<Longrightarrow> write_rows rows w = Inr w' \<Longrightarrow> written (done @ rows) w'"
proof (induction rows arbitrary: "done" w)
  case (Cons r rs)
  then obtain v where "write_row r w = Inr v" "write_rows rs v = Inr w'" by (auto simp: sbind_Inr)
  with Cons.IH [OF written_row [OF Cons.prems(1)]] show ?case by simp
qed simp

section \<open>Reading it back\<close>

lemma bytes_back: "bytes_of (map (\<lambda>b. char_of (unat (b :: u8))) bs) = bs"
proof -
  have "of_nat (of_char (char_of (unat b))) = b" for b :: u8
  proof -
    have "unat b < 256" using unsigned_less [of b] by simp
    then show ?thesis by simp
  qed
  then show ?thesis by (induction bs) (simp_all add: bytes_of_def)
qed

lemma length_digest: "length (sha256_standard m) = 32"
proof -
  have "length (foldl transform st bs) = 8" if "length st = 8" for st bs
    using that by (induction bs arbitrary: st) simp_all
  from this [of sha_iv "blocks (padded m)"] have "length (foldl transform sha_iv (blocks (padded m))) = 8"
    by (simp add: sha_iv_def)
  then show ?thesis by (simp add: sha256_standard_def length_concat comp_def sum_list_triv)
qed

lemma length_trace_header: "length digest = 32 \<Longrightarrow> length (trace_header w digest) = 96"
  by (simp add: trace_header_def trace_magic_def)

lemma read_trace_header:
  assumes "length digest = 32" "tw_count w \<noteq> 0" "sint (tw_first w) \<le> sint (tw_last w)"
  shows "read_header (trace_header w digest @ rest) = Inr (\<lparr>record_count = tw_count w, first_timestamp_ns = tw_first w,
    last_timestamp_ns = tw_last w, source_sha256_hex = hex digest\<rparr>, False, rest)"
proof -
  have m: "length trace_magic = 8" "trace_magic \<noteq> conversation_magic"
    by (simp_all add: trace_magic_def conversation_magic_def)
  have z: "\<not> list_ex (\<lambda>c. c \<noteq> CHR 0x00) (replicate 16 (CHR 0x00))" by (simp add: list_ex_iff)
  show ?thesis using assms m z
    by (simp add: read_header_def trace_header_def Let_def bytes_back not_less)
qed

lemma read_encoded_row: "read_record (encode_row r0 r @ rest) = Inr (\<lparr>arrival_offset_ns = offset_of r0 r,
    context_tokens = fst (snd r), generated_tokens = snd (snd r), turn_index = 0, conversation_id = [],
    record_prompt = []\<rparr>, rest)"
  by (simp add: read_record_def encode_row_def)

text \<open>All that the cursor delivers, one record after another.\<close>
fun read_records :: "nat \<Rightarrow> TraceCursor \<Rightarrow> exn + TraceRecord list \<times> TraceCursor" where
  "read_records 0 c = Inr ([], c)"
| "read_records (Suc n) c =
     sbind (cursor_next c) (\<lambda>x. case x of
       None \<Rightarrow> Inr ([], c)
     | Some (r, c') \<Rightarrow> sbind (read_records n c') (\<lambda>(rs, c''). Inr (r # rs, c'')))"

definition record_of_row :: "row \<Rightarrow> row \<Rightarrow> TraceRecord" where
  "record_of_row r0 r = \<lparr>arrival_offset_ns = offset_of r0 r, context_tokens = fst (snd r),
     generated_tokens = snd (snd r), turn_index = 0, conversation_id = [], record_prompt = []\<rparr>"

lemma uint_offset:
  assumes "sint (fst r0) \<le> sint (fst r)"
  shows "uint (offset_of r0 r) = sint (fst r) - sint (fst r0)"
proof -
  have "sint (fst r) < 2 ^ 63" "- (2 ^ 63) \<le> sint (fst r0)"
    using sint_lt [of "fst r"] sint_ge [of "fst r0"] by simp_all
  then have "take_bit 64 (sint (fst r) - sint (fst r0)) = sint (fst r) - sint (fst r0)"
    using assms by (simp add: take_bit_int_eq_self_iff)
  then show ?thesis using assms unfolding offset_of_def by (simp add: unsigned_of_int del: of_int_diff)
qed

text \<open>The state of the cursor after the records \<open>done\<close>, with \<open>rows\<close> to come.\<close>
definition at_row :: "TraceHeader \<Rightarrow> row list \<Rightarrow> row list \<Rightarrow> TraceCursor \<Rightarrow> bool" where
  "at_row h done rows c \<longleftrightarrow> tc_input c = concat (map (encode_row (hd (done @ rows))) rows) \<and> tc_header c = h \<and>
     tc_index c = of_nat (length done) \<and> \<not> tc_conversation c \<and>
     (done \<noteq> [] \<longrightarrow> tc_previous c = offset_of (hd done) (last done))"

lemma cursor_next_row:
  assumes c: "at_row h done (r # rows) c" and n: "length (done @ r # rows) < 2 ^ 64"
    and h: "record_count h = of_nat (length (done @ r # rows))"
      "first_timestamp_ns h = fst (hd (done @ r # rows))" "last_timestamp_ns h = fst (last (done @ r # rows))"
    and s: "sorted_wrt (\<lambda>a b. sint (fst a) \<le> sint (fst b)) (done @ r # rows)"
    and pos: "fst (snd r) \<noteq> 0" "snd (snd r) \<noteq> 0"
  shows "\<exists>c'. cursor_next c = Inr (Some (record_of_row (hd (done @ r # rows)) r, c')) \<and> at_row h (done @ [r]) rows c'"
proof -
  let ?r0 = "hd (done @ r # rows)"
  let ?c = "c\<lparr>tc_input := concat (map (encode_row ?r0) rows), tc_previous := offset_of ?r0 r, tc_index := tc_index c + 1\<rparr>"
  have f: "tc_index c = of_nat (length done)" "tc_header c = h" "\<not> tc_conversation c" "done \<noteq> [] \<Longrightarrow> tc_previous c = offset_of ?r0 (last done)"
    "tc_input c = encode_row ?r0 r @ concat (map (encode_row ?r0) rows)"
    using c by (auto simp: at_row_def)
  have u: "unat (tc_index c) = length done" "unat (record_count h) = length (done @ r # rows)"
    "unat (tc_index c + 1) = Suc (length done)"
    using n unat_count [of "length done"] unat_count [OF n] unat_count [of "Suc (length done)"]
    unfolding f(1) h(1) by (simp_all add: add.commute)
  have ne: "tc_index c \<noteq> record_count h" using u(1,2) by auto
  have zero: "tc_index c = 0 \<longleftrightarrow> done = []" using u(1) by (simp add: word_unat_eq_iff)
  have r0: "sint (fst ?r0) \<le> sint (fst x)" if "x \<in> set (done @ [r])" for x
    using s that by (cases "done") (auto simp: sorted_wrt_append)
  have first: "done = [] \<Longrightarrow> offset_of ?r0 r = 0" by (simp add: offset_of_def)
  have later: "\<not> offset_of ?r0 r < tc_previous c" if "done \<noteq> []"
  proof -
    have l: "last done \<in> set done" using that by simp
    then have "sint (fst (last done)) \<le> sint (fst r)" using s by (auto simp: sorted_wrt_append)
    then show ?thesis using f(4) [OF that] uint_offset [OF r0 [of r]] uint_offset [OF r0 [of "last done"]] l
      by (simp add: word_less_def)
  qed
  have full: "tc_index c + 1 = record_count h \<Longrightarrow> rows = []" using u(2,3) by auto
  have last: "rows = [] \<Longrightarrow> sint (first_timestamp_ns h) + uint (offset_of ?r0 r) = sint (last_timestamp_ns h)"
    using uint_offset [OF r0 [of r]] h(2,3) by simp
  have read: "read_record (tc_input c) = Inr (record_of_row ?r0 r, concat (map (encode_row ?r0) rows))"
    by (simp add: f(5) read_encoded_row record_of_row_def)
  let ?off = "arrival_offset_ns (record_of_row ?r0 r)"
  have off: "?off = offset_of ?r0 r" by (simp add: record_of_row_def)
  have ok: "\<not> ((tc_index c = 0 \<and> ?off \<noteq> 0) \<or> (tc_index c \<noteq> 0 \<and> ?off < tc_previous c) \<or>
      (\<not> tc_conversation c \<and> context_tokens (record_of_row ?r0 r) = 0) \<or> generated_tokens (record_of_row ?r0 r) = 0)"
    using zero first later pos unfolding off by (auto simp: record_of_row_def)
  have fin: "\<not> (tc_index c + 1 = record_count h \<and>
      sint (first_timestamp_ns h) + uint ?off \<noteq> sint (last_timestamp_ns h))"
    using full last unfolding off by blast
  have "cursor_next c = Inr (Some (record_of_row ?r0 r, ?c))"
    using ne f(3) read ok fin by (simp add: cursor_next_def f(2) Let_def off)
  moreover have "at_row h (done @ [r]) rows ?c" using f(1-3) by (simp add: at_row_def hd_append)
  ultimately show ?thesis by blast
qed

lemma read_records_rows:
  assumes "length (done @ rows) < 2 ^ 64"
    and "record_count h = of_nat (length (done @ rows))"
      "first_timestamp_ns h = fst (hd (done @ rows))" "last_timestamp_ns h = fst (last (done @ rows))"
    and "sorted_wrt (\<lambda>a b. sint (fst a) \<le> sint (fst b)) (done @ rows)"
  shows "at_row h done rows c \<Longrightarrow> list_all (\<lambda>r. fst (snd r) \<noteq> 0 \<and> snd (snd r) \<noteq> 0) rows \<Longrightarrow>
    \<exists>c'. read_records (length rows) c = Inr (map (record_of_row (hd (done @ rows))) rows, c') \<and> at_row h (done @ rows) [] c'"
  using assms
proof (induction rows arbitrary: "done" c)
  case (Cons r rows)
  obtain c1 where c1: "cursor_next c = Inr (Some (record_of_row (hd (done @ r # rows)) r, c1))" "at_row h (done @ [r]) rows c1"
    using cursor_next_row [OF Cons.prems(1,3-7)] Cons.prems(2) by auto
  from Cons.IH [OF c1(2)] Cons.prems obtain c' where
    "read_records (length rows) c1 = Inr (map (record_of_row (hd (done @ r # rows))) rows, c')" "at_row h (done @ r # rows) [] c'"
    by auto
  then show ?case using c1(1) by simp
qed simp

lemma parse_row_positive: "parse_row line = Inr r \<Longrightarrow> fst (snd r) \<noteq> 0 \<and> snd (snd r) \<noteq> 0"
proof -
  have "parse_count s = Inr n \<Longrightarrow> n \<noteq> 0" for s n
  proof -
    assume "parse_count s = Inr n"
    then obtain v where v: "v \<noteq> 0" "\<not> v > 2 ^ 32 - 1" "n = of_int v" "digits_loop 0 s = Some v"
      by (auto simp: parse_count_def split: option.splits if_splits)
    have nonneg: "digits_loop a s = Some b \<Longrightarrow> 0 \<le> a \<Longrightarrow> 0 \<le> b" for a b
    proof (induction s arbitrary: a)
      case (Cons c s)
      then have "is_digit c" "digits_loop (a * 10 + digit_value c) s = Some b" by (auto split: if_splits)
      then show ?case using Cons.IH [of "a * 10 + digit_value c"] Cons.prems(2) digit_value_nonneg [of c] by simp
    qed simp
    have "0 < v" "v < 2 ^ 32" using nonneg [OF v(4)] v(1,2) by auto
    then have "uint n = v" unfolding v(3) by (simp add: unsigned_of_int take_bit_int_eq_self_iff)
    then show "n \<noteq> 0" using v(1) by auto
  qed
  then show "parse_row line = Inr r \<Longrightarrow> fst (snd r) \<noteq> 0 \<and> snd (snd r) \<noteq> 0"
    by (auto simp: parse_row_def Let_def sbind_Inr split: if_splits)
qed

text \<open>What a successful preparation has written.\<close>
lemma prepare_trace_written:
  assumes "prepare_trace csv = Some (Inr file)"
  shows "\<exists>rows w. map parse_row (tl (csv_lines csv)) = map Inr rows \<and> rows \<noteq> [] \<and> written rows w \<and>
    file = trace_header w (sha256_standard (bytes_of csv)) @ tw_records w"
proof -
  obtain line rest h where first: "hashed_getline csv sha_new = Some (Some (line, rest, h))"
    and schema: "strip_return line = csv_schema"
    using assms by (auto simp: prepare_trace_def split: option.splits if_splits)
  obtain e where g: "getline csv = Some (line, rest, e)"
    using first by (auto simp: hashed_getline_def split: option.splits bind_splits)
  obtain part where h: "hashed h part" "bytes_of csv = part @ bytes_of rest"
    using hashed_getline_result [OF hashed_new, of csv] g first by auto
  obtain r where loop: "csv_loop rest h new_writer = Some r" "case r of Inl e \<Rightarrow> True | Inr (h', w) \<Rightarrow>
     hashed h' (part @ bytes_of rest) \<and>
     (\<exists>rows. map parse_row (csv_lines rest) = map Inr rows \<and> write_rows rows new_writer = Inr w)"
    using csv_loop_result [OF h(1)] by blast
  then obtain h' w where r: "r = Inr (h', w)" "tw_count w \<noteq> 0" "file = trace_header w (sha_finish h') @ tw_records w"
    using assms first schema by (auto simp: prepare_trace_def split: sum.splits if_splits)
  then obtain rows where rows: "map parse_row (csv_lines rest) = map Inr rows" "write_rows rows new_writer = Inr w"
    "hashed h' (bytes_of csv)" using loop(2) h(2) by auto
  have w: "written rows w" using write_rows_written [OF written_new rows(2)] by simp
  then have "rows \<noteq> []" using r(2) by (auto simp: written_def)
  moreover have "tl (csv_lines csv) = csv_lines rest" using g by (simp add: csv_lines.simps [of csv])
  ultimately show ?thesis using rows(1) w r(3) finish_blocks [OF rows(3)] by auto
qed

text \<open>Conversely, rows that parse and may be written are written.\<close>
lemma csv_loop_complete:
  "hashed h m \<Longrightarrow> map parse_row (csv_lines input) = map Inr rows \<Longrightarrow> write_rows rows w = Inr w' \<Longrightarrow>
    \<exists>h'. csv_loop input h w = Some (Inr (h', w'))"
proof (induction input h w arbitrary: m rows rule: csv_loop.induct)
  case (1 input h w)
  show ?case
  proof (cases "getline input")
    case None
    have "hashed_getline input h = Some None"
      using hashed_getline_result [OF 1(2), of input] unfolding None option.case by (rule conjunct1)
    then have "csv_loop input h w = Some (Inr (h, w))" by (subst csv_loop.simps) simp
    moreover have "csv_lines input = []" using None by (simp add: csv_lines.simps)
    ultimately show ?thesis using 1(3,4) by simp
  next
    case (Some x)
    obtain line rest e where g: "getline input = Some (line, rest, e)" using Some by (metis surj_pair)
    obtain h' part where h': "hashed_getline input h = Some (Some (line, rest, h'))" "hashed h' (m @ part)"
      using hashed_getline_result [OF 1(2), of input] g by auto
    have lines: "csv_lines input = line # csv_lines rest" using g by (simp add: csv_lines.simps)
    obtain row rows' where rows: "rows = row # rows'" "parse_row line = Inr row"
      "map parse_row (csv_lines rest) = map Inr rows'" using 1(3) unfolding lines by (cases rows) auto
    obtain v where v: "write_row row w = Inr v" "write_rows rows' v = Inr w'"
      using 1(4) unfolding rows(1) by (auto simp: sbind_Inr)
    have row: "sbind (parse_row line) (\<lambda>row. write_row row w) = Inr v" using rows(2) v(1) by simp
    have "csv_loop input h w = csv_loop rest h' v" using h'(1) row by (subst csv_loop.simps) simp
    then show ?thesis using 1(1) [OF h'(1) refl refl refl row h'(2) rows(3) v(2)] by simp
  qed
qed

lemma prepare_trace_complete:
  assumes "csv_lines csv = line # lines" "strip_return line = csv_schema" "map parse_row lines = map Inr rows"
    "write_rows rows new_writer = Inr w" "tw_count w \<noteq> 0"
  shows "\<exists>file. prepare_trace csv = Some (Inr file)"
proof -
  obtain rest e where g: "getline csv = Some (line, rest, e)" and l: "csv_lines rest = lines"
    using assms(1) by (subst (asm) csv_lines.simps) (auto split: option.splits)
  obtain h part where h: "hashed_getline csv sha_new = Some (Some (line, rest, h))" "hashed h part"
    using hashed_getline_result [OF hashed_new, of csv] g by auto
  obtain h' where "csv_loop rest h new_writer = Some (Inr (h', w))"
    using csv_loop_complete [OF h(2) _ assms(4), of rest] assms(3) l by auto
  then show ?thesis using h(1) assms(2,5) by (simp add: prepare_trace_def)
qed

definition small_csv :: string where
  "small_csv = csv_schema @ [newline] @ ''2024-02-29 00:00:01Z,5,7'' @ [newline] @ ''2024-02-29 00:00:01.25Z,1,2''"

lemma small_csv_lines: "csv_lines small_csv = [csv_schema, ''2024-02-29 00:00:01Z,5,7'', ''2024-02-29 00:00:01.25Z,1,2'']"
  by (simp add: small_csv_def csv_schema_def csv_lines.simps getline_def Let_def)

lemma small_csv_rows: "map parse_row [''2024-02-29 00:00:01Z,5,7'', ''2024-02-29 00:00:01.25Z,1,2''] =
    map Inr [(1709164801000000000, 5, 7), (1709164801250000000, 1, 2)]"
  by code_simp

lemma small_csv_written:
  "case write_rows [(1709164801000000000, 5, 7), (1709164801250000000, 1, 2)] new_writer of
     Inl e \<Rightarrow> False | Inr w \<Rightarrow> tw_count w \<noteq> 0"
  by (simp add: write_row_def new_writer_def Let_def)

lemma small_csv_prepared: "\<exists>file. prepare_trace small_csv = Some (Inr file)"
proof -
  obtain w where "write_rows [(1709164801000000000, 5, 7), (1709164801250000000, 1, 2)] new_writer = Inr w" "tw_count w \<noteq> 0"
    using small_csv_written by (auto split: sum.splits)
  moreover have "strip_return csv_schema = csv_schema" by code_simp
  ultimately show ?thesis using prepare_trace_complete [OF small_csv_lines _ small_csv_rows] by blast
qed

text \<open>
  C29. A prepared trace reads back as the CSV it was made from: opening it succeeds, the header
  holds the number of rows, their first and last timestamps and the SHA-256 of the source, and the
  cursor delivers the rows of the CSV in order, with arrival offsets from the first timestamp,
  and then ends without an error.
\<close>
theorem trace_round_trip:
  assumes "prepare_trace csv = Some (Inr file)" and "length csv < 2 ^ 59"
  shows "\<exists>rows rd c. map parse_row (tl (csv_lines csv)) = map Inr rows \<and> open_trace file = Inr rd \<and>
    rd_header rd = \<lparr>record_count = of_nat (length rows), first_timestamp_ns = fst (hd rows),
      last_timestamp_ns = fst (last rows), source_sha256_hex = the (sha256_hex csv)\<rparr> \<and>
    read_records (length rows) (cursor rd) = Inr (map (record_of_row (hd rows)) rows, c) \<and> cursor_next c = Inr None"
proof -
  obtain rows w where rows: "map parse_row (tl (csv_lines csv)) = map Inr rows" "rows \<noteq> []" "written rows w"
    "file = trace_header w (sha256_standard (bytes_of csv)) @ tw_records w"
    using prepare_trace_written [OF assms(1)] by blast
  have w: "tw_count w = of_nat (length rows)" "length rows < 2 ^ 64" "tw_first w = fst (hd rows)" "tw_last w = fst (last rows)"
    "sorted_wrt (\<lambda>a b. sint (fst a) \<le> sint (fst b)) rows" "tw_records w = concat (map (encode_row (hd rows)) rows)"
    using rows(2,3) by (simp_all add: written_def)
  have count: "unat (tw_count w) = length rows" using unat_count [OF w(2)] w(1) by simp
  have lines: "length (csv_lines s) \<le> length s" for s
  proof (induction s rule: csv_lines.induct)
    case (1 s)
    show ?case
    proof (cases "getline s")
      case (Some x)
      obtain line rest e where "getline s = Some (line, rest, e)" using Some by (metis surj_pair)
      then show ?thesis using 1 [of _ line _ rest e] getline_shorter [of s line rest e]
        by (subst csv_lines.simps) fastforce
    qed (simp add: csv_lines.simps)
  qed
  have small: "length rows < 2 ^ 59"
  proof -
    have "length rows = length (tl (csv_lines csv))" using rows(1) by (metis length_map)
    then show ?thesis using lines [of csv] assms(2) by simp
  qed
  have ord: "sint (tw_first w) \<le> sint (tw_last w)"
    using w(3-5) rows(2) by (cases rows rule: rev_cases) (auto simp: sorted_wrt_append hd_append)
  have ne: "tw_count w \<noteq> 0" using count rows(2) by (auto simp: word_unat_eq_iff)
  let ?h = "\<lparr>record_count = tw_count w, first_timestamp_ns = tw_first w, last_timestamp_ns = tw_last w,
    source_sha256_hex = hex (sha256_standard (bytes_of csv))\<rparr>"
  have hdr: "read_header file = Inr (?h, False, tw_records w)"
    unfolding rows(4) by (rule read_trace_header [OF length_digest ne ord])
  have len: "length file = 96 + length rows * 16"
    unfolding rows(4) w(6) using length_trace_header [OF length_digest]
    by (simp add: length_concat comp_def encode_row_def sum_list_triv)
  let ?rd = "\<lparr>rd_file = file, rd_header = ?h, rd_conversation = False, rd_offsets = []\<rparr>"
  have op: "open_trace file = Inr ?rd" using hdr len count small by (simp add: open_trace_def)
  have cur: "at_row ?h [] rows (cursor ?rd)"
    using length_trace_header [OF length_digest] by (simp add: at_row_def cursor_def rows(4) w(6))
  have pos: "list_all (\<lambda>r. fst (snd r) \<noteq> 0 \<and> snd (snd r) \<noteq> 0) rows"
  proof -
    have "\<exists>line. parse_row line = Inr r" if "r \<in> set rows" for r
    proof -
      have "Inr r \<in> set (map parse_row (tl (csv_lines csv)))" unfolding rows(1) using that by simp
      then show ?thesis by auto
    qed
    then show ?thesis unfolding list_all_iff using parse_row_positive by blast
  qed
  obtain c where c: "read_records (length rows) (cursor ?rd) = Inr (map (record_of_row (hd rows)) rows, c)" "at_row ?h rows [] c"
    using read_records_rows [of "[]" rows ?h, OF _ _ _ _ _ cur pos] w by auto
  have "cursor_next c = Inr None" using c(2) w(1) by (simp add: at_row_def cursor_next_def)
  then show ?thesis using rows(1) op c(1) w(1,3,4)
    by (intro exI [of _ rows] exI [of _ ?rd] exI [of _ c]) (simp add: sha256_hex_standard)
qed

theorem trace_round_trip_witness:
  "\<exists>file rd. prepare_trace small_csv = Some (Inr file) \<and> open_trace file = Inr rd"
proof -
  obtain bytes where "prepare_trace small_csv = Some (Inr bytes)" using small_csv_prepared by blast
  moreover have "length small_csv < 2 ^ 59" by (simp add: small_csv_def csv_schema_def)
  ultimately show ?thesis using trace_round_trip [of small_csv bytes] by blast
qed

text \<open>
  Preparing a trace always ends with a file or an error, and a text that is not a CSV of the
  expected schema with at least one good row never gives a file.
\<close>
theorem prepare_trace_total:
  "case prepare_trace csv of None \<Rightarrow> False | Some (Inl e) \<Rightarrow> True
   | Some (Inr file) \<Rightarrow> strip_return (hd (csv_lines csv)) = csv_schema \<and> 2 \<le> length (csv_lines csv) \<and>
       \<not> list_ex (\<lambda>line. \<exists>e. parse_row line = Inl e) (tl (csv_lines csv))"
proof (cases "prepare_trace csv")
  case None
  have first: "case getline csv of None \<Rightarrow> hashed_getline csv sha_new = Some None \<and> csv = []
    | Some (line, rest, e) \<Rightarrow> \<exists>h' done. hashed_getline csv sha_new = Some (Some (line, rest, h')) \<and>
        hashed h' ([] @ done) \<and> bytes_of csv = done @ bytes_of rest"
    by (rule hashed_getline_result [OF hashed_new])
  then show ?thesis using None csv_loop_result
    by (auto simp: prepare_trace_def split: option.splits if_splits sum.splits) (metis option.distinct(1))+
next
  case (Some r)
  show ?thesis
  proof (cases r)
    case (Inr bytes)
    then obtain rows where rows: "map parse_row (tl (csv_lines csv)) = map Inr rows" "rows \<noteq> []"
      using prepare_trace_written [of csv bytes] Some by auto
    obtain line rest h where first: "hashed_getline csv sha_new = Some (Some (line, rest, h))" "strip_return line = csv_schema"
      using Some Inr by (auto simp: prepare_trace_def split: option.splits if_splits)
    then obtain e where "getline csv = Some (line, rest, e)"
      by (auto simp: hashed_getline_def split: option.splits bind_splits)
    then have hd: "csv_lines csv = line # csv_lines rest" by (simp add: csv_lines.simps [of csv])
    moreover have "csv_lines rest \<noteq> []" using rows hd by auto
    moreover have "\<not> list_ex (\<lambda>line. \<exists>e. parse_row line = Inl e) (csv_lines rest)"
    proof
      assume "list_ex (\<lambda>line. \<exists>e. parse_row line = Inl e) (csv_lines rest)"
      then obtain x e where "x \<in> set (csv_lines rest)" "parse_row x = Inl e" by (auto simp: list_ex_iff)
      then have "Inl e \<in> set (map parse_row (tl (csv_lines csv)))" using hd by force
      then show False unfolding rows(1) by auto
    qed
    ultimately show ?thesis using Some Inr first(2) by (cases "csv_lines rest") auto
  qed (use Some in simp)
qed

end
