(* ===== verification/Floating.thy ===== *)
theory Floating
  imports Complex_Main Prelude "HOL-Library.Log_Nat"
begin

text \<open>
  Binary floating point as the policies use it (\<open>double\<close> and \<open>long double\<close>): a finite value is
  the rational number it stands for, and every operation is the exact one followed by rounding
  to nearest, ties to even, in a format given by its precision and its largest exponent. The
  sign of zero is not kept; it would show only in a division by a negative zero, and every zero
  the code here can divide by is a converted unsigned number.
  Fused operations are not used.

  What the components need of it: rounding is monotone on representable bounds
  (\<open>to_fp_le\<close>, \<open>to_fp_ge\<close>), returns representable values (\<open>to_fp_representable\<close>) and keeps
  those it is given (\<open>to_fp_id\<close>).
\<close>

section \<open>Rounding\<close>

record Format =
  precision :: nat \<comment> \<open>bits of the significand, the leading one included\<close>
  max_exponent :: int

text \<open>\<open>double\<close>; \<open>long double\<close> differs between platforms and is a parameter where it occurs.\<close>
definition double :: Format where
  "double = \<lparr>precision = 53, max_exponent = 1023\<rparr>"

text \<open>The exponent of the leading binary digit of a nonzero number.\<close>
definition magnitude :: "rat \<Rightarrow> int" where
  "magnitude x =
     (let (n, d) = quotient_of x; e = bitlen \<bar>n\<bar> - bitlen d in
      if 2 powi e \<le> \<bar>x\<bar> then e else e - 1)"

definition round_half_even :: "rat \<Rightarrow> int" where
  "round_half_even x =
     (let f = \<lfloor>x\<rfloor>; r = x - of_int f in
      if r < 1 / 2 \<or> (r = 1 / 2 \<and> even f) then f else f + 1)"

text \<open>The exponent of the last digit kept; it does not fall below that of the smallest subnormal.\<close>
definition unit_exponent :: "Format \<Rightarrow> rat \<Rightarrow> int" where
  "unit_exponent f x = max (magnitude x) (1 - max_exponent f) - (int (precision f) - 1)"

definition round_rat :: "Format \<Rightarrow> rat \<Rightarrow> rat" where
  "round_rat f x =
     (if x = 0 then 0
      else let u = 2 powi unit_exponent f x in of_int (round_half_even (x / u)) * u)"

datatype fp = Finite rat | Infinite bool \<comment> \<open>negative\<close> | NaN

definition to_fp :: "Format \<Rightarrow> rat \<Rightarrow> fp" where
  "to_fp f x =
     (let y = round_rat f x in
      if \<bar>y\<bar> < 2 powi (max_exponent f + 1) then Finite y else Infinite (y < 0))"

section \<open>Operations\<close>

definition is_finite :: "fp \<Rightarrow> bool" where
  "is_finite a = (case a of Finite x \<Rightarrow> True | _ \<Rightarrow> False)"

fun fp_add :: "Format \<Rightarrow> fp \<Rightarrow> fp \<Rightarrow> fp" where
  "fp_add f (Finite x) (Finite y) = to_fp f (x + y)"
| "fp_add f (Infinite s) (Finite y) = Infinite s"
| "fp_add f (Finite x) (Infinite t) = Infinite t"
| "fp_add f (Infinite s) (Infinite t) = (if s = t then Infinite s else NaN)"
| "fp_add f NaN b = NaN"
| "fp_add f a NaN = NaN"

fun fp_neg :: "fp \<Rightarrow> fp" where
  "fp_neg (Finite x) = Finite (- x)"
| "fp_neg (Infinite s) = Infinite (\<not> s)"
| "fp_neg NaN = NaN"

definition fp_sub :: "Format \<Rightarrow> fp \<Rightarrow> fp \<Rightarrow> fp" where
  "fp_sub f a b = fp_add f a (fp_neg b)"

fun fp_mul :: "Format \<Rightarrow> fp \<Rightarrow> fp \<Rightarrow> fp" where
  "fp_mul f (Finite x) (Finite y) = to_fp f (x * y)"
| "fp_mul f (Infinite s) (Finite y) = (if y = 0 then NaN else Infinite (s \<noteq> (y < 0)))"
| "fp_mul f (Finite x) (Infinite t) = (if x = 0 then NaN else Infinite (t \<noteq> (x < 0)))"
| "fp_mul f (Infinite s) (Infinite t) = Infinite (s \<noteq> t)"
| "fp_mul f NaN b = NaN"
| "fp_mul f a NaN = NaN"

fun fp_div :: "Format \<Rightarrow> fp \<Rightarrow> fp \<Rightarrow> fp" where
  "fp_div f (Finite x) (Finite y) =
     (if y = 0 then (if x = 0 then NaN else Infinite (x < 0)) else to_fp f (x / y))"
| "fp_div f (Infinite s) (Finite y) = Infinite (s \<noteq> (y < 0))"
| "fp_div f (Finite x) (Infinite t) = Finite 0"
| "fp_div f (Infinite s) (Infinite t) = NaN"
| "fp_div f NaN b = NaN"
| "fp_div f a NaN = NaN"

text \<open>\<open><\<close>, \<open><=\<close>, \<open>==\<close>: false as soon as an operand is not a number.\<close>
fun fp_less :: "fp \<Rightarrow> fp \<Rightarrow> bool" where
  "fp_less (Finite x) (Finite y) \<longleftrightarrow> x < y"
| "fp_less (Finite x) (Infinite t) \<longleftrightarrow> \<not> t"
| "fp_less (Infinite s) (Finite y) \<longleftrightarrow> s"
| "fp_less (Infinite s) (Infinite t) \<longleftrightarrow> s \<and> \<not> t"
| "fp_less NaN b \<longleftrightarrow> False"
| "fp_less a NaN \<longleftrightarrow> False"

fun fp_eq :: "fp \<Rightarrow> fp \<Rightarrow> bool" where
  "fp_eq NaN b \<longleftrightarrow> False"
| "fp_eq a b \<longleftrightarrow> a = b"

definition fp_le :: "fp \<Rightarrow> fp \<Rightarrow> bool" where
  "fp_le a b \<longleftrightarrow> fp_less a b \<or> fp_eq a b"

text \<open>\<open>std::max\<close>, \<open>std::min\<close> and \<open>std::clamp\<close>, with the argument they return on a tie or a NaN.\<close>
definition fp_max :: "fp \<Rightarrow> fp \<Rightarrow> fp" where
  "fp_max a b = (if fp_less a b then b else a)"

definition fp_min :: "fp \<Rightarrow> fp \<Rightarrow> fp" where
  "fp_min a b = (if fp_less b a then b else a)"

definition fp_clamp :: "fp \<Rightarrow> fp \<Rightarrow> fp \<Rightarrow> fp" where
  "fp_clamp v lo hi = (if fp_less v lo then lo else if fp_less hi v then hi else v)"

fun fp_floor :: "fp \<Rightarrow> fp" where
  "fp_floor (Finite x) = Finite (of_int \<lfloor>x\<rfloor>)"
| "fp_floor a = a"

fun fp_ceiling :: "fp \<Rightarrow> fp" where
  "fp_ceiling (Finite x) = Finite (of_int \<lceil>x\<rceil>)"
| "fp_ceiling a = a"

fun fp_abs :: "fp \<Rightarrow> fp" where
  "fp_abs (Finite x) = Finite \<bar>x\<bar>"
| "fp_abs (Infinite s) = Infinite False"
| "fp_abs NaN = NaN"

text \<open>From an integer, and between formats.\<close>
definition fp_of_int :: "Format \<Rightarrow> int \<Rightarrow> fp" where
  "fp_of_int f n = to_fp f (of_int n)"

fun fp_convert :: "Format \<Rightarrow> fp \<Rightarrow> fp" where
  "fp_convert f (Finite x) = to_fp f x"
| "fp_convert f a = a"

text \<open>The integer a cast gives; a value out of the range of the target is undefined in C++.\<close>
fun fp_truncate :: "fp \<Rightarrow> int" where
  "fp_truncate (Finite x) = (if x < 0 then - \<lfloor>- x\<rfloor> else \<lfloor>x\<rfloor>)"
| "fp_truncate a = 0"

section \<open>Representable values\<close>

definition representable :: "Format \<Rightarrow> rat \<Rightarrow> bool" where
  "representable f x \<longleftrightarrow> \<bar>x\<bar> < 2 powi (max_exponent f + 1) \<and>
     (\<exists>k e. x = of_int k * 2 powi e \<and> \<bar>k\<bar> \<le> 2 ^ precision f \<and> 2 - max_exponent f - int (precision f) \<le> e)"

definition well_formed :: "Format \<Rightarrow> bool" where
  "well_formed f \<longleftrightarrow> 0 < precision f \<and> 0 < max_exponent f"

lemma well_formed_double [simp]: "well_formed double"
  by (simp add: well_formed_def double_def)

lemma powi_pos [simp]: "0 < (2::rat) powi e"
  by (simp add: zero_less_power_int)

lemma powi_nonzero [simp]: "(2::rat) powi e \<noteq> 0"
  by (metis powi_pos less_irrefl)

lemma powi_split: "(2::rat) powi (a + b) = 2 powi a * 2 powi b"
  by (simp add: power_int_add)

lemma powi_mono: "a \<le> b \<Longrightarrow> (2::rat) powi a \<le> 2 powi b"
  by (rule power_int_increasing) simp_all

lemma powi_less: "a < b \<Longrightarrow> (2::rat) powi a < 2 powi b"
  by (rule power_int_strict_increasing) simp_all

lemma powi_less_iff: "(2::rat) powi a < 2 powi b \<longleftrightarrow> a < b"
  using powi_less [of a b] powi_mono [of b a] by (metis not_le)

lemma bitlen_powi:
  assumes "0 < (n::int)"
  shows "(2::rat) powi (bitlen n - 1) \<le> of_int n" "of_int n < (2::rat) powi bitlen n"
proof -
  have b: "2 ^ nat (bitlen n - 1) \<le> n" "n < 2 ^ nat (bitlen n)" using bitlen_bounds [OF assms] by auto
  have p: "1 \<le> bitlen n" using assms by (auto simp: bitlen_alt_def)
  have "rat_of_int (2 ^ nat (bitlen n - 1)) \<le> of_int n" using b(1) by (simp only: of_int_le_iff)
  then show "(2::rat) powi (bitlen n - 1) \<le> of_int n" using p by (simp add: power_int_nonneg_exp)
  have "rat_of_int n < of_int (2 ^ nat (bitlen n))" using b(2) by (simp only: of_int_less_iff)
  then show "of_int n < (2::rat) powi bitlen n" using p by (simp add: power_int_nonneg_exp)
qed

lemma magnitude_bounds:
  assumes "x \<noteq> 0"
  shows "2 powi magnitude x \<le> \<bar>x\<bar>" "\<bar>x\<bar> < 2 powi (magnitude x + 1)"
proof -
  obtain n d where q: "quotient_of x = (n, d)" by (metis surj_pair)
  have d: "0 < d" using quotient_of_denom_pos [OF q] .
  have x: "x = of_int n / of_int d" using quotient_of_div [OF q] .
  have n: "0 < \<bar>n\<bar>" using assms x by auto
  let ?e = "bitlen \<bar>n\<bar> - bitlen d"
  note bn = bitlen_powi [OF n] and bd = bitlen_powi [OF d]
  have ax: "\<bar>x\<bar> = of_int \<bar>n\<bar> / of_int d" using d by (simp add: x)
  have dpos: "(0::rat) < of_int d" using d by simp
  have up: "\<bar>x\<bar> < 2 powi (?e + 1)"
  proof -
    have "rat_of_int \<bar>n\<bar> < 2 powi bitlen \<bar>n\<bar>" using bn(2) .
    also have "\<dots> = 2 powi (?e + 1) * 2 powi (bitlen d - 1)" by (simp add: powi_split [symmetric])
    also have "\<dots> \<le> 2 powi (?e + 1) * of_int d" using bd(1) by (intro mult_left_mono) (simp_all add: less_imp_le)
    finally show ?thesis unfolding ax using dpos by (simp add: divide_less_eq)
  qed
  have low: "2 powi (?e - 1) \<le> \<bar>x\<bar>"
  proof -
    have "(2::rat) powi (?e - 1) * of_int d \<le> 2 powi (?e - 1) * 2 powi bitlen d"
      using bd(2) by (intro mult_left_mono) (simp_all add: less_imp_le)
    also have "\<dots> = 2 powi (bitlen \<bar>n\<bar> - 1)" by (simp add: powi_split [symmetric])
    also have "\<dots> \<le> of_int \<bar>n\<bar>" using bn(1) .
    finally show ?thesis unfolding ax using dpos by (simp add: le_divide_eq)
  qed
  show "2 powi magnitude x \<le> \<bar>x\<bar>" "\<bar>x\<bar> < 2 powi (magnitude x + 1)"
    using up low by (auto simp: magnitude_def q Let_def)
qed

lemma round_half_even_bounds: "round_half_even x = \<lfloor>x\<rfloor> \<or> round_half_even x = \<lfloor>x\<rfloor> + 1 \<and> of_int \<lfloor>x\<rfloor> < x"
proof -
  have "of_int \<lfloor>x\<rfloor> \<le> x" by simp
  then show ?thesis unfolding round_half_even_def Let_def by (auto simp: not_less)
qed

lemma round_half_even_int [simp]: "round_half_even (of_int k) = k"
  by (simp add: round_half_even_def)

text \<open>Rounding does not cross an integer.\<close>
lemma round_half_even_le: "x \<le> of_int k \<Longrightarrow> round_half_even x \<le> k"
proof -
  assume x: "x \<le> of_int k"
  then have f: "\<lfloor>x\<rfloor> \<le> k" by linarith
  show ?thesis using round_half_even_bounds [of x]
  proof
    assume r: "round_half_even x = \<lfloor>x\<rfloor> + 1 \<and> of_int \<lfloor>x\<rfloor> < x"
    then have "rat_of_int \<lfloor>x\<rfloor> < of_int k" using x by linarith
    then show ?thesis using r by simp
  qed (use f in simp)
qed

lemma round_half_even_ge: "of_int k \<le> x \<Longrightarrow> k \<le> round_half_even x"
  using round_half_even_bounds [of x] by (metis add_increasing2 le_floor_iff zero_le_one)


lemma round_rat_multiple:
  assumes "x \<noteq> 0"
  shows "x \<le> of_int m * 2 powi unit_exponent f x \<Longrightarrow> round_rat f x \<le> of_int m * 2 powi unit_exponent f x"
    and "of_int m * 2 powi unit_exponent f x \<le> x \<Longrightarrow> of_int m * 2 powi unit_exponent f x \<le> round_rat f x"
proof -
  let ?u = "2 powi unit_exponent f x :: rat"
  assume "x \<le> of_int m * ?u"
  then have "x / ?u \<le> of_int m" by (simp add: divide_le_eq)
  then have "of_int (round_half_even (x / ?u)) \<le> rat_of_int m" using round_half_even_le by simp
  then show "round_rat f x \<le> of_int m * ?u" using assms by (simp add: round_rat_def Let_def)
next
  let ?u = "2 powi unit_exponent f x :: rat"
  assume "of_int m * ?u \<le> x"
  then have "of_int m \<le> x / ?u" by (simp add: le_divide_eq)
  then have "rat_of_int m \<le> of_int (round_half_even (x / ?u))" using round_half_even_ge by simp
  then show "of_int m * ?u \<le> round_rat f x" using assms by (simp add: round_rat_def Let_def)
qed

text \<open>
  A bound that is no multiple of the unit is smaller than the number that is rounded; the power of
  two at its leading digit is a multiple.
\<close>
lemma representable_unit:
  assumes f: "well_formed f" and w: "representable f w" and x: "x \<noteq> 0"
  shows "(\<exists>m. w = of_int m * 2 powi unit_exponent f x) \<or>
    (\<exists>m. \<bar>w\<bar> \<le> of_int m * 2 powi unit_exponent f x \<and> of_int m * 2 powi unit_exponent f x \<le> \<bar>x\<bar>)"
proof -
  let ?u = "unit_exponent f x" and ?p = "int (precision f)"
  obtain k e where k: "w = of_int k * 2 powi e" "\<bar>k\<bar> \<le> 2 ^ precision f" "2 - max_exponent f - ?p \<le> e"
    using w unfolding representable_def by blast
  show ?thesis
  proof (cases "?u \<le> e")
    case True
    then have "(2::rat) powi e = of_int (2 ^ nat (e - ?u)) * 2 powi ?u"
      using powi_split [of "e - ?u" ?u] by (simp add: power_int_nonneg_exp)
    then have "w = of_int (k * 2 ^ nat (e - ?u)) * 2 powi ?u" using k(1) by simp
    then show ?thesis by blast
  next
    case False
    then have u: "magnitude x = ?u + (?p - 1)" using k(3) by (simp add: unit_exponent_def max_def split: if_splits)
    have p: "1 \<le> ?p" using f by (simp add: well_formed_def)
    have "\<bar>w\<bar> = of_int \<bar>k\<bar> * 2 powi e" using k(1) by (simp add: abs_mult)
    also have "\<dots> \<le> of_int (2 ^ precision f) * 2 powi e"
      using k(2) by (intro mult_right_mono) (simp_all only: of_int_le_iff powi_pos less_imp_le)
    also have "\<dots> = 2 powi (?p + e)" by (simp add: powi_split)
    also have "\<dots> \<le> 2 powi ((?p - 1) + ?u)" using False by (intro powi_mono) simp
    also have "\<dots> = of_int (2 ^ nat (?p - 1)) * 2 powi ?u" using p by (simp add: powi_split power_int_nonneg_exp)
    finally have "\<bar>w\<bar> \<le> of_int (2 ^ nat (?p - 1)) * 2 powi ?u" .
    moreover have "of_int (2 ^ nat (?p - 1)) * 2 powi ?u \<le> \<bar>x\<bar>"
      using magnitude_bounds(1) [OF x] p unfolding u by (simp add: powi_split power_int_nonneg_exp mult.commute)
    ultimately show ?thesis by blast
  qed
qed

lemma round_rat_le:
  assumes "well_formed f" "representable f w" "x \<le> w"
  shows "round_rat f x \<le> w"
proof (cases "x = 0")
  case False
  let ?u = "2 powi unit_exponent f x :: rat"
  consider m where "w = of_int m * ?u" | m where "\<bar>w\<bar> \<le> of_int m * ?u" "of_int m * ?u \<le> \<bar>x\<bar>"
    using representable_unit [OF assms(1,2) False] by blast
  then show ?thesis
  proof cases
    case 1
    then show ?thesis using round_rat_multiple(1) [OF False] assms(3) by blast
  next
    case (2 m)
    show ?thesis
    proof (cases "0 < x")
      case True
      then have "x \<le> of_int m * ?u" "of_int m * ?u \<le> w" using 2 assms(3) by linarith+
      then show ?thesis using round_rat_multiple(1) [OF False, of m] by (blast intro: order.trans)
    next
      case neg: False
      then have "x \<le> of_int (- m) * ?u" "of_int (- m) * ?u \<le> w" using 2 by auto
      then show ?thesis using round_rat_multiple(1) [OF False, of "- m"] by (blast intro: order.trans)
    qed
  qed
qed (use assms in \<open>simp add: round_rat_def\<close>)

lemma round_rat_ge:
  assumes "well_formed f" "representable f w" "w \<le> x"
  shows "w \<le> round_rat f x"
proof (cases "x = 0")
  case False
  let ?u = "2 powi unit_exponent f x :: rat"
  consider m where "w = of_int m * ?u" | m where "\<bar>w\<bar> \<le> of_int m * ?u" "of_int m * ?u \<le> \<bar>x\<bar>"
    using representable_unit [OF assms(1,2) False] by blast
  then show ?thesis
  proof cases
    case 1
    then show ?thesis using round_rat_multiple(2) [OF False] assms(3) by blast
  next
    case (2 m)
    show ?thesis
    proof (cases "0 < x")
      case True
      then have "of_int m * ?u \<le> x" "w \<le> of_int m * ?u" using 2 by linarith+
      then show ?thesis using round_rat_multiple(2) [OF False, of m] by (blast intro: order.trans)
    next
      case neg: False
      then have "of_int (- m) * ?u \<le> x" "w \<le> of_int (- m) * ?u" using 2 assms(3) by auto
      then show ?thesis using round_rat_multiple(2) [OF False, of "- m"] by (blast intro: order.trans)
    qed
  qed
qed (use assms in \<open>simp add: round_rat_def\<close>)

lemma round_rat_digits:
  assumes "well_formed f" "x \<noteq> 0"
  shows "\<bar>round_half_even (x / 2 powi unit_exponent f x)\<bar> \<le> 2 ^ precision f"
proof -
  let ?u = "unit_exponent f x"
  have "magnitude x + 1 \<le> int (precision f) + ?u" by (simp add: unit_exponent_def)
  then have "\<bar>x\<bar> \<le> 2 powi (int (precision f) + ?u)"
    using magnitude_bounds(2) [OF assms(2)] powi_mono by (meson less_imp_le order.trans)
  then have "\<bar>x / 2 powi ?u\<bar> \<le> of_int (2 ^ precision f)" by (simp add: powi_split divide_le_eq)
  then have "x / 2 powi ?u \<le> of_int (2 ^ precision f)" "of_int (- (2 ^ precision f)) \<le> x / 2 powi ?u"
    unfolding abs_le_iff by auto
  then show ?thesis using round_half_even_le round_half_even_ge by (metis abs_le_iff minus_le_iff)
qed

lemma to_fp_representable: "well_formed f \<Longrightarrow> to_fp f x = Finite y \<Longrightarrow> representable f y"
proof -
  assume f: "well_formed f" and y: "to_fp f x = Finite y"
  then have y': "y = round_rat f x" "\<bar>y\<bar> < 2 powi (max_exponent f + 1)"
    by (auto simp: to_fp_def Let_def split: if_splits)
  show ?thesis
  proof (cases "x = 0")
    case True
    then have "y = of_int 0 * 2 powi (2 - max_exponent f - int (precision f))" using y'(1) by (simp add: round_rat_def)
    then show ?thesis using y'(2) unfolding representable_def by fastforce
  next
    case False
    have "y = of_int (round_half_even (x / 2 powi unit_exponent f x)) * 2 powi unit_exponent f x"
      using y'(1) False by (simp add: round_rat_def Let_def)
    moreover have "2 - max_exponent f - int (precision f) \<le> unit_exponent f x" by (simp add: unit_exponent_def)
    ultimately show ?thesis using y'(2) round_rat_digits [OF f False] unfolding representable_def by blast
  qed
qed

lemma to_fp_id: "well_formed f \<Longrightarrow> representable f x \<Longrightarrow> to_fp f x = Finite x"
proof -
  assume f: "well_formed f" and x: "representable f x"
  have "round_rat f x = x" using round_rat_le [OF f x order_refl] round_rat_ge [OF f x order_refl] by simp
  then show ?thesis using x by (simp add: to_fp_def representable_def)
qed

lemma to_fp_le: "well_formed f \<Longrightarrow> representable f w \<Longrightarrow> x \<le> w \<Longrightarrow> \<not> fp_less (Finite w) (to_fp f x)"
  using round_rat_le [of f w x] by (auto simp: to_fp_def Let_def representable_def not_less)

lemma to_fp_ge: "well_formed f \<Longrightarrow> representable f w \<Longrightarrow> w \<le> x \<Longrightarrow> \<not> fp_less (to_fp f x) (Finite w)"
  using round_rat_ge [of f w x] by (auto simp: to_fp_def Let_def representable_def not_less)

lemma to_fp_not_NaN [simp]: "to_fp f x \<noteq> NaN"
  by (simp add: to_fp_def Let_def)

lemma representable_int:
  assumes "well_formed f" "\<bar>k\<bar> \<le> 2 ^ precision f" "int (precision f) \<le> max_exponent f"
  shows "representable f (of_int k)"
proof -
  have "\<bar>of_int k :: rat\<bar> = of_int \<bar>k\<bar>" by simp
  also have "\<dots> \<le> of_int (2 ^ precision f)" using assms(2) by (simp only: of_int_le_iff)
  also have "\<dots> = 2 powi int (precision f)" by simp
  also have "\<dots> < 2 powi (max_exponent f + 1)" using assms(3) by (intro powi_less) simp
  finally show ?thesis unfolding representable_def using assms
    by (intro conjI exI [of _ k] exI [of _ 0]) (simp_all add: well_formed_def)
qed

lemma double_int: "\<bar>k\<bar> \<le> 2 ^ 53 \<Longrightarrow> to_fp double (of_int k) = Finite (of_int k)"
  by (rule to_fp_id [OF well_formed_double representable_int]) (simp_all add: double_def well_formed_def)

lemma fp_order [simp]:
  "fp_le (Finite x) (Finite y) \<longleftrightarrow> x \<le> y" "fp_max (Finite x) (Finite y) = Finite (max x y)"
  "fp_min (Finite x) (Finite y) = Finite (min x y)"
  by (auto simp: fp_le_def fp_max_def fp_min_def max_def min_def)

lemma is_finite_simps [simp]: "is_finite (Finite x)" "\<not> is_finite (Infinite s)" "\<not> is_finite NaN"
  by (simp_all add: is_finite_def)

end
