(* ===== verification/Profiles.thy ===== *)
theory Profiles
  imports Floating Scheduler_State "HOL-Library.Signed_Division"
begin

text \<open>
  What the numeric policies know of the model and the machine (\<open>src/runtime/model_profile.{hpp,cpp}\<close>,
  \<open>make_hardware_profile\<close>) and the resources a batch needs (\<open>src/policies/batch_utilities.{hpp,cpp}\<close>).
  A signed 64-bit integer is a \<open>u64\<close> read with \<open>sint\<close>. The format of \<open>long double\<close> is the
  parameter \<open>ld\<close>.
\<close>

section \<open>Profiles\<close>

record RawModelProfile =
  raw_parameter_count :: u64
  raw_model_bytes :: u64
  raw_layer_count :: u64
  raw_embedding_dimension :: u64
  raw_attention_head_count :: u64
  raw_kv_head_count :: u64
  raw_key_bytes :: fp
  raw_value_bytes :: fp
  raw_context_capacity :: u64
  raw_batch_capacity :: u64
  raw_max_sequences :: u64

record ModelProfile =
  parameter_count :: u64
  model_bytes :: u64
  layer_count :: u64
  embedding_dimension :: u64
  attention_head_count :: u64
  kv_head_count :: u64
  head_dimension :: u64
  key_effective_bytes_per_scalar :: fp
  value_effective_bytes_per_scalar :: fp
  mean_bytes_per_parameter :: fp
  context_capacity :: u64
  batch_capacity :: u64
  max_sequences :: u64

definition is_positive_finite :: "fp \<Rightarrow> bool" where
  "is_positive_finite a \<longleftrightarrow> is_finite a \<and> fp_less (Finite 0) a"

definition make_model_profile :: "RawModelProfile \<Rightarrow> ModelProfile option" where
  "make_model_profile raw =
     (if raw_parameter_count raw = 0 \<or> raw_model_bytes raw = 0 \<or>
         sint (raw_layer_count raw) \<le> 0 \<or> sint (raw_embedding_dimension raw) \<le> 0 \<or>
         sint (raw_attention_head_count raw) \<le> 0 \<or> sint (raw_kv_head_count raw) \<le> 0 \<or>
         sint (raw_context_capacity raw) \<le> 0 \<or> sint (raw_batch_capacity raw) \<le> 0 \<or>
         sint (raw_max_sequences raw) \<le> 0 \<or>
         sint (raw_embedding_dimension raw) smod sint (raw_attention_head_count raw) \<noteq> 0 \<or>
         sint (raw_kv_head_count raw) > sint (raw_attention_head_count raw) \<or>
         \<not> is_positive_finite (raw_key_bytes raw) \<or> \<not> is_positive_finite (raw_value_bytes raw)
      then None
      else
        (let mean = fp_div double (fp_of_int double (uint (raw_model_bytes raw)))
                                  (fp_of_int double (uint (raw_parameter_count raw))) in
         if \<not> is_positive_finite mean then None
         else Some \<lparr>parameter_count = raw_parameter_count raw, model_bytes = raw_model_bytes raw,
           layer_count = raw_layer_count raw, embedding_dimension = raw_embedding_dimension raw,
           attention_head_count = raw_attention_head_count raw, kv_head_count = raw_kv_head_count raw,
           head_dimension = of_int (sint (raw_embedding_dimension raw) sdiv sint (raw_attention_head_count raw)),
           key_effective_bytes_per_scalar = raw_key_bytes raw,
           value_effective_bytes_per_scalar = raw_value_bytes raw, mean_bytes_per_parameter = mean,
           context_capacity = raw_context_capacity raw, batch_capacity = raw_batch_capacity raw,
           max_sequences = raw_max_sequences raw\<rparr>))"

record RawHardwareProfile =
  raw_model_identifier :: string
  raw_total_memory_bytes :: u64
  raw_physical_cpu_count :: u32
  raw_logical_cpu_count :: u32
  raw_page_size_bytes :: u64

record HardwareProfile =
  model_identifier :: string
  total_memory_bytes :: u64
  physical_cpu_count :: u32
  logical_cpu_count :: u32
  page_size_bytes :: u64

definition make_hardware_profile :: "RawHardwareProfile \<Rightarrow> HardwareProfile option" where
  "make_hardware_profile raw =
     (if raw_model_identifier raw = [] \<or> raw_total_memory_bytes raw = 0 \<or> raw_physical_cpu_count raw = 0 \<or>
         raw_logical_cpu_count raw < raw_physical_cpu_count raw \<or> raw_page_size_bytes raw = 0
      then None
      else Some \<lparr>model_identifier = raw_model_identifier raw, total_memory_bytes = raw_total_memory_bytes raw,
        physical_cpu_count = raw_physical_cpu_count raw, logical_cpu_count = raw_logical_cpu_count raw,
        page_size_bytes = raw_page_size_bytes raw\<rparr>)"

section \<open>The resources of a batch\<close>

record BatchResourceUsage =
  total_tokens :: u64
  work_items :: u64
  resident_kv_bytes :: fp
  required_memory_bytes :: fp
  usage_valid :: bool

definition kv_bytes_per_token :: "Format \<Rightarrow> ModelProfile \<Rightarrow> fp" where
  "kv_bytes_per_token ld m =
     (let kv_dimension = fp_mul ld (fp_of_int ld (uint (kv_head_count m))) (fp_of_int ld (uint (head_dimension m)));
          kv_scalar_bytes = fp_convert ld (fp_add double (key_effective_bytes_per_scalar m) (value_effective_bytes_per_scalar m)) in
      fp_mul ld (fp_mul ld (fp_of_int ld (uint (layer_count m))) kv_dimension) kv_scalar_bytes)"

text \<open>The two loops: the tokens resident before the batch, and with it. Both wrap at 64 bits.\<close>
fun resident_from :: "u64 \<Rightarrow> RequestState list \<Rightarrow> u64" where
  "resident_from n [] = n"
| "resident_from n (r # rs) =
     (if stage r \<noteq> PrefillStage \<and> stage r \<noteq> DecodeStage then resident_from n rs
      else
        (let n = n + u64_of_u32 (prefill_position r);
             n = (if decoded_count r > 0 then n + u64_of_u32 (decoded_count r - 1) else n) in
         resident_from n rs))"

fun count_work :: "u64 \<times> u64 \<Rightarrow> WorkItem list \<Rightarrow> u64 \<times> u64" where
  "count_work (tokens, resident) [] = (tokens, resident)"
| "count_work (tokens, resident) (w # ws) =
     count_work (tokens + u64_of_u32 (token_count w),
       resident + (if work_kind w = Prefill then u64_of_u32 (token_count w) else 1)) ws"

definition evaluate_batch_resources ::
  "Format \<Rightarrow> RequestState list \<Rightarrow> WorkItem list \<Rightarrow> u32 \<Rightarrow> ModelProfile \<Rightarrow> HardwareProfile \<Rightarrow> BatchResourceUsage" where
  "evaluate_batch_resources ld requests work budget m hw =
     (let (tokens, resident) = count_work (0, resident_from 0 requests) work;
          items = of_nat (length work);
          kv = fp_mul ld (kv_bytes_per_token ld m) (fp_of_int ld (uint resident));
          required = fp_add ld (fp_of_int ld (uint (model_bytes m))) kv in
      \<lparr>total_tokens = tokens, work_items = items, resident_kv_bytes = kv, required_memory_bytes = required,
       usage_valid = (tokens \<le> u64_of_u32 budget \<and> tokens \<le> batch_capacity m \<and> items \<le> max_sequences m \<and>
         is_finite kv \<and> is_finite required \<and> fp_le required (fp_of_int ld (uint (total_memory_bytes hw))))\<rparr>)"

text \<open>Whether any batch of a single token is accepted: it does not matter which token.\<close>
definition one_token_fits :: "Format \<Rightarrow> policy_view \<Rightarrow> ModelProfile \<Rightarrow> HardwareProfile \<Rightarrow> bool" where
  "one_token_fits ld v m hw \<longleftrightarrow>
     usage_valid (evaluate_batch_resources ld (pv_requests v) [default_work\<lparr>token_end := 1\<rparr>] (pv_token_budget v) m hw)"

lemma one_token_resources:
  assumes "token_count w = 1"
  shows "evaluate_batch_resources ld rs [w] b m hw = evaluate_batch_resources ld rs [default_work\<lparr>token_end := 1\<rparr>] b m hw"
proof -
  have "u64_of_u32 (1::u32) = 1" by (simp add: u64_of_u32_def)
  then show ?thesis using assms
    by (simp add: evaluate_batch_resources_def default_work_def token_count_def Let_def)
qed

section \<open>What a model profile promises\<close>

lemma representable_powi:
  assumes "well_formed f" "2 - max_exponent f - int (precision f) \<le> e" "e \<le> max_exponent f"
  shows "representable f (2 powi e)"
proof -
  have "\<bar>2 powi e\<bar> < (2::rat) powi (max_exponent f + 1)" using assms(3) by (simp add: powi_less)
  moreover have "(2::rat) powi e = of_int 1 * 2 powi e" by simp
  moreover have "\<bar>1::int\<bar> \<le> 2 ^ precision f" by simp
  ultimately show ?thesis using assms(2) unfolding representable_def by blast
qed

lemma to_fp_between:
  assumes f: "well_formed f" and lo: "representable f lo" "lo \<le> x" and hi: "representable f hi" "x \<le> hi"
  shows "\<exists>y. to_fp f x = Finite y \<and> lo \<le> y \<and> y \<le> hi"
proof (cases "to_fp f x")
  case (Finite y)
  then show ?thesis using to_fp_le [OF f hi] to_fp_ge [OF f lo] by (simp add: not_less)
next
  case (Infinite s)
  then show ?thesis using to_fp_le [OF f hi] to_fp_ge [OF f lo] by (cases s) simp_all
qed simp

lemma mean_positive:
  assumes "a \<noteq> 0" "b \<noteq> 0"
  shows "is_positive_finite (fp_div double (fp_of_int double (uint (a::u64))) (fp_of_int double (uint (b::u64))))"
proof -
  have p: "representable double (2 powi e)" if "- 64 \<le> e" "e \<le> 64" for e
    by (rule representable_powi [OF well_formed_double]) (use that in \<open>simp_all add: double_def\<close>)
  have conv: "\<exists>y. fp_of_int double (uint w) = Finite y \<and> 1 \<le> y \<and> y \<le> 2 powi 64" if "w \<noteq> 0" for w :: u64
  proof -
    have "0 < uint w" using that by (simp add: word_less_def word_neq_0_conv [symmetric] uint_0_iff less_le)
    then have "1 \<le> uint w" by simp
    then have lo: "2 powi 0 \<le> rat_of_int (uint w)" by (simp only: power_int_0_right of_int_1_le_iff)
    have "uint w \<le> 2 ^ 64" using uint_lt2p [of w] by simp
    then have "rat_of_int (uint w) \<le> of_int (2 ^ 64)" by (simp only: of_int_le_iff)
    then have hi: "rat_of_int (uint w) \<le> 2 powi 64" by simp
    show ?thesis using to_fp_between [OF well_formed_double p [of 0] lo p [of 64] hi] by (simp add: fp_of_int_def)
  qed
  obtain x where x: "fp_of_int double (uint a) = Finite x" "1 \<le> x" "x \<le> 2 powi 64" using conv [OF assms(1)] by blast
  obtain y where y: "fp_of_int double (uint b) = Finite y" "1 \<le> y" "y \<le> 2 powi 64" using conv [OF assms(2)] by blast
  have lo: "2 powi - 64 \<le> x / y"
  proof -
    have "2 powi - 64 * y \<le> 2 powi - 64 * 2 powi 64" using y(3) by (intro mult_left_mono) simp_all
    also have "\<dots> \<le> x" using x(2) by (simp add: powi_split [symmetric])
    finally show ?thesis using y(2) by (simp add: le_divide_eq)
  qed
  have "x \<le> 2 powi 64 * y" using x(3) y(2) mult_mono [of x "2 powi 64" 1 y] by simp
  then have hi: "x / y \<le> 2 powi 64" using y(2) by (simp add: divide_le_eq)
  obtain z where z: "to_fp double (x / y) = Finite z" "2 powi - 64 \<le> z"
    using to_fp_between [OF well_formed_double p lo p hi] by auto
  have "0 < z" using z(2) powi_pos [of "- 64"] by linarith
  then show ?thesis using x(1) y(1,2) z(1) by (simp add: is_positive_finite_def)
qed

text \<open>What is needed of the raw numbers.\<close>
definition describes_model :: "RawModelProfile \<Rightarrow> bool" where
  "describes_model raw \<longleftrightarrow> raw_parameter_count raw \<noteq> 0 \<and> raw_model_bytes raw \<noteq> 0 \<and>
     0 < sint (raw_layer_count raw) \<and> 0 < sint (raw_embedding_dimension raw) \<and>
     0 < sint (raw_kv_head_count raw) \<and> sint (raw_kv_head_count raw) \<le> sint (raw_attention_head_count raw) \<and>
     sint (raw_attention_head_count raw) dvd sint (raw_embedding_dimension raw) \<and>
     0 < sint (raw_context_capacity raw) \<and> 0 < sint (raw_batch_capacity raw) \<and> 0 < sint (raw_max_sequences raw) \<and>
     is_positive_finite (raw_key_bytes raw) \<and> is_positive_finite (raw_value_bytes raw)"

lemma uint_sint_pos:
  assumes "0 < sint (w :: 'a::len word)"
  shows "uint w = sint w"
proof -
  have "sint w < 2 ^ (LENGTH('a) - 1)" by (rule sint_lt)
  also have "\<dots> \<le> 2 ^ LENGTH('a)" by (rule power_increasing) simp_all
  finally have "take_bit LENGTH('a) (sint w) = sint w" using assms by (simp add: take_bit_int_eq_self_iff)
  then show ?thesis by (simp only: uint_sint)
qed

lemma smod_dvd: "0 < a \<Longrightarrow> 0 < e \<Longrightarrow> e smod a = 0 \<longleftrightarrow> a dvd (e::int)"
  by (simp add: signed_modulo_int_def dvd_eq_mod_eq_0)

lemma sdiv_pos: "0 < a \<Longrightarrow> 0 < e \<Longrightarrow> e sdiv a = e div (a::int)"
  by (simp add: signed_divide_int_def)

text \<open>
  C28. A model profile is made exactly from raw numbers that describe a model: positive counts,
  at most as many KV heads as attention heads, an embedding the attention heads divide, positive
  finite scalar sizes. In it the heads times their dimension are the embedding, every count is
  the raw one, and the mean bytes per parameter are positive and finite, so the check of the
  rounded quotient never refuses anything.
\<close>
theorem model_profile_exact:
  "case make_model_profile raw of
     None \<Rightarrow> \<not> describes_model raw
   | Some m \<Rightarrow> describes_model raw \<and>
       uint (head_dimension m) * uint (attention_head_count m) = uint (embedding_dimension m) \<and>
       0 < uint (head_dimension m) \<and> uint (kv_head_count m) \<le> uint (attention_head_count m) \<and>
       is_positive_finite (mean_bytes_per_parameter m) \<and>
       uint (batch_capacity m) = sint (raw_batch_capacity raw) \<and> uint (max_sequences m) = sint (raw_max_sequences raw)"
proof (cases "describes_model raw")
  case True
  let ?e = "sint (raw_embedding_dimension raw)" and ?a = "sint (raw_attention_head_count raw)"
  have pos: "0 < ?e" "0 < ?a" "?a dvd ?e" using True by (auto simp: describes_model_def)
  have "is_positive_finite (fp_div double (fp_of_int double (uint (raw_model_bytes raw)))
      (fp_of_int double (uint (raw_parameter_count raw))))"
    using True by (intro mean_positive) (simp_all add: describes_model_def)
  then obtain m where m: "make_model_profile raw = Some m" "head_dimension m = of_int (?e div ?a)"
    "attention_head_count m = raw_attention_head_count raw" "embedding_dimension m = raw_embedding_dimension raw"
    "kv_head_count m = raw_kv_head_count raw" "batch_capacity m = raw_batch_capacity raw"
    "max_sequences m = raw_max_sequences raw" "is_positive_finite (mean_bytes_per_parameter m)"
    using True pos by (auto simp: make_model_profile_def describes_model_def Let_def smod_dvd sdiv_pos)
  have q: "0 < ?e div ?a" using pos by (simp add: pos_imp_zdiv_pos_iff zdvd_imp_le)
  have "?e div ?a \<le> ?e" using pos int_div_less_self [of ?e ?a] by (cases "?a = 1") simp_all
  then have "uint (head_dimension m) = ?e div ?a"
    using q sint_lt [of "raw_embedding_dimension raw"] m(2)
    by (simp add: unsigned_of_int take_bit_int_eq_self_iff)
  moreover have "uint (raw_attention_head_count raw) = ?a" "uint (raw_embedding_dimension raw) = ?e"
    "uint (raw_kv_head_count raw) = sint (raw_kv_head_count raw)"
    "uint (raw_batch_capacity raw) = sint (raw_batch_capacity raw)"
    "uint (raw_max_sequences raw) = sint (raw_max_sequences raw)"
    using pos True by (simp_all add: uint_sint_pos describes_model_def)
  ultimately show ?thesis using m True q pos by (simp add: describes_model_def)
next
  case False
  have "make_model_profile raw = None"
  proof (rule ccontr)
    assume "make_model_profile raw \<noteq> None"
    then have "describes_model raw"
      by (auto simp: make_model_profile_def describes_model_def Let_def smod_dvd not_le split: if_splits)
    then show False using False by simp
  qed
  then show ?thesis using False by simp
qed

end
