(* ===== verification/Stable_Sort.thy ===== *)
theory Stable_Sort
  imports Main "HOL-Library.Multiset"
begin

text \<open>
  \<open>std::stable_sort\<close> and \<open>std::max_element\<close> with a comparison function. The comparison has to be
  a strict weak order on the elements that occur (locale \<open>weak_order\<close>); then the result is
  determined, and insertion sort computes it.
\<close>

fun insert_before :: "('a \<Rightarrow> 'a \<Rightarrow> bool) \<Rightarrow> 'a \<Rightarrow> 'a list \<Rightarrow> 'a list" where
  "insert_before lt x [] = [x]"
| "insert_before lt x (y # ys) = (if lt y x then y # insert_before lt x ys else x # y # ys)"

definition stable_sort :: "('a \<Rightarrow> 'a \<Rightarrow> bool) \<Rightarrow> 'a list \<Rightarrow> 'a list" where
  "stable_sort lt xs = foldr (insert_before lt) xs []"

text \<open>The first of the largest elements, \<open>None\<close> for the end iterator of an empty range.\<close>
fun max_element :: "('a \<Rightarrow> 'a \<Rightarrow> bool) \<Rightarrow> 'a list \<Rightarrow> 'a option" where
  "max_element lt [] = None"
| "max_element lt (x # xs) = Some (foldl (\<lambda>m y. if lt m y then y else m) x xs)"

lemma mset_insert_before [simp]: "mset (insert_before lt x xs) = add_mset x (mset xs)"
  by (induction xs) simp_all

lemma mset_stable_sort [simp]: "mset (stable_sort lt xs) = mset xs"
  by (induction xs) (simp_all add: stable_sort_def)

lemma stable_sort_set [simp]: "set (stable_sort lt xs) = set xs"
  by (metis mset_stable_sort set_mset_mset)

lemma stable_sort_length [simp]: "length (stable_sort lt xs) = length xs"
  by (metis mset_stable_sort size_mset)

lemma stable_sort_Nil_iff [simp]: "stable_sort lt xs = [] \<longleftrightarrow> xs = []"
  by (metis stable_sort_length length_0_conv)

lemma max_element_in: "max_element lt xs = Some m \<Longrightarrow> m \<in> set xs"
proof (cases xs)
  case (Cons x ys)
  have "foldl (\<lambda>m y. if lt m y then y else m) a ys \<in> insert a (set ys)" for a
    by (induction ys arbitrary: a) (auto split: if_splits)
  then show "max_element lt xs = Some m \<Longrightarrow> m \<in> set xs" using Cons by auto
qed simp

lemma max_element_None [simp]: "max_element lt xs = None \<longleftrightarrow> xs = []"
  by (cases xs) simp_all

locale weak_order =
  fixes lt :: "'a \<Rightarrow> 'a \<Rightarrow> bool" and carrier :: "'a \<Rightarrow> bool"
  assumes asym: "carrier a \<Longrightarrow> carrier b \<Longrightarrow> lt a b \<Longrightarrow> \<not> lt b a"
    and between: "carrier a \<Longrightarrow> carrier b \<Longrightarrow> carrier c \<Longrightarrow> lt a c \<Longrightarrow> lt a b \<or> lt b c"
begin

lemma insert_sorted:
  "list_all carrier (x # xs) \<Longrightarrow> sorted_wrt (\<lambda>a b. \<not> lt b a) xs \<Longrightarrow>
    sorted_wrt (\<lambda>a b. \<not> lt b a) (insert_before lt x xs)"
proof (induction xs)
  case (Cons y ys)
  show ?case
  proof (cases "lt y x")
    case True
    have s: "set (insert_before lt x ys) = insert x (set ys)" by (metis mset_insert_before set_mset_mset set_mset_add_mset_insert)
    have "sorted_wrt (\<lambda>a b. \<not> lt b a) (insert_before lt x ys)" using Cons by simp
    moreover have "\<not> lt x y" using True asym Cons.prems(1) by simp
    ultimately show ?thesis using True Cons.prems(2) s by simp
  next
    case False
    have "\<not> lt z x" if "z \<in> set ys" for z
    proof -
      have "carrier x" "carrier y" "carrier z" "\<not> lt z y"
        using that Cons.prems by (auto simp: list_all_iff)
      then show ?thesis using between [of z y x] False by blast
    qed
    then show ?thesis using False Cons.prems(2) by simp
  qed
qed simp

lemma sorted: "list_all carrier xs \<Longrightarrow> sorted_wrt (\<lambda>a b. \<not> lt b a) (stable_sort lt xs)"
proof (induction xs)
  case (Cons x xs)
  have "list_all carrier (stable_sort lt xs)" using Cons.prems by (simp add: list_all_iff)
  then have "list_all carrier (x # stable_sort lt xs)" using Cons.prems by simp
  then show ?case using insert_sorted Cons by (simp add: stable_sort_def)
qed (simp add: stable_sort_def)

text \<open>Elements that compare equal to \<open>a\<close> keep their order.\<close>
lemma stable:
  assumes "list_all carrier xs" "carrier a"
  shows "filter (\<lambda>x. \<not> lt x a \<and> \<not> lt a x) (stable_sort lt xs) = filter (\<lambda>x. \<not> lt x a \<and> \<not> lt a x) xs"
proof -
  have ins: "filter (\<lambda>x. \<not> lt x a \<and> \<not> lt a x) (insert_before lt x ys) =
      filter (\<lambda>x. \<not> lt x a \<and> \<not> lt a x) (x # ys)" if "list_all carrier (x # ys)" for x ys
    using that
  proof (induction ys)
    case (Cons y ys)
    show ?case
    proof (cases "lt y x")
      case True
      have c: "carrier x" "carrier y" using Cons.prems by simp_all
      have "lt y a \<or> lt a y \<or> lt x a \<or> lt a x" using True between c assms(2) by blast
      then show ?thesis using True Cons by auto
    qed simp
  qed simp
  show ?thesis using assms(1)
  proof (induction xs)
    case (Cons x xs)
    have "list_all carrier (x # stable_sort lt xs)" using Cons.prems by (simp add: list_all_iff)
    then show ?case using ins [of x "stable_sort lt xs"] Cons by (simp add: stable_sort_def)
  qed (simp add: stable_sort_def)
qed

text \<open>The head of a sorted list is not after any other element.\<close>
lemma hd_first: "list_all carrier xs \<Longrightarrow> x \<in> set xs \<Longrightarrow> \<not> lt x (hd (stable_sort lt xs))"
proof -
  assume c: "list_all carrier xs" and x: "x \<in> set xs"
  have s: "sorted_wrt (\<lambda>a b. \<not> lt b a) (stable_sort lt xs)" using c by (rule sorted)
  have "x \<in> set (stable_sort lt xs)" using x by simp
  then obtain y ys where "stable_sort lt xs = y # ys" by (cases "stable_sort lt xs") auto
  moreover have "carrier y" using c calculation by (metis list.set_intros(1) list_all_iff stable_sort_set)
  ultimately show ?thesis using s x asym by (metis list.sel(1) set_ConsD sorted_wrt.simps(2) stable_sort_set)
qed

end

end
