(* ===== verification/AIMD.thy ===== *)
theory AIMD
  imports Profiles Stable_Sort Policies
begin

text \<open>
  The policy \<open>HeuristicAIMD\<close> (\<open>src/policies/heuristic_aimd.{hpp,cpp}\<close>): batches of decode items or of
  prefill chunks, chosen by urgency under the limits of memory, with a decode window that grows
  by a step after a fast batch and shrinks by a factor after a slow or failed one. Its members
  are the record \<open>HeuristicAIMD\<close>, its overrides \<open>aimd_build_plan\<close> and \<open>aimd_on_plan_completed\<close>.
\<close>

section \<open>Configuration and members\<close>

record HeuristicAIMDConfig =
  initial_window :: fp
  minimum_window :: fp
  maximum_window :: fp
  additive_step :: fp
  multiplicative_factor :: fp
  target_batch_duration :: duration
  ttft_target :: duration
  tpot_target :: duration
  starvation_threshold :: u32
  max_consecutive_decode_batches :: u32
  max_prefill_chunk :: u32

definition default_aimd_config :: HeuristicAIMDConfig where
  "default_aimd_config = \<lparr>initial_window = Finite 512, minimum_window = Finite 16, maximum_window = Finite 512,
     additive_step = Finite 16, multiplicative_factor = to_fp double (4 / 5),
     target_batch_duration = 50000000, ttft_target = 2000000000, tpot_target = 200000000,
     starvation_threshold = 8, max_consecutive_decode_batches = 2, max_prefill_chunk = 512\<rparr>"

record BatchFeasibility =
  feasible_tokens :: u64
  feasible_items :: u64
  feasible_kv_bytes :: fp
  feasible_memory_bytes :: fp
  feasible :: bool

definition default_feasibility :: BatchFeasibility where
  "default_feasibility = \<lparr>feasible_tokens = 0, feasible_items = 0, feasible_kv_bytes = Finite 0,
     feasible_memory_bytes = Finite 0, feasible = True\<rparr>"

record Candidate =
  cand_work :: WorkItem
  context_length :: u32
  prompt_end :: u32
  cand_urgency :: fp
  cand_bypasses :: u32

text \<open>\<open>bypasses_\<close> is a map from ids; its order is never used.\<close>
record HeuristicAIMD =
  ai_model :: ModelProfile
  ai_hardware :: HardwareProfile
  ai_config :: HeuristicAIMDConfig
  prefill_window :: fp
  decode_window :: fp
  decode_time_per_item_ewma :: "fp option"
  last_feasibility :: BatchFeasibility
  bypasses :: "RequestId \<Rightarrow> u32 option"
  consecutive_decode_batches :: u32

text \<open>\<open>validate\<close>, negated.\<close>
definition aimd_config_valid :: "HeuristicAIMDConfig \<Rightarrow> bool" where
  "aimd_config_valid c \<longleftrightarrow>
     \<not> (\<not> is_finite (initial_window c) \<or> \<not> is_finite (minimum_window c) \<or> \<not> is_finite (maximum_window c) \<or>
        \<not> is_finite (additive_step c) \<or> \<not> is_finite (multiplicative_factor c) \<or>
        fp_le (minimum_window c) (Finite 0) \<or> fp_less (maximum_window c) (minimum_window c) \<or>
        fp_le (initial_window c) (Finite 0) \<or> fp_le (additive_step c) (Finite 0) \<or>
        fp_le (multiplicative_factor c) (Finite 0) \<or> fp_le (Finite 1) (multiplicative_factor c) \<or>
        target_batch_duration c \<le> 0 \<or> ttft_target c \<le> 0 \<or> tpot_target c \<le> 0 \<or>
        starvation_threshold c = 0 \<or> max_consecutive_decode_batches c = 0 \<or> max_prefill_chunk c = 0)"

definition new_aimd :: "ModelProfile \<Rightarrow> HardwareProfile \<Rightarrow> HeuristicAIMDConfig \<Rightarrow> exn + HeuristicAIMD" where
  "new_aimd m hw c =
     (if \<not> aimd_config_valid c then Inl (Invalid_argument ''invalid heuristic AIMD configuration'')
      else
        (let w = fp_clamp (initial_window c) (minimum_window c) (maximum_window c) in
         Inr \<lparr>ai_model = m, ai_hardware = hw, ai_config = c, prefill_window = w, decode_window = w,
           decode_time_per_item_ewma = None, last_feasibility = default_feasibility,
           bypasses = (\<lambda>_. None), consecutive_decode_batches = 0\<rparr>))"

text \<open>The whole constructor, the scheduler's first.\<close>
definition new_heuristic_aimd :: "'x clock_function \<Rightarrow> Handoff \<Rightarrow> u32 \<Rightarrow> ModelProfile \<Rightarrow> HardwareProfile \<Rightarrow>
    HeuristicAIMDConfig \<Rightarrow> HeuristicAIMD \<Rightarrow> 'x \<Rightarrow> exn + ('x, HeuristicAIMD) Scheduler" where
  "new_heuristic_aimd system_clock h budget m hw c unset x =
     (case new_scheduler system_clock h budget None x unset of
        Inl e \<Rightarrow> Inl e
      | Inr s \<Rightarrow> (case new_aimd m hw c of Inl e \<Rightarrow> Inl e | Inr p \<Rightarrow> Inr (s\<lparr>policy := p\<rparr>)))"

section \<open>The window\<close>

definition window_capacity :: "fp \<Rightarrow> u32" where
  "window_capacity window =
     (if fp_le (Finite 4294967295) window then u32_max
      else of_int (fp_truncate (fp_max (Finite 1) (fp_floor window))))"

definition update_window :: "HeuristicAIMDConfig \<Rightarrow> fp \<Rightarrow> fp option \<Rightarrow> fp \<Rightarrow> bool \<Rightarrow> fp option \<times> fp" where
  "update_window c sample ewma window success =
     (let shrunk = fp_max (fp_mul double window (multiplicative_factor c)) (minimum_window c) in
      if \<not> success then (ewma, shrunk)
      else if \<not> is_finite sample \<or> fp_le sample (Finite 0) then (ewma, window)
      else
        (case ewma of
           None \<Rightarrow> (Some sample, window)
         | Some e \<Rightarrow>
             (let tolerance = to_fp double (1 / 20);
                  window = (if fp_le sample (fp_mul double e (fp_add double (Finite 1) tolerance))
                            then fp_min (fp_add double window (additive_step c)) (maximum_window c) else shrunk);
                  alpha = to_fp double (1 / 5) in
              (Some (fp_add double (fp_mul double alpha sample)
                 (fp_mul double (fp_sub double (Finite 1) alpha) e)), window))))"

definition aimd_on_plan_completed :: "BatchOutcome \<Rightarrow> HeuristicAIMD \<Rightarrow> HeuristicAIMD" where
  "aimd_on_plan_completed b p =
     (let elapsed_ns = fp_of_int double (bo_duration b) in
      if bo_decode_items b \<noteq> 0 \<and> (bo_prefill_tokens b = 0 \<or> \<not> bo_success b)
      then
        (let (ewma, window) = update_window (ai_config p)
               (fp_div double elapsed_ns (fp_of_int double (uint (bo_decode_items b))))
               (decode_time_per_item_ewma p) (decode_window p) (bo_success b) in
         p\<lparr>decode_time_per_item_ewma := ewma, decode_window := window\<rparr>)
      else p)"

section \<open>Candidates\<close>

text \<open>\<open>duration<double>\<close>: seconds.\<close>
definition in_seconds :: "duration \<Rightarrow> fp" where
  "in_seconds d = fp_div double (fp_of_int double d) (fp_of_int double 1000000000)"

definition urgency_of :: "duration \<Rightarrow> duration \<Rightarrow> fp" where
  "urgency_of elapsed target = fp_min (Finite 4) (fp_div double (in_seconds elapsed) (in_seconds target))"

definition last_progress_time :: "RequestState \<Rightarrow> TimePoint" where
  "last_progress_time r =
     (if last_token_recorded r then last_token_time r
      else if first_token_recorded r then first_token_time r
      else if start_recorded r then start_time r else arrival_time r)"

text \<open>One pass of the loop: the candidate pushed for a request, if any.\<close>
definition candidate_for :: "policy_view \<Rightarrow> HeuristicAIMD \<Rightarrow> RequestState \<Rightarrow> Candidate option" where
  "candidate_for v p r =
     (let bypass_count = (case bypasses p (req_id r) of None \<Rightarrow> 0 | Some n \<Rightarrow> n) in
      if stage r = DecodeStage \<and> decoded_count r > 0 then
        (if decode_end r \<le> u64_of_u32 u32_max then
           Some \<lparr>cand_work = decode_work r, context_length = u32_of_u64 (decode_end r), prompt_end = prompt_length r,
             cand_urgency = urgency_of (max 0 (pv_now v - last_progress_time r)) (tpot_target (ai_config p)),
             cand_bypasses = bypass_count\<rparr>
         else None)
      else if stage r = PrefillStage \<and> prefill_position r < prompt_length r then
        (let remaining = prompt_length r - prefill_position r;
             count = min (min remaining (max_prefill_chunk (ai_config p))) (pv_token_budget v) in
         Some \<lparr>cand_work = prefill_work r (prefill_position r + count),
           context_length = prefill_position r + count, prompt_end = prompt_length r,
           cand_urgency = urgency_of (max 0 (pv_now v - arrival_time r)) (ttft_target (ai_config p)),
           cand_bypasses = bypass_count\<rparr>)
      else None)"

definition candidates :: "policy_view \<Rightarrow> HeuristicAIMD \<Rightarrow> Candidate list" where
  "candidates v p = List.map_filter (candidate_for v p) (pv_requests v)"

definition utility :: "HeuristicAIMD \<Rightarrow> Candidate \<Rightarrow> fp" where
  "utility p c =
     (let value = (if work_kind (cand_work c) = Decode then Finite 1
                   else fp_mul double (to_fp double (1 / 10)) (fp_of_int double (uint (token_count (cand_work c)))));
          value = (if work_kind (cand_work c) = Prefill \<and> token_end (cand_work c) = prompt_end c
                   then fp_add double value (Finite (1 / 4)) else value);
          value = fp_add double value
            (fp_add double (fp_mul double (Finite 2) (cand_urgency c))
               (fp_mul double (Finite (1 / 4)) (fp_of_int double (uint (cand_bypasses c))))) in
      if cand_bypasses c \<ge> starvation_threshold (ai_config p) then fp_add double value (Finite 1000) else value)"

definition check_feasibility :: "Format \<Rightarrow> policy_view \<Rightarrow> HeuristicAIMD \<Rightarrow> Candidate list \<Rightarrow> BatchFeasibility" where
  "check_feasibility ld v p selected =
     (let u = evaluate_batch_resources ld (pv_requests v) (map cand_work selected) (pv_token_budget v)
                (ai_model p) (ai_hardware p) in
      \<lparr>feasible_tokens = total_tokens u, feasible_items = work_items u, feasible_kv_bytes = resident_kv_bytes u,
       feasible_memory_bytes = required_memory_bytes u, feasible = usage_valid u\<rparr>)"

section \<open>Building a plan\<close>

definition decode_before :: "Candidate \<Rightarrow> Candidate \<Rightarrow> bool" where
  "decode_before a b \<longleftrightarrow>
     (if \<not> fp_eq (cand_urgency a) (cand_urgency b) then fp_less (cand_urgency b) (cand_urgency a)
      else cand_bypasses a > cand_bypasses b)"

definition prefill_before :: "u32 \<Rightarrow> Candidate \<Rightarrow> Candidate \<Rightarrow> bool" where
  "prefill_before threshold a b \<longleftrightarrow>
     (let a_starved = cand_bypasses a \<ge> threshold; b_starved = cand_bypasses b \<ge> threshold;
          a_started = token_begin (cand_work a) \<noteq> 0; b_started = token_begin (cand_work b) \<noteq> 0 in
      if a_starved \<noteq> b_starved then a_starved
      else if a_starved \<and> cand_bypasses a \<noteq> cand_bypasses b then cand_bypasses a > cand_bypasses b
      else if a_started \<noteq> b_started then a_started
      else fp_less (cand_urgency b) (cand_urgency a))"

text \<open>The loop over decode candidates; \<open>accepted\<close> is the check of a proposed batch.\<close>
fun decode_from :: "(Candidate list \<Rightarrow> bool) \<Rightarrow> u32 \<Rightarrow> u32 \<Rightarrow> Candidate list \<Rightarrow> Candidate list \<Rightarrow> Candidate list" where
  "decode_from accepted remaining_tokens remaining_decode selected [] = selected"
| "decode_from accepted remaining_tokens remaining_decode selected (c # cs) =
     (if remaining_tokens = 0 \<or> remaining_decode = 0 then selected
      else if \<not> accepted (selected @ [c]) then decode_from accepted remaining_tokens remaining_decode selected cs
      else decode_from accepted (remaining_tokens - 1) (remaining_decode - 1) (selected @ [c]) cs)"

text \<open>A candidate cut to a number of tokens.\<close>
definition cut :: "Candidate \<Rightarrow> u32 \<Rightarrow> Candidate" where
  "cut c amount =
     (let end = token_begin (cand_work c) + amount in
      c\<lparr>cand_work := (cand_work c)\<lparr>token_end := end\<rparr>, context_length := end\<rparr>)"

text \<open>The inner loop: the largest amount, from \<open>amount\<close> down, with which the batch is accepted.\<close>
function shrink :: "(Candidate list \<Rightarrow> bool) \<Rightarrow> Candidate list \<Rightarrow> Candidate \<Rightarrow> u32 \<Rightarrow> Candidate \<times> u32" where
  "shrink accepted selected c amount =
     (if amount = 0 then (c, amount)
      else
        (let c = cut c amount in
         if accepted (selected @ [c]) then (c, amount) else shrink accepted selected c (amount - 1)))"
  by auto
termination
  by (relation "measure (\<lambda>(accepted, selected, c, amount). unat amount)") (auto simp: unat_minus_one unat_gt_0)

declare shrink.simps [simp del]

fun prefill_from :: "(Candidate list \<Rightarrow> bool) \<Rightarrow> u32 \<Rightarrow> u32 \<Rightarrow> Candidate list \<Rightarrow> Candidate list \<Rightarrow> Candidate list" where
  "prefill_from accepted remaining_tokens remaining_prefill selected [] = selected"
| "prefill_from accepted remaining_tokens remaining_prefill selected (c # cs) =
     (if remaining_tokens = 0 \<or> remaining_prefill = 0 then selected
      else
        (let (c, amount) = shrink accepted selected c
               (min (min (token_count (cand_work c)) remaining_tokens) remaining_prefill) in
         if amount = 0 then prefill_from accepted remaining_tokens remaining_prefill selected cs
         else prefill_from accepted (remaining_tokens - amount) (remaining_prefill - amount) (selected @ [c]) cs))"

text \<open>The batch before the fallback, and whether it is a decode batch.\<close>
definition is_decode :: "Candidate \<Rightarrow> bool" where
  "is_decode c \<longleftrightarrow> work_kind (cand_work c) = Decode"

definition sorted_decode :: "policy_view \<Rightarrow> HeuristicAIMD \<Rightarrow> Candidate list" where
  "sorted_decode v p = stable_sort decode_before (filter is_decode (candidates v p))"

definition sorted_prefill :: "policy_view \<Rightarrow> HeuristicAIMD \<Rightarrow> Candidate list" where
  "sorted_prefill v p = stable_sort (prefill_before (starvation_threshold (ai_config p)))
     (filter (\<lambda>c. \<not> is_decode c) (candidates v p))"

definition decode_mode :: "policy_view \<Rightarrow> HeuristicAIMD \<Rightarrow> bool" where
  "decode_mode v p \<longleftrightarrow>
     (let prefill_starved = list_ex (\<lambda>c. cand_bypasses c \<ge> starvation_threshold (ai_config p)) (sorted_prefill v p);
          force_prefill = sorted_prefill v p \<noteq> [] \<and>
            (prefill_starved \<or> consecutive_decode_batches p \<ge> max_consecutive_decode_batches (ai_config p)) in
      sorted_decode v p \<noteq> [] \<and> \<not> force_prefill)"

definition selection :: "Format \<Rightarrow> policy_view \<Rightarrow> HeuristicAIMD \<Rightarrow> Candidate list" where
  "selection ld v p =
     (let accepted = (\<lambda>cs. feasible (check_feasibility ld v p cs)) in
      if decode_mode v p
      then decode_from accepted (pv_token_budget v) (window_capacity (decode_window p)) [] (sorted_decode v p)
      else prefill_from accepted (pv_token_budget v) (window_capacity (prefill_window p)) [] (sorted_prefill v p))"

text \<open>
  The fallback when nothing was selected: the candidate of the mode with the largest utility, cut
  to one token. Dereferencing the end iterator does not happen (\<open>mode_candidates_exist\<close>).
\<close>
definition with_fallback :: "policy_view \<Rightarrow> HeuristicAIMD \<Rightarrow> Candidate list \<Rightarrow> Candidate list" where
  "with_fallback v p selected =
     (if selected = [] \<and> candidates v p \<noteq> []
      then
        (case max_element (\<lambda>a b. fp_less (utility p a) (utility p b))
                (if decode_mode v p then sorted_decode v p else sorted_prefill v p) of
           None \<Rightarrow> selected
         | Some c \<Rightarrow> selected @ [if work_kind (cand_work c) = Prefill then cut c 1 else c])
      else selected)"

text \<open>The loop over the candidates that counts how often each was passed over.\<close>
fun count_bypasses :: "RequestId set \<Rightarrow> (RequestId \<Rightarrow> u32 option) \<Rightarrow> Candidate list \<Rightarrow> RequestId \<Rightarrow> u32 option" where
  "count_bypasses selected_ids m [] = m"
| "count_bypasses selected_ids m (c # cs) =
     (let i = work_id (cand_work c); n = (case m i of None \<Rightarrow> 0 | Some n \<Rightarrow> n) in
      count_bypasses selected_ids
        (m(i \<mapsto> (if i \<in> selected_ids then 0 else if n \<noteq> u32_max then n + 1 else n))) cs)"

definition next_bypasses :: "policy_view \<Rightarrow> HeuristicAIMD \<Rightarrow> Candidate list \<Rightarrow> RequestId \<Rightarrow> u32 option" where
  "next_bypasses v p selected =
     (let available = candidates v p in
      count_bypasses (set (map (work_id \<circ> cand_work) selected)) (bypasses p) available
        |` set (map (work_id \<circ> cand_work) available))"

definition aimd_build_plan :: "Format \<Rightarrow> policy_view \<Rightarrow> HeuristicAIMD \<Rightarrow> WorkItem list \<times> HeuristicAIMD" where
  "aimd_build_plan ld v p =
     (let selected = with_fallback v p (selection ld v p);
          feasibility = check_feasibility ld v p selected;
          p' = p\<lparr>bypasses := next_bypasses v p selected, last_feasibility := feasibility\<rparr> in
      if \<not> feasible feasibility then ([], p')
      else
        (map cand_work selected,
         p'\<lparr>consecutive_decode_batches :=
              (if decode_mode v p
               then (if consecutive_decode_batches p \<noteq> u32_max then consecutive_decode_batches p + 1
                     else consecutive_decode_batches p)
               else 0)\<rparr>))"

text \<open>As a policy of the scheduler; \<open>on_request_timing\<close> is not overridden.\<close>
definition aimd_policy :: "Format \<Rightarrow> HeuristicAIMD Policy" where
  "aimd_policy ld = \<lparr>build_plan = (\<lambda>v p. let (ws, p') = aimd_build_plan ld v p in (Inr ws, p')),
     on_plan_completed = (\<lambda>v b p. (Inr (), aimd_on_plan_completed b p)),
     on_request_timing = (\<lambda>v e p. (Inr (), p))\<rparr>"

end
