(* ===== verification/Rounding.thy ===== *)
theory Rounding
  imports Profiles
begin

text \<open>
  Rounding keeps the order of nonnegative numbers, and the fractional part of a representable
  number is representable, so taking it does not round.
\<close>

lemma round_half_even_mono: "x \<le> y \<Longrightarrow> round_half_even x \<le> round_half_even y"
proof -
  assume xy: "x \<le> y"
  show ?thesis
  proof (cases "\<lfloor>x\<rfloor> = \<lfloor>y\<rfloor>")
    case True
    then show ?thesis using xy by (auto simp: round_half_even_def Let_def)
  next
    case False
    then have "\<lfloor>x\<rfloor> + 1 \<le> \<lfloor>y\<rfloor>" using floor_mono [OF xy] by simp
    moreover have "round_half_even x \<le> \<lfloor>x\<rfloor> + 1" using round_half_even_bounds [of x] by auto
    moreover have "\<lfloor>y\<rfloor> \<le> round_half_even y" by (rule round_half_even_ge) simp
    ultimately show ?thesis by linarith
  qed
qed

lemma round_half_even_nonneg: "0 \<le> x \<Longrightarrow> 0 \<le> round_half_even x"
  using round_half_even_ge [of 0 x] by simp

lemma representable_zero [simp]: "representable f 0"
  unfolding representable_def by (intro conjI exI [of _ 0] exI [of _ "max (2 - max_exponent f - int (precision f)) 0"]) simp_all

lemma to_fp_zero [simp]: "to_fp f 0 = Finite 0"
  by (simp add: to_fp_def round_rat_def)

lemma to_fp_finite: "to_fp f x = Finite w \<longleftrightarrow> w = round_rat f x \<and> \<bar>w\<bar> < 2 powi (max_exponent f + 1)"
  by (auto simp: to_fp_def Let_def)

lemma round_rat_mono:
  assumes f: "well_formed f" and x: "0 < x" "x \<le> y" and w: "to_fp f y = Finite w"
  shows "round_rat f x \<le> w"
proof -
  have y: "0 < y" using x by simp
  have w': "w = round_rat f y" "\<bar>w\<bar> < 2 powi (max_exponent f + 1)" using w unfolding to_fp_finite by blast+
  show ?thesis
  proof (cases "unit_exponent f x = unit_exponent f y")
    case True
    have "x / 2 powi unit_exponent f y \<le> y / 2 powi unit_exponent f y" using x(2) by (intro divide_right_mono) simp_all
    then have "round_half_even (x / 2 powi unit_exponent f y) \<le> round_half_even (y / 2 powi unit_exponent f y)"
      by (rule round_half_even_mono)
    then show ?thesis using x y unfolding w'(1) by (simp add: round_rat_def Let_def True)
  next
    case False
    have bx: "2 powi magnitude x \<le> x" "x < 2 powi (magnitude x + 1)" using magnitude_bounds [of x] x(1) by simp_all
    have byy: "2 powi magnitude y \<le> y" "y < 2 powi (magnitude y + 1)" using magnitude_bounds [of y] y by simp_all
    have "2 powi magnitude x < (2::rat) powi (magnitude y + 1)" using bx(1) x(2) byy(2) by linarith
    then have "magnitude x < magnitude y + 1" by (simp only: powi_less_iff)
    then have m: "magnitude x < magnitude y" "1 - max_exponent f < magnitude y"
      using False by (auto simp: unit_exponent_def max_def split: if_splits)
    have u: "magnitude y = unit_exponent f y + (int (precision f) - 1)" using m(2) by (simp add: unit_exponent_def)
    have p: "1 \<le> int (precision f)" using f by (simp add: well_formed_def)
    have lead: "2 powi magnitude y = of_int (2 ^ nat (int (precision f) - 1)) * (2::rat) powi unit_exponent f y"
      unfolding u using p by (simp add: powi_split power_int_nonneg_exp mult.commute)
    have "of_int (2 ^ nat (int (precision f) - 1)) * 2 powi unit_exponent f y \<le> round_rat f y"
      by (rule round_rat_multiple(2)) (use y byy(1) lead in simp_all)
    then have le: "2 powi magnitude y \<le> w" unfolding lead w'(1) .
    then have "2 powi magnitude y < (2::rat) powi (max_exponent f + 1)" using w'(2) by linarith
    then have "magnitude y \<le> max_exponent f" unfolding powi_less_iff by simp
    then have r: "representable f (2 powi magnitude y)" using m(2) p f by (intro representable_powi) auto
    have "x \<le> 2 powi magnitude y" using bx(2) powi_mono [of "magnitude x + 1" "magnitude y"] m(1) by linarith
    from round_rat_le [OF f r this] le show ?thesis by simp
  qed
qed

lemma to_fp_mono:
  assumes f: "well_formed f" and x: "0 \<le> x" "x \<le> y" and w: "to_fp f y = Finite w"
  shows "\<exists>v. to_fp f x = Finite v \<and> 0 \<le> v \<and> v \<le> w"
proof (cases "x = 0")
  case True
  have "0 \<le> w" using round_rat_ge [OF f representable_zero, of y] x w by (simp add: to_fp_finite)
  then show ?thesis using True by simp
next
  case False
  have v: "0 \<le> round_rat f x" using round_rat_ge [OF f representable_zero x(1)] .
  moreover have "round_rat f x \<le> w" using round_rat_mono [OF f _ x(2) w] x(1) False by simp
  moreover have "\<bar>w\<bar> < 2 powi (max_exponent f + 1)" using w unfolding to_fp_finite by blast
  ultimately show ?thesis by (auto simp: to_fp_finite)
qed

lemma fp_mul_mono:
  assumes "well_formed f" "0 \<le> x" "x \<le> y" "0 \<le> k" "fp_mul f (Finite y) (Finite k) = Finite w"
  shows "\<exists>v. fp_mul f (Finite x) (Finite k) = Finite v \<and> 0 \<le> v \<and> v \<le> w"
  using to_fp_mono [of f "x * k" "y * k" w] assms by (simp add: mult_right_mono)

lemma fp_mul_finite: "fp_mul f a b = Finite w \<Longrightarrow> (\<exists>x y. a = Finite x \<and> b = Finite y)"
  by (cases a; cases b) (auto split: if_splits)

lemma representable_fraction:
  assumes "representable f v" "0 \<le> v"
  shows "representable f (v - of_int \<lfloor>v\<rfloor>)"
proof -
  obtain k e where k: "v = of_int k * 2 powi e" "\<bar>k\<bar> \<le> 2 ^ precision f" "2 - max_exponent f - int (precision f) \<le> e"
    and b: "\<bar>v\<bar> < 2 powi (max_exponent f + 1)" using assms(1) unfolding representable_def by blast
  have k0: "0 \<le> k" using assms(2) powi_pos [of e] unfolding k(1) zero_le_mult_iff by auto
  have "\<bar>v - of_int \<lfloor>v\<rfloor>\<bar> \<le> \<bar>v\<bar>" using assms(2) by (simp add: of_int_floor_le)
  then have small: "\<bar>v - of_int \<lfloor>v\<rfloor>\<bar> < 2 powi (max_exponent f + 1)" using b by linarith
  show ?thesis
  proof (cases "0 \<le> e")
    case True
    then have "v = of_int (k * 2 ^ nat e)" using k(1) by (simp add: power_int_nonneg_exp)
    then have "v - of_int \<lfloor>v\<rfloor> = 0" by simp
    then show ?thesis by simp
  next
    case False
    let ?d = "2 ^ nat (- e) :: int"
    have e: "2 powi e = 1 / rat_of_int ?d" using False by (simp add: power_int_def field_simps)
    have "v = of_int k / of_int ?d" by (simp add: k(1) e)
    then have "\<lfloor>v\<rfloor> = k div ?d" by (simp only: floor_divide_of_int_eq)
    moreover have "rat_of_int k = of_int (k div ?d) * of_int ?d + of_int (k mod ?d)"
      by (metis div_mult_mod_eq of_int_add of_int_mult)
    ultimately have fr: "v - of_int \<lfloor>v\<rfloor> = of_int (k mod ?d) * 2 powi e"
      unfolding k(1) e by (simp add: field_simps)
    have "k mod ?d \<le> k" using k0 by (simp add: zmod_le_nonneg_dividend)
    then have "\<bar>k mod ?d\<bar> \<le> 2 ^ precision f" using k(2) k0 by simp
    then show ?thesis unfolding representable_def using small k(3) fr by blast
  qed
qed

text \<open>Whole numbers in a double.\<close>
lemma double_numeral: "(numeral n :: int) \<le> 2 ^ 53 \<Longrightarrow> to_fp double (numeral n) = Finite (numeral n)"
  using double_int [of "numeral n"] by simp

lemma double_small [simp]: "to_fp double 1 = Finite 1"
  using double_int [of 1] by simp

end
