(* ===== verification/AIMD_Laws.thy ===== *)
theory AIMD_Laws
  imports AIMD Policy_Laws Rounding
begin

text \<open>
  What the parts of \<open>HeuristicAIMD\<close> do: the windows stay within their bounds, the two orders are
  weak orders, the loops select cuts of candidates within the budget, and a batch of one token
  fits or does not fit whatever the token is.
\<close>

section \<open>Windows\<close>

definition is_double :: "fp \<Rightarrow> bool" where
  "is_double a = (case a of Finite x \<Rightarrow> representable double x | _ \<Rightarrow> True)"

text \<open>The numbers of a configuration as \<open>validate\<close> leaves them.\<close>
definition window_bounds :: "HeuristicAIMDConfig \<Rightarrow> rat \<Rightarrow> rat \<Rightarrow> rat \<Rightarrow> rat \<Rightarrow> bool" where
  "window_bounds c lo hi step factor \<longleftrightarrow>
     minimum_window c = Finite lo \<and> maximum_window c = Finite hi \<and> additive_step c = Finite step \<and>
     multiplicative_factor c = Finite factor \<and> 0 < lo \<and> lo \<le> hi \<and> 0 < step \<and> 0 < factor \<and> factor < 1 \<and>
     representable double lo \<and> representable double hi"

lemma is_finite_Finite: "is_finite a \<longleftrightarrow> (\<exists>x. a = Finite x)"
  by (cases a) simp_all

lemma config_bounds:
  assumes "aimd_config_valid c" "is_double (minimum_window c)" "is_double (maximum_window c)"
  shows "\<exists>lo hi step factor. window_bounds c lo hi step factor"
proof -
  obtain lo hi step factor where "minimum_window c = Finite lo" "maximum_window c = Finite hi"
    "additive_step c = Finite step" "multiplicative_factor c = Finite factor"
    using assms(1) unfolding aimd_config_valid_def by (metis is_finite_Finite)
  then show ?thesis using assms by (auto simp: window_bounds_def aimd_config_valid_def is_double_def not_le not_less)
qed

definition window_within :: "rat \<Rightarrow> rat \<Rightarrow> fp \<Rightarrow> bool" where
  "window_within lo hi w \<longleftrightarrow> (\<exists>x. w = Finite x \<and> lo \<le> x \<and> x \<le> hi \<and> representable double x)"

lemma shrunk_within:
  assumes b: "window_bounds c lo hi step factor" and w: "window_within lo hi w"
  shows "window_within lo hi (fp_max (fp_mul double w (multiplicative_factor c)) (minimum_window c))"
proof -
  obtain x where x: "w = Finite x" "lo \<le> x" "x \<le> hi" "representable double x" using w by (auto simp: window_within_def)
  have c: "0 < lo" "lo \<le> hi" "0 < factor" "factor < 1" "representable double lo" using b by (auto simp: window_bounds_def)
  have "0 \<le> x * factor" "x * factor \<le> x" using x(2) c by (simp_all add: mult_left_le)
  then obtain y where y: "to_fp double (x * factor) = Finite y" "0 \<le> y" "y \<le> x"
    using to_fp_between [OF well_formed_double representable_zero _ x(4)] by blast
  have "representable double y" using to_fp_representable [OF well_formed_double y(1)] .
  then show ?thesis using x y c b by (auto simp: window_within_def window_bounds_def max_def)
qed

lemma grown_within:
  assumes b: "window_bounds c lo hi step factor" and w: "window_within lo hi w"
  shows "window_within lo hi (fp_min (fp_add double w (additive_step c)) (maximum_window c))"
proof -
  obtain x where x: "w = Finite x" "lo \<le> x" "x \<le> hi" "representable double x" using w by (auto simp: window_within_def)
  have c: "lo \<le> hi" "0 < step" "representable double hi" using b by (auto simp: window_bounds_def)
  have ge: "\<not> fp_less (to_fp double (x + step)) (Finite x)"
    using to_fp_ge [OF well_formed_double x(4), of "x + step"] c(2) by simp
  show ?thesis
  proof (cases "to_fp double (x + step)")
    case (Finite y)
    then have "x \<le> y" "representable double y" using ge to_fp_representable [OF well_formed_double Finite] by simp_all
    then show ?thesis using Finite x c b by (auto simp: window_within_def window_bounds_def min_def)
  next
    case (Infinite s)
    then have "\<not> s" using ge by simp
    then show ?thesis using Infinite x c b by (auto simp: window_within_def window_bounds_def fp_min_def)
  qed simp
qed

lemma update_window_within:
  assumes "window_bounds c lo hi step factor" "window_within lo hi w"
  shows "window_within lo hi (snd (update_window c sample ewma w success))"
  using shrunk_within [OF assms] grown_within [OF assms] assms(2)
  by (auto simp: update_window_def Let_def split: option.splits)

lemma completed_config [simp]:
  "ai_config (aimd_on_plan_completed b p) = ai_config p" "prefill_window (aimd_on_plan_completed b p) = prefill_window p"
  "consecutive_decode_batches (aimd_on_plan_completed b p) = consecutive_decode_batches p"
  "bypasses (aimd_on_plan_completed b p) = bypasses p"
  by (simp_all add: aimd_on_plan_completed_def Let_def split: prod.splits)

lemma build_config [simp]:
  "ai_config (snd (aimd_build_plan ld v p)) = ai_config p"
  "prefill_window (snd (aimd_build_plan ld v p)) = prefill_window p"
  "decode_window (snd (aimd_build_plan ld v p)) = decode_window p"
  by (simp_all add: aimd_build_plan_def Let_def)

lemma completed_within:
  "window_bounds (ai_config p) lo hi step factor \<Longrightarrow> window_within lo hi (decode_window p) \<Longrightarrow>
    window_within lo hi (decode_window (aimd_on_plan_completed b p))"
  using update_window_within [of "ai_config p" lo hi step factor "decode_window p"
      "fp_div double (fp_of_int double (bo_duration b)) (fp_of_int double (uint (bo_decode_items b)))"
      "decode_time_per_item_ewma p" "bo_success b"]
  by (auto simp: aimd_on_plan_completed_def Let_def split: prod.splits)

text \<open>The cast of a window to a count is always in range and at least one.\<close>
lemma window_capacity_pos: "window_capacity w \<noteq> 0"
proof (cases w)
  case (Finite x)
  show ?thesis
  proof (cases "4294967295 \<le> x")
    case False
    then have "\<lfloor>x\<rfloor> < 4294967295" by (simp add: floor_less_iff)
    then have "1 \<le> max 1 \<lfloor>x\<rfloor>" "max 1 \<lfloor>x\<rfloor> < 2 ^ 32" by simp_all
    moreover have "fp_truncate (fp_max (Finite 1) (fp_floor w)) = max 1 \<lfloor>x\<rfloor>"
      using Finite by (auto simp: max_def)
    ultimately have "uint (window_capacity w) = max 1 \<lfloor>x\<rfloor>" using Finite False
      by (simp add: window_capacity_def unsigned_of_int take_bit_int_eq_self_iff)
    then show ?thesis by auto
  qed (simp add: window_capacity_def Finite u32_max_def)
qed (auto simp: window_capacity_def fp_le_def fp_max_def u32_max_def)

section \<open>The two orders\<close>

definition comparable :: "Candidate \<Rightarrow> bool" where
  "comparable c \<longleftrightarrow> cand_urgency c \<noteq> NaN"

lemma fp_less_asym: "fp_less a b \<Longrightarrow> \<not> fp_less b a"
  by (cases a; cases b) auto

lemma fp_less_between: "fp_less a c \<Longrightarrow> b \<noteq> NaN \<Longrightarrow> fp_less a b \<or> fp_less b c"
  by (cases a; cases b; cases c) auto

lemma fp_less_total: "a \<noteq> NaN \<Longrightarrow> b \<noteq> NaN \<Longrightarrow> a \<noteq> b \<Longrightarrow> fp_less a b \<or> fp_less b a"
  by (cases a; cases b) auto

lemma fp_eq_iff: "fp_eq a b \<longleftrightarrow> a = b \<and> a \<noteq> NaN"
  by (cases a; cases b) auto

interpretation decode_order: weak_order decode_before comparable
proof unfold_locales
  fix a b c assume "comparable a" "comparable b" "comparable c"
  then show "decode_before a b \<Longrightarrow> \<not> decode_before b a"
    "decode_before a c \<Longrightarrow> decode_before a b \<or> decode_before b c"
    using fp_less_asym fp_less_between [of "cand_urgency c" "cand_urgency a" "cand_urgency b"]
      fp_less_total [of "cand_urgency b" "cand_urgency c"]
    by (auto simp: decode_before_def comparable_def fp_eq_iff split: if_splits)
qed

text \<open>The second order is lexicographic: starvation, whether started, urgency.\<close>
definition starvation :: "u32 \<Rightarrow> Candidate \<Rightarrow> nat" where
  "starvation threshold c = (if cand_bypasses c \<ge> threshold then Suc (unat (cand_bypasses c)) else 0)"

lemma prefill_before_iff:
  "prefill_before threshold a b \<longleftrightarrow> starvation threshold b < starvation threshold a \<or>
     (starvation threshold a = starvation threshold b \<and>
       (let s = token_begin (cand_work a) \<noteq> 0; t = token_begin (cand_work b) \<noteq> 0 in
        s \<and> \<not> t \<or> s = t \<and> fp_less (cand_urgency b) (cand_urgency a)))"
proof -
  have "unat (cand_bypasses a) = unat (cand_bypasses b) \<longleftrightarrow> cand_bypasses a = cand_bypasses b"
    by (simp only: word_unat_eq_iff)
  then show ?thesis
    by (cases "token_begin (cand_work a) = 0"; cases "token_begin (cand_work b) = 0")
       (auto simp: prefill_before_def starvation_def Let_def word_less_nat_alt)
qed

interpretation prefill_order: weak_order "prefill_before threshold" comparable for threshold
proof unfold_locales
  fix a b c assume cs: "comparable a" "comparable b" "comparable c"
  show "prefill_before threshold a b \<Longrightarrow> \<not> prefill_before threshold b a"
    using fp_less_asym [of "cand_urgency b" "cand_urgency a"] by (auto simp: prefill_before_iff Let_def)
  have u: "fp_less (cand_urgency c) (cand_urgency a) \<Longrightarrow>
      fp_less (cand_urgency b) (cand_urgency a) \<or> fp_less (cand_urgency c) (cand_urgency b)"
    using fp_less_between [of "cand_urgency c" "cand_urgency a" "cand_urgency b"] cs by (auto simp: comparable_def)
  assume before: "prefill_before threshold a c"
  show "prefill_before threshold a b \<or> prefill_before threshold b c"
  proof (cases "starvation threshold b < starvation threshold a \<or> starvation threshold c < starvation threshold b")
    case False
    then have "starvation threshold a = starvation threshold b" "starvation threshold b = starvation threshold c"
      using before by (auto simp: prefill_before_iff)
    then show ?thesis using before u by (auto simp: prefill_before_iff Let_def)
  qed (auto simp: prefill_before_iff)
qed

section \<open>Candidates\<close>

lemma urgency_comparable: "urgency_of e t \<noteq> NaN"
  by (auto simp: urgency_of_def fp_min_def)

text \<open>A candidate is valid work for its request.\<close>
lemma candidate_item:
  assumes "candidate_for v p r = Some c" and "pv_token_budget v \<noteq> 0" "max_prefill_chunk (ai_config p) \<noteq> 0"
  shows "work_id (cand_work c) = req_id r" "valid_item r (cand_work c)" "comparable c"
    "is_decode c \<Longrightarrow> item_tokens (cand_work c) = 1"
    "cand_bypasses c = (case bypasses p (req_id r) of None \<Rightarrow> 0 | Some n \<Rightarrow> n)"
proof -
  consider
    (decode) "stage r = DecodeStage" "decoded_count r \<noteq> 0" "\<not> decode_end r > u64_of_u32 u32_max" "cand_work c = decode_work r"
  | (prefill) "stage r = PrefillStage" "\<not> prefill_position r \<ge> prompt_length r"
      "cand_work c = prefill_work r (prefill_position r +
         min (prompt_length r - prefill_position r) (min (max_prefill_chunk (ai_config p)) (pv_token_budget v)))"
    using assms(1) by (auto simp: candidate_for_def Let_def word_neq_0_conv not_le not_less min.assoc split: if_splits)
  then have "work_id (cand_work c) = req_id r \<and> valid_item r (cand_work c) \<and> (is_decode c \<longrightarrow> item_tokens (cand_work c) = 1)"
  proof cases
    case decode
    then show ?thesis using decode_work_item [OF decode(1-3)] by simp
  next
    case prefill
    have "min (max_prefill_chunk (ai_config p)) (pv_token_budget v) \<noteq> 0" using assms(2,3) by (auto simp: min_def)
    from prefill_step [OF prefill(1,2) this] prefill(3) show ?thesis by (simp add: is_decode_def prefill_work_def)
  qed
  moreover have "comparable c" "cand_bypasses c = (case bypasses p (req_id r) of None \<Rightarrow> 0 | Some n \<Rightarrow> n)"
    using assms(1) by (auto simp: candidate_for_def comparable_def urgency_comparable Let_def split: if_splits)
  ultimately show "work_id (cand_work c) = req_id r" "valid_item r (cand_work c)" "comparable c"
    "is_decode c \<Longrightarrow> item_tokens (cand_work c) = 1"
    "cand_bypasses c = (case bypasses p (req_id r) of None \<Rightarrow> 0 | Some n \<Rightarrow> n)" by simp_all
qed

lemma candidate_workable: "candidate_for v p r \<noteq> None \<longleftrightarrow> workable r"
  unfolding candidate_for_def workable_def Let_def
  by (auto simp: decode_overflow not_less not_le word_less_nat_alt word_le_nat_alt unat_decode_end
      simp flip: decode_overflow)

text \<open>What the policy is given: distinct requests, a budget and a validated configuration.\<close>
definition well_posed :: "policy_view \<Rightarrow> HeuristicAIMD \<Rightarrow> bool" where
  "well_posed v p \<longleftrightarrow> distinct (map req_id (pv_requests v)) \<and> pv_token_budget v \<noteq> 0 \<and> aimd_config_valid (ai_config p)"

lemma well_posed_chunk: "well_posed v p \<Longrightarrow> pv_token_budget v \<noteq> 0 \<and> max_prefill_chunk (ai_config p) \<noteq> 0"
  by (simp add: well_posed_def aimd_config_valid_def)

lemma map_filter_ids:
  assumes "\<And>x y. x \<in> set xs \<Longrightarrow> f x = Some y \<Longrightarrow> g y = h x"
  shows "subseq (map g (List.map_filter f xs)) (map h xs)"
  using assms by (induction xs) (auto simp: List.map_filter_simps split: option.splits)

lemma in_candidates: "c \<in> set (candidates v p) \<longleftrightarrow> (\<exists>r \<in> set (pv_requests v). candidate_for v p r = Some c)"
proof -
  have "c \<in> set (List.map_filter f rs) \<longleftrightarrow> (\<exists>r \<in> set rs. f r = Some c)" for f :: "RequestState \<Rightarrow> Candidate option" and rs
    by (induction rs) (auto simp: List.map_filter_simps split: option.splits)
  then show ?thesis by (simp add: candidates_def)
qed

lemma candidates_distinct: "well_posed v p \<Longrightarrow> distinct (map (work_id \<circ> cand_work) (candidates v p))"
proof -
  assume w: "well_posed v p"
  note k = well_posed_chunk [OF w, THEN conjunct1] well_posed_chunk [OF w, THEN conjunct2]
  have "subseq (map (work_id \<circ> cand_work) (candidates v p)) (map req_id (pv_requests v))"
    unfolding candidates_def by (rule map_filter_ids) (use candidate_item(1) k in auto)
  then show ?thesis using w unfolding well_posed_def by (metis distinct_nthsI subseq_conv_nths)
qed

section \<open>Cuts\<close>

text \<open>A candidate, or a shorter piece of a prefill candidate.\<close>
definition piece_of :: "Candidate \<Rightarrow> Candidate \<Rightarrow> bool" where
  "piece_of c x \<longleftrightarrow> x = c \<or>
     (\<not> is_decode c \<and> (\<exists>n. n \<noteq> 0 \<and> n \<le> token_count (cand_work c) \<and> x = cut c n))"

lemma cut_fields [simp]:
  "work_id (cand_work (cut c n)) = work_id (cand_work c)" "work_kind (cand_work (cut c n)) = work_kind (cand_work c)"
  "token_begin (cand_work (cut c n)) = token_begin (cand_work c)" "is_decode (cut c n) = is_decode c"
  "token_end (cand_work (cut c n)) = token_begin (cand_work c) + n" "cut (cut c m) n = cut c n"
  "cand_bypasses (cut c n) = cand_bypasses c" "token_count (cand_work (cut c n)) = n"
  by (simp_all add: cut_def is_decode_def Let_def token_count_def)

lemma valid_item_begins: "valid_item r w \<Longrightarrow> unat (token_begin w) < unat (token_end w)"
  by (simp add: valid_item_def)

lemma token_count_item: "unat (token_begin w) \<le> unat (token_end w) \<Longrightarrow> unat (token_count w) = item_tokens w"
  by (simp add: token_count_def item_tokens_def unat_sub_le word_le_nat_alt)

lemma piece_valid:
  assumes "valid_item r (cand_work c)" "piece_of c x"
  shows "valid_item r (cand_work x) \<and> item_tokens (cand_work x) \<le> item_tokens (cand_work c)"
proof (cases "x = c")
  case False
  then obtain n where n: "\<not> is_decode c" "n \<noteq> 0" "n \<le> token_count (cand_work c)" "x = cut c n"
    using assms(2) by (auto simp: piece_of_def)
  let ?w = "cand_work c"
  have lt: "unat (token_begin ?w) < unat (token_end ?w)" using assms(1) by (rule valid_item_begins)
  have le: "0 < unat n" "unat n \<le> unat (token_end ?w) - unat (token_begin ?w)"
    using n(2,3) lt token_count_item [of ?w] by (auto simp: unat_gt_0 word_le_nat_alt item_tokens_def)
  then have e: "unat (token_begin ?w + n) = unat (token_begin ?w) + unat n"
    using lt unat_u32_lt [of "token_end ?w"] by (intro unat_add_lt) simp
  show ?thesis using assms(1) n(1,4) e le lt
    by (auto simp: valid_item_def item_tokens_def is_decode_def split: WorkKind.splits)
qed (use assms in simp)

lemma piece_tokens:
  assumes "valid_item r (cand_work c)" "n \<noteq> 0" "n \<le> token_count (cand_work c)" "\<not> is_decode c"
  shows "item_tokens (cand_work (cut c n)) = unat n"
proof -
  have "piece_of c (cut c n)" using assms(2-4) by (auto simp: piece_of_def)
  then have "valid_item r (cand_work (cut c n))" using piece_valid [OF assms(1)] by blast
  then have "unat (token_count (cand_work (cut c n))) = item_tokens (cand_work (cut c n))"
    by (intro token_count_item less_imp_le valid_item_begins)
  then show ?thesis by simp
qed

section \<open>The loops\<close>

text \<open>Pieces of some of the candidates, each candidate at most once and in their order.\<close>
definition picks :: "Candidate list \<Rightarrow> nat \<Rightarrow> Candidate list \<Rightarrow> bool" where
  "picks cs budget xs \<longleftrightarrow> subseq (map (work_id \<circ> cand_work) xs) (map (work_id \<circ> cand_work) cs) \<and>
     (\<forall>x \<in> set xs. \<exists>c \<in> set cs. piece_of c x) \<and> sum_list (map (item_tokens \<circ> cand_work) xs) \<le> budget"

lemma picks_Nil [simp]: "picks cs b []"
  by (simp add: picks_def)

lemma picks_skip: "picks cs b xs \<Longrightarrow> picks (c # cs) b xs"
  by (fastforce simp: picks_def)

lemma picks_Cons:
  assumes "picks cs b xs" "piece_of c x" "item_tokens (cand_work x) + b \<le> b'"
  shows "picks (c # cs) b' (x # xs)"
proof -
  have "work_id (cand_work x) = work_id (cand_work c)" using assms(2) by (auto simp: piece_of_def)
  then show ?thesis using assms by (fastforce simp: picks_def)
qed

lemma decode_from_picks:
  assumes "list_all (\<lambda>c. item_tokens (cand_work c) = 1) cs"
  shows "\<exists>xs. decode_from accepted b d sel cs = sel @ xs \<and> picks cs (unat b) xs \<and> set xs \<subseteq> set cs \<and>
    (xs \<noteq> [] \<longrightarrow> accepted (sel @ xs))"
  using assms
proof (induction accepted b d sel cs rule: decode_from.induct)
  case (2 accepted b d sel c cs)
  show ?case
  proof (cases "b = 0 \<or> d = 0")
    case go: False
    show ?thesis
    proof (cases "accepted (sel @ [c])")
      case True
      from "2.IH"(2) [OF go] True "2.prems" obtain xs where
        xs: "decode_from accepted (b - 1) (d - 1) (sel @ [c]) cs = (sel @ [c]) @ xs" "picks cs (unat (b - 1)) xs"
        "set xs \<subseteq> set cs" "xs \<noteq> [] \<longrightarrow> accepted ((sel @ [c]) @ xs)" by auto
      have "1 + unat (b - 1) \<le> unat b" using go unat_less_one [of b] unat_gt_0 [of b] by simp
      then have "picks (c # cs) (unat b) (c # xs)"
        using xs(2) "2.prems" by (intro picks_Cons) (simp_all add: piece_of_def)
      moreover have "accepted (sel @ c # xs)" using True xs(4) by (cases "xs = []") simp_all
      ultimately show ?thesis using go True xs(1,3) by (intro exI [of _ "c # xs"]) auto
    next
      case False
      from "2.IH"(1) [OF go False] "2.prems" obtain xs where
        "decode_from accepted b d sel cs = sel @ xs" "picks cs (unat b) xs" "set xs \<subseteq> set cs" "xs \<noteq> [] \<longrightarrow> accepted (sel @ xs)" by auto
      then show ?thesis using go False by (intro exI [of _ xs]) (auto intro: picks_skip)
    qed
  qed auto
qed simp

lemma shrink_result:
  "shrink accepted sel c n = (x, m) \<Longrightarrow> m \<le> n \<and> (m \<noteq> 0 \<longrightarrow> x = cut c m \<and> accepted (sel @ [x])) \<and>
    (m = 0 \<longrightarrow> n \<noteq> 0 \<longrightarrow> \<not> accepted (sel @ [cut c 1]))"
proof (induction accepted sel c n arbitrary: x m rule: shrink.induct)
  case (1 accepted sel c n)
  show ?case
  proof (cases "n = 0 \<or> accepted (sel @ [cut c n])")
    case True
    then show ?thesis using 1(2) by (subst (asm) shrink.simps) (auto split: if_splits)
  next
    case False
    then have r: "shrink accepted sel (cut c n) (n - 1) = (x, m)" using 1(2) by (subst (asm) shrink.simps) simp
    have IH: "m \<le> n - 1 \<and> (m \<noteq> 0 \<longrightarrow> x = cut (cut c n) m \<and> accepted (sel @ [x])) \<and>
      (m = 0 \<longrightarrow> n - 1 \<noteq> 0 \<longrightarrow> \<not> accepted (sel @ [cut (cut c n) 1]))"
      by (rule 1(1) [OF _ refl _ r]) (use False in simp_all)
    have "n - 1 \<le> n" using False unat_less_one [of n] by (simp add: word_le_nat_alt)
    moreover have "n - 1 = 0 \<Longrightarrow> n = 1" by simp
    ultimately have "m \<le> n" "m = 0 \<Longrightarrow> \<not> accepted (sel @ [cut c 1])" using IH False by (auto intro: order.trans)
    moreover have "m \<noteq> 0 \<Longrightarrow> x = cut c m \<and> accepted (sel @ [x])" using IH unfolding cut_fields by blast
    ultimately show ?thesis by blast
  qed
qed

lemma prefill_from_picks:
  assumes "list_all (\<lambda>c. \<not> is_decode c \<and> (\<exists>r. valid_item r (cand_work c))) cs"
  shows "\<exists>xs. prefill_from accepted b d sel cs = sel @ xs \<and> picks cs (unat b) xs \<and>
    (xs \<noteq> [] \<longrightarrow> accepted (sel @ xs))"
  using assms
proof (induction accepted b d sel cs rule: prefill_from.induct)
  case (2 accepted b d sel c cs)
  show ?case
  proof (cases "b = 0 \<or> d = 0")
    case go: False
    obtain x m where s: "shrink accepted sel c (min (min (token_count (cand_work c)) b) d) = (x, m)" by (metis surj_pair)
    note r = shrink_result [OF s]
    obtain q where q: "valid_item q (cand_work c)" "\<not> is_decode c" using "2.prems" by auto
    show ?thesis
    proof (cases "m = 0")
      case True
      from "2.IH"(1) [OF go s [symmetric] refl True] "2.prems" obtain xs where
        "prefill_from accepted b d sel cs = sel @ xs" "picks cs (unat b) xs" "xs \<noteq> [] \<longrightarrow> accepted (sel @ xs)" by auto
      then show ?thesis using go True s by (intro exI [of _ xs]) (auto intro: picks_skip)
    next
      case False
      then have m: "m \<le> token_count (cand_work c)" "m \<le> b" "x = cut c m" "accepted (sel @ [x])" using r by auto
      from "2.IH"(2) [OF go s [symmetric] refl False] "2.prems" obtain xs where
        xs: "prefill_from accepted (b - m) (d - m) (sel @ [x]) cs = (sel @ [x]) @ xs" "picks cs (unat (b - m)) xs"
        "xs \<noteq> [] \<longrightarrow> accepted ((sel @ [x]) @ xs)" by auto
      have "item_tokens (cand_work x) = unat m" using piece_tokens [OF q(1) False m(1) q(2)] m(3) by simp
      moreover have "unat (b - m) = unat b - unat m" "unat m \<le> unat b" using m(2) by (simp_all add: unat_sub_le word_le_nat_alt)
      ultimately have "picks (c # cs) (unat b) (x # xs)"
        using xs(2) q(2) False m by (intro picks_Cons) (auto simp: piece_of_def)
      moreover have "accepted (sel @ x # xs)" using m(4) xs(3) by (cases "xs = []") simp_all
      ultimately show ?thesis using go False s xs(1) by (intro exI [of _ "x # xs"]) auto
    qed
  qed auto
qed simp

end
