(* ===== verification/AIMD_Props.thy ===== *)
theory AIMD_Props
  imports AIMD_Laws Policy_Props Rounding
begin

text \<open>
  The properties of \<open>HeuristicAIMD\<close>: its plans are valid and fit, it is idle exactly when nothing
  fits, prefill work is not starved by decode work, windows stay in bounds over any run, and
  what the scheduler makes of it.
\<close>

section \<open>The batch\<close>

lemma sorted_sets [simp]:
  "set (sorted_decode v p) = {c \<in> set (candidates v p). is_decode c}"
  "set (sorted_prefill v p) = {c \<in> set (candidates v p). \<not> is_decode c}"
  by (auto simp: sorted_decode_def sorted_prefill_def)

lemma sorted_msets:
  "mset (sorted_decode v p) \<subseteq># mset (candidates v p)" "mset (sorted_prefill v p) \<subseteq># mset (candidates v p)"
  by (simp_all add: sorted_decode_def sorted_prefill_def multiset_filter_subset)

text \<open>The list the batch is chosen from.\<close>
definition mode_list :: "policy_view \<Rightarrow> HeuristicAIMD \<Rightarrow> Candidate list" where
  "mode_list v p = (if decode_mode v p then sorted_decode v p else sorted_prefill v p)"

lemma mode_list_candidates:
  "set (mode_list v p) = {c \<in> set (candidates v p). is_decode c = decode_mode v p}"
  "mset (mode_list v p) \<subseteq># mset (candidates v p)"
  by (simp_all add: mode_list_def sorted_msets)

lemma mode_candidates_exist: "candidates v p \<noteq> [] \<Longrightarrow> mode_list v p \<noteq> []"
proof -
  assume "candidates v p \<noteq> []"
  then obtain c where "c \<in> set (candidates v p)" by (cases "candidates v p") auto
  then have "c \<in> set (sorted_decode v p) \<or> c \<in> set (sorted_prefill v p)" by simp
  then have "sorted_decode v p \<noteq> [] \<or> sorted_prefill v p \<noteq> []" by force
  then show ?thesis by (auto simp: mode_list_def decode_mode_def Let_def)
qed

lemma candidate_facts:
  assumes "well_posed v p" "c \<in> set (candidates v p)"
  shows "\<exists>r \<in> set (pv_requests v). work_id (cand_work c) = req_id r \<and> valid_item r (cand_work c)"
    "comparable c" "is_decode c \<Longrightarrow> item_tokens (cand_work c) = 1"
  using candidate_item well_posed_chunk [OF assms(1)] assms(2) unfolding in_candidates by blast+

lemma picks_plan:
  assumes w: "well_posed v p" and cs: "mset cs \<subseteq># mset (candidates v p)" and xs: "picks cs (unat (pv_token_budget v)) xs"
  shows "valid_plan (view_lookup v) (pv_token_budget v) (map cand_work xs)"
proof -
  have sub: "set cs \<subseteq> set (candidates v p)" using cs by (metis mset_subset_eqD set_mset_mset subsetI)
  have "mset (map (work_id \<circ> cand_work) cs) \<subseteq># mset (map (work_id \<circ> cand_work) (candidates v p))"
    using image_mset_subseteq_mono [OF cs] by simp
  then have "distinct (map (work_id \<circ> cand_work) cs)" using candidates_distinct [OF w] by (rule distinct_submset)
  moreover obtain N where "map (work_id \<circ> cand_work) xs = nths (map (work_id \<circ> cand_work) cs) N"
    using xs by (auto simp only: picks_def subseq_conv_nths)
  ultimately have d: "distinct (map work_id (map cand_work xs))" by (simp add: distinct_nthsI)
  have "\<exists>r. view_lookup v (work_id (cand_work x)) = Some r \<and> valid_item r (cand_work x)" if x: "x \<in> set xs" for x
  proof -
    obtain c where c: "c \<in> set cs" "piece_of c x" using xs x unfolding picks_def by blast
    obtain r where r: "r \<in> set (pv_requests v)" "work_id (cand_work c) = req_id r" "valid_item r (cand_work c)"
      using candidate_facts(1) [OF w] c(1) sub by blast
    have "work_id (cand_work x) = req_id r" using r(2) c(2) by (auto simp: piece_of_def)
    moreover have "valid_item r (cand_work x)" using piece_valid [OF r(3) c(2)] by simp
    ultimately show ?thesis using find_unique_key [of req_id "pv_requests v" r] r(1) w
      by (simp add: view_lookup_def well_posed_def)
  qed
  then show ?thesis using d xs by (simp add: valid_plan_def picks_def)
qed

lemma selection_picks:
  assumes w: "well_posed v p"
  shows "picks (mode_list v p) (unat (pv_token_budget v)) (selection ld v p) \<and>
    (selection ld v p \<noteq> [] \<longrightarrow> feasible (check_feasibility ld v p (selection ld v p)))"
proof (cases "decode_mode v p")
  case True
  let ?cs = "sorted_decode v p" and ?ok = "\<lambda>cs. feasible (check_feasibility ld v p cs)"
  have "list_all (\<lambda>c. item_tokens (cand_work c) = 1) ?cs"
    using candidate_facts(3) [OF w] by (simp add: list_all_iff)
  from decode_from_picks [OF this, of ?ok "pv_token_budget v" "window_capacity (decode_window p)" "[]"] True
  show ?thesis by (auto simp: selection_def mode_list_def Let_def)
next
  case False
  let ?cs = "sorted_prefill v p" and ?ok = "\<lambda>cs. feasible (check_feasibility ld v p cs)"
  have "list_all (\<lambda>c. \<not> is_decode c \<and> (\<exists>r. valid_item r (cand_work c))) ?cs"
    using candidate_facts(1) [OF w] by (auto simp: list_all_iff)
  from prefill_from_picks [OF this, of ?ok "pv_token_budget v" "window_capacity (prefill_window p)" "[]"] False
  show ?thesis by (auto simp: selection_def mode_list_def Let_def)
qed

section \<open>One token\<close>

lemma fits_one: "token_count (cand_work c) = 1 \<Longrightarrow> feasible (check_feasibility ld v p [c]) \<longleftrightarrow> one_token_fits ld v (ai_model p) (ai_hardware p)"
  by (simp add: check_feasibility_def one_token_fits_def Let_def one_token_resources)

lemma decode_one_token: "well_posed v p \<Longrightarrow> c \<in> set (candidates v p) \<Longrightarrow> is_decode c \<Longrightarrow> token_count (cand_work c) = 1"
proof -
  assume w: "well_posed v p" "c \<in> set (candidates v p)" "is_decode c"
  obtain r where "valid_item r (cand_work c)" using candidate_facts(1) [OF w(1,2)] by blast
  then have "unat (token_count (cand_work c)) = item_tokens (cand_work c)"
    by (intro token_count_item less_imp_le valid_item_begins)
  then show ?thesis using candidate_facts(3) [OF w] by (metis unat_1 word_unat_eq_iff)
qed

text \<open>When one token fits, the first candidate of the list is served first.\<close>
lemma decode_first:
  assumes "b \<noteq> 0" "d \<noteq> 0" "accepted [c]"
  shows "\<exists>xs. decode_from accepted b d [] (c # cs) = c # xs"
proof -
  have "\<exists>xs. decode_from accepted b d sel cs = sel @ xs" for b d sel cs
    by (induction accepted b d sel cs rule: decode_from.induct) auto
  then show ?thesis using assms by (metis append_Cons append_Nil decode_from.simps(2))
qed

lemma prefill_first:
  assumes "b \<noteq> 0" "d \<noteq> 0" "accepted [cut c 1]" "token_count (cand_work c) \<noteq> 0"
  shows "\<exists>n xs. n \<noteq> 0 \<and> prefill_from accepted b d [] (c # cs) = cut c n # xs"
proof -
  have app: "\<exists>xs. prefill_from accepted b d sel cs = sel @ xs" for b d sel cs
  proof (induction accepted b d sel cs rule: prefill_from.induct)
    case (2 accepted b d sel c cs)
    obtain x m where s: "shrink accepted sel c (min (min (token_count (cand_work c)) b) d) = (x, m)" by (metis surj_pair)
    show ?case using 2 [OF _ s [symmetric] refl] s by (cases "m = 0") auto
  qed simp
  obtain x m where s: "shrink accepted [] c (min (min (token_count (cand_work c)) b) d) = (x, m)" by (metis surj_pair)
  have "min (min (token_count (cand_work c)) b) d \<noteq> 0" using assms by (auto simp: min_def)
  then have "m \<noteq> 0" "x = cut c m" using shrink_result [OF s] assms(3) by auto
  then show ?thesis using assms(1,2) s app [of "b - m" "d - m" "[x]" cs] by auto
qed

lemma selection_first:
  assumes w: "well_posed v p" and l: "mode_list v p = c # cs" and f: "one_token_fits ld v (ai_model p) (ai_hardware p)"
  shows "\<exists>x xs. selection ld v p = x # xs \<and> (x = c \<or> \<not> is_decode c \<and> (\<exists>n. n \<noteq> 0 \<and> x = cut c n))"
proof -
  have c: "c \<in> set (candidates v p)" "is_decode c = decode_mode v p"
    using mode_list_candidates(1) [of v p] l by auto
  have b: "pv_token_budget v \<noteq> 0" using w by (simp add: well_posed_def)
  show ?thesis
  proof (cases "decode_mode v p")
    case True
    then have "feasible (check_feasibility ld v p [c])"
      using f fits_one decode_one_token [OF w c(1)] c(2) by simp
    from decode_first [where accepted = "\<lambda>cs. feasible (check_feasibility ld v p cs)", OF b window_capacity_pos this,
        of "decode_window p" cs]
    obtain xs where "selection ld v p = c # xs" using True l by (auto simp: selection_def mode_list_def Let_def)
    then show ?thesis by blast
  next
    case False
    obtain r where "valid_item r (cand_work c)" using candidate_facts(1) [OF w c(1)] by blast
    then have pos: "token_count (cand_work c) \<noteq> 0"
      using token_count_item [of "cand_work c"] valid_item_begins [of r "cand_work c"]
      by (auto simp: item_tokens_def)
    have "feasible (check_feasibility ld v p [cut c 1])" using f by (simp add: fits_one)
    from prefill_first [where accepted = "\<lambda>cs. feasible (check_feasibility ld v p cs)", OF b window_capacity_pos this pos,
        of "prefill_window p" cs]
    obtain n xs where "n \<noteq> 0" "selection ld v p = cut c n # xs"
      using False l by (auto simp: selection_def mode_list_def Let_def)
    then show ?thesis using False c(2) by blast
  qed
qed

text \<open>What is published is the selection: the fallback is refused by the last check.\<close>
lemma build_plan_selection:
  assumes w: "well_posed v p"
  shows "fst (aimd_build_plan ld v p) = map cand_work (selection ld v p)"
proof (cases "selection ld v p = [] \<and> candidates v p \<noteq> []")
  case True
  then obtain c cs where l: "mode_list v p = c # cs" using mode_candidates_exist by (cases "mode_list v p") auto
  have no: "\<not> one_token_fits ld v (ai_model p) (ai_hardware p)"
  proof
    assume "one_token_fits ld v (ai_model p) (ai_hardware p)"
    from selection_first [OF w l this] True show False by auto
  qed
  obtain f where f: "max_element (\<lambda>a b. fp_less (utility p a) (utility p b)) (mode_list v p) = Some f"
    using l by (cases "max_element (\<lambda>a b. fp_less (utility p a) (utility p b)) (mode_list v p)") auto
  then have fc: "f \<in> set (candidates v p)" "is_decode f = decode_mode v p"
    using max_element_in [OF f] mode_list_candidates(1) [of v p] by auto
  let ?f = "if work_kind (cand_work f) = Prefill then cut f 1 else f"
  obtain r where r: "valid_item r (cand_work f)" using candidate_facts(1) [OF w fc(1)] by blast
  have "token_count (cand_work ?f) = 1"
  proof (cases "work_kind (cand_work f) = Prefill")
    case False
    then have "is_decode f" using r by (auto simp: valid_item_def is_decode_def split: WorkKind.splits)
    then show ?thesis using False decode_one_token [OF w fc(1)] by simp
  qed simp
  then have "\<not> feasible (check_feasibility ld v p [?f])" using no fits_one by blast
  moreover have "with_fallback v p (selection ld v p) = [?f]"
    using True f by (simp add: with_fallback_def mode_list_def)
  ultimately show ?thesis using True by (simp add: aimd_build_plan_def Let_def)
next
  case False
  then have "with_fallback v p (selection ld v p) = selection ld v p" by (auto simp: with_fallback_def)
  then show ?thesis using selection_picks [OF w, of ld]
    by (cases "selection ld v p = []") (auto simp: aimd_build_plan_def Let_def)
qed

lemma no_candidates: "candidates v p = [] \<longleftrightarrow> \<not> list_ex workable (pv_requests v)"
proof -
  have "candidates v p = [] \<longleftrightarrow> (\<forall>c. c \<notin> set (candidates v p))" by (cases "candidates v p") auto
  also have "\<dots> \<longleftrightarrow> (\<forall>r \<in> set (pv_requests v). candidate_for v p r = None)" by (metis in_candidates not_Some_eq)
  also have "\<dots> \<longleftrightarrow> \<not> list_ex workable (pv_requests v)" using candidate_workable [of v p] by (auto simp: list_ex_iff simp del: not_None_eq)
  finally show ?thesis .
qed

section \<open>Properties\<close>

text \<open>
  C20. Whatever its windows and counters, the policy plans only valid work within the token budget,
  each request at most once, and a plan that is not empty passes the check of the model's batch
  and sequence limits and of the memory.
\<close>
theorem aimd_plans_valid:
  assumes "distinct (map req_id (pv_requests v))" "pv_token_budget v \<noteq> 0" "aimd_config_valid (ai_config p)"
  shows "valid_plan (view_lookup v) (pv_token_budget v) (fst (aimd_build_plan ld v p)) \<and>
    (fst (aimd_build_plan ld v p) = [] \<or>
     usage_valid (evaluate_batch_resources ld (pv_requests v) (fst (aimd_build_plan ld v p)) (pv_token_budget v)
       (ai_model p) (ai_hardware p)))"
proof -
  have w: "well_posed v p" using assms(1-3) by (simp add: well_posed_def)
  note s = selection_picks [OF w, of ld]
  have "valid_plan (view_lookup v) (pv_token_budget v) (map cand_work (selection ld v p))"
    using picks_plan [OF w mode_list_candidates(2)] s by blast
  then show ?thesis using s unfolding build_plan_selection [OF w]
    by (auto simp: check_feasibility_def Let_def)
qed

text \<open>
  The policy never idles while it could work: if some request can be worked on and the
  resources of one more token are accepted, the plan is not empty, and its first item is for the
  request the order of the mode puts first.
\<close>
theorem aimd_work_conserving:
  assumes "distinct (map req_id (pv_requests v))" "pv_token_budget v \<noteq> 0" "aimd_config_valid (ai_config p)"
    and "list_ex workable (pv_requests v)" and "one_token_fits ld v (ai_model p) (ai_hardware p)"
  shows "fst (aimd_build_plan ld v p) \<noteq> [] \<and>
    work_id (hd (fst (aimd_build_plan ld v p))) = work_id (cand_work (hd (mode_list v p)))"
proof -
  have w: "well_posed v p" using assms(1-3) by (simp add: well_posed_def)
  have "candidates v p \<noteq> []" using assms(4) by (simp add: no_candidates)
  then obtain c cs where l: "mode_list v p = c # cs" using mode_candidates_exist by (cases "mode_list v p") auto
  obtain x xs where x: "selection ld v p = x # xs" "x = c \<or> \<not> is_decode c \<and> (\<exists>n. n \<noteq> 0 \<and> x = cut c n)"
    using selection_first [OF w l assms(5)] by blast
  then have "work_id (cand_work x) = work_id (cand_work c)" by auto
  then show ?thesis using x(1) l by (simp add: build_plan_selection [OF w])
qed

section \<open>An example\<close>

lemma default_config_valid: "aimd_config_valid default_aimd_config"
proof -
  have "representable double (of_int 7 * 2 powi (- 3))" unfolding representable_def
    by (intro conjI exI [of _ 7] exI [of _ "- 3"]) (simp_all add: double_def power_int_minus)
  then have hi: "representable double (7 / 8)" by (simp add: power_int_minus)
  have "representable double (2 powi (- 1))" by (rule representable_powi) (simp_all add: double_def well_formed_def)
  then have lo: "representable double (1 / 2)" by (simp add: power_int_minus)
  obtain y where "to_fp double (4 / 5) = Finite y" "1 / 2 \<le> y" "y \<le> 7 / 8"
    using to_fp_between [OF well_formed_double lo _ hi, of "4 / 5"] by auto
  then show ?thesis by (simp add: aimd_config_valid_def default_aimd_config_def)
qed

definition demo_model :: ModelProfile where
  "demo_model = \<lparr>parameter_count = 1, model_bytes = 1, layer_count = 1, embedding_dimension = 1,
     attention_head_count = 1, kv_head_count = 1, head_dimension = 1, key_effective_bytes_per_scalar = Finite 1,
     value_effective_bytes_per_scalar = Finite 1, mean_bytes_per_parameter = Finite 1, context_capacity = 64,
     batch_capacity = 64, max_sequences = 4\<rparr>"

definition demo_hardware :: HardwareProfile where
  "demo_hardware = \<lparr>model_identifier = ''demo'', total_memory_bytes = 100, physical_cpu_count = 1,
     logical_cpu_count = 1, page_size_bytes = 4096\<rparr>"

definition demo_aimd :: HeuristicAIMD where
  "demo_aimd = \<lparr>ai_model = demo_model, ai_hardware = demo_hardware, ai_config = default_aimd_config,
     prefill_window = Finite 512, decode_window = Finite 512, decode_time_per_item_ewma = None,
     last_feasibility = default_feasibility, bypasses = (\<lambda>_. None), consecutive_decode_batches = 0\<rparr>"

lemma demo_aimd_new: "new_aimd demo_model demo_hardware default_aimd_config = Inr demo_aimd"
proof -
  have "fp_clamp (Finite 512) (Finite 16) (Finite 512) = Finite 512" by (simp add: fp_clamp_def)
  then show ?thesis using default_config_valid by (simp add: new_aimd_def demo_aimd_def default_aimd_config_def Let_def)
qed

theorem aimd_plans_valid_witness: "valid_plan (view_lookup demo_view) 6 (fst (aimd_build_plan double demo_view demo_aimd))"
  using aimd_plans_valid [of demo_view demo_aimd double] default_config_valid
  by (simp add: demo_view_def demo_aimd_def new_request_def)

lemma demo_fits: "one_token_fits double demo_view demo_model demo_hardware"
  by (simp add: one_token_fits_def evaluate_batch_resources_def demo_view_def demo_aimd_def demo_model_def
      demo_hardware_def new_request_def default_work_def token_count_def kv_bytes_per_token_def fp_of_int_def
      u64_of_u32_def double_numeral Let_def)

theorem aimd_work_conserving_witness: "fst (aimd_build_plan double demo_view demo_aimd) \<noteq> []"
  using aimd_work_conserving [of demo_view demo_aimd double] default_config_valid demo_fits
  by (simp add: demo_view_def demo_aimd_def new_request_def workable_def)

section \<open>Runs\<close>

datatype aimd_event = Builds policy_view | Completes BatchOutcome

fun aimd_step :: "Format \<Rightarrow> aimd_event \<Rightarrow> HeuristicAIMD \<Rightarrow> HeuristicAIMD" where
  "aimd_step ld (Builds v) p = snd (aimd_build_plan ld v p)"
| "aimd_step ld (Completes b) p = aimd_on_plan_completed b p"

definition aimd_after :: "Format \<Rightarrow> aimd_event list \<Rightarrow> HeuristicAIMD \<Rightarrow> HeuristicAIMD" where
  "aimd_after ld es p = fold (aimd_step ld) es p"

text \<open>The plans built on the way.\<close>
fun aimd_plans :: "Format \<Rightarrow> aimd_event list \<Rightarrow> HeuristicAIMD \<Rightarrow> WorkItem list list" where
  "aimd_plans ld [] p = []"
| "aimd_plans ld (Builds v # es) p = fst (aimd_build_plan ld v p) # aimd_plans ld es (aimd_step ld (Builds v) p)"
| "aimd_plans ld (Completes b # es) p = aimd_plans ld es (aimd_step ld (Completes b) p)"

lemma step_config [simp]: "ai_config (aimd_step ld e p) = ai_config p" "prefill_window (aimd_step ld e p) = prefill_window p"
  by (cases e; simp)+

lemma step_within:
  "window_bounds (ai_config p) lo hi st fa \<Longrightarrow> window_within lo hi (decode_window p) \<Longrightarrow>
    window_within lo hi (decode_window (aimd_step ld e p))"
  by (cases e) (simp_all add: completed_within)

lemma run_within:
  "window_bounds (ai_config p) lo hi st fa \<Longrightarrow> window_within lo hi (decode_window p) \<Longrightarrow>
    ai_config (aimd_after ld es p) = ai_config p \<and> prefill_window (aimd_after ld es p) = prefill_window p \<and>
    window_within lo hi (decode_window (aimd_after ld es p))"
proof (induction es arbitrary: p)
  case (Cons e es)
  then show ?case using Cons.IH [of "aimd_step ld e p"] step_within [of p lo hi st fa ld e] by (simp add: aimd_after_def)
qed (simp add: aimd_after_def)

text \<open>
  C21. Through any sequence of plans and completions, with whatever durations, both windows of a
  constructed policy stay within the configured bounds in spite of rounding and overflow, and
  the prefill window never moves at all.
\<close>
theorem aimd_windows_bounded:
  assumes "new_aimd m hw c = Inr p" and "is_double (initial_window c)" "is_double (minimum_window c)" "is_double (maximum_window c)"
  shows "fp_le (minimum_window c) (decode_window (aimd_after ld es p)) \<and>
    fp_le (decode_window (aimd_after ld es p)) (maximum_window c) \<and>
    fp_le (minimum_window c) (prefill_window (aimd_after ld es p)) \<and>
    fp_le (prefill_window (aimd_after ld es p)) (maximum_window c) \<and>
    prefill_window (aimd_after ld es p) = prefill_window p"
proof -
  have c: "aimd_config_valid c" "ai_config p = c"
    "decode_window p = fp_clamp (initial_window c) (minimum_window c) (maximum_window c)" "prefill_window p = decode_window p"
    using assms(1) by (auto simp: new_aimd_def Let_def split: if_splits)
  obtain lo hi st fa where b: "window_bounds c lo hi st fa" using config_bounds [OF c(1) assms(3,4)] by blast
  obtain i where i: "initial_window c = Finite i" using c(1) by (auto simp: aimd_config_valid_def is_finite_Finite)
  have "window_within lo hi (decode_window p)"
    using b i assms(2) by (auto simp: c(3) fp_clamp_def window_within_def window_bounds_def is_double_def)
  then have "window_within lo hi (decode_window (aimd_after ld es p)) \<and> window_within lo hi (prefill_window p) \<and>
      prefill_window (aimd_after ld es p) = prefill_window p"
    using run_within [of p lo hi st fa ld es] b c(2,4) by simp
  then show ?thesis using b by (auto simp: window_within_def window_bounds_def)
qed

theorem aimd_windows_bounded_witness:
  "fp_le (Finite 16) (decode_window (aimd_after double
     [Completes \<lparr>bo_epoch = 1, bo_started_at = 0, bo_finished_at = 5, bo_duration = 5, bo_prefill_tokens = 0,
        bo_decode_items = 1, bo_work_items = 1, bo_success = False\<rparr>] demo_aimd))"
proof -
  have "representable double (of_int 512)" "representable double (of_int 16)"
    by (rule representable_int; simp add: double_def well_formed_def)+
  then show ?thesis using aimd_windows_bounded [OF demo_aimd_new, THEN conjunct1]
    by (simp add: default_aimd_config_def is_double_def del: fp_order)
qed

section \<open>Fairness\<close>

definition prefill_waits :: "policy_view \<Rightarrow> bool" where
  "prefill_waits v \<longleftrightarrow> list_ex (\<lambda>r. stage r = PrefillStage \<and> prefill_position r < prompt_length r) (pv_requests v)"

lemma prefill_waits_candidate: "prefill_waits v \<Longrightarrow> sorted_prefill v p \<noteq> []"
proof -
  assume "prefill_waits v"
  then obtain r where r: "r \<in> set (pv_requests v)" "stage r = PrefillStage" "prefill_position r < prompt_length r"
    by (auto simp: prefill_waits_def list_ex_iff)
  then obtain c where "candidate_for v p r = Some c" "\<not> is_decode c"
    by (simp add: candidate_for_def is_decode_def prefill_work_def Let_def)
  then have "c \<in> set (sorted_prefill v p)" using r(1) by (auto simp: in_candidates)
  then show ?thesis by force
qed

text \<open>The kinds of work in a plan are those of its mode.\<close>
lemma plan_kinds:
  assumes w: "well_posed v p" and x: "x \<in> set (fst (aimd_build_plan ld v p))"
  shows "work_kind x = (if decode_mode v p then Decode else Prefill)"
proof -
  obtain y where y: "y \<in> set (selection ld v p)" "x = cand_work y" using x by (auto simp: build_plan_selection [OF w])
  then obtain c where c: "c \<in> set (mode_list v p)" "piece_of c y" using selection_picks [OF w, of ld] unfolding picks_def by blast
  then have m: "c \<in> set (candidates v p)" "is_decode c = decode_mode v p" using mode_list_candidates(1) [of v p] by auto
  obtain r where "valid_item r (cand_work c)" using candidate_facts(1) [OF w m(1)] by blast
  then have "work_kind (cand_work c) = Decode \<or> work_kind (cand_work c) = Prefill"
    by (auto simp: valid_item_def split: WorkKind.splits)
  moreover have "work_kind (cand_work y) = work_kind (cand_work c)" using c(2) by (auto simp: piece_of_def)
  ultimately show ?thesis using m(2) y(2) by (auto simp: is_decode_def)
qed

lemma next_consecutive:
  assumes "well_posed v p" "fst (aimd_build_plan ld v p) \<noteq> []" "decode_mode v p" "prefill_waits v"
  shows "unat (consecutive_decode_batches p) < unat (max_consecutive_decode_batches (ai_config p))"
    "unat (consecutive_decode_batches (snd (aimd_build_plan ld v p))) = Suc (unat (consecutive_decode_batches p))"
proof -
  let ?c = "consecutive_decode_batches p"
  have lt: "?c < max_consecutive_decode_batches (ai_config p)"
    using assms(3) prefill_waits_candidate [OF assms(4)] by (auto simp: decode_mode_def Let_def not_le)
  then show "unat ?c < unat (max_consecutive_decode_batches (ai_config p))" by (simp add: word_less_nat_alt)
  then have "unat ?c + unat (1::u32) < 2 ^ LENGTH(32)"
    using unat_u32_lt [of "max_consecutive_decode_batches (ai_config p)"] by simp
  then have s: "unat (?c + 1) = Suc (unat ?c)" using unat_add_lt [of ?c 1] by simp
  have "?c \<noteq> u32_max" using lt unat_u32_lt [of "max_consecutive_decode_batches (ai_config p)"]
    by (auto simp: u32_max_def word_less_nat_alt)
  then show "unat (consecutive_decode_batches (snd (aimd_build_plan ld v p))) = Suc (unat ?c)"
    using assms(2,3) s by (simp add: aimd_build_plan_def Let_def split: if_splits)
qed

text \<open>What the policy sees at each plan of a run.\<close>
definition sees_prefill :: "aimd_event \<Rightarrow> bool" where
  "sees_prefill e = (case e of
     Builds v \<Rightarrow> distinct (map req_id (pv_requests v)) \<and> pv_token_budget v \<noteq> 0 \<and> prefill_waits v
   | Completes b \<Rightarrow> True)"

definition decode_batch :: "WorkItem list \<Rightarrow> bool" where
  "decode_batch ws \<longleftrightarrow> ws \<noteq> [] \<and> list_all (\<lambda>w. work_kind w = Decode) ws"

lemma decode_batches_counted:
  assumes "aimd_config_valid (ai_config p)" "list_all sees_prefill es" "list_all decode_batch (aimd_plans ld es p)"
  shows "length (aimd_plans ld es p) \<le>
    unat (max_consecutive_decode_batches (ai_config p)) - unat (consecutive_decode_batches p)"
  using assms
proof (induction es arbitrary: p)
  case (Cons e es)
  show ?case
  proof (cases e)
    case (Builds v)
    have w: "well_posed v p" and wait: "prefill_waits v"
      using Cons.prems(1,2) Builds by (simp_all add: well_posed_def sees_prefill_def)
    have b: "decode_batch (fst (aimd_build_plan ld v p))" "list_all decode_batch (aimd_plans ld es (aimd_step ld e p))"
      using Cons.prems(3) Builds by simp_all
    then have ne: "fst (aimd_build_plan ld v p) \<noteq> []" by (simp add: decode_batch_def)
    then have "hd (fst (aimd_build_plan ld v p)) \<in> set (fst (aimd_build_plan ld v p))" by simp
    then have "decode_mode v p"
      using plan_kinds [OF w] b(1) by (force simp: decode_batch_def list_all_iff split: if_splits)
    note n = next_consecutive [OF w ne this wait]
    have "length (aimd_plans ld es (aimd_step ld e p)) \<le>
        unat (max_consecutive_decode_batches (ai_config p)) - unat (consecutive_decode_batches (aimd_step ld e p))"
      using Cons.IH [of "aimd_step ld e p"] Cons.prems(1,2) b(2) by simp
    then show ?thesis using n Builds by simp
  next
    case (Completes b)
    then show ?thesis using Cons.IH [of "aimd_step ld e p"] Cons.prems by simp
  qed
qed simp

text \<open>
  C22. Decode batches cannot starve prompts: while at every plan some prompt waits for prefill, at
  most the configured number of consecutive plans are decode batches; of any longer run of plans
  one is empty or holds prefill work.
\<close>
theorem aimd_prefill_not_starved:
  assumes "aimd_config_valid (ai_config p)" and "list_all sees_prefill es"
    and "unat (max_consecutive_decode_batches (ai_config p)) < length (aimd_plans ld es p)"
  shows "list_ex (\<lambda>ws. ws = [] \<or> list_ex (\<lambda>w. work_kind w = Prefill) ws) (aimd_plans ld es p)"
proof (rule ccontr)
  assume no: "\<not> ?thesis"
  have "list_all sees_prefill es \<Longrightarrow> aimd_config_valid (ai_config p) \<Longrightarrow>
      \<forall>ws \<in> set (aimd_plans ld es p). \<forall>w \<in> set ws. work_kind w = Decode \<or> work_kind w = Prefill" for es p
  proof (induction es arbitrary: p)
    case (Cons e es)
    show ?case
    proof (cases e)
      case (Builds v)
      then have "well_posed v p" using Cons.prems by (simp add: well_posed_def sees_prefill_def)
      then show ?thesis using Builds Cons.IH [of "aimd_step ld e p"] Cons.prems plan_kinds [of v p _ ld] by auto
    next
      case (Completes b)
      then show ?thesis using Cons.IH [of "aimd_step ld e p"] Cons.prems by simp
    qed
  qed simp
  from this [OF assms(2,1)] no have "list_all decode_batch (aimd_plans ld es p)"
    by (auto simp: decode_batch_def list_all_iff list_ex_iff)
  from decode_batches_counted [OF assms(1,2) this] show False using assms(3) by simp
qed

section \<open>Counters\<close>

lemma count_bypasses_result:
  "distinct (map (work_id \<circ> cand_work) cs) \<Longrightarrow>
    count_bypasses ids m cs i =
      (if i \<in> set (map (work_id \<circ> cand_work) cs)
       then Some (if i \<in> ids then 0 else let n = (case m i of None \<Rightarrow> 0 | Some n \<Rightarrow> n) in if n \<noteq> u32_max then n + 1 else n)
       else m i)"
  by (induction cs arbitrary: m) (auto simp: Let_def)

text \<open>
  After a plan the counters are exactly those of the candidates: zero for the requests in the
  batch the policy settled on, one more (up to the largest 32-bit number) for every other
  candidate, and none for a request that was no candidate.
\<close>
theorem aimd_bypasses_exact:
  assumes "distinct (map req_id (pv_requests v))" "pv_token_budget v \<noteq> 0" "aimd_config_valid (ai_config p)"
  shows "bypasses (snd (aimd_build_plan ld v p)) i =
    (case find (\<lambda>c. work_id (cand_work c) = i) (candidates v p) of
       None \<Rightarrow> None
     | Some c \<Rightarrow> Some (if i \<in> set (map (work_id \<circ> cand_work) (with_fallback v p (selection ld v p))) then 0
                      else if cand_bypasses c = u32_max then u32_max else cand_bypasses c + 1))"
proof -
  have w: "well_posed v p" using assms by (simp add: well_posed_def)
  let ?sel = "with_fallback v p (selection ld v p)"
  have b: "bypasses (snd (aimd_build_plan ld v p)) = next_bypasses v p ?sel"
    by (simp add: aimd_build_plan_def Let_def)
  show ?thesis
  proof (cases "find (\<lambda>c. work_id (cand_work c) = i) (candidates v p)")
    case None
    then have "i \<notin> set (map (work_id \<circ> cand_work) (candidates v p))" by (auto simp: find_None_iff)
    then show ?thesis using None by (simp add: b next_bypasses_def Let_def)
  next
    case (Some c)
    then have c: "c \<in> set (candidates v p)" "work_id (cand_work c) = i" using find_SomeD [OF Some] by auto
    then obtain r where r: "candidate_for v p r = Some c" unfolding in_candidates by blast
    have "cand_bypasses c = (case bypasses p i of None \<Rightarrow> 0 | Some n \<Rightarrow> n)"
      using candidate_item(1,5) [OF r] well_posed_chunk [OF w] c(2) by simp
    moreover have "i \<in> set (map (work_id \<circ> cand_work) (candidates v p))" using c by auto
    ultimately show ?thesis using Some count_bypasses_result [OF candidates_distinct [OF w]]
      by (simp add: b next_bypasses_def Let_def)
  qed
qed

theorem aimd_bypasses_exact_witness: "bypasses (snd (aimd_build_plan double demo_view demo_aimd)) 7 = None"
proof -
  have "workable r \<Longrightarrow> r \<in> set (pv_requests demo_view) \<Longrightarrow> req_id r \<noteq> 7" for r
    by (auto simp: demo_view_def new_request_def)
  have v: "distinct (map req_id (pv_requests demo_view))" "pv_token_budget demo_view \<noteq> 0" "aimd_config_valid (ai_config demo_aimd)"
    using default_config_valid by (simp_all add: demo_view_def new_request_def demo_aimd_def)
  then have w: "well_posed demo_view demo_aimd" by (simp add: well_posed_def)
  have "find (\<lambda>c. work_id (cand_work c) = 7) (candidates demo_view demo_aimd) = None"
    using candidate_facts(1) [OF w] by (fastforce simp: find_None_iff demo_view_def new_request_def)
  then show ?thesis using aimd_bypasses_exact [OF v, of double 7] by simp
qed

theorem aimd_prefill_not_starved_witness:
  "list_ex (\<lambda>ws. ws = [] \<or> list_ex (\<lambda>w. work_kind w = Prefill) ws)
     (aimd_plans double [Builds demo_view, Builds demo_view, Builds demo_view] demo_aimd)"
proof (rule aimd_prefill_not_starved)
  show "aimd_config_valid (ai_config demo_aimd)" using default_config_valid by (simp add: demo_aimd_def)
  show "list_all sees_prefill [Builds demo_view, Builds demo_view, Builds demo_view]"
    by (simp add: sees_prefill_def demo_view_def new_request_def prefill_waits_def)
  show "unat (max_consecutive_decode_batches (ai_config demo_aimd)) <
      length (aimd_plans double [Builds demo_view, Builds demo_view, Builds demo_view] demo_aimd)"
    by (simp add: demo_aimd_def default_aimd_config_def)
qed

section \<open>Starvation\<close>

text \<open>
  Once some prompt has been passed over as often as the starvation threshold and one more token
  fits, the next plan begins with prefill work for a prompt that no other waiting prompt has been
  passed over more often than.
\<close>
theorem aimd_serves_most_starved:
  assumes "distinct (map req_id (pv_requests v))" "pv_token_budget v \<noteq> 0" "aimd_config_valid (ai_config p)"
    and "list_ex (\<lambda>c. \<not> is_decode c \<and> cand_bypasses c \<ge> starvation_threshold (ai_config p)) (candidates v p)"
    and "one_token_fits ld v (ai_model p) (ai_hardware p)"
  shows "\<exists>c ws. find (\<lambda>d. work_id (cand_work d) = work_id (hd (fst (aimd_build_plan ld v p)))) (candidates v p) = Some c \<and>
    \<not> is_decode c \<and> fst (aimd_build_plan ld v p) = hd (fst (aimd_build_plan ld v p)) # ws \<and>
    list_all (\<lambda>d. is_decode d \<or> cand_bypasses d \<le> cand_bypasses c) (candidates v p)"
proof -
  have w: "well_posed v p" using assms(1-3) by (simp add: well_posed_def)
  let ?t = "starvation_threshold (ai_config p)" and ?pre = "filter (\<lambda>c. \<not> is_decode c) (candidates v p)"
  obtain d where d: "d \<in> set (candidates v p)" "\<not> is_decode d" "cand_bypasses d \<ge> ?t" using assms(4) by (auto simp: list_ex_iff)
  then have ds: "d \<in> set (sorted_prefill v p)" by simp
  then have "sorted_prefill v p \<noteq> []" by force
  then have mode: "mode_list v p = sorted_prefill v p" "\<not> decode_mode v p"
    using ds d(3) by (auto simp: mode_list_def decode_mode_def Let_def list_ex_iff)
  obtain c cs where l: "sorted_prefill v p = c # cs" using ds by (cases "sorted_prefill v p") auto
  have c: "c \<in> set (candidates v p)" "\<not> is_decode c" using l sorted_sets(2) [of v p] by auto
  obtain x xs where x: "selection ld v p = x # xs" "x = c \<or> \<not> is_decode c \<and> (\<exists>n. n \<noteq> 0 \<and> x = cut c n)"
    using selection_first [OF w _ assms(5)] mode(1) l by metis
  have id: "work_id (cand_work x) = work_id (cand_work c)" using x(2) by auto
  have top: "cand_bypasses e \<le> cand_bypasses c" if e: "e \<in> set ?pre" for e
  proof -
    have comp: "list_all comparable ?pre" using candidate_facts(2) [OF w] by (simp add: list_all_iff)
    have no: "\<not> prefill_before ?t y c" if "y \<in> set ?pre" for y
      using prefill_order.hd_first [OF comp that, of ?t] l by (simp add: sorted_prefill_def)
    have "starvation ?t d \<le> starvation ?t c" "starvation ?t e \<le> starvation ?t c"
      using no [of d] no [OF e] d by (auto simp: prefill_before_iff not_less)
    then show ?thesis using d(3) by (auto simp: starvation_def word_le_nat_alt split: if_splits)
  qed
  have "find (\<lambda>d. work_id (cand_work d) = work_id (cand_work c)) (candidates v p) = Some c"
    using find_unique_key [of "work_id \<circ> cand_work" "candidates v p" c] candidates_distinct [OF w] c(1) by simp
  then show ?thesis using x(1) id c(2) top by (auto simp: build_plan_selection [OF w] list_all_iff)
qed

definition demo_starved :: HeuristicAIMD where
  "demo_starved = demo_aimd\<lparr>bypasses := [1 \<mapsto> 9]\<rparr>"

theorem aimd_serves_most_starved_witness: "fst (aimd_build_plan double demo_view demo_starved) \<noteq> []"
proof -
  let ?r = "new_request\<lparr>req_id := 1, stage := PrefillStage, prompt_length := 5, prefill_position := 1, cached_prefix_tokens := 1\<rparr>"
  obtain c where c: "candidate_for demo_view demo_starved ?r = Some c" "\<not> is_decode c" "cand_bypasses c = 9"
    by (simp add: candidate_for_def demo_starved_def new_request_def is_decode_def prefill_work_def Let_def)
  then have "c \<in> set (candidates demo_view demo_starved)" unfolding in_candidates by (auto simp: demo_view_def)
  then have starved: "list_ex (\<lambda>c. \<not> is_decode c \<and> cand_bypasses c \<ge> starvation_threshold (ai_config demo_starved))
      (candidates demo_view demo_starved)"
    using c by (auto simp: list_ex_iff demo_starved_def demo_aimd_def default_aimd_config_def intro!: bexI [of _ c])
  have fits: "one_token_fits double demo_view (ai_model demo_starved) (ai_hardware demo_starved)" using demo_fits by (simp add: one_token_fits_def demo_starved_def demo_aimd_def)
  have v: "distinct (map req_id (pv_requests demo_view))" "pv_token_budget demo_view \<noteq> 0" "aimd_config_valid (ai_config demo_starved)"
    using default_config_valid by (simp_all add: demo_view_def new_request_def demo_starved_def demo_aimd_def)
  from aimd_serves_most_starved [OF v starved fits] show ?thesis by force
qed

section \<open>Under the scheduler\<close>

interpretation aimd: valid_planner "aimd_policy ld" "\<lambda>v p. aimd_config_valid (ai_config p) \<and> one_token_fits ld v (ai_model p) (ai_hardware p)" for ld
proof unfold_locales
  fix v :: policy_view and p p' :: HeuristicAIMD and ws r
  assume a: "distinct (map req_id (pv_requests v))" "pv_token_budget v \<noteq> 0"
    "aimd_config_valid (ai_config p) \<and> one_token_fits ld v (ai_model p) (ai_hardware p)" "build_plan (aimd_policy ld) v p = (Inr ws, p')"
  have w: "well_posed v p" using a by (simp add: well_posed_def)
  have ws: "ws = map cand_work (selection ld v p)"
    using a(4) build_plan_selection [OF w, of ld] by (simp add: aimd_policy_def split: prod.splits)
  show "valid_plan (view_lookup v) (pv_token_budget v) ws"
    using picks_plan [OF w mode_list_candidates(2)] selection_picks [OF w] ws by blast
  assume r: "r \<in> set (pv_requests v)" "is_schedulable r"
    "\<And>q. q \<in> set (pv_requests v) \<Longrightarrow> stage q \<noteq> PendingRelease \<and> (is_schedulable q \<longrightarrow> workable q)"
  have "candidates v p \<noteq> []" using r by (auto simp: no_candidates list_ex_iff)
  then obtain c cs where "mode_list v p = c # cs" using mode_candidates_exist by (cases "mode_list v p") auto
  then show "ws \<noteq> []" using selection_first [OF w] a(3) ws by fastforce
qed

text \<open>
  Under this policy a reachable scheduler whose schedulable requests can all be worked on never
  reports an error or starts to drain at a decision, as long as one more token fits; running out
  of memory is the only way the policy gets a run drained.
\<close>
theorem aimd_drains_only_without_room:
  assumes "scheduler_reachable (aimd_policy ld) s" and "aimd_config_valid (ai_config (policy s))"
    and "one_token_fits ld (view_of s) (ai_model (policy s)) (ai_hardware (policy s))"
    and "list_all (\<lambda>q. is_schedulable q \<longrightarrow> workable q) (live_requests s)" and "decide (aimd_policy ld) s = (r, s')"
  shows "draining s' = draining s \<and> last_error s' = last_error s"
  using aimd.decides_well [OF reachable_ids [OF assms(1)] reachable_budget [OF assms(1)] _ assms(5)] assms(2-4)
  by (simp add: list_all_iff)

definition aimd_demo_scheduler :: "(unit, HeuristicAIMD) Scheduler" where
  "aimd_demo_scheduler = (case new_scheduler still_clock demo_handoff_state 8 None () demo_aimd of Inr s \<Rightarrow> s | Inl _ \<Rightarrow> undefined)"

theorem aimd_drains_only_without_room_witness:
  "\<exists>s'. decide (aimd_policy double) aimd_demo_scheduler = (Inr True, s') \<and> last_error s' = last_error aimd_demo_scheduler"
proof -
  have reach: "scheduler_reachable (aimd_policy double) aimd_demo_scheduler"
    by (rule scheduler_reachable.construct [of still_clock demo_handoff_state 8 None "()" demo_aimd])
      (simp add: aimd_demo_scheduler_def new_scheduler_def)
  have live: "live_requests aimd_demo_scheduler = []" "policy aimd_demo_scheduler = demo_aimd" "token_budget aimd_demo_scheduler = 8"
    by (simp_all add: aimd_demo_scheduler_def new_scheduler_def)
  then obtain s' where s': "decide (aimd_policy double) aimd_demo_scheduler = (Inr True, s')"
    by (simp add: decide_def finish_iteration_def publish_workload_counts_def aimd_demo_scheduler_def
        new_scheduler_def run_simps then_op_def bind_op_def)
  have conf: "aimd_config_valid (ai_config (policy aimd_demo_scheduler))"
    using default_config_valid by (simp add: live demo_aimd_def)
  have fits: "one_token_fits double (view_of aimd_demo_scheduler) (ai_model (policy aimd_demo_scheduler)) (ai_hardware (policy aimd_demo_scheduler))"
    by (simp add: one_token_fits_def evaluate_batch_resources_def view_of_def live demo_aimd_def demo_model_def
      demo_hardware_def default_work_def token_count_def kv_bytes_per_token_def fp_of_int_def
      u64_of_u32_def double_numeral Let_def)
  from aimd_drains_only_without_room [OF reach conf fits _ s'] s' show ?thesis by (simp add: live)
qed

end
