(* ===== verification/ProxQP_Solver.thy ===== *)
theory ProxQP_Solver
  imports Floating
begin

text \<open>
  The quadratic program of the ProxQP policy (\<open>src/optimization/proxqp_solver.{hpp,cpp}\<close>): its
  objective over batch sizes and the matrices handed to the external solver. The functions of
  the C mathematics library and the solver itself are the record \<open>Numerics\<close> of parameters. A
  matrix is the list of its rows.
\<close>

record ProxQPInput =
  qi_token_budget :: fp
  qi_sequence_capacity :: fp
  qi_prefill_available :: fp
  qi_decode_available :: fp
  qi_chunk_size :: fp
  qi_memory_available :: fp
  qi_memory_base :: fp
  qi_memory_prefill :: fp
  qi_memory_decode :: fp
  qi_runtime_base_ns :: fp
  qi_runtime_prefill_ns :: fp
  qi_runtime_decode_ns :: fp
  qi_runtime_margin_ns :: fp
  qi_runtime_scale_ns :: fp
  qi_ttft_headroom_ns :: fp
  qi_tpot_headroom_ns :: fp
  qi_batch_duration_scale_ns :: fp
  qi_reward_prefill :: fp
  qi_reward_decode :: fp
  qi_runtime_weight :: fp
  qi_rho_prefill :: fp
  qi_rho_decode :: fp
  qi_previous_prefill :: fp
  qi_previous_decode :: fp
  qi_boundary_buffer_z :: fp
  qi_boundary_weight :: fp

record ProxQPResult =
  qr_success :: bool
  qr_prefill :: fp
  qr_decode :: fp
  qr_ttft_slack :: fp
  qr_tpot_slack :: fp
  qr_objective :: fp
  qr_solve_ns :: fp
  qr_primal_residual :: fp
  qr_dual_residual :: fp
  qr_iterations :: nat
  qr_status :: string

text \<open>The program \<open>min 1/2 x'hx + g'x\<close> with \<open>lower \<le> cx \<le> upper\<close>, and what the solver reports.\<close>
record QP =
  qp_h :: "fp list list"
  qp_g :: "fp list"
  qp_c :: "fp list list"
  qp_lower :: "fp list"
  qp_upper :: "fp list"

record QPInfo =
  solved :: bool
  solution :: "fp list" \<comment> \<open>of length four\<close>
  obj_value :: fp
  pri_res :: fp
  dua_res :: fp
  iterations :: nat
  elapsed :: fp \<comment> \<open>between the two clock readings\<close>

record Numerics =
  long_double :: Format
  c_exp :: "fp \<Rightarrow> fp"
  c_log1p :: "fp \<Rightarrow> fp"
  c_pow :: "fp \<Rightarrow> fp \<Rightarrow> fp"
  qp_solver :: "QP \<Rightarrow> QPInfo"

abbreviation dadd :: "fp \<Rightarrow> fp \<Rightarrow> fp" where "dadd \<equiv> fp_add double"
abbreviation dsub :: "fp \<Rightarrow> fp \<Rightarrow> fp" where "dsub \<equiv> fp_sub double"
abbreviation dmul :: "fp \<Rightarrow> fp \<Rightarrow> fp" where "dmul \<equiv> fp_mul double"
abbreviation ddiv :: "fp \<Rightarrow> fp \<Rightarrow> fp" where "ddiv \<equiv> fp_div double"

section \<open>The objective\<close>

definition prefill_gradient :: "ProxQPInput \<Rightarrow> fp" where
  "prefill_gradient i =
     dsub (dadd (ddiv (fp_neg (qi_reward_prefill i)) (qi_token_budget i))
             (ddiv (dmul (qi_runtime_weight i) (qi_runtime_prefill_ns i)) (qi_batch_duration_scale_ns i)))
       (ddiv (dmul (qi_rho_prefill i) (qi_previous_prefill i)) (dmul (qi_token_budget i) (qi_token_budget i)))"

definition decode_gradient :: "ProxQPInput \<Rightarrow> fp" where
  "decode_gradient i =
     dsub (dadd (ddiv (fp_neg (qi_reward_decode i)) (qi_sequence_capacity i))
             (ddiv (dmul (qi_runtime_weight i) (qi_runtime_decode_ns i)) (qi_batch_duration_scale_ns i)))
       (ddiv (dmul (qi_rho_decode i) (qi_previous_decode i)) (dmul (qi_sequence_capacity i) (qi_sequence_capacity i)))"

definition slack :: "ProxQPInput \<Rightarrow> fp \<Rightarrow> fp \<Rightarrow> fp" where
  "slack i runtime headroom =
     fp_max (Finite 0) (dadd (ddiv (dsub runtime headroom) (qi_runtime_scale_ns i)) (qi_boundary_buffer_z i))"

definition proxqp_objective :: "Numerics \<Rightarrow> ProxQPInput \<Rightarrow> fp \<Rightarrow> fp \<Rightarrow> fp" where
  "proxqp_objective N i prefill decode =
     (let runtime = dadd (dadd (dadd (qi_runtime_base_ns i) (qi_runtime_margin_ns i))
                      (dmul (qi_runtime_prefill_ns i) prefill)) (dmul (qi_runtime_decode_ns i) decode);
          ttft_slack = slack i runtime (qi_ttft_headroom_ns i);
          tpot_slack = slack i runtime (qi_tpot_headroom_ns i);
          half = Finite (1 / 2) in
      dadd
        (dadd
          (dadd
            (dadd (dmul (dmul half (qi_rho_prefill i)) (c_pow N (ddiv prefill (qi_token_budget i)) (Finite 2)))
                  (dmul (dmul half (qi_rho_decode i)) (c_pow N (ddiv decode (qi_sequence_capacity i)) (Finite 2))))
            (dmul (prefill_gradient i) prefill))
          (dmul (decode_gradient i) decode))
        (dmul (dmul half (qi_boundary_weight i)) (dadd (dmul ttft_slack ttft_slack) (dmul tpot_slack tpot_slack))))"

section \<open>The program\<close>

definition slack_limit :: "ProxQPInput \<Rightarrow> fp" where
  "slack_limit i =
     (let maximum_runtime = dadd (dadd (dadd (qi_runtime_base_ns i) (qi_runtime_margin_ns i))
                              (dmul (qi_runtime_prefill_ns i) (qi_token_budget i)))
                              (dmul (qi_runtime_decode_ns i) (qi_sequence_capacity i)) in
      fp_max (Finite 1)
        (dadd (dadd (ddiv (dsub maximum_runtime (fp_min (qi_ttft_headroom_ns i) (qi_tpot_headroom_ns i)))
                      (qi_runtime_scale_ns i)) (qi_boundary_buffer_z i)) (Finite 1)))"

definition proxqp_program :: "ProxQPInput \<Rightarrow> QP" where
  "proxqp_program i =
     (let z = Finite 0; one = Finite 1; minus = Finite (- 1);
          rp = ddiv (qi_runtime_prefill_ns i) (qi_runtime_scale_ns i);
          rd = ddiv (qi_runtime_decode_ns i) (qi_runtime_scale_ns i);
          limit = fp_neg (slack_limit i);
          safe_base = dadd (qi_runtime_base_ns i) (qi_runtime_margin_ns i) in
      \<lparr>qp_h = [[ddiv (qi_rho_prefill i) (dmul (qi_token_budget i) (qi_token_budget i)), z, z, z],
               [z, ddiv (qi_rho_decode i) (dmul (qi_sequence_capacity i) (qi_sequence_capacity i)), z, z],
               [z, z, qi_boundary_weight i, z], [z, z, z, qi_boundary_weight i]],
       qp_g = [prefill_gradient i, decode_gradient i, z, z],
       qp_c = [[minus, z, z, z], [z, minus, z, z], [one, z, z, z], [z, one, z, z], [one, one, z, z],
               [ddiv one (qi_chunk_size i), one, z, z], [qi_memory_prefill i, qi_memory_decode i, z, z],
               [rp, rd, minus, z], [rp, rd, z, minus], [z, z, minus, z], [z, z, z, minus]],
       qp_lower = [fp_neg (qi_prefill_available i), fp_neg (qi_decode_available i), z, z, z, z, z,
                   limit, limit, limit, limit],
       qp_upper = [z, z, qi_prefill_available i, qi_decode_available i, qi_token_budget i, qi_sequence_capacity i,
                   dsub (qi_memory_available i) (qi_memory_base i),
                   dsub (ddiv (dsub (qi_ttft_headroom_ns i) safe_base) (qi_runtime_scale_ns i)) (qi_boundary_buffer_z i),
                   dsub (ddiv (dsub (qi_tpot_headroom_ns i) safe_base) (qi_runtime_scale_ns i)) (qi_boundary_buffer_z i),
                   z, z]\<rparr>)"

definition solve_proxqp :: "Numerics \<Rightarrow> ProxQPInput \<Rightarrow> ProxQPResult" where
  "solve_proxqp N i =
     (let info = qp_solver N (proxqp_program i) in
      \<lparr>qr_success = solved info, qr_prefill = solution info ! 0, qr_decode = solution info ! 1,
       qr_ttft_slack = solution info ! 2, qr_tpot_slack = solution info ! 3, qr_objective = obj_value info,
       qr_solve_ns = elapsed info, qr_primal_residual = pri_res info, qr_dual_residual = dua_res info,
       qr_iterations = iterations info, qr_status = (if solved info then ''solved'' else ''failed'')\<rparr>)"

end
