(* ===== verification/ProxQP.thy ===== *)
theory ProxQP
  imports ProxQP_Solver Profiles Stable_Sort Policies
begin

text \<open>
  The policy \<open>ProxQPScheduler\<close> (\<open>src/policies/proxqp_scheduler.{hpp,cpp}\<close>): a continuous batch size
  from a quadratic program, projected to prefixes of the sorted candidates that fit. Its members
  are the record \<open>ProxQPScheduler\<close>; the two observers act on a world of their own, \<open>'w\<close>, and
  may throw. The C mathematics library and the solver are the parameter \<open>N\<close>. Durations are in
  nanoseconds. Sorting assumes what C++ assumes, that the comparison is a weak order; no result
  below depends on the order itself.
\<close>

section \<open>Configuration and members\<close>

record ProxQPRuntimeTier =
  context_min :: u32
  context_max :: u32
  tau_base_ns :: fp
  tau_prefill_ns_per_token :: fp
  tau_decode_ns_per_item :: fp
  runtime_margin_ns :: fp
  runtime_scale_ns :: fp
  token_capacity :: u32
  sequence_capacity :: u32

record ProxQPRuntimeProfile =
  schema_version :: u32
  calibration_id :: string
  tiers :: "ProxQPRuntimeTier list"

record ProxQPSchedulerConfig =
  pq_ttft_target :: duration
  pq_tpot_target :: duration
  pq_window :: duration
  pq_max_prefill_chunk :: u32
  pq_starvation_threshold :: u32
  pq_max_considered_requests :: u32
  base_prefill_reward :: fp
  base_decode_reward :: fp
  decode_urgency_knee :: fp
  decode_urgency_steepness :: fp
  decode_urgency_gain :: fp
  runtime_weight :: fp
  rho_prefill :: fp
  rho_decode :: fp
  boundary_buffer_z :: fp
  boundary_weight :: fp
  projection_tolerance :: fp

definition default_proxqp_config :: ProxQPSchedulerConfig where
  "default_proxqp_config = \<lparr>pq_ttft_target = 2000000000, pq_tpot_target = 200000000, pq_window = 60000000000,
     pq_max_prefill_chunk = 512, pq_starvation_threshold = 8, pq_max_considered_requests = 4096,
     base_prefill_reward = Finite 1, base_decode_reward = Finite 1, decode_urgency_knee = to_fp double (4 / 5),
     decode_urgency_steepness = Finite 8, decode_urgency_gain = Finite 4, runtime_weight = to_fp double (1 / 10),
     rho_prefill = to_fp double (1 / 5), rho_decode = to_fp double (1 / 5), boundary_buffer_z = Finite 1,
     boundary_weight = Finite (1 / 4), projection_tolerance = to_fp double (1 / 10 ^ 12)\<rparr>"

record ProxQPDecisionRecord =
  dr_timestamp :: TimePoint
  dr_solver_status :: string
  dr_fallback_reason :: string
  dr_continuous_prefill :: fp
  dr_continuous_decode :: fp
  dr_projected_prefill :: u32
  dr_projected_decode :: u32
  dr_conservative_runtime_ns :: fp
  dr_solve_ns :: fp
  dr_recovery :: bool
  dr_callback_failed :: bool

definition new_decision :: "TimePoint \<Rightarrow> ProxQPDecisionRecord" where
  "new_decision t = \<lparr>dr_timestamp = t, dr_solver_status = [], dr_fallback_reason = [],
     dr_continuous_prefill = Finite 0, dr_continuous_decode = Finite 0, dr_projected_prefill = 0,
     dr_projected_decode = 0, dr_conservative_runtime_ns = Finite 0, dr_solve_ns = Finite 0,
     dr_recovery = False, dr_callback_failed = False\<rparr>"

record ProxQPMeasurementRecord =
  mr_outcome :: BatchOutcome
  mr_context_tier_max :: u32
  mr_predicted_runtime_ns :: fp
  mr_residual_ns :: fp

record Observation =
  ob_at :: TimePoint
  ob_value_ns :: fp

record PCandidate =
  pc_work :: WorkItem
  pc_urgency :: fp
  pc_bypass :: u32

type_synonym ('a, 'w) observer = "'a \<Rightarrow> 'w \<Rightarrow> (exn + unit) \<times> 'w"

record 'w ProxQPScheduler =
  px_model :: ModelProfile
  px_hardware :: HardwareProfile
  px_profile :: ProxQPRuntimeProfile
  px_config :: ProxQPSchedulerConfig
  ttft_window :: "Observation list"
  tpot_window :: "Observation list"
  px_bypasses :: "RequestId \<Rightarrow> u32 option"
  previous_prefill :: fp
  previous_decode :: fp
  decision_observer :: "(ProxQPDecisionRecord, 'w) observer option"
  measurement_observer :: "(ProxQPMeasurementRecord, 'w) observer option"
  decision_observer_failed :: bool
  measurement_observer_failed :: bool
  px_started :: bool
  pending_tier_max :: u32
  pending_prediction :: fp
  observers_world :: 'w

section \<open>Construction\<close>

definition proxqp_config_valid :: "ProxQPRuntimeProfile \<Rightarrow> ProxQPSchedulerConfig \<Rightarrow> bool" where
  "proxqp_config_valid profile c \<longleftrightarrow>
     \<not> (schema_version profile \<noteq> 1 \<or> tiers profile = [] \<or> pq_ttft_target c \<le> 0 \<or> pq_tpot_target c \<le> 0 \<or>
        pq_window c \<le> 0 \<or> pq_max_prefill_chunk c = 0 \<or> pq_max_considered_requests c = 0 \<or>
        \<not> is_finite (decode_urgency_knee c) \<or> fp_less (decode_urgency_knee c) (Finite 0) \<or>
        \<not> is_finite (decode_urgency_steepness c) \<or> fp_le (decode_urgency_steepness c) (Finite 0) \<or>
        \<not> is_finite (decode_urgency_gain c) \<or> fp_less (decode_urgency_gain c) (Finite 0))"

text \<open>The loop over the sorted tiers; \<open>previous\<close> is \<open>None\<close> for the first.\<close>
fun tiers_valid :: "u32 option \<Rightarrow> ProxQPRuntimeTier list \<Rightarrow> bool" where
  "tiers_valid previous [] = True"
| "tiers_valid previous (t # ts) =
     (if context_min t > context_max t \<or> \<not> is_finite (tau_base_ns t) \<or>
         \<not> is_finite (tau_prefill_ns_per_token t) \<or> \<not> is_finite (tau_decode_ns_per_item t) \<or>
         fp_less (tau_prefill_ns_per_token t) (Finite 0) \<or> fp_less (tau_decode_ns_per_item t) (Finite 0) \<or>
         fp_less (runtime_margin_ns t) (Finite 0) \<or> \<not> fp_less (Finite 0) (runtime_scale_ns t) \<or>
         token_capacity t = 0 \<or> sequence_capacity t = 0 \<or>
         (case previous of None \<Rightarrow> False | Some m \<Rightarrow> context_min t \<le> m)
      then False
      else tiers_valid (Some (context_max t)) ts)"

text \<open>
  \<open>std::sort\<close> of the tiers: tiers with the same lower end may come in any order, but then the loop
  throws in either order. \<open>measurement_observer_failed_\<close> has no initialiser; its value is the
  argument \<open>garbage\<close>.
\<close>
definition new_proxqp :: "bool \<Rightarrow> ModelProfile \<Rightarrow> HardwareProfile \<Rightarrow> ProxQPRuntimeProfile \<Rightarrow> ProxQPSchedulerConfig \<Rightarrow> 'w \<Rightarrow>
    exn + 'w ProxQPScheduler" where
  "new_proxqp garbage m hw profile c w =
     (if \<not> proxqp_config_valid profile c then Inl (Invalid_argument ''invalid ProxQP scheduler configuration'')
      else
        (let sorted = stable_sort (\<lambda>a b. context_min a < context_min b) (tiers profile) in
         if \<not> tiers_valid None sorted then Inl (Invalid_argument ''invalid ProxQP runtime profile'')
         else Inr \<lparr>px_model = m, px_hardware = hw, px_profile = profile\<lparr>tiers := sorted\<rparr>, px_config = c,
           ttft_window = [], tpot_window = [], px_bypasses = (\<lambda>_. None), previous_prefill = Finite 0,
           previous_decode = Finite 0, decision_observer = None, measurement_observer = None,
           decision_observer_failed = False, measurement_observer_failed = garbage, px_started = False,
           pending_tier_max = 0, pending_prediction = Finite 0, observers_world = w\<rparr>))"

definition set_decision_observer ::
  "(ProxQPDecisionRecord, 'w) observer option \<Rightarrow> 'w ProxQPScheduler \<Rightarrow> exn + 'w ProxQPScheduler" where
  "set_decision_observer f p =
     (if px_started p then Inl (Logic_error ''observer set after scheduling started'')
      else Inr (p\<lparr>decision_observer := f\<rparr>))"

definition set_measurement_observer ::
  "(ProxQPMeasurementRecord, 'w) observer option \<Rightarrow> 'w ProxQPScheduler \<Rightarrow> exn + 'w ProxQPScheduler" where
  "set_measurement_observer f p =
     (if px_started p then Inl (Logic_error ''observer set after scheduling started'')
      else Inr (p\<lparr>measurement_observer := f\<rparr>))"

section \<open>Rewards and candidates\<close>

definition in_ns :: "duration \<Rightarrow> fp" where
  "in_ns d = fp_of_int double d"

definition proxqp_decode_urgency :: "Numerics \<Rightarrow> fp \<Rightarrow> ProxQPSchedulerConfig \<Rightarrow> fp" where
  "proxqp_decode_urgency N normalized_age c =
     (let age = fp_max (Finite 0) normalized_age;
          z = dmul (decode_urgency_steepness c) (dsub age (decode_urgency_knee c));
          softplus = (if fp_less (Finite 0) z then dadd z (c_log1p N (c_exp N (fp_neg z))) else c_log1p N (c_exp N z)) in
      dadd age (ddiv (dmul (decode_urgency_gain c) softplus) (decode_urgency_steepness c)))"

definition proxqp_decode_reward :: "fp list \<Rightarrow> ProxQPSchedulerConfig \<Rightarrow> fp" where
  "proxqp_decode_reward urgencies c =
     (if urgencies = [] then base_decode_reward c
      else
        (let squared_sum = foldl (\<lambda>s u. dadd s (dmul u u)) (Finite 0) urgencies in
         dadd (base_decode_reward c) (ddiv squared_sum (fp_of_int double (int (length urgencies))))))"

definition pcandidate_for :: "Numerics \<Rightarrow> policy_view \<Rightarrow> 'w ProxQPScheduler \<Rightarrow> RequestState \<Rightarrow> PCandidate option" where
  "pcandidate_for N v p r =
     (let bypass = (case px_bypasses p (req_id r) of None \<Rightarrow> 0 | Some n \<Rightarrow> n); c = px_config p in
      if stage r = PrefillStage \<and> prefill_position r < prompt_length r then
        (let amount = min (min (prompt_length r - prefill_position r) (pq_max_prefill_chunk c)) (pv_token_budget v) in
         Some \<lparr>pc_work = prefill_work r (prefill_position r + amount),
           pc_urgency = ddiv (in_ns (pv_now v - arrival_time r)) (in_ns (pq_ttft_target c)), pc_bypass = bypass\<rparr>)
      else if stage r = DecodeStage \<and> decoded_count r > 0 then
        (if decode_end r \<le> u64_of_u32 u32_max then
           Some \<lparr>pc_work = decode_work r,
             pc_urgency = proxqp_decode_urgency N
               (ddiv (in_ns (pv_now v - last_token_time r)) (in_ns (pq_tpot_target c))) c, pc_bypass = bypass\<rparr>
         else None)
      else None)"

definition pcandidates :: "Numerics \<Rightarrow> policy_view \<Rightarrow> 'w ProxQPScheduler \<Rightarrow> PCandidate list" where
  "pcandidates N v p = List.map_filter (pcandidate_for N v p) (pv_requests v)"

text \<open>The largest context any request will need; the additions are of 32 bits.\<close>
fun largest_context :: "u32 \<Rightarrow> u32 \<Rightarrow> RequestState list \<Rightarrow> u32" where
  "largest_context chunk m [] = m"
| "largest_context chunk m (r # rs) =
     largest_context chunk
       (if stage r = PrefillStage then max m (min (prompt_length r) (prefill_position r + chunk))
        else if stage r = DecodeStage then max m (prompt_length r + decoded_count r + 1)
        else m) rs"

definition select_tier :: "policy_view \<Rightarrow> 'w ProxQPScheduler \<Rightarrow> ProxQPRuntimeTier option" where
  "select_tier v p =
     (let m = largest_context (pq_max_prefill_chunk (px_config p)) 0 (pv_requests v) in
      find (\<lambda>t. m \<ge> context_min t \<and> m \<le> context_max t) (tiers (px_profile p)))"

section \<open>Headroom\<close>

text \<open>\<open>nearest_rank\<close>: the 99th percentile; the position is computed in floating point.\<close>
definition rank_of :: "nat \<Rightarrow> nat" where
  "rank_of n = max 1 (nat (fp_truncate (fp_ceiling (dmul (to_fp double (99 / 100)) (fp_of_int double (int n)))))) - 1"

definition nearest_rank :: "fp list \<Rightarrow> fp" where
  "nearest_rank values =
     (if values = [] then Finite 0 else stable_sort fp_less values ! rank_of (length values))"

fun bisect :: "(fp \<Rightarrow> bool) \<Rightarrow> nat \<Rightarrow> fp \<Rightarrow> fp \<Rightarrow> fp" where
  "bisect meets 0 low high = low"
| "bisect meets (Suc k) low high =
     (let mid = ddiv (dadd low high) (Finite 2) in
      if meets mid then bisect meets k mid high else bisect meets k low mid)"

definition fixed_values :: "bool \<Rightarrow> policy_view \<Rightarrow> 'w ProxQPScheduler \<Rightarrow> fp list" where
  "fixed_values ttft v p =
     map ob_value_ns (filter (\<lambda>ob. ob_at ob + pq_window (px_config p) \<ge> pv_now v)
       (if ttft then ttft_window p else tpot_window p))"

definition waiting_ages :: "bool \<Rightarrow> policy_view \<Rightarrow> fp list" where
  "waiting_ages ttft v =
     List.map_filter (\<lambda>r.
       if ttft \<and> \<not> first_token_recorded r then Some (in_ns (pv_now v - arrival_time r))
       else if \<not> ttft \<and> stage r = DecodeStage \<and> first_token_recorded r
       then Some (in_ns (pv_now v - last_token_time r)) else None) (pv_requests v)"

definition percentile :: "bool \<Rightarrow> policy_view \<Rightarrow> 'w ProxQPScheduler \<Rightarrow> fp \<Rightarrow> fp" where
  "percentile ttft v p delay =
     nearest_rank (fixed_values ttft v p @ map (\<lambda>age. dadd age delay) (waiting_ages ttft v))"

definition headroom :: "bool \<Rightarrow> policy_view \<Rightarrow> 'w ProxQPScheduler \<Rightarrow> fp" where
  "headroom ttft v p =
     (let target = in_ns (if ttft then pq_ttft_target (px_config p) else pq_tpot_target (px_config p)) in
      if waiting_ages ttft v = [] then target
      else if fp_less target (percentile ttft v p (Finite 0)) then Finite 0
      else bisect (\<lambda>d. fp_le (percentile ttft v p d) target) 80 (Finite 0) target)"

section \<open>Observers and the fallback\<close>

definition emit_decision :: "ProxQPDecisionRecord \<Rightarrow> 'w ProxQPScheduler \<Rightarrow> 'w ProxQPScheduler" where
  "emit_decision d p =
     (case decision_observer p of
        None \<Rightarrow> p
      | Some f \<Rightarrow>
          if decision_observer_failed p then p
          else (case f d (observers_world p) of
                  (Inl e, w) \<Rightarrow> p\<lparr>observers_world := w, decision_observer_failed := True\<rparr>
                | (Inr _, w) \<Rightarrow> p\<lparr>observers_world := w\<rparr>))"

text \<open>The check of a proposed batch.\<close>
definition batch_fits :: "Numerics \<Rightarrow> policy_view \<Rightarrow> 'w ProxQPScheduler \<Rightarrow> WorkItem list \<Rightarrow> bool" where
  "batch_fits N v p ws =
     usage_valid (evaluate_batch_resources (long_double N) (pv_requests v) ws (pv_token_budget v) (px_model p) (px_hardware p))"

definition pcandidate_before :: "PCandidate \<Rightarrow> PCandidate \<Rightarrow> bool" where
  "pcandidate_before a b \<longleftrightarrow>
     (if \<not> fp_eq (pc_urgency a) (pc_urgency b) then fp_less (pc_urgency b) (pc_urgency a)
      else if pc_bypass a \<noteq> pc_bypass b then pc_bypass a > pc_bypass b
      else work_id (pc_work a) < work_id (pc_work b))"

text \<open>The inner loop: take tokens off the end until the item alone fits or one token is left.\<close>
function shorten :: "(WorkItem list \<Rightarrow> bool) \<Rightarrow> WorkItem \<Rightarrow> WorkItem" where
  "shorten fits w =
     (if token_count w > 1
      then (if fits [w] then w else shorten fits (w\<lparr>token_end := token_end w - 1\<rparr>))
      else w)"
  by auto
termination
proof (relation "measure (\<lambda>(fits, w). unat (token_count w))")
  fix fits :: "WorkItem list \<Rightarrow> bool" and w
  assume "token_count w > 1"
  then have "unat (token_count w - 1) < unat (token_count w)"
    by (metis unat_minus_one diff_less unat_gt_0 less_nat_zero_code not_gr_zero unat_1 word_less_nat_alt zero_less_one)
  moreover have "token_count (w\<lparr>token_end := token_end w - 1\<rparr>) = token_count w - 1" by (simp add: token_count_def)
  ultimately show "((fits, w\<lparr>token_end := token_end w - 1\<rparr>), fits, w) \<in> measure (\<lambda>(fits, w). unat (token_count w))"
    by simp
qed simp

declare shorten.simps [simp del]

fun fallback_from :: "(WorkItem list \<Rightarrow> bool) \<Rightarrow> PCandidate list \<Rightarrow> WorkItem option" where
  "fallback_from fits [] = None"
| "fallback_from fits (c # cs) =
     (let w = (if work_kind (pc_work c) = Prefill then shorten fits (pc_work c) else pc_work c) in
      if fits [w] then Some w else fallback_from fits cs)"

definition urgent_fallback :: "Numerics \<Rightarrow> policy_view \<Rightarrow> PCandidate list \<Rightarrow> string \<Rightarrow> ProxQPDecisionRecord \<Rightarrow>
    'w ProxQPScheduler \<Rightarrow> WorkItem list \<times> 'w ProxQPScheduler" where
  "urgent_fallback N v available reason d p =
     (case fallback_from (batch_fits N v p) (stable_sort pcandidate_before available) of
        None \<Rightarrow> ([], p)
      | Some w \<Rightarrow>
          ([w], emit_decision (d\<lparr>dr_fallback_reason := reason,
                  dr_projected_prefill := (if work_kind w = Prefill then token_count w else 0),
                  dr_projected_decode := (if work_kind w = Decode then 1 else 0)\<rparr>) p))"

section \<open>Building a plan\<close>

definition proxqp_input :: "Numerics \<Rightarrow> policy_view \<Rightarrow> 'w ProxQPScheduler \<Rightarrow> ProxQPRuntimeTier \<Rightarrow>
    PCandidate list \<Rightarrow> PCandidate list \<Rightarrow> ProxQPInput" where
  "proxqp_input N v p tier prefills decodes =
     (let c = px_config p; m = px_model p; ld = long_double N;
          gp = dadd (base_prefill_reward c)
                 (if prefills = [] then Finite 0 else dmul (pc_urgency (hd prefills)) (pc_urgency (hd prefills)));
          gd = proxqp_decode_reward (map pc_urgency decodes) c;
          kv = fp_mul ld (fp_mul ld (fp_mul ld (fp_of_int ld (uint (layer_count m))) (fp_of_int ld (uint (kv_head_count m))))
                 (fp_of_int ld (uint (head_dimension m))))
                 (fp_convert ld (dadd (key_effective_bytes_per_scalar m) (value_effective_bytes_per_scalar m)));
          resident = foldl (\<lambda>n r. let n = n + u64_of_u32 (prefill_position r) in
                       if decoded_count r \<noteq> 0 then n + u64_of_u32 (decoded_count r - 1) else n) 0 (pv_requests v);
          token_budget = fp_of_int double (uint (min (min (u64_of_u32 (pv_token_budget v)) (batch_capacity m))
                           (u64_of_u32 (token_capacity tier))));
          sequences = fp_of_int double (uint (min (max_sequences m) (u64_of_u32 (sequence_capacity tier))));
          maximum_runtime = dadd (dadd (dadd (tau_base_ns tier) (runtime_margin_ns tier))
                              (dmul (tau_prefill_ns_per_token tier) token_budget))
                              (dmul (tau_decode_ns_per_item tier) sequences) in
      \<lparr>qi_token_budget = token_budget, qi_sequence_capacity = sequences,
       qi_prefill_available = (if prefills = [] then Finite 0 else token_budget),
       qi_decode_available = fp_min (fp_of_int double (int (length decodes))) sequences,
       qi_chunk_size = fp_of_int double (uint (pq_max_prefill_chunk c)),
       qi_memory_available = fp_of_int double (uint (total_memory_bytes (px_hardware p))),
       qi_memory_base = dadd (fp_of_int double (uint (model_bytes m)))
         (fp_convert double (fp_mul ld kv (fp_of_int ld (uint resident)))),
       qi_memory_prefill = fp_convert double kv, qi_memory_decode = fp_convert double kv,
       qi_runtime_base_ns = tau_base_ns tier, qi_runtime_prefill_ns = tau_prefill_ns_per_token tier,
       qi_runtime_decode_ns = tau_decode_ns_per_item tier, qi_runtime_margin_ns = runtime_margin_ns tier,
       qi_runtime_scale_ns = runtime_scale_ns tier,
       qi_ttft_headroom_ns = (if prefills = [] then maximum_runtime else headroom True v p),
       qi_tpot_headroom_ns = (if decodes = [] then maximum_runtime else headroom False v p),
       qi_batch_duration_scale_ns = fp_max (Finite 1) (dadd (tau_base_ns tier) (runtime_margin_ns tier)),
       qi_reward_prefill = gp, qi_reward_decode = gd, qi_runtime_weight = runtime_weight c,
       qi_rho_prefill = rho_prefill c, qi_rho_decode = rho_decode c,
       qi_previous_prefill = previous_prefill p, qi_previous_decode = previous_decode p,
       qi_boundary_buffer_z = boundary_buffer_z c, qi_boundary_weight = boundary_weight c\<rparr>)"

text \<open>The prefixes of the candidates within the capacities, each with its total, the empty one first.\<close>
fun prefixes_from :: "ProxQPInput \<Rightarrow> bool \<Rightarrow> u32 \<Rightarrow> WorkItem list \<Rightarrow> PCandidate list \<Rightarrow> (u32 \<times> WorkItem list) list" where
  "prefixes_from i prefill tokens work [] = []"
| "prefixes_from i prefill tokens work (c # cs) =
     (if fp_le (qi_sequence_capacity i) (fp_of_int double (int (length work))) then []
      else
        (let work = work @ [pc_work c];
             tokens = tokens + (if prefill then token_count (pc_work c) else 1) in
         if fp_less (qi_token_budget i) (fp_of_int double (uint tokens)) then []
         else (tokens, work) # prefixes_from i prefill tokens work cs))"

definition prefixes :: "ProxQPInput \<Rightarrow> bool \<Rightarrow> PCandidate list \<Rightarrow> (u32 \<times> WorkItem list) list" where
  "prefixes i prefill cs = (0, []) # prefixes_from i prefill 0 [] cs"

text \<open>The eight prefixes nearest to the continuous size.\<close>
definition trim :: "fp \<Rightarrow> (u32 \<times> WorkItem list) list \<Rightarrow> (u32 \<times> WorkItem list) list" where
  "trim target values =
     (let dist = (\<lambda>x. fp_abs (dsub (fp_of_int double (uint (fst x))) target)) in
      take 8 (stable_sort (\<lambda>a b. if fp_eq (dist a) (dist b) then fst a < fst b else fp_less (dist a) (dist b)) values))"

record Projection =
  pj_best :: fp
  pj_distance :: fp
  pj_chosen :: "WorkItem list"
  pj_prefill :: u32
  pj_decode :: u32
  pj_runtime :: fp

text \<open>One pass of the two nested loops.\<close>
definition project :: "Numerics \<Rightarrow> ProxQPInput \<Rightarrow> ProxQPRuntimeTier \<Rightarrow> fp \<Rightarrow> ProxQPResult \<Rightarrow> (WorkItem list \<Rightarrow> bool) \<Rightarrow>
    Projection \<Rightarrow> (u32 \<times> WorkItem list) \<times> (u32 \<times> WorkItem list) \<Rightarrow> Projection" where
  "project N i tier tolerance res fits j = (\<lambda>((pt, pw), (dt, dw)).
     let work = pw @ dw; pf = fp_of_int double (uint pt); df = fp_of_int double (uint dt);
         runtime = dadd (dadd (dadd (tau_base_ns tier) (dmul (tau_prefill_ns_per_token tier) pf))
                     (dmul (tau_decode_ns_per_item tier) df)) (runtime_margin_ns tier) in
     if work = [] \<or> \<not> fits work then j
     else
       (let distance = dadd (c_pow N (ddiv (dsub pf (qr_prefill res)) (qi_token_budget i)) (Finite 2))
                            (c_pow N (ddiv (dsub df (qr_decode res)) (qi_sequence_capacity i)) (Finite 2));
            objective = proxqp_objective N i pf df in
        if fp_less (dadd objective tolerance) (pj_best j) \<or>
           (fp_le (fp_abs (dsub objective (pj_best j))) tolerance \<and> fp_less distance (pj_distance j))
        then \<lparr>pj_best = objective, pj_distance = distance, pj_chosen = work, pj_prefill = pt, pj_decode = dt,
              pj_runtime = runtime\<rparr>
        else j))"

definition no_projection :: Projection where
  "no_projection = \<lparr>pj_best = Infinite False, pj_distance = Infinite False, pj_chosen = [], pj_prefill = 0,
     pj_decode = 0, pj_runtime = Finite 0\<rparr>"

definition proxqp_build_plan :: "Numerics \<Rightarrow> policy_view \<Rightarrow> 'w ProxQPScheduler \<Rightarrow> WorkItem list \<times> 'w ProxQPScheduler" where
  "proxqp_build_plan N v p =
     (let p = p\<lparr>px_started := True\<rparr>;
          d = new_decision (pv_now v);
          available = pcandidates N v p in
      if length available > unat (pq_max_considered_requests (px_config p))
      then urgent_fallback N v available ''considered_request_limit_exceeded'' d p
      else
        (case select_tier v p of
           None \<Rightarrow> urgent_fallback N v available ''profile_not_covered'' d p
         | Some tier \<Rightarrow>
             (let prefills = stable_sort pcandidate_before (filter (\<lambda>c. work_kind (pc_work c) = Prefill) available);
                  decodes = stable_sort pcandidate_before (filter (\<lambda>c. work_kind (pc_work c) \<noteq> Prefill) available);
                  i = proxqp_input N v p tier prefills decodes;
                  res = solve_proxqp N i;
                  d = d\<lparr>dr_solver_status := qr_status res, dr_solve_ns := qr_solve_ns res,
                        dr_continuous_prefill := qr_prefill res, dr_continuous_decode := qr_decode res\<rparr> in
              if \<not> qr_success res \<or> \<not> is_finite (qr_prefill res) \<or> \<not> is_finite (qr_decode res)
              then urgent_fallback N v available ''solver_failed'' d p
              else
                (let pp = trim (qr_prefill res) (prefixes i True prefills);
                     dp = trim (qr_decode res) (prefixes i False decodes);
                     j = foldl (project N i tier (projection_tolerance (px_config p)) res (batch_fits N v p))
                           no_projection (List.product pp dp);
                     d = d\<lparr>dr_projected_prefill := pj_prefill j, dr_projected_decode := pj_decode j,
                           dr_conservative_runtime_ns := pj_runtime j\<rparr> in
                 if pj_chosen j = [] then urgent_fallback N v available ''projection_empty'' d p
                 else (pj_chosen j,
                       emit_decision d (p\<lparr>pending_tier_max := context_max tier, pending_prediction := pj_runtime j\<rparr>))))))"

section \<open>After a plan\<close>

definition proxqp_on_request_timing :: "PolicyTimingEvent \<Rightarrow> 'w ProxQPScheduler \<Rightarrow> 'w ProxQPScheduler" where
  "proxqp_on_request_timing e p =
     (let ob = \<lparr>ob_at = pte_timestamp e, ob_value_ns = in_ns (pte_latency e)\<rparr> in
      if pte_kind e = FirstToken then p\<lparr>ttft_window := ttft_window p @ [ob]\<rparr>
      else if pte_kind e = LaterToken then p\<lparr>tpot_window := tpot_window p @ [ob]\<rparr>
      else p)"

definition proxqp_on_plan_completed :: "BatchOutcome \<Rightarrow> 'w ProxQPScheduler \<Rightarrow> 'w ProxQPScheduler" where
  "proxqp_on_plan_completed b p =
     (let p = p\<lparr>previous_prefill := fp_of_int double (uint (bo_prefill_tokens b)),
                previous_decode := fp_of_int double (uint (bo_decode_items b))\<rparr> in
      case measurement_observer p of
        None \<Rightarrow> p
      | Some f \<Rightarrow>
          if measurement_observer_failed p then p
          else
            (let m = \<lparr>mr_outcome = b, mr_context_tier_max = pending_tier_max p,
                      mr_predicted_runtime_ns = pending_prediction p,
                      mr_residual_ns = dsub (in_ns (bo_duration b)) (pending_prediction p)\<rparr>;
                 (r, w) = f m (observers_world p) in
             p\<lparr>observers_world := w, measurement_observer_failed := (case r of Inl e \<Rightarrow> True | Inr u \<Rightarrow> False),
               pending_tier_max := 0, pending_prediction := Finite 0\<rparr>))"

definition proxqp_policy :: "Numerics \<Rightarrow> 'w ProxQPScheduler Policy" where
  "proxqp_policy N = \<lparr>build_plan = (\<lambda>v p. let (ws, p') = proxqp_build_plan N v p in (Inr ws, p')),
     on_plan_completed = (\<lambda>v b p. (Inr (), proxqp_on_plan_completed b p)),
     on_request_timing = (\<lambda>v e p. (Inr (), proxqp_on_request_timing e p))\<rparr>"

end
