(* ===== verification/Decision_Timing.thy ===== *)
theory Decision_Timing
  imports Scheduler_State Rounding
begin

text \<open>
  The statistics \<open>Scheduler::decision_timing\<close> reports of the recorded decision times
  (\<open>src/runtime/scheduler.cpp\<close>): their mean, summed in \<open>long double\<close> of format \<open>ld\<close>, and two
  percentiles by nearest rank, whose index is computed in floating point.
\<close>

record SchedulerDecisionTiming =
  decision_count :: u64
  mean_decision_time_ns :: "fp option"
  p95_decision_time_ns :: "u64 option"
  p99_decision_time_ns :: "u64 option"

definition timing_rank :: "fp \<Rightarrow> nat \<Rightarrow> nat" where
  "timing_rank q n = max 1 (nat (fp_truncate (fp_ceiling (fp_mul double q (fp_of_int double (int n)))))) - 1"

definition decision_timing :: "Format \<Rightarrow> ('x, 'p) Scheduler \<Rightarrow> SchedulerDecisionTiming" where
  "decision_timing ld s =
     (let times = decision_times_ns s; n = length times in
      if times = []
      then \<lparr>decision_count = 0, mean_decision_time_ns = None, p95_decision_time_ns = None, p99_decision_time_ns = None\<rparr>
      else
        (let sum = foldl (\<lambda>a d. fp_add ld a (fp_of_int ld (uint d))) (Finite 0) times;
             sorted = sort times in
         \<lparr>decision_count = of_nat n,
          mean_decision_time_ns = Some (fp_convert double (fp_div ld sum (fp_of_int ld (int n)))),
          p95_decision_time_ns = Some (sorted ! timing_rank (to_fp double (95 / 100)) n),
          p99_decision_time_ns = Some (sorted ! timing_rank (to_fp double (99 / 100)) n)\<rparr>))"

lemma representable_nat: "k \<le> 2 ^ 53 \<Longrightarrow> representable double (of_int (int k))"
proof -
  assume "k \<le> 2 ^ 53"
  then have "int k \<le> int (2 ^ 53)" by (simp only: of_nat_le_iff)
  then show ?thesis by (intro representable_int) (simp_all add: double_def well_formed_def)
qed

text \<open>A rank is in range, and a larger quantile has no smaller rank.\<close>
lemma timing_rank_bounds:
  assumes "0 < n" "n \<le> 2 ^ 53" "0 \<le> x" "x \<le> y" "y \<le> 1"
  shows "timing_rank (to_fp double x) n \<le> timing_rank (to_fp double y) n" "timing_rank (to_fp double y) n < n"
proof -
  have n: "representable double (of_int (int n))" by (rule representable_nat [OF assms(2)])
  have one: "representable double 1" using representable_nat [of 1] by simp
  obtain b where b: "to_fp double y = Finite b" "0 \<le> b" "b \<le> 1"
    using to_fp_between [OF well_formed_double representable_zero _ one assms(5)] assms(3,4) by auto
  obtain a where a: "to_fp double x = Finite a" "0 \<le> a" "a \<le> b"
    using to_fp_mono [OF well_formed_double assms(3,4) b(1)] by blast
  have m: "fp_mul double (Finite z) (fp_of_int double (int n)) = to_fp double (z * of_int (int n))" for z
    using to_fp_id [OF well_formed_double n] by (simp add: fp_of_int_def)
  have bn: "0 \<le> b * of_int (int n)" "b * of_int (int n) \<le> of_int (int n)"
    using b by (simp_all add: mult_left_le_one_le)
  obtain v where v: "to_fp double (b * of_int (int n)) = Finite v" "0 \<le> v" "v \<le> of_int (int n)"
    using to_fp_between [OF well_formed_double representable_zero bn(1) n bn(2)] by blast
  have "0 \<le> a * of_int (int n)" "a * of_int (int n) \<le> b * of_int (int n)" using a by (simp_all add: mult_right_mono)
  then obtain u where u: "to_fp double (a * of_int (int n)) = Finite u" "0 \<le> u" "u \<le> v"
    using to_fp_mono [OF well_formed_double _ _ v(1)] by blast
  have ceil: "0 \<le> \<lceil>u\<rceil>" "\<lceil>u\<rceil> \<le> \<lceil>v\<rceil>" "\<lceil>v\<rceil> \<le> int n" using u v ceiling_mono [OF u(3)] by (simp_all add: ceiling_le_iff)
  then have t: "fp_truncate (fp_ceiling (Finite u)) = \<lceil>u\<rceil>" "fp_truncate (fp_ceiling (Finite v)) = \<lceil>v\<rceil>" by simp_all
  show "timing_rank (to_fp double x) n \<le> timing_rank (to_fp double y) n"
    unfolding timing_rank_def a(1) b(1) m u(1) v(1) t using ceil by (intro diff_le_mono) auto
  show "timing_rank (to_fp double y) n < n"
    unfolding timing_rank_def b(1) m v(1) t using ceil assms(1) by auto
qed

text \<open>
  The percentiles reported are recorded decision times, read inside the vector, and the 95th is at
  most the 99th.
\<close>
theorem decision_percentiles:
  assumes "decision_times_ns s \<noteq> []" "length (decision_times_ns s) \<le> 2 ^ 53"
  shows "\<exists>a b. p95_decision_time_ns (decision_timing ld s) = Some a \<and> p99_decision_time_ns (decision_timing ld s) = Some b \<and>
    a \<in> set (decision_times_ns s) \<and> b \<in> set (decision_times_ns s) \<and> a \<le> b"
proof -
  let ?ts = "decision_times_ns s" and ?n = "length (decision_times_ns s)"
  let ?i = "timing_rank (to_fp double (95 / 100)) ?n" and ?j = "timing_rank (to_fp double (99 / 100)) ?n"
  have r: "?i \<le> ?j" "?j < ?n" using timing_rank_bounds [of ?n "95 / 100" "99 / 100"] assms by auto
  then have "sort ?ts ! ?i \<le> sort ?ts ! ?j" by (intro sorted_nth_mono) simp_all
  moreover have "sort ?ts ! k \<in> set ?ts" if "k < ?n" for k using that by (metis length_sort nth_mem set_sort)
  ultimately show ?thesis using assms(1) r by (simp add: decision_timing_def Let_def)
qed

end
