(* ===== verification/ProxQP_Props.thy ===== *)
theory ProxQP_Props
  imports ProxQP AIMD_Props Decision_Timing
begin

text \<open>
  The properties of \<open>ProxQPScheduler\<close>: whatever the solver and the mathematics library return, its
  plans are valid and fit, it plans something whenever one more token fits, an observer cannot
  change a plan, and the headroom it promises keeps the percentile at its target.
\<close>

section \<open>Candidates\<close>

definition px_posed :: "policy_view \<Rightarrow> 'w ProxQPScheduler \<Rightarrow> bool" where
  "px_posed v p \<longleftrightarrow> distinct (map req_id (pv_requests v)) \<and> pv_token_budget v \<noteq> 0 \<and>
     pq_max_prefill_chunk (px_config p) \<noteq> 0"

lemma distinct_ids_length: "distinct (map req_id rs) \<Longrightarrow> length rs \<le> 2 ^ 32"
proof -
  assume d: "distinct (map req_id rs)"
  have "card (set (map req_id rs)) \<le> card (UNIV :: RequestId set)" by (rule card_mono) simp_all
  then show ?thesis using distinct_card [OF d] by (simp add: card_word)
qed

lemma pcandidate_item:
  assumes "pcandidate_for N v p r = Some c" and "px_posed v p"
  shows "work_id (pc_work c) = req_id r" "valid_item r (pc_work c)"
    "work_kind (pc_work c) \<noteq> Prefill \<Longrightarrow> item_tokens (pc_work c) = 1"
proof -
  consider
    (decode) "stage r = DecodeStage" "decoded_count r \<noteq> 0" "\<not> decode_end r > u64_of_u32 u32_max" "pc_work c = decode_work r"
  | (prefill) "stage r = PrefillStage" "\<not> prefill_position r \<ge> prompt_length r"
      "pc_work c = prefill_work r (prefill_position r +
         min (prompt_length r - prefill_position r) (min (pq_max_prefill_chunk (px_config p)) (pv_token_budget v)))"
    using assms(1) by (auto simp: pcandidate_for_def Let_def word_neq_0_conv not_le not_less min.assoc split: if_splits)
  then have "work_id (pc_work c) = req_id r \<and> valid_item r (pc_work c) \<and>
      (work_kind (pc_work c) \<noteq> Prefill \<longrightarrow> item_tokens (pc_work c) = 1)"
  proof cases
    case decode
    then show ?thesis using decode_work_item [OF decode(1-3)] by simp
  next
    case prefill
    have "min (pq_max_prefill_chunk (px_config p)) (pv_token_budget v) \<noteq> 0"
      using assms(2) by (auto simp: px_posed_def min_def)
    from prefill_step [OF prefill(1,2) this] prefill(3) show ?thesis by (simp add: prefill_work_def)
  qed
  then show "work_id (pc_work c) = req_id r" "valid_item r (pc_work c)"
    "work_kind (pc_work c) \<noteq> Prefill \<Longrightarrow> item_tokens (pc_work c) = 1" by simp_all
qed

lemma in_pcandidates: "c \<in> set (pcandidates N v p) \<longleftrightarrow> (\<exists>r \<in> set (pv_requests v). pcandidate_for N v p r = Some c)"
proof -
  have "c \<in> set (List.map_filter f rs) \<longleftrightarrow> (\<exists>r \<in> set rs. f r = Some c)" for f :: "RequestState \<Rightarrow> PCandidate option" and rs
    by (induction rs) (auto simp: List.map_filter_simps split: option.splits)
  then show ?thesis by (simp add: pcandidates_def)
qed

lemma pcandidates_ids:
  assumes "px_posed v p"
  shows "distinct (map (work_id \<circ> pc_work) (pcandidates N v p))" "length (pcandidates N v p) \<le> 2 ^ 32"
proof -
  have s: "subseq (map (work_id \<circ> pc_work) (pcandidates N v p)) (map req_id (pv_requests v))"
    unfolding pcandidates_def by (rule map_filter_ids) (use pcandidate_item(1) assms in auto)
  then show "distinct (map (work_id \<circ> pc_work) (pcandidates N v p))"
    using assms unfolding px_posed_def by (metis distinct_nthsI subseq_conv_nths)
  have "length (pcandidates N v p) \<le> length (pv_requests v)" using list_emb_length [OF s] by simp
  also have "\<dots> \<le> 2 ^ 32" using assms unfolding px_posed_def by (intro distinct_ids_length) simp
  finally show "length (pcandidates N v p) \<le> 2 ^ 32" .
qed

lemma no_pcandidates: "pcandidates N v p = [] \<longleftrightarrow> \<not> list_ex workable (pv_requests v)"
proof -
  have w: "pcandidate_for N v p r \<noteq> None \<longleftrightarrow> workable r" for r
    unfolding pcandidate_for_def workable_def Let_def
    by (auto simp: decode_overflow not_less not_le word_less_nat_alt word_le_nat_alt unat_decode_end
        simp flip: decode_overflow)
  have "pcandidates N v p = [] \<longleftrightarrow> (\<forall>c. c \<notin> set (pcandidates N v p))" by (cases "pcandidates N v p") auto
  also have "\<dots> \<longleftrightarrow> (\<forall>r \<in> set (pv_requests v). pcandidate_for N v p r = None)" by (metis in_pcandidates not_Some_eq)
  also have "\<dots> \<longleftrightarrow> \<not> list_ex workable (pv_requests v)" using w by (auto simp: list_ex_iff simp del: not_None_eq)
  finally show ?thesis .
qed

section \<open>The budget\<close>

lemma count_work_tokens: "fst (count_work (a, b) ws) = a + of_nat (sum_list (map (\<lambda>w. unat (token_count w)) ws))"
proof (induction ws arbitrary: a b)
  case (Cons w ws)
  have "u64_of_u32 (token_count w) = of_nat (unat (token_count w))" by (simp add: u64_of_u32_def unsigned_ucast_eq)
  then show ?case using Cons by simp
qed simp

lemma usage_tokens:
  assumes u: "usage_valid (evaluate_batch_resources ld rs ws b m hw)" and l: "length ws \<le> 2 ^ 32"
    and w: "\<And>w. w \<in> set ws \<Longrightarrow> unat (token_begin w) \<le> unat (token_end w)"
  shows "sum_list (map item_tokens ws) \<le> unat b"
proof -
  have t: "sum_list (map (\<lambda>w. unat (token_count w)) ws) = sum_list (map item_tokens ws)"
    using w token_count_item by (intro arg_cong [where f = sum_list] map_cong) auto
  have "sum_list (map (\<lambda>w. unat (token_count w)) ws) \<le> length ws * (2 ^ 32 - 1)"
  proof (induction ws)
    case (Cons x xs)
    have "unat (token_count x) \<le> 2 ^ 32 - 1" using unat_u32_lt [of "token_count x"] by simp
    then show ?case using Cons by simp
  qed simp
  also have "\<dots> \<le> 2 ^ 32 * (2 ^ 32 - 1)" using l by (intro mult_le_mono1) simp
  also have "\<dots> < 2 ^ 64" by simp
  finally have lt: "sum_list (map item_tokens ws) < 2 ^ 64" unfolding t .
  have "fst (count_work (0, resident_from 0 rs) ws) \<le> u64_of_u32 b"
    using u by (auto simp: evaluate_batch_resources_def Let_def split: prod.splits)
  then have "unat (of_nat (sum_list (map item_tokens ws)) :: u64) \<le> unat b"
    unfolding count_work_tokens t by (simp add: word_le_nat_alt)
  then show ?thesis using lt by (simp add: unat_of_nat take_bit_nat_eq_self)
qed

section \<open>The fallback\<close>

lemma shorten_valid:
  assumes "valid_item r w" "work_kind w = Prefill"
  shows "valid_item r (shorten fits w) \<and> work_id (shorten fits w) = work_id w \<and>
    (\<not> fits [shorten fits w] \<longrightarrow> token_count (shorten fits w) = 1)"
  using assms
proof (induction fits w rule: shorten.induct)
  case (1 fits w)
  have lt: "unat (token_begin w) < unat (token_end w)" using 1(2) by (rule valid_item_begins)
  then have tc: "unat (token_count w) = unat (token_end w) - unat (token_begin w)"
    using token_count_item [of w] by (simp add: item_tokens_def)
  show ?case
  proof (cases "token_count w > 1 \<and> \<not> fits [w]")
    case True
    then have gt: "1 < unat (token_count w)" by (simp add: word_less_nat_alt)
    have "unat (token_end w - 1) = unat (token_end w) - 1" using lt by (intro unat_minus_one) auto
    then have "valid_item r (w\<lparr>token_end := token_end w - 1\<rparr>)"
      using 1(2,3) gt tc by (auto simp: valid_item_def)
    then show ?thesis using 1(1) True 1(3) by (subst (1 2 3 4) shorten.simps) simp
  next
    case False
    have "unat (token_count w) \<noteq> 0" using lt tc by simp
    then have "\<not> token_count w > 1 \<Longrightarrow> token_count w = 1"
      by (metis less_one linorder_not_less nat_less_le unat_1 word_less_nat_alt word_unat_eq_iff)
    then show ?thesis using False 1(2) by (subst (1 2 3 4) shorten.simps) auto
  qed
qed

text \<open>What the fallback tries for a candidate.\<close>
definition attempt :: "(WorkItem list \<Rightarrow> bool) \<Rightarrow> PCandidate \<Rightarrow> WorkItem" where
  "attempt fits c = (if work_kind (pc_work c) = Prefill then shorten fits (pc_work c) else pc_work c)"

lemma fallback_from_result:
  "case fallback_from fits cs of
     None \<Rightarrow> \<forall>c \<in> set cs. \<not> fits [attempt fits c]
   | Some w \<Rightarrow> fits [w] \<and> (\<exists>c \<in> set cs. w = attempt fits c)"
  by (induction cs) (auto simp: attempt_def Let_def split: option.splits)

lemma attempt_valid:
  assumes "px_posed v p" "c \<in> set (pcandidates N v p)"
  shows "\<exists>r \<in> set (pv_requests v). work_id (attempt fits c) = req_id r \<and> valid_item r (attempt fits c)"
    "\<not> fits [attempt fits c] \<Longrightarrow> token_count (attempt fits c) = 1"
proof -
  obtain r where r: "r \<in> set (pv_requests v)" "pcandidate_for N v p r = Some c" using assms(2) unfolding in_pcandidates by blast
  note c = pcandidate_item [OF r(2) assms(1)]
  show "\<exists>r \<in> set (pv_requests v). work_id (attempt fits c) = req_id r \<and> valid_item r (attempt fits c)"
    using shorten_valid [OF c(2), of fits] c r(1) by (intro bexI [of _ r]) (auto simp: attempt_def)
  assume "\<not> fits [attempt fits c]"
  then show "token_count (attempt fits c) = 1"
  proof (cases "work_kind (pc_work c) = Prefill")
    case False
    then have "unat (token_count (pc_work c)) = unat (1 :: u32)"
      using c(3) token_count_item [of "pc_work c"] valid_item_begins [OF c(2)] by simp
    then have "token_count (pc_work c) = 1" by (simp only: word_unat_eq_iff)
    then show ?thesis using False by (simp add: attempt_def)
  qed (use shorten_valid [OF c(2), of fits] in \<open>auto simp: attempt_def\<close>)
qed

section \<open>The projection\<close>

lemma prefixes_prefix:
  assumes "x \<in> set (prefixes i prefill cs)"
  shows "\<exists>n. snd x = map pc_work (take n cs)"
proof -
  have "x \<in> set (prefixes_from i prefill t w cs) \<Longrightarrow> \<exists>n. snd x = w @ map pc_work (take n cs)" for t w
  proof (induction cs arbitrary: t w)
    case (Cons c cs)
    let ?t = "t + (if prefill then token_count (pc_work c) else 1)"
    consider "x = (?t, w @ [pc_work c])" | "x \<in> set (prefixes_from i prefill ?t (w @ [pc_work c]) cs)"
      using Cons.prems by (auto simp: Let_def split: if_splits)
    then show ?case
    proof cases
      case 1
      then show ?thesis by (intro exI [of _ 1]) simp
    next
      case 2
      then obtain n where "snd x = (w @ [pc_work c]) @ map pc_work (take n cs)" using Cons.IH by blast
      then show ?thesis by (intro exI [of _ "Suc n"]) simp
    qed
  qed simp
  from this [of 0 "[]"] assms show ?thesis by (auto simp: prefixes_def intro: exI [of _ 0])
qed

lemma trim_subset: "set (trim target xs) \<subseteq> set xs"
  by (auto simp: trim_def Let_def dest: in_set_takeD)

lemma project_chosen:
  "pj_chosen (foldl (project N i tier tol res fits) no_projection xs) = [] \<or>
    fits (pj_chosen (foldl (project N i tier tol res fits) no_projection xs)) \<and>
    (\<exists>(x, y) \<in> set xs. pj_chosen (foldl (project N i tier tol res fits) no_projection xs) = snd x @ snd y)"
proof (induction xs rule: rev_induct)
  case (snoc z zs)
  obtain pt pw dt dw where z: "z = ((pt, pw), (dt, dw))" by (metis surj_pair)
  let ?j = "foldl (project N i tier tol res fits) no_projection zs"
  have "project N i tier tol res fits ?j z = ?j \<or>
      (fits (pw @ dw) \<and> pj_chosen (project N i tier tol res fits ?j z) = pw @ dw)"
    by (simp add: project_def z Let_def)
  then show ?case
  proof
    assume "project N i tier tol res fits ?j z = ?j"
    then show ?thesis using snoc by auto
  next
    assume "fits (pw @ dw) \<and> pj_chosen (project N i tier tol res fits ?j z) = pw @ dw"
    then show ?thesis by (auto simp: z intro!: bexI [of _ z])
  qed
qed (simp add: no_projection_def)

section \<open>Plans\<close>

text \<open>What building a plan sets besides the plan: nothing the next plan's limits depend on.\<close>
lemma emit_fields [simp]:
  "px_model (emit_decision d p) = px_model p" "px_hardware (emit_decision d p) = px_hardware p"
  "px_config (emit_decision d p) = px_config p" "px_profile (emit_decision d p) = px_profile p"
  by (simp_all add: emit_decision_def split: option.splits prod.splits sum.splits)

lemma batch_fits_fields [simp]:
  "batch_fits N v (p\<lparr>px_started := b\<rparr>) = batch_fits N v p"
  "pcandidates N v (p\<lparr>px_started := b\<rparr>) = pcandidates N v p"
  by (simp_all add: batch_fits_def fun_eq_iff pcandidates_def pcandidate_for_def [abs_def])

text \<open>A plan comes from the fallback or from the projection.\<close>
lemma proxqp_fallback_or_projection:
  "(\<exists>reason d. proxqp_build_plan N v p = urgent_fallback N v (pcandidates N v p) reason d (p\<lparr>px_started := True\<rparr>)) \<or>
   (\<exists>i tier res a b.
      fst (proxqp_build_plan N v p) = pj_chosen (foldl (project N i tier (projection_tolerance (px_config p)) res (batch_fits N v p))
        no_projection (List.product
          (trim a (prefixes i True (stable_sort pcandidate_before (filter (\<lambda>c. work_kind (pc_work c) = Prefill) (pcandidates N v p)))))
          (trim b (prefixes i False (stable_sort pcandidate_before (filter (\<lambda>c. work_kind (pc_work c) \<noteq> Prefill) (pcandidates N v p))))))) \<and>
      fst (proxqp_build_plan N v p) \<noteq> [])"
  (is "?fallback \<or> ?projection")
proof -
  let ?p = "p\<lparr>px_started := True\<rparr>" and ?cs = "pcandidates N v p" and ?fits = "batch_fits N v p"
  let ?pre = "stable_sort pcandidate_before (filter (\<lambda>c. work_kind (pc_work c) = Prefill) ?cs)"
  let ?dec = "stable_sort pcandidate_before (filter (\<lambda>c. work_kind (pc_work c) \<noteq> Prefill) ?cs)"
  note def = proxqp_build_plan_def [of N v p, unfolded Let_def batch_fits_fields]
  show ?thesis
  proof (cases "length ?cs > unat (pq_max_considered_requests (px_config ?p))")
    case True
    then have ?fallback by (intro exI, subst def, simp only: if_True; rule refl)
    then show ?thesis ..
  next
    case few: False
    show ?thesis
    proof (cases "select_tier v ?p")
      case None
      then have ?fallback using few by (intro exI, subst def, simp only: if_False option.case; rule refl)
      then show ?thesis ..
    next
      case tier: (Some tier)
      define i where "i = proxqp_input N v ?p tier ?pre ?dec"
      define res where "res = solve_proxqp N i"
      define js where "js = foldl (project N i tier (projection_tolerance (px_config ?p)) res ?fits) no_projection
           (List.product (trim (qr_prefill res) (prefixes i True ?pre)) (trim (qr_decode res) (prefixes i False ?dec)))"
      note def' = def [unfolded tier option.case, folded i_def, folded res_def, folded js_def]
      consider "\<not> qr_success res \<or> \<not> is_finite (qr_prefill res) \<or> \<not> is_finite (qr_decode res)"
        | (good) "\<not> (\<not> qr_success res \<or> \<not> is_finite (qr_prefill res) \<or> \<not> is_finite (qr_decode res))" "pj_chosen js = []"
        | (some) "\<not> (\<not> qr_success res \<or> \<not> is_finite (qr_prefill res) \<or> \<not> is_finite (qr_decode res))" "pj_chosen js \<noteq> []"
        by blast
      then show ?thesis
      proof cases
        case 1
        then have ?fallback using few by (intro exI, subst def', simp only: if_False if_True simp_thms; rule refl)
        then show ?thesis ..
      next
        case good
        have ?fallback using few good(2) by (intro exI, subst def', simp only: good(1) if_False if_True simp_thms; rule refl)
        then show ?thesis ..
      next
        case some
        have "fst (proxqp_build_plan N v p) = pj_chosen js"
          using few by (subst def') (simp only: some if_False if_True fst_conv)
        then have eq: "fst (proxqp_build_plan N v p) = pj_chosen js" "fst (proxqp_build_plan N v p) \<noteq> []"
          using some(2) by - (assumption, erule ssubst)
        have c: "px_config ?p = px_config p" by simp
        have ?projection using eq unfolding js_def c by (intro exI conjI)
        then show ?thesis ..
      qed
    qed
  qed
qed

text \<open>
  So it is empty, or one item the fallback shortened, or a prefix of the sorted prefill candidates
  followed by a prefix of the sorted decode candidates, and then it fits.
\<close>
lemma proxqp_plan_cases:
  "(fallback_from (batch_fits N v p) (stable_sort pcandidate_before (pcandidates N v p)) = None \<and>
      fst (proxqp_build_plan N v p) = []) \<or>
   (\<exists>w. fallback_from (batch_fits N v p) (stable_sort pcandidate_before (pcandidates N v p)) = Some w \<and>
      fst (proxqp_build_plan N v p) = [w]) \<or>
   (fst (proxqp_build_plan N v p) \<noteq> [] \<and> batch_fits N v p (fst (proxqp_build_plan N v p)) \<and>
     (\<exists>m n. fst (proxqp_build_plan N v p) =
       map pc_work (take m (stable_sort pcandidate_before (filter (\<lambda>c. work_kind (pc_work c) = Prefill) (pcandidates N v p)))) @
       map pc_work (take n (stable_sort pcandidate_before (filter (\<lambda>c. work_kind (pc_work c) \<noteq> Prefill) (pcandidates N v p))))))"
  using proxqp_fallback_or_projection [of N v p]
proof (elim disjE exE conjE)
  fix reason d
  assume "proxqp_build_plan N v p = urgent_fallback N v (pcandidates N v p) reason d (p\<lparr>px_started := True\<rparr>)"
  then show ?thesis by (simp add: urgent_fallback_def split: option.splits)
next
  fix i tier res a b
  let ?xs = "prefixes i True (stable_sort pcandidate_before (filter (\<lambda>c. work_kind (pc_work c) = Prefill) (pcandidates N v p)))"
  let ?ys = "prefixes i False (stable_sort pcandidate_before (filter (\<lambda>c. work_kind (pc_work c) \<noteq> Prefill) (pcandidates N v p)))"
  let ?js = "foldl (project N i tier (projection_tolerance (px_config p)) res (batch_fits N v p)) no_projection
    (List.product (trim a ?xs) (trim b ?ys))"
  assume j: "fst (proxqp_build_plan N v p) = pj_chosen ?js" "fst (proxqp_build_plan N v p) \<noteq> []"
  note ch = project_chosen [of N i tier "projection_tolerance (px_config p)" res "batch_fits N v p"
      "List.product (trim a ?xs) (trim b ?ys)", folded j(1)]
  then obtain x y where t: "x \<in> set (trim a ?xs)" "y \<in> set (trim b ?ys)" "fst (proxqp_build_plan N v p) = snd x @ snd y"
    using j(2) by (auto simp: set_product)
  have "x \<in> set ?xs" "y \<in> set ?ys" using t(1,2) trim_subset by blast+
  then obtain m n where
    "snd x = map pc_work (take m (stable_sort pcandidate_before (filter (\<lambda>c. work_kind (pc_work c) = Prefill) (pcandidates N v p))))"
    "snd y = map pc_work (take n (stable_sort pcandidate_before (filter (\<lambda>c. work_kind (pc_work c) \<noteq> Prefill) (pcandidates N v p))))"
    using prefixes_prefix [of x i True] prefixes_prefix [of y i False] by blast
  then show ?thesis using ch j(2) t(3) by metis
qed

lemma proxqp_plan_valid:
  assumes w: "px_posed v p"
  shows "valid_plan (view_lookup v) (pv_token_budget v) (fst (proxqp_build_plan N v p)) \<and>
    (fst (proxqp_build_plan N v p) = [] \<or> batch_fits N v p (fst (proxqp_build_plan N v p)))"
proof -
  let ?cs = "pcandidates N v p" and ?plan = "fst (proxqp_build_plan N v p)"
  have lookup: "view_lookup v (req_id r) = Some r" if "r \<in> set (pv_requests v)" for r
    using find_unique_key [of req_id "pv_requests v" r] that w by (simp add: view_lookup_def px_posed_def)
  have budget: "sum_list (map item_tokens ws) \<le> unat (pv_token_budget v)"
    if "batch_fits N v p ws" "length ws \<le> 2 ^ 32" "\<forall>w \<in> set ws. \<exists>r. valid_item r w" for ws
    using usage_tokens that valid_item_begins unfolding batch_fits_def by (meson less_imp_le)
  consider (none) "?plan = []"
    | (fallback) x c where "?plan = [x]" "c \<in> set ?cs" "x = attempt (batch_fits N v p) c" "batch_fits N v p [x]"
    | (prefix) m n where "batch_fits N v p ?plan"
      "?plan = map pc_work (take m (stable_sort pcandidate_before (filter (\<lambda>c. work_kind (pc_work c) = Prefill) ?cs)) @
         take n (stable_sort pcandidate_before (filter (\<lambda>c. work_kind (pc_work c) \<noteq> Prefill) ?cs)))"
    using proxqp_plan_cases [of N v p] fallback_from_result [where fits = "batch_fits N v p" and cs = "stable_sort pcandidate_before ?cs"]
    by auto
  then show ?thesis
  proof cases
    case none
    then show ?thesis by (simp add: valid_plan_def)
  next
    case fallback
    obtain r where r: "r \<in> set (pv_requests v)" "work_id x = req_id r" "valid_item r x"
      using attempt_valid(1) [OF w fallback(2)] fallback(3) by blast
    then show ?thesis using fallback budget [of "[x]"] lookup [OF r(1)] by (auto simp: valid_plan_def)
  next
    case prefix
    let ?pre = "stable_sort pcandidate_before (filter (\<lambda>c. work_kind (pc_work c) = Prefill) ?cs)"
    let ?dec = "stable_sort pcandidate_before (filter (\<lambda>c. work_kind (pc_work c) \<noteq> Prefill) ?cs)"
    let ?xs = "take m ?pre @ take n ?dec"
    have take: "mset (take k xs) \<subseteq># mset xs" for k and xs :: "PCandidate list"
      by (metis append_take_drop_id mset_append mset_subset_eq_add_left)
    have "mset ?xs \<subseteq># mset ?pre + mset ?dec" unfolding mset_append by (rule subset_mset.add_mono [OF take take])
    also have "mset ?pre + mset ?dec = mset ?cs" unfolding mset_stable_sort mset_filter by (rule multiset_partition [symmetric])
    finally have sub: "mset ?xs \<subseteq># mset ?cs" .
    have "mset (map (work_id \<circ> pc_work) ?xs) \<subseteq># mset (map (work_id \<circ> pc_work) ?cs)"
      using image_mset_subseteq_mono [OF sub] by simp
    then have "distinct (map (work_id \<circ> pc_work) ?xs)" using pcandidates_ids(1) [OF w] by (rule distinct_submset)
    then have d: "distinct (map work_id ?plan)" unfolding prefix(2) by simp
    have "length ?xs \<le> length ?cs" using size_mset_mono [OF sub] by simp
    then have l: "length ?plan \<le> 2 ^ 32" using pcandidates_ids(2) [OF w, of N] unfolding prefix(2) by simp
    have items: "\<exists>r. view_lookup v (work_id x) = Some r \<and> valid_item r x" if x: "x \<in> set ?plan" for x
    proof -
      obtain c where c: "x = pc_work c" "c \<in> set ?xs" using x unfolding prefix(2) by auto
      then have "c \<in> set ?cs" using sub by (metis mset_subset_eqD set_mset_mset)
      then obtain r where r: "r \<in> set (pv_requests v)" "pcandidate_for N v p r = Some c" unfolding in_pcandidates by blast
      show ?thesis using pcandidate_item(1,2) [OF r(2) w] lookup [OF r(1)] c(1) by auto
    qed
    then show ?thesis using d budget [OF prefix(1) l] prefix(1) by (auto simp: valid_plan_def)
  qed
qed

lemma proxqp_plan_nonempty:
  assumes w: "px_posed v p" and work: "list_ex workable (pv_requests v)"
    and room: "one_token_fits (long_double N) v (px_model p) (px_hardware p)"
  shows "fst (proxqp_build_plan N v p) \<noteq> []"
proof
  assume "fst (proxqp_build_plan N v p) = []"
  then have "fallback_from (batch_fits N v p) (stable_sort pcandidate_before (pcandidates N v p)) = None"
    using proxqp_plan_cases [of N v p] by auto
  then have none: "\<forall>c \<in> set (pcandidates N v p). \<not> batch_fits N v p [attempt (batch_fits N v p) c]"
    using fallback_from_result [where fits = "batch_fits N v p" and cs = "stable_sort pcandidate_before (pcandidates N v p)"] by simp
  have "pcandidates N v p \<noteq> []" using work by (simp add: no_pcandidates)
  then obtain c where c: "c \<in> set (pcandidates N v p)" by (cases "pcandidates N v p") auto
  then have "token_count (attempt (batch_fits N v p) c) = 1" using attempt_valid(2) [OF w c] none by blast
  then have "batch_fits N v p [attempt (batch_fits N v p) c]"
    using room by (simp add: batch_fits_def one_token_fits_def one_token_resources)
  then show False using none c by blast
qed


section \<open>The properties of a plan\<close>

text \<open>
  C23. Whatever the solver and the mathematics library return, and whatever the windows hold, the
  policy plans only valid work within the token budget, each request at most once, and a plan that
  is not empty passes the check of the model's batch and sequence limits and of the memory.
\<close>
theorem proxqp_plans_valid:
  assumes "distinct (map req_id (pv_requests v))" "pv_token_budget v \<noteq> 0" "pq_max_prefill_chunk (px_config p) \<noteq> 0"
  shows "valid_plan (view_lookup v) (pv_token_budget v) (fst (proxqp_build_plan N v p)) \<and>
    (fst (proxqp_build_plan N v p) = [] \<or>
     usage_valid (evaluate_batch_resources (long_double N) (pv_requests v) (fst (proxqp_build_plan N v p))
       (pv_token_budget v) (px_model p) (px_hardware p)))"
  using proxqp_plan_valid [of v p N] assms by (simp add: px_posed_def batch_fits_def)

interpretation proxqp: valid_planner "proxqp_policy N"
  "\<lambda>v p. pq_max_prefill_chunk (px_config p) \<noteq> 0 \<and> one_token_fits (long_double N) v (px_model p) (px_hardware p)" for N
proof unfold_locales
  fix v :: policy_view and p p' :: "'w ProxQPScheduler" and ws r
  assume a: "distinct (map req_id (pv_requests v))" "pv_token_budget v \<noteq> 0"
    "pq_max_prefill_chunk (px_config p) \<noteq> 0 \<and> one_token_fits (long_double N) v (px_model p) (px_hardware p)"
    "build_plan (proxqp_policy N) v p = (Inr ws, p')"
  then have w: "px_posed v p" by (simp add: px_posed_def)
  have ws: "ws = fst (proxqp_build_plan N v p)" using a(4) by (simp add: proxqp_policy_def split: prod.splits)
  show "valid_plan (view_lookup v) (pv_token_budget v) ws" using proxqp_plan_valid [OF w, of N] ws by blast
  assume r: "r \<in> set (pv_requests v)" "is_schedulable r"
    "\<And>q. q \<in> set (pv_requests v) \<Longrightarrow> stage q \<noteq> PendingRelease \<and> (is_schedulable q \<longrightarrow> workable q)"
  then have "list_ex workable (pv_requests v)" by (auto simp: list_ex_iff)
  then show "ws \<noteq> []" using proxqp_plan_nonempty [OF w, of N] a(3) ws by simp
qed

text \<open>
  C24. Under this policy, too, a reachable scheduler whose schedulable requests can all be worked on
  never reports an error or starts to drain at a decision, as long as one more token fits:
  a solver that fails or returns nonsense cannot bring the run down.
\<close>
theorem proxqp_drains_only_without_room:
  assumes "scheduler_reachable (proxqp_policy N) s" and "pq_max_prefill_chunk (px_config (policy s)) \<noteq> 0"
    and "one_token_fits (long_double N) (view_of s) (px_model (policy s)) (px_hardware (policy s))"
    and "list_all (\<lambda>q. is_schedulable q \<longrightarrow> workable q) (live_requests s)" and "decide (proxqp_policy N) s = (r, s')"
  shows "draining s' = draining s \<and> last_error s' = last_error s"
proof (rule proxqp.decides_well [OF reachable_ids [OF assms(1)] reachable_budget [OF assms(1)] _ assms(5)])
  show "pq_max_prefill_chunk (px_config (policy s)) \<noteq> 0 \<and>
      one_token_fits (long_double N) (view_of s) (px_model (policy s)) (px_hardware (policy s))"
    using assms(2,3) ..
qed (use assms(4) in \<open>simp add: list_all_iff\<close>)


section \<open>Percentile and headroom\<close>

text \<open>The index of the percentile is in range, in spite of the rounding of the product.\<close>
lemma rank_of_bound: "0 < n \<Longrightarrow> n \<le> 2 ^ 53 \<Longrightarrow> rank_of n < n"
  using timing_rank_bounds(2) [of n 0 "99 / 100"] by (simp add: rank_of_def timing_rank_def)

lemma midpoint:
  assumes "representable double low" "representable double high" "0 \<le> low" "low \<le> high" "high \<le> 2 ^ 64"
  shows "\<exists>mid. ddiv (dadd (Finite low) (Finite high)) (Finite 2) = Finite mid \<and> low \<le> mid \<and> mid \<le> high \<and>
    representable double mid"
proof -
  have twice: "representable double (2 * x)" if x: "representable double x" "0 \<le> x" "x \<le> 2 ^ 64" for x
  proof -
    obtain k e where k: "x = of_int k * 2 powi e" "\<bar>k\<bar> \<le> 2 ^ precision double"
      "2 - max_exponent double - int (precision double) \<le> e" using x(1) unfolding representable_def by blast
    have e: "2 * x = of_int k * 2 powi (e + 1)" by (simp add: k(1) powi_split)
    have "2 * x \<le> 2 powi 65" using x(3) by simp
    also have "\<dots> < 2 powi (max_exponent double + 1)" by (rule powi_less) (simp add: double_def)
    finally have "\<bar>2 * x\<bar> < 2 powi (max_exponent double + 1)" using x(2) by simp
    then show ?thesis unfolding representable_def
      by (intro conjI exI [of _ k] exI [of _ "e + 1"]) (use e k(2,3) in auto)
  qed
  have r: "representable double (2 * low)" "representable double (2 * high)" using twice assms by auto
  obtain s where s: "to_fp double (low + high) = Finite s" "2 * low \<le> s" "s \<le> 2 * high"
    using to_fp_between [OF well_formed_double r(1) _ r(2), of "low + high"] assms(4) by auto
  obtain m where m: "to_fp double (s / 2) = Finite m" "low \<le> m" "m \<le> high"
    using to_fp_between [OF well_formed_double assms(1) _ assms(2), of "s / 2"] s by auto
  then show ?thesis using to_fp_representable [OF well_formed_double m(1)] s by simp
qed

lemma bisect_result:
  assumes "representable double low" "representable double high" "0 \<le> low" "low \<le> high" "high \<le> 2 ^ 64"
  shows "\<exists>d. bisect meets k (Finite low) (Finite high) = Finite d \<and> low \<le> d \<and> d \<le> high \<and> (d = low \<or> meets (Finite d))"
  using assms
proof (induction k arbitrary: low high)
  case (Suc k)
  obtain mid where mid: "ddiv (dadd (Finite low) (Finite high)) (Finite 2) = Finite mid" "low \<le> mid" "mid \<le> high"
    "representable double mid" using midpoint [OF Suc.prems] by blast
  show ?case
  proof (cases "meets (Finite mid)")
    case True
    obtain d where "bisect meets k (Finite mid) (Finite high) = Finite d" "mid \<le> d" "d \<le> high" "d = mid \<or> meets (Finite d)"
      using Suc.IH [of mid high] mid Suc.prems by auto
    then show ?thesis using True mid by (auto simp: Let_def)
  next
    case False
    obtain d where "bisect meets k (Finite low) (Finite mid) = Finite d" "low \<le> d" "d \<le> mid" "d = low \<or> meets (Finite d)"
      using Suc.IH [of low mid] mid Suc.prems by auto
    then show ?thesis using False mid by (auto simp: Let_def)
  qed
qed auto

definition latency_goal :: "bool \<Rightarrow> ProxQPSchedulerConfig \<Rightarrow> duration" where
  "latency_goal ttft c = (if ttft then pq_ttft_target c else pq_tpot_target c)"

text \<open>
  C25. The delay the policy may add is between zero and the target; it is zero once the 99th
  percentile of the window and the waiting ages exceeds the target, and otherwise that
  percentile, with the delay added to every waiting age, does not exceed the target.
\<close>
theorem headroom_within_target:
  assumes "0 < latency_goal ttft (px_config p)" "latency_goal ttft (px_config p) < 2 ^ 63"
  shows "fp_le (Finite 0) (headroom ttft v p) \<and> fp_le (headroom ttft v p) (in_ns (latency_goal ttft (px_config p))) \<and>
    (if waiting_ages ttft v = [] then headroom ttft v p = in_ns (latency_goal ttft (px_config p))
     else if fp_less (in_ns (latency_goal ttft (px_config p))) (percentile ttft v p (Finite 0)) then headroom ttft v p = Finite 0
     else \<not> fp_less (in_ns (latency_goal ttft (px_config p))) (percentile ttft v p (headroom ttft v p)))"
proof -
  let ?g = "latency_goal ttft (px_config p)"
  have big: "representable double (2 ^ 63)"
  proof -
    have "representable double (2 powi 63)" by (rule representable_powi) (simp_all add: double_def well_formed_def)
    then show ?thesis by simp
  qed
  have le: "rat_of_int ?g \<le> 2 ^ 63"
  proof -
    have "rat_of_int ?g \<le> of_int (2 ^ 63)" using assms(2) by (simp only: of_int_le_iff)
    then show ?thesis by simp
  qed
  obtain t where t: "in_ns ?g = Finite t" "0 \<le> t" "t \<le> 2 ^ 63"
    using to_fp_between [OF well_formed_double representable_zero _ big le] less_imp_le [OF assms(1)]
    unfolding in_ns_def fp_of_int_def of_int_0_le_iff by blast
  have rep: "representable double t" using to_fp_representable [OF well_formed_double] t(1) by (simp add: in_ns_def fp_of_int_def)
  have def: "headroom ttft v p = (if waiting_ages ttft v = [] then Finite t
      else if fp_less (Finite t) (percentile ttft v p (Finite 0)) then Finite 0
      else bisect (\<lambda>d. fp_le (percentile ttft v p d) (Finite t)) 80 (Finite 0) (Finite t))"
    unfolding headroom_def Let_def t(1) [symmetric] latency_goal_def ..
  obtain d where d: "bisect (\<lambda>d. fp_le (percentile ttft v p d) (Finite t)) 80 (Finite 0) (Finite t) = Finite d"
    "0 \<le> d" "d \<le> t" "d = 0 \<or> fp_le (percentile ttft v p (Finite d)) (Finite t)"
    using bisect_result [OF representable_zero rep order_refl t(2)] t(3) by fastforce
  have "\<not> fp_less (Finite t) x" if "fp_le x (Finite t)" for x using that by (cases x) (auto simp: fp_le_def)
  then show ?thesis unfolding def d(1) t(1) using t(2) d(2-4) by auto
qed


section \<open>Tiers\<close>

lemma tiers_valid_above:
  assumes "tiers_valid (Some m) ts" "t \<in> set ts"
  shows "m < context_min t \<and> m < context_max t"
  using assms
proof (induction ts arbitrary: m)
  case (Cons a ts)
  have a: "m < context_min a" "context_min a \<le> context_max a" "tiers_valid (Some (context_max a)) ts"
    using Cons.prems(1) by (auto split: if_splits)
  show ?case
  proof (cases "t = a")
    case True
    then show ?thesis using a(1,2) by (blast intro: less_le_trans)
  next
    case False
    then have "context_max a < context_min t \<and> context_max a < context_max t" using Cons.IH [OF a(3)] Cons.prems(2) by auto
    then show ?thesis using a(1,2) by (meson less_le_trans less_trans)
  qed
qed simp

lemma tiers_apart: "tiers_valid m ts \<Longrightarrow> sorted_wrt (\<lambda>a b. context_max a < context_min b) ts"
proof (induction ts arbitrary: m)
  case (Cons a ts)
  then have "tiers_valid (Some (context_max a)) ts" by (auto split: if_splits)
  then show ?case using Cons.IH tiers_valid_above by auto
qed simp

lemma find_apart:
  assumes "sorted_wrt (\<lambda>a b. context_max a < context_min b) ts"
  shows "find (\<lambda>t. m \<ge> context_min t \<and> m \<le> context_max t) ts = Some t \<longleftrightarrow>
    t \<in> set ts \<and> context_min t \<le> m \<and> m \<le> context_max t"
  using assms
proof (induction ts)
  case (Cons a ts)
  show ?case
  proof (cases "context_min a \<le> m \<and> m \<le> context_max a")
    case True
    have "\<not> context_min b \<le> m" if "b \<in> set ts" for b
      using Cons.prems that True by (meson leD less_le_trans order_trans sorted_wrt.simps(2))
    then show ?thesis using True by auto
  next
    case False
    then show ?thesis using Cons by auto
  qed
qed simp

text \<open>
  C26. The tiers of a constructed policy do not overlap, so the tier a plan uses is exactly the one
  the profile given to the constructor has for the largest context of the requests, in whatever
  order it lists its tiers, and there is none only if none covers that context.
\<close>
theorem select_tier_exact:
  assumes "new_proxqp garbage m hw profile c w = Inr p"
  shows "select_tier v p = Some t \<longleftrightarrow> t \<in> set (tiers profile) \<and>
    context_min t \<le> largest_context (pq_max_prefill_chunk c) 0 (pv_requests v) \<and>
    largest_context (pq_max_prefill_chunk c) 0 (pv_requests v) \<le> context_max t"
proof -
  let ?ts = "stable_sort (\<lambda>a b. context_min a < context_min b) (tiers profile)"
  have p: "tiers_valid None ?ts" "px_profile p = profile\<lparr>tiers := ?ts\<rparr>" "px_config p = c"
    using assms by (auto simp: new_proxqp_def Let_def split: if_splits)
  show ?thesis unfolding select_tier_def Let_def p(2,3) using find_apart [OF tiers_apart [OF p(1)]] by simp
qed

section \<open>Observers\<close>

text \<open>The members that are not about the observers or their records.\<close>
definition alike :: "'w ProxQPScheduler \<Rightarrow> 'w ProxQPScheduler \<Rightarrow> bool" where
  "alike p q \<longleftrightarrow> px_model p = px_model q \<and> px_hardware p = px_hardware q \<and> px_profile p = px_profile q \<and>
     px_config p = px_config q \<and> ttft_window p = ttft_window q \<and> tpot_window p = tpot_window q \<and>
     px_bypasses p = px_bypasses q \<and> previous_prefill p = previous_prefill q \<and> previous_decode p = previous_decode q"

lemma alike_refl [simp]: "alike p p" and alike_sym: "alike p q \<Longrightarrow> alike q p"
  and alike_trans: "alike p q \<Longrightarrow> alike q r \<Longrightarrow> alike p r"
  by (auto simp: alike_def)

lemma alike_emit: "alike (emit_decision d p) p"
  by (auto simp: alike_def emit_decision_def split: option.splits prod.splits sum.splits)

lemma alike_input:
  assumes "alike p q"
  shows "pcandidates N v p = pcandidates N v q" "select_tier v p = select_tier v q" "batch_fits N v p = batch_fits N v q"
    "proxqp_input N v p tier pre dec = proxqp_input N v q tier pre dec" "px_config p = px_config q"
proof -
  have "percentile b v p = percentile b v q" for b
    using assms by (simp add: alike_def percentile_def fixed_values_def fun_eq_iff)
  then have "headroom b v p = headroom b v q" for b
    using assms unfolding headroom_def by (simp only: alike_def)
  then show "proxqp_input N v p tier pre dec = proxqp_input N v q tier pre dec"
    using assms unfolding proxqp_input_def by (simp only: alike_def)
qed (use assms in \<open>simp_all add: alike_def pcandidates_def pcandidate_for_def [abs_def] select_tier_def batch_fits_def fun_eq_iff\<close>)

lemma alike_fallback:
  "alike p q \<Longrightarrow> fst (urgent_fallback N v cs reason d p) = fst (urgent_fallback N v cs reason d' q)"
  "alike (snd (urgent_fallback N v cs reason d p)) p"
  using alike_input(3) [of p q N v] alike_emit by (auto simp: urgent_fallback_def split: option.splits)

lemma alike_started: "alike p q \<Longrightarrow> alike (p\<lparr>px_started := b\<rparr>) (q\<lparr>px_started := b'\<rparr>)"
  by (simp add: alike_def)

lemma build_keeps: "alike (snd (proxqp_build_plan N v p)) p"
proof -
  let ?p = "p\<lparr>px_started := True\<rparr>"
  have s: "alike ?p p" by (simp add: alike_def)
  have e: "alike (emit_decision d (?p\<lparr>pending_tier_max := a, pending_prediction := b\<rparr>)) p" for d a b
    by (rule alike_trans [OF alike_emit]) (simp add: alike_def)
  show ?thesis unfolding proxqp_build_plan_def Let_def
    using alike_trans [OF alike_fallback(2) s] e by (auto split: option.split)
qed

lemma build_same:
  assumes "alike p q"
  shows "fst (proxqp_build_plan N v p) = fst (proxqp_build_plan N v q)"
proof -
  let ?p = "p\<lparr>px_started := True\<rparr>" and ?q = "q\<lparr>px_started := True\<rparr>"
  have a: "alike ?p ?q" using alike_started [OF assms] .
  note eqs = alike_input [OF a]
  note fall = alike_fallback(1) [OF a]
  show ?thesis unfolding proxqp_build_plan_def Let_def eqs
    by (auto split: option.split intro: fall)
qed

datatype proxqp_event = Plans policy_view | Times PolicyTimingEvent | Ends BatchOutcome

fun proxqp_step :: "Numerics \<Rightarrow> proxqp_event \<Rightarrow> 'w ProxQPScheduler \<Rightarrow> 'w ProxQPScheduler" where
  "proxqp_step N (Plans v) p = snd (proxqp_build_plan N v p)"
| "proxqp_step N (Times e) p = proxqp_on_request_timing e p"
| "proxqp_step N (Ends b) p = proxqp_on_plan_completed b p"

fun proxqp_plans :: "Numerics \<Rightarrow> proxqp_event list \<Rightarrow> 'w ProxQPScheduler \<Rightarrow> WorkItem list list" where
  "proxqp_plans N [] p = []"
| "proxqp_plans N (Plans v # es) p = fst (proxqp_build_plan N v p) # proxqp_plans N es (proxqp_step N (Plans v) p)"
| "proxqp_plans N (e # es) p = proxqp_plans N es (proxqp_step N e p)"

lemma alike_step: "alike p q \<Longrightarrow> alike (proxqp_step N e p) (proxqp_step N e q)"
proof (cases e)
  case (Plans v)
  assume "alike p q"
  then show ?thesis unfolding Plans proxqp_step.simps
    by (meson alike_sym alike_trans build_keeps)
next
  case (Times x)
  assume "alike p q"
  then show ?thesis by (simp add: Times proxqp_on_request_timing_def alike_def Let_def)
next
  case (Ends b)
  assume "alike p q"
  then show ?thesis
    by (auto simp: Ends proxqp_on_plan_completed_def alike_def Let_def split: option.split prod.split)
qed

lemma plans_same: "alike p q \<Longrightarrow> proxqp_plans N es p = proxqp_plans N es q"
proof (induction es arbitrary: p q)
  case (Cons e es)
  have "proxqp_plans N es (proxqp_step N e p) = proxqp_plans N es (proxqp_step N e q)"
    by (rule Cons.IH [OF alike_step [OF Cons.prems]])
  then show ?case using build_same [OF Cons.prems, of N] by (cases e) simp_all
qed simp

text \<open>
  C27. Observers only observe: through any sequence of plans, timing events and completions the
  policy builds the same plans whichever observers are set, whatever they do to their own
  world, whether they throw, and whatever the uninitialised flag
  \<open>measurement_observer_failed_\<close> starts as.
\<close>
theorem proxqp_observers_irrelevant:
  "proxqp_plans N es (p\<lparr>decision_observer := f, measurement_observer := g, decision_observer_failed := a,
     measurement_observer_failed := b, observers_world := w\<rparr>) = proxqp_plans N es p"
  by (rule plans_same) (simp add: alike_def)

section \<open>An example\<close>

text \<open>A solver that never finds a solution, and a mathematics library that returns only zero.\<close>
definition demo_numerics :: Numerics where
  "demo_numerics = \<lparr>long_double = double, c_exp = (\<lambda>x. Finite 0), c_log1p = (\<lambda>x. Finite 0), c_pow = (\<lambda>x y. Finite 0),
     qp_solver = (\<lambda>q. \<lparr>solved = False, solution = replicate 4 NaN, obj_value = NaN, pri_res = NaN, dua_res = NaN,
       iterations = 0, elapsed = Finite 0\<rparr>)\<rparr>"

definition demo_tier :: "u32 \<Rightarrow> u32 \<Rightarrow> ProxQPRuntimeTier" where
  "demo_tier low high = \<lparr>context_min = low, context_max = high, tau_base_ns = Finite 0, tau_prefill_ns_per_token = Finite 1,
     tau_decode_ns_per_item = Finite 1, runtime_margin_ns = Finite 0, runtime_scale_ns = Finite 1, token_capacity = 64,
     sequence_capacity = 4\<rparr>"

definition demo_runtime_profile :: ProxQPRuntimeProfile where
  "demo_runtime_profile = \<lparr>schema_version = 1, calibration_id = ''demo'', tiers = [demo_tier 4 64, demo_tier 0 3]\<rparr>"

definition demo_proxqp_config :: ProxQPSchedulerConfig where
  "demo_proxqp_config = default_proxqp_config\<lparr>decode_urgency_knee := Finite 1\<rparr>"

definition demo_proxqp :: "unit ProxQPScheduler" where
  "demo_proxqp = (case new_proxqp False demo_model demo_hardware demo_runtime_profile demo_proxqp_config () of
     Inr p \<Rightarrow> p | Inl _ \<Rightarrow> undefined)"

lemma demo_proxqp_new: "new_proxqp False demo_model demo_hardware demo_runtime_profile demo_proxqp_config () = Inr demo_proxqp"
proof -
  have "proxqp_config_valid demo_runtime_profile demo_proxqp_config"
    by (simp add: proxqp_config_valid_def demo_runtime_profile_def demo_proxqp_config_def default_proxqp_config_def is_finite_def)
  moreover have "tiers_valid None (stable_sort (\<lambda>a b. context_min a < context_min b) (tiers demo_runtime_profile))"
    by (simp add: demo_runtime_profile_def demo_tier_def is_finite_def stable_sort_def)
  ultimately show ?thesis by (simp add: demo_proxqp_def new_proxqp_def Let_def)
qed

lemma new_proxqp_fields:
  "new_proxqp garbage m hw profile c w = Inr p \<Longrightarrow>
    px_config p = c \<and> px_model p = m \<and> px_hardware p = hw \<and> ttft_window p = [] \<and> proxqp_config_valid profile c"
  by (auto simp: new_proxqp_def Let_def split: if_splits)

lemmas demo_proxqp_fields = new_proxqp_fields [OF demo_proxqp_new]

theorem proxqp_plans_valid_witness:
  "valid_plan (view_lookup demo_view) 6 (fst (proxqp_build_plan demo_numerics demo_view demo_proxqp))"
  using proxqp_plans_valid [of demo_view demo_proxqp demo_numerics]
  by (simp add: demo_view_def new_request_def demo_proxqp_fields demo_proxqp_config_def default_proxqp_config_def)

theorem headroom_within_target_witness:
  "fp_le (Finite 0) (headroom True demo_view demo_proxqp)"
  using headroom_within_target [of True demo_proxqp demo_view]
  by (simp add: latency_goal_def demo_proxqp_fields demo_proxqp_config_def default_proxqp_config_def)

theorem select_tier_exact_witness:
  "select_tier demo_view demo_proxqp = Some (demo_tier 4 64)"
proof -
  have "largest_context (pq_max_prefill_chunk demo_proxqp_config) 0 (pv_requests demo_view) = 5"
    by (simp add: demo_view_def new_request_def demo_proxqp_config_def default_proxqp_config_def max_def min_def)
  then show ?thesis unfolding select_tier_exact [OF demo_proxqp_new]
    by (simp add: demo_runtime_profile_def demo_tier_def)
qed

theorem proxqp_drains_only_without_room_witness:
  "\<exists>s :: (unit, unit ProxQPScheduler) Scheduler. scheduler_reachable (proxqp_policy demo_numerics) s \<and>
     map stage (live_requests s) = [PrefillStage] \<and>
     \<not> draining (snd (decide (proxqp_policy demo_numerics) s)) \<and>
     last_error (snd (decide (proxqp_policy demo_numerics) s)) = no_error"
proof -
  let ?pol = "proxqp_policy demo_numerics :: unit ProxQPScheduler Policy"
  have chunk: "pq_max_prefill_chunk (px_config demo_proxqp) \<noteq> 0"
    by (simp add: demo_proxqp_fields demo_proxqp_config_def default_proxqp_config_def)
  have room: "one_token_fits (long_double demo_numerics) v (px_model demo_proxqp) (px_hardware demo_proxqp)"
    if "map decoded_count (pv_requests v) = [0]" "map prefill_position (pv_requests v) = [0]" "pv_token_budget v = 8" for v
  proof -
    note seen = that
    obtain r where "pv_requests v = [r]" "prefill_position r = 0" "decoded_count r = 0"
      using seen(1,2) by (auto simp: map_eq_Cons_conv)
    then show ?thesis using seen(3)
      by (simp add: one_token_fits_def evaluate_batch_resources_def demo_proxqp_fields demo_model_def
        demo_numerics_def demo_hardware_def default_work_def token_count_def kv_bytes_per_token_def fp_of_int_def
        u64_of_u32_def double_numeral Let_def)
  qed
  obtain ws p where plan: "proxqp_build_plan demo_numerics demo_seen demo_proxqp = (ws, p)" by (metis surj_pair)
  then have b: "build_plan ?pol demo_seen demo_proxqp = (Inr ws, p)" by (simp add: proxqp_policy_def)
  have seen: "pq_max_prefill_chunk (px_config demo_proxqp) \<noteq> 0 \<and>
      one_token_fits (long_double demo_numerics) demo_seen (px_model demo_proxqp) (px_hardware demo_proxqp)"
    using chunk room [of demo_seen] by (simp add: demo_seen_def demo_granted_def submitted_request_def new_request_def)
  have kept: "px_config p = px_config demo_proxqp" "px_model p = px_model demo_proxqp" "px_hardware p = px_hardware demo_proxqp"
    using build_keeps [of demo_numerics demo_seen demo_proxqp] by (simp_all add: plan alike_def)
  obtain s where s: "run_once ?pol 0 (demo_asked demo_proxqp) = (Inr True, s)" "live_requests s = [demo_started]"
    "policy s = p" "token_budget s = 8" "\<not> draining s" "last_error s = no_error"
    using proxqp.demo_admits [OF seen b] by blast
  have reach: "scheduler_reachable ?pol s"
    by (rule scheduler_reachable.iteration [OF demo_asked_reachable s(1)])
  have "draining (snd (decide ?pol s)) = draining s \<and> last_error (snd (decide ?pol s)) = last_error s"
  proof (rule proxqp_drains_only_without_room [OF reach])
    show "pq_max_prefill_chunk (px_config (policy s)) \<noteq> 0" using chunk by (simp add: s(3) kept)
    show "one_token_fits (long_double demo_numerics) (view_of s) (px_model (policy s)) (px_hardware (policy s))"
      unfolding s(3) kept
      by (rule room) (simp_all add: view_of_def s(2,4) demo_started_def demo_granted_def submitted_request_def new_request_def)
    show "list_all (\<lambda>q. is_schedulable q \<longrightarrow> workable q) (live_requests s)"
      by (simp add: s(2) demo_started_def demo_granted_def workable_def)
    show "decide ?pol s = (fst (decide ?pol s), snd (decide ?pol s))" by simp
  qed
  then show ?thesis using reach s(2,5,6)
    by (intro exI [of _ s]) (simp add: demo_started_def demo_granted_def)
qed

end
