(* ===== verification/Replay.thy ===== *)
theory Replay
  imports Trace Floating
begin

text \<open>
  The pacing of a replayed trace (\<open>src/benchmark/replay.{hpp,cpp}\<close>): the duration on the command
  line, the selected prefix of the trace, the deadline of each request scaled to the target
  rate, the gate that keeps the turns of a conversation in order, and the engine that compares
  deadlines with a clock. \<open>ld\<close> is the format of \<open>long double\<close>; the clock ticks in nanoseconds.
\<close>

section \<open>Durations\<close>

definition checked_mul :: "u64 \<Rightarrow> u64 \<Rightarrow> exn + u64" where
  "checked_mul value factor =
     (if value > - 1 div factor then Inl (Overflow_error ''duration is too large'') else Inr (value * factor))"

text \<open>\<open>std::stoull\<close> of a string of digits; otherwise it is not called.\<close>
definition stoull :: "string \<Rightarrow> exn + u64" where
  "stoull s =
     (case digits_loop 0 s of
        None \<Rightarrow> Inl (Invalid_argument ''stoull'')
      | Some v \<Rightarrow> if v > 2 ^ 64 - 1 then Inl (Out_of_range ''stoull'') else Inr (of_int v))"

text \<open>The factor, 0 if there is none, and the text before the unit.\<close>
definition split_unit :: "string \<Rightarrow> u64 \<times> string" where
  "split_unit text =
     (let n = length text in
      if n > 2 \<and> drop (n - 2) text = ''ms'' then (1000000, take (n - 2) text)
      else if n > 1 then
        ((if last text = CHR ''s'' then 1000000000 else if last text = CHR ''m'' then 60000000000
          else if last text = CHR ''h'' then 3600000000000 else 0), take (n - 1) text)
      else (0, []))"

definition parse_duration_ns :: "string \<Rightarrow> exn + u64" where
  "parse_duration_ns text =
     (let (factor, number) = split_unit text in
      if factor = 0 \<or> number = [] \<or> \<not> list_all is_digit number
      then Inl (Invalid_argument ''trace duration must be a positive integer followed by ms, s, m, or h'')
      else
        sbind (stoull number) (\<lambda>value.
          if value = 0 then Inl (Invalid_argument ''trace duration must be positive'')
          else checked_mul value factor))"

section \<open>The selected prefix\<close>

record SelectionLimits =
  sl_max_requests :: "u64 option"
  sl_trace_duration_ns :: "u64 option"

record Selection =
  sel_count :: u64
  final_source_offset_ns :: u64

definition within_duration :: "SelectionLimits \<Rightarrow> TraceRecord \<Rightarrow> bool" where
  "within_duration limits r = (case sl_trace_duration_ns limits of None \<Rightarrow> True | Some d \<Rightarrow> arrival_offset_ns r \<le> d)"

lemma cursor_next_left:
  "cursor_next c = Inr (Some (r, c')) \<Longrightarrow>
    tc_header c' = tc_header c \<and> tc_conversation c' = tc_conversation c \<and> tc_index c' = tc_index c + 1 \<and>
    tc_previous c' = arrival_offset_ns r \<and> tc_index c \<noteq> record_count (tc_header c) \<and>
    unat (record_count (tc_header c') - tc_index c') < unat (record_count (tc_header c) - tc_index c)"
proof -
  assume n: "cursor_next c = Inr (Some (r, c'))"
  have f: "tc_header c' = tc_header c \<and> tc_conversation c' = tc_conversation c \<and> tc_index c' = tc_index c + 1 \<and>
      tc_previous c' = arrival_offset_ns r" "tc_index c \<noteq> record_count (tc_header c)"
    using n by (auto simp: cursor_next_def Let_def sbind_def split: if_splits sum.splits prod.splits)
  let ?d = "record_count (tc_header c) - tc_index c"
  have "?d \<noteq> 0" using f(2) by simp
  then have "unat (?d - 1) < unat ?d" by (simp add: unat_minus_one unat_gt_0)
  moreover have "record_count (tc_header c') - tc_index c' = ?d - 1" using f(1) by (simp add: diff_diff_eq)
  ultimately show ?thesis using f by (simp only: simp_thms)
qed

text \<open>The loop; it ends because the cursor stops at the number of records of the header.\<close>
function select_loop :: "SelectionLimits \<Rightarrow> Selection \<Rightarrow> TraceCursor \<Rightarrow> exn + Selection" where
  "select_loop limits result c =
     (if (case sl_max_requests limits of None \<Rightarrow> False | Some m \<Rightarrow> \<not> sel_count result < m) then Inr result
      else
        (case cursor_next c of
           Inl e \<Rightarrow> Inl e
         | Inr None \<Rightarrow> Inr result
         | Inr (Some (r, c')) \<Rightarrow>
             if \<not> within_duration limits r then Inr result
             else
               (let result' = \<lparr>sel_count = sel_count result + 1, final_source_offset_ns = arrival_offset_ns r\<rparr> in
                if sel_count result' > 2 ^ 32 then Inl (Overflow_error ''selected trace exceeds request ID space'')
                else select_loop limits result' c')))"
  by pat_completeness auto
termination
  by (relation "measure (\<lambda>(l, s, c). unat (record_count (tc_header c) - tc_index c))") (use cursor_next_left in auto)

declare select_loop.simps [simp del]

definition select_prefix :: "TraceReader \<Rightarrow> SelectionLimits \<Rightarrow> exn + Selection" where
  "select_prefix rd limits =
     (if sl_max_requests limits = Some 0 then Inl (Invalid_argument ''max requests must be positive'')
      else
        sbind (select_loop limits \<lparr>sel_count = 0, final_source_offset_ns = 0\<rparr> (cursor rd)) (\<lambda>result.
          if sel_count result = 0 then Inl (Invalid_argument ''selected trace is empty'')
          else if sel_count result \<ge> 2 \<and> final_source_offset_ns result = 0
          then Inl (Invalid_argument ''target QPS is undefined for a zero-duration trace'')
          else Inr result))"

section \<open>Deadlines\<close>

definition clock_limit :: "Format \<Rightarrow> fp" where
  "clock_limit ld = fp_of_int ld 9223372036854775807"

definition round_ties_even :: "Format \<Rightarrow> fp \<Rightarrow> exn + u64" where
  "round_ties_even ld value =
     (if \<not> is_finite value \<or> fp_less value (Finite 0) \<or> fp_less (clock_limit ld) value
      then Inl (Overflow_error ''scaled arrival deadline is out of range'')
      else
        (let floor_value = fp_floor value;
             fraction = fp_sub ld value floor_value;
             result = (of_int (fp_truncate floor_value) :: u64) in
         if fp_less (Finite (1 / 2)) fraction \<or> (fp_eq fraction (Finite (1 / 2)) \<and> result AND 1 \<noteq> 0) then
           (if result = - 1 then Inl (Overflow_error ''scaled arrival deadline is out of range'')
            else Inr (result + 1))
         else Inr result))"

definition scale_deadline_ns :: "Format \<Rightarrow> u64 \<Rightarrow> Selection \<Rightarrow> fp \<Rightarrow> exn + u64" where
  "scale_deadline_ns ld source_offset_ns sel target_qps =
     (if \<not> is_finite target_qps \<or> fp_le target_qps (Finite 0)
      then Inl (Invalid_argument ''target QPS must be finite and positive'')
      else if sel_count sel = 1 then Inr 0
      else if sel_count sel < 1 \<or> final_source_offset_ns sel = 0 then Inl (Invalid_argument ''invalid trace selection'')
      else
        (let numerator = fp_mul ld (fp_mul ld (fp_of_int ld (uint source_offset_ns)) (fp_of_int ld (uint (sel_count sel - 1))))
                           (fp_of_int ld 1000000000);
             denominator = fp_mul ld (fp_of_int ld (uint (final_source_offset_ns sel))) (fp_convert ld target_qps) in
         sbind (round_ties_even ld (fp_div ld numerator denominator)) (\<lambda>result.
           if source_offset_ns = final_source_offset_ns sel \<and> result = 0
           then Inl (Invalid_argument ''target QPS rounds the selected duration to zero'')
           else Inr result)))"

definition offered_qps :: "Format \<Rightarrow> Selection \<Rightarrow> fp \<Rightarrow> exn + fp" where
  "offered_qps ld sel target_qps =
     (if sel_count sel < 2 then Inr NaN
      else
        sbind (scale_deadline_ns ld (final_source_offset_ns sel) sel target_qps) (\<lambda>final_ns.
          Inr (fp_div double (fp_mul double (fp_of_int double (uint (sel_count sel - 1))) (fp_of_int double 1000000000))
                 (fp_of_int double (uint final_ns)))))"

text \<open>The period of the clock is 1/1000000000 of a second.\<close>
definition validate_clock_headroom :: "Format \<Rightarrow> Selection \<Rightarrow> fp \<Rightarrow> TimePoint \<Rightarrow> exn + unit" where
  "validate_clock_headroom ld sel target_qps start =
     sbind (scale_deadline_ns ld (final_source_offset_ns sel) sel target_qps) (\<lambda>final_ns.
       let headroom_ns = fp_mul ld (fp_div ld (fp_mul ld (fp_sub ld (fp_of_int ld 9223372036854775807) (fp_of_int ld start))
                           (fp_of_int ld 1)) (fp_of_int ld 1000000000)) (fp_of_int ld 1000000000) in
       if fp_less headroom_ns (Finite 0) \<or> fp_less headroom_ns (fp_of_int ld (uint final_ns))
       then Inl (Overflow_error ''scaled replay deadline exceeds clock headroom'')
       else Inr ())"

section \<open>Conversations\<close>

record CompletedTurn =
  ct_turn_index :: u32
  ct_source_offset_ns :: u64
  ct_completion_ns :: u64

record CausalReplayGate =
  cg_selection :: Selection
  cg_target_qps :: fp
  completed :: "string \<Rightarrow> CompletedTurn option"

definition new_gate :: "Selection \<Rightarrow> fp \<Rightarrow> CausalReplayGate" where
  "new_gate sel qps = \<lparr>cg_selection = sel, cg_target_qps = qps, completed = (\<lambda>_. None)\<rparr>"

definition gate_deadline_ns :: "Format \<Rightarrow> CausalReplayGate \<Rightarrow> TraceRecord \<Rightarrow> exn + u64 option" where
  "gate_deadline_ns ld g r =
     sbind (scale_deadline_ns ld (arrival_offset_ns r) (cg_selection g) (cg_target_qps g)) (\<lambda>nominal.
       if conversation_id r = [] \<or> turn_index r = 0 then Inr (Some nominal)
       else
         (case completed g (conversation_id r) of
            None \<Rightarrow> Inr None
          | Some previous \<Rightarrow>
              if ct_turn_index previous + 1 \<noteq> turn_index r then Inr None
              else
                sbind (scale_deadline_ns ld (ct_source_offset_ns previous) (cg_selection g) (cg_target_qps g))
                  (\<lambda>previous_nominal. Inr (Some (ct_completion_ns previous + (nominal - previous_nominal))))))"

definition gate_complete :: "TraceRecord \<Rightarrow> u64 \<Rightarrow> CausalReplayGate \<Rightarrow> CausalReplayGate" where
  "gate_complete r completion_ns g =
     (if conversation_id r \<noteq> []
      then g\<lparr>completed := (completed g)(conversation_id r \<mapsto>
        \<lparr>ct_turn_index = turn_index r, ct_source_offset_ns = arrival_offset_ns r, ct_completion_ns = completion_ns\<rparr>)\<rparr>
      else g)"

section \<open>The engine\<close>

text \<open>The clock acts on a world of its own and may throw.\<close>
record 'x ReplayEngine =
  re_selection :: Selection
  re_target_qps :: fp
  re_clock :: "'x \<Rightarrow> (exn + TimePoint) \<times> 'x"
  re_start :: TimePoint

definition new_replay_engine :: "Format \<Rightarrow> Selection \<Rightarrow> fp \<Rightarrow> ('x \<Rightarrow> (exn + TimePoint) \<times> 'x) option \<Rightarrow> 'x \<Rightarrow>
    (exn + 'x ReplayEngine) \<times> 'x" where
  "new_replay_engine ld sel qps clock x =
     (case clock of
        None \<Rightarrow> (Inl (Invalid_argument ''replay clock must be callable''), x)
      | Some clk \<Rightarrow>
          (case clk x of
             (Inl e, x) \<Rightarrow> (Inl e, x)
           | (Inr start, x) \<Rightarrow>
               (case validate_clock_headroom ld sel qps start of
                  Inl e \<Rightarrow> (Inl e, x)
                | Inr _ \<Rightarrow>
                    (Inr \<lparr>re_selection = sel, re_target_qps = qps, re_clock = clk, re_start = start\<rparr>, x))))"

definition elapsed_ns :: "'x ReplayEngine \<Rightarrow> 'x \<Rightarrow> (exn + u64) \<times> 'x" where
  "elapsed_ns e x =
     (case re_clock e x of
        (Inl err, x) \<Rightarrow> (Inl err, x)
      | (Inr t, x) \<Rightarrow>
          if t - re_start e < 0 then (Inl (Runtime_error ''replay clock moved backwards''), x)
          else (Inr (of_int (t - re_start e)), x))"

definition engine_deadline_ns :: "Format \<Rightarrow> 'x ReplayEngine \<Rightarrow> TraceRecord \<Rightarrow> exn + u64" where
  "engine_deadline_ns ld e r = scale_deadline_ns ld (arrival_offset_ns r) (re_selection e) (re_target_qps e)"

definition deadline :: "Format \<Rightarrow> 'x ReplayEngine \<Rightarrow> TraceRecord \<Rightarrow> exn + TimePoint" where
  "deadline ld e r = sbind (engine_deadline_ns ld e r) (\<lambda>ns. Inr (re_start e + sint ns))"

text \<open>The clock is read before the deadline is computed; C++ leaves the order open.\<close>
definition due :: "Format \<Rightarrow> 'x ReplayEngine \<Rightarrow> TraceRecord \<Rightarrow> 'x \<Rightarrow> (exn + bool) \<times> 'x" where
  "due ld e r x =
     (case re_clock e x of
        (Inl err, x) \<Rightarrow> (Inl err, x)
      | (Inr t, x) \<Rightarrow> (sbind (deadline ld e r) (\<lambda>d. Inr (t \<ge> d)), x))"

end
