(* ===== verification/Replay_Props.thy ===== *)
theory Replay_Props
  imports Replay Rounding
begin

text \<open>
  The properties of replaying: exactly which texts are durations, which prefix of a trace is
  selected, that scaled deadlines keep the order of arrivals in spite of rounding, and that a turn
  of a conversation is not due before the previous one completed.
\<close>

section \<open>Durations\<close>

lemma digits_loop_nonneg: "digits_loop v s = Some w \<Longrightarrow> 0 \<le> v \<Longrightarrow> 0 \<le> w"
  by (induction s arbitrary: v) (auto simp: digit_value_nonneg split: if_splits)

lemma digits_loop_digits: "(\<exists>w. digits_loop v s = Some w) \<longleftrightarrow> list_all is_digit s"
  by (induction s arbitrary: v) auto

lemma below: "0 < (n::int) \<Longrightarrow> a div n < b \<longleftrightarrow> a < b * n"
proof -
  assume n: "0 < n"
  have "b * n \<le> a \<Longrightarrow> b \<le> a div n" using zdiv_mono1 [of "b * n" a n] n by simp
  moreover have "b \<le> a div n \<Longrightarrow> b * n \<le> a"
    using mult_right_mono [of b "a div n" n] n by (metis div_mult_mod_eq add_increasing2 less_imp_le order_trans pos_mod_sign)
  ultimately show ?thesis by linarith
qed

lemma checked_mul_exact:
  "factor \<noteq> 0 \<Longrightarrow> checked_mul value factor = Inr ns \<longleftrightarrow> uint value * uint factor < 2 ^ 64 \<and> uint ns = uint value * uint factor"
proof -
  assume f: "factor \<noteq> 0"
  have fp: "0 < uint factor" using f unsigned_eq_0_iff [of factor, where ?'a = int] uint_ge_0 [of factor] by linarith
  have "value > - 1 div factor \<longleftrightarrow> (2 ^ 64 - 1) div uint factor < uint value"
    by (simp add: word_less_def uint_div uint_word_arith_bintrs unsigned_minus_1_eq_mask mask_eq_exp_minus_1)
  also have "\<dots> \<longleftrightarrow> 2 ^ 64 - 1 < uint value * uint factor"
    using fp by (rule below)
  finally have "value > - 1 div factor \<longleftrightarrow> \<not> uint value * uint factor < 2 ^ 64" by linarith
  then show ?thesis
    by (auto simp: checked_mul_def uint_mult_lem uint_word_ariths word_uint_eq_iff)
qed


definition units :: "(string \<times> int) set" where
  "units = {(''ms'', 10 ^ 6), (''s'', 10 ^ 9), (''m'', 60 * 10 ^ 9), (''h'', 3600 * 10 ^ 9)}"

lemma split_unit_sound:
  assumes "split_unit text = (f, number)" "f \<noteq> 0"
  shows "\<exists>unit factor. (unit, factor) \<in> units \<and> text = number @ unit \<and> f = of_int factor"
proof -
  let ?n = "length text"
  show ?thesis
  proof (cases "?n > 2 \<and> drop (?n - 2) text = ''ms''")
    case True
    then have ms: "f = 1000000" "number = take (?n - 2) text" using assms(1) by (simp_all add: split_unit_def)
    then have "text = number @ ''ms''" using True by (metis append_take_drop_id)
    then show ?thesis using ms(1) by (intro exI [of _ "''ms''"] exI [of _ "10 ^ 6"]) (simp add: units_def)
  next
    case False
    then have n: "?n > 1" using assms by (cases "?n > 1") (simp_all add: split_unit_def Let_def)
    then have f: "f = (if last text = CHR ''s'' then 1000000000 else if last text = CHR ''m'' then 60000000000
        else if last text = CHR ''h'' then 3600000000000 else 0)" "number = take (?n - 1) text"
      using assms(1) False by (auto simp: split_unit_def Let_def)
    have "\<exists>k. ([last text], k) \<in> units \<and> f = of_int k"
      using f(1) assms(2) by (simp add: units_def split: if_splits)
    moreover have "text = number @ [last text]" unfolding f(2)
      using n by (metis append_butlast_last_id butlast_conv_take length_greater_0_conv less_trans zero_less_one)
    ultimately show ?thesis by blast
  qed
qed

lemma split_unit_complete:
  assumes "(unit, factor) \<in> units" "digits \<noteq> []" "list_all is_digit digits"
  shows "split_unit (digits @ unit) = (of_int factor, digits) \<and> (of_int factor :: u64) \<noteq> 0"
proof -
  obtain ds d where d: "digits = ds @ [d]" using assms(2) by (metis rev_exhaust)
  then have "is_digit d" using assms(3) by simp
  then have "d \<noteq> CHR ''m''" by (auto simp: is_digit_def)
  then show ?thesis using assms(1) by (auto simp: units_def split_unit_def Let_def d)
qed

text \<open>
  The durations the command line accepts are exactly the decimal numbers followed by \<open>ms\<close>, \<open>s\<close>,
  \<open>m\<close> or \<open>h\<close> that are positive and fit 64 bits in nanoseconds, and each means what it says.
\<close>
theorem parse_duration_exact:
  "parse_duration_ns text = Inr ns \<longleftrightarrow>
    (\<exists>digits unit factor v. text = digits @ unit \<and>
      (unit, factor) \<in> units \<and>
      digits \<noteq> [] \<and> digits_loop 0 digits = Some v \<and> 0 < v \<and> v * factor < 2 ^ 64 \<and> uint ns = v * factor)"
  (is "_ \<longleftrightarrow> (\<exists>digits unit factor v. ?spec digits unit factor v)")
proof -
  have val: "sbind (stoull digits) (\<lambda>value. if value = 0 then Inl e else checked_mul value (of_int factor)) = Inr ns \<longleftrightarrow>
      (\<exists>v. digits_loop 0 digits = Some v \<and> 0 < v \<and> v * factor < 2 ^ 64 \<and> uint ns = v * factor)"
    if f: "factor \<in> {10 ^ 6, 10 ^ 9, 60 * 10 ^ 9, 3600 * 10 ^ 9}" for digits e factor
  proof (cases "digits_loop 0 digits")
    case (Some v)
    have v: "0 \<le> v" using digits_loop_nonneg [OF Some] by simp
    have uf: "uint (of_int factor :: u64) = factor" using f by auto
    then have nz: "(of_int factor :: u64) \<noteq> 0" using f by auto
    show ?thesis
    proof (cases "v > 2 ^ 64 - 1")
      case True
      have "v * 1 \<le> v * factor" using f v by (intro mult_left_mono) auto
      then have "\<not> v * factor < 2 ^ 64" using True by linarith
      then show ?thesis using True Some by (simp add: stoull_def)
    next
      case False
      then have "uint (of_int v :: u64) = v" using v by (simp add: unsigned_of_int take_bit_int_eq_self_iff)
      moreover from this have "(of_int v :: u64) = 0 \<longleftrightarrow> v = 0" by (metis of_int_0 unsigned_0)
      ultimately show ?thesis using False Some v checked_mul_exact [OF nz, of "of_int v" ns] uf
        by (auto simp: stoull_def)
    qed
  qed (simp add: stoull_def)
  have fac: "factor \<in> {10 ^ 6, 10 ^ 9, 60 * 10 ^ 9, 3600 * 10 ^ 9}" if "(unit, factor) \<in> units" for unit factor
    using that by (auto simp: units_def)
  show ?thesis
  proof
    assume p: "parse_duration_ns text = Inr ns"
    obtain f number where s: "split_unit text = (f, number)" by (metis surj_pair)
    have c: "f \<noteq> 0" "number \<noteq> []" "list_all is_digit number"
      using p by (auto simp: parse_duration_ns_def s split: if_splits)
    obtain unit factor where u: "(unit, factor) \<in> units" "text = number @ unit" "f = of_int factor"
      using split_unit_sound [OF s c(1)] by blast
    have "\<exists>v. digits_loop 0 number = Some v \<and> 0 < v \<and> v * factor < 2 ^ 64 \<and> uint ns = v * factor"
      by (rule iffD1 [OF val [OF fac [OF u(1)]]]) (use p c in \<open>simp add: parse_duration_ns_def s u(3)\<close>)
    then show "\<exists>digits unit factor v. ?spec digits unit factor v" using u c by blast
  next
    assume "\<exists>digits unit factor v. ?spec digits unit factor v"
    then obtain digits unit factor v where a: "?spec digits unit factor v" by blast
    then have d: "list_all is_digit digits" using digits_loop_digits by blast
    have u: "(unit, factor) \<in> units" using a by blast
    note s = split_unit_complete [OF u _ d]
    show "parse_duration_ns text = Inr ns"
      using a s val [OF fac [OF u], of digits] d by (auto simp: parse_duration_ns_def)
  qed
qed

section \<open>Rounding to a deadline\<close>

lemma clock_limit_below:
  assumes f: "well_formed ld" and v: "representable ld v" and l: "\<not> fp_less (clock_limit ld) (Finite v)"
  shows "v \<le> 2 ^ 63"
proof (cases "63 \<le> max_exponent ld")
  case True
  have "representable ld (2 powi 63)" using f True by (intro representable_powi) (auto simp: well_formed_def)
  then have r: "representable ld (2 ^ 63)" by simp
  have i: "rat_of_int 9223372036854775807 \<le> 2 ^ 63" by simp
  obtain w where w: "clock_limit ld = Finite w" "w \<le> 2 ^ 63"
    using to_fp_between [OF f representable_zero _ r i] by (auto simp: clock_limit_def fp_of_int_def)
  then show ?thesis using l by simp
next
  case False
  then have "(2::rat) powi (max_exponent ld + 1) \<le> 2 powi 63" by (intro powi_mono) simp
  then have "\<bar>v\<bar> < 2 powi 63" using v unfolding representable_def by (blast intro: less_le_trans)
  then show ?thesis by simp
qed

text \<open>The conversion rounds to the nearest integer, ties to even, without further error.\<close>
lemma round_ties_even_exact:
  assumes f: "well_formed ld" and v: "representable ld v" "0 \<le> v" and l: "\<not> fp_less (clock_limit ld) (Finite v)"
  shows "round_ties_even ld (Finite v) = Inr (of_int (round_half_even v))" "0 \<le> round_half_even v" "round_half_even v \<le> 2 ^ 63"
proof -
  have le: "v \<le> 2 ^ 63" by (rule clock_limit_below [OF f v(1) l])
  show r: "0 \<le> round_half_even v" by (rule round_half_even_nonneg [OF v(2)])
  show "round_half_even v \<le> 2 ^ 63" by (rule round_half_even_le) (use le in simp)
  let ?f = "\<lfloor>v\<rfloor>"
  have fl: "0 \<le> ?f" "?f \<le> 2 ^ 63" using v(2) le by (simp_all add: floor_le_iff)
  have u: "uint (of_int ?f :: u64) = ?f" using fl by (simp add: unsigned_of_int take_bit_int_eq_self_iff)
  have tr: "fp_truncate (Finite (of_int ?f)) = ?f" using fl by simp
  have "fp_sub ld (Finite v) (Finite (of_int ?f)) = to_fp ld (v - of_int ?f)" by (simp add: fp_sub_def)
  then have fr: "fp_sub ld (Finite v) (Finite (of_int ?f)) = Finite (v - of_int ?f)"
    using to_fp_id [OF f representable_fraction [OF v]] by simp
  have "uint ((of_int ?f :: u64) AND 1) = ?f AND 1" by (simp only: unsigned_and_eq u unsigned_1)
  also have "\<dots> = ?f mod 2" by (rule and_one_eq)
  finally have "uint ((of_int ?f :: u64) AND 1) \<noteq> 0 \<longleftrightarrow> odd ?f" by (simp only: mod_2_eq_odd of_bool_eq_0_iff not_not)
  then have odd: "(of_int ?f :: u64) AND 1 \<noteq> 0 \<longleftrightarrow> odd ?f" by (simp only: unsigned_eq_0_iff)
  have nm: "(of_int ?f :: u64) \<noteq> - 1"
  proof
    assume "(of_int ?f :: u64) = - 1"
    then have "?f = uint (- 1 :: u64)" using u by metis
    then show False using fl by (simp add: unsigned_minus_1_eq_mask mask_eq_exp_minus_1)
  qed
  have eq: "fp_eq (Finite a) (Finite b) \<longleftrightarrow> a = b" for a b by simp
  show "round_ties_even ld (Finite v) = Inr (of_int (round_half_even v))"
    using v(2) l nm unfolding round_ties_even_def Let_def fp_floor.simps fr tr odd eq fp_less.simps
    by (auto simp: is_finite_def round_half_even_def Let_def not_less)
qed

lemma round_ties_even_Inr:
  "round_ties_even ld x = Inr d \<Longrightarrow> (\<exists>v. x = Finite v \<and> 0 \<le> v \<and> \<not> fp_less (clock_limit ld) (Finite v))"
  by (cases x) (auto simp: round_ties_even_def is_finite_def split: if_splits)

section \<open>Scaled deadlines\<close>

text \<open>The quotient that is rounded.\<close>
definition quotient :: "Format \<Rightarrow> u64 \<Rightarrow> Selection \<Rightarrow> fp \<Rightarrow> fp" where
  "quotient ld a sel qps =
     fp_div ld (fp_mul ld (fp_mul ld (fp_of_int ld (uint a)) (fp_of_int ld (uint (sel_count sel - 1)))) (fp_of_int ld 1000000000))
       (fp_mul ld (fp_of_int ld (uint (final_source_offset_ns sel))) (fp_convert ld qps))"

lemma fp_of_int_nonneg: "well_formed f \<Longrightarrow> 0 \<le> n \<Longrightarrow> fp_of_int f n = Finite w \<Longrightarrow> 0 \<le> w"
  using round_rat_ge [of f 0 "of_int n"] by (auto simp: fp_of_int_def to_fp_finite)

lemma quotient_mono:
  assumes f: "well_formed ld" and a: "a \<le> b" and q: "quotient ld b sel qps = Finite y" and t: "qps = Finite t" "0 < t"
  shows "\<exists>x. quotient ld a sel qps = Finite x \<and> 0 \<le> x \<and> x \<le> y \<and> representable ld x"
proof -
  let ?c = "fp_of_int ld (uint (sel_count sel - 1))" and ?g = "fp_of_int ld 1000000000"
  let ?num = "\<lambda>a. fp_mul ld (fp_mul ld (fp_of_int ld (uint (a :: u64))) ?c) ?g"
  let ?den = "fp_mul ld (fp_of_int ld (uint (final_source_offset_ns sel))) (fp_convert ld qps)"
  have qa: "quotient ld z sel qps = fp_div ld (?num z) ?den" for z by (simp add: quotient_def)
  obtain nb where nb: "?num b = Finite nb" using q unfolding qa by (cases "?num b"; cases ?den) (auto split: if_splits)
  obtain mb g where mb: "fp_mul ld (fp_of_int ld (uint b)) ?c = Finite mb" "?g = Finite g" using fp_mul_finite [OF nb] by blast
  obtain ub c where ub: "fp_of_int ld (uint b) = Finite ub" "?c = Finite c" using fp_mul_finite [OF mb(1)] by blast
  have c0: "0 \<le> c" using fp_of_int_nonneg [OF f _ ub(2)] by simp
  have g0: "0 \<le> g" using fp_of_int_nonneg [OF f _ mb(2)] by simp
  have "rat_of_int (uint a) \<le> of_int (uint b)" using a by (simp only: of_int_le_iff word_le_def)
  then obtain ua where ua: "fp_of_int ld (uint a) = Finite ua" "0 \<le> ua" "ua \<le> ub"
    using to_fp_mono [OF f of_int_nonneg [OF uint_ge_0] _ ub(1) [unfolded fp_of_int_def]] unfolding fp_of_int_def by blast
  obtain ma where ma: "fp_mul ld (Finite ua) (Finite c) = Finite ma" "0 \<le> ma" "ma \<le> mb"
    using fp_mul_mono [OF f ua(2,3) c0] mb(1) unfolding ub by blast
  obtain na where na: "fp_mul ld (Finite ma) (Finite g) = Finite na" "0 \<le> na" "na \<le> nb"
    using fp_mul_mono [OF f ma(2,3) g0] nb unfolding mb by blast
  have numa: "?num a = Finite na" unfolding ua(1) ub(2) ma(1) mb(2) by (rule na(1))
  show ?thesis
  proof (cases ?den)
    case (Finite d)
    then obtain e h where e: "fp_of_int ld (uint (final_source_offset_ns sel)) = Finite e" "fp_convert ld qps = Finite h" "d = round_rat ld (e * h)"
      using fp_mul_finite [OF Finite] by (auto simp: to_fp_finite)
    have "0 \<le> e" using fp_of_int_nonneg [OF f _ e(1)] by simp
    moreover have "0 \<le> h" using e(2) t round_rat_ge [OF f representable_zero, of t] by (auto simp: to_fp_finite)
    ultimately have "0 \<le> d" unfolding e(3) by (intro round_rat_ge [OF f]) simp_all
    moreover have "d \<noteq> 0" using q unfolding qa nb Finite by (auto split: if_splits)
    ultimately have d: "0 < d" by simp
    then have yb: "to_fp ld (nb / d) = Finite y" using q unfolding qa nb Finite by simp
    have "na / d \<le> nb / d" "0 \<le> na / d" using na(2,3) d by (simp_all add: divide_right_mono)
    then obtain x where x: "to_fp ld (na / d) = Finite x" "0 \<le> x" "x \<le> y" using to_fp_mono [OF f _ _ yb] by blast
    then show ?thesis using d to_fp_representable [OF f x(1)] unfolding qa numa Finite by simp
  next
    case (Infinite s)
    then show ?thesis using q unfolding qa nb numa by simp
  next
    case NaN
    then show ?thesis using q unfolding qa nb by simp
  qed
qed

text \<open>When a deadline is defined, and its value.\<close>
lemma scale_deadline_Inr:
  assumes f: "well_formed ld"
  shows "scale_deadline_ns ld a sel qps = Inr d \<longleftrightarrow>
    (\<exists>t. qps = Finite t \<and> 0 < t) \<and>
    (sel_count sel = 1 \<and> d = 0 \<or>
     sel_count sel > 1 \<and> final_source_offset_ns sel \<noteq> 0 \<and> \<not> (a = final_source_offset_ns sel \<and> d = 0) \<and>
     round_ties_even ld (quotient ld a sel qps) = Inr d)"
proof -
  have q: "\<not> (\<not> is_finite qps \<or> fp_le qps (Finite 0)) \<longleftrightarrow> (\<exists>t. qps = Finite t \<and> 0 < t)"
    by (cases qps) (auto simp: is_finite_def not_le)
  have c: "sel_count sel \<noteq> 1 \<Longrightarrow> \<not> sel_count sel < 1 \<longleftrightarrow> sel_count sel > 1" by (metis linorder_neqE not_less_iff_gr_or_eq)
  show ?thesis
    unfolding scale_deadline_ns_def quotient_def [symmetric] Let_def using q c
    by (auto simp: sbind_Inr split: if_splits)
qed

text \<open>
  C32. Scaling keeps the order of arrivals: if a request of the selection has a deadline, every
  request that arrived no later has one too, and it is no later, although the quotient is
  rounded twice.
\<close>
theorem scale_deadline_ordered:
  assumes "well_formed ld" "a \<le> b" "b \<le> final_source_offset_ns sel" "scale_deadline_ns ld b sel qps = Inr y"
  shows "\<exists>x. scale_deadline_ns ld a sel qps = Inr x \<and> x \<le> y \<and> uint y \<le> 2 ^ 63"
proof -
  note f = assms(1)
  obtain t where t: "qps = Finite t" "0 < t" using assms(4) scale_deadline_Inr [OF f] by blast
  show ?thesis
  proof (cases "sel_count sel = 1")
    case True
    then show ?thesis using assms(4) t unfolding scale_deadline_Inr [OF f] by simp
  next
    case False
    then have b: "sel_count sel > 1" "final_source_offset_ns sel \<noteq> 0" "round_ties_even ld (quotient ld b sel qps) = Inr y"
      "\<not> (b = final_source_offset_ns sel \<and> y = 0)"
      using assms(4) unfolding scale_deadline_Inr [OF f] by blast+
    obtain v where v: "quotient ld b sel qps = Finite v" "0 \<le> v" "\<not> fp_less (clock_limit ld) (Finite v)"
      using round_ties_even_Inr [OF b(3)] by blast
    obtain u where u: "quotient ld a sel qps = Finite u" "0 \<le> u" "u \<le> v" "representable ld u"
      using quotient_mono [OF f assms(2) v(1) t] by blast
    have rv: "representable ld v" using quotient_mono [OF f order_refl v(1) t] v(1) by auto
    have lu: "\<not> fp_less (clock_limit ld) (Finite u)"
      using v(3) u(3) by (cases "clock_limit ld") auto
    note y = round_ties_even_exact [OF f rv v(2,3)] and x = round_ties_even_exact [OF f u(4,2) lu]
    have yv: "y = of_int (round_half_even v)" using b(3) y(1) unfolding v(1) by simp
    have ux: "uint (of_int (round_half_even u) :: u64) = round_half_even u"
      and uy: "uint y = round_half_even v" unfolding yv
      using x(2,3) y(2,3) by (simp_all add: unsigned_of_int take_bit_int_eq_self_iff)
    have le: "of_int (round_half_even u) \<le> y" unfolding word_le_def ux uy by (rule round_half_even_mono [OF u(3)])
    have "a = final_source_offset_ns sel \<Longrightarrow> a = b" using assms(2,3) by simp
    then have "scale_deadline_ns ld a sel qps = Inr (of_int (round_half_even u))"
      unfolding scale_deadline_Inr [OF f] using t b x(1) u(1) v(1) y(1) yv by auto
    then show ?thesis using le uy y(3) by auto
  qed
qed

section \<open>Conversations\<close>

definition gate_after :: "(TraceRecord \<times> u64) list \<Rightarrow> Selection \<Rightarrow> fp \<Rightarrow> CausalReplayGate" where
  "gate_after history sel qps = fold (\<lambda>(q, t). gate_complete q t) history (new_gate sel qps)"

lemma gate_after_fields: "cg_selection (gate_after history sel qps) = sel \<and> cg_target_qps (gate_after history sel qps) = qps"
  by (induction history rule: rev_induct) (auto simp: gate_after_def new_gate_def gate_complete_def)

text \<open>The gate knows the last turn of the conversation that completed.\<close>
lemma gate_after_completed:
  assumes "completed (gate_after history sel qps) c = Some ct" "c \<noteq> []"
  shows "\<exists>pre q t post. history = pre @ (q, t) # post \<and> conversation_id q = c \<and>
    (\<forall>(q', t') \<in> set post. conversation_id q' \<noteq> c) \<and>
    ct = \<lparr>ct_turn_index = turn_index q, ct_source_offset_ns = arrival_offset_ns q, ct_completion_ns = t\<rparr>"
  using assms(1)
proof (induction history rule: rev_induct)
  case (snoc x xs)
  obtain q t where x: "x = (q, t)" by (metis surj_pair)
  have step: "gate_after (xs @ [x]) sel qps = gate_complete q t (gate_after xs sel qps)" by (simp add: gate_after_def x)
  show ?case
  proof (cases "conversation_id q = c")
    case True
    then have "ct = \<lparr>ct_turn_index = turn_index q, ct_source_offset_ns = arrival_offset_ns q, ct_completion_ns = t\<rparr>"
      using snoc.prems assms(2) by (simp add: step gate_complete_def)
    then show ?thesis using True x by (intro exI [of _ xs] exI [of _ q] exI [of _ t] exI [of _ "[]"]) simp
  next
    case False
    then have "completed (gate_after xs sel qps) c = Some ct"
      using snoc.prems by (auto simp: step gate_complete_def split: if_splits)
    then obtain pre p u post where IH: "xs = pre @ (p, u) # post" "conversation_id p = c"
      "\<forall>(q', t') \<in> set post. conversation_id q' \<noteq> c"
      "ct = \<lparr>ct_turn_index = turn_index p, ct_source_offset_ns = arrival_offset_ns p, ct_completion_ns = u\<rparr>"
      using snoc.IH by blast
    then show ?thesis using False x
      by (intro exI [of _ pre] exI [of _ p] exI [of _ u] exI [of _ "post @ [x]"]) simp
  qed
qed (simp add: gate_after_def new_gate_def)

text \<open>
  C31. A turn of a conversation is let through only after its predecessor: if the gate gives a later
  turn a deadline, the last turn of that conversation to complete is the one before it, the
  deadline is not before that completion, and the pause between them is the scaled pause of the
  trace. The completions of other conversations may come in any order and at any time; the turn
  just before it must have arrived no later, as the rows of a trace do, and have completed before
  \<open>2^63\<close> nanoseconds.
\<close>
theorem causal_gate_waits:
  assumes "well_formed ld" and "gate_deadline_ns ld (gate_after history sel qps) r = Inr (Some d)"
    and "conversation_id r \<noteq> []" "turn_index r \<noteq> 0" "arrival_offset_ns r \<le> final_source_offset_ns sel"
    and "list_all (\<lambda>(q, t). conversation_id q = conversation_id r \<and> turn_index q + 1 = turn_index r \<longrightarrow>
      arrival_offset_ns q \<le> arrival_offset_ns r \<and> uint t < 2 ^ 63) history"
  shows "\<exists>pre q t post x y. history = pre @ (q, t) # post \<and> conversation_id q = conversation_id r \<and>
    list_all (\<lambda>(q', t'). conversation_id q' \<noteq> conversation_id r) post \<and> turn_index q + 1 = turn_index r \<and>
    scale_deadline_ns ld (arrival_offset_ns r) sel qps = Inr x \<and> scale_deadline_ns ld (arrival_offset_ns q) sel qps = Inr y \<and>
    y \<le> x \<and> uint d = uint t + (uint x - uint y)"
proof -
  obtain x ct y where x: "scale_deadline_ns ld (arrival_offset_ns r) sel qps = Inr x"
    and c: "completed (gate_after history sel qps) (conversation_id r) = Some ct" "ct_turn_index ct + 1 = turn_index r"
    and y: "scale_deadline_ns ld (ct_source_offset_ns ct) sel qps = Inr y" "d = ct_completion_ns ct + (x - y)"
    using assms(2-4) gate_after_fields [of history sel qps]
    by (auto simp: gate_deadline_ns_def sbind_Inr split: option.splits if_splits)
  obtain pre q t post where l: "history = pre @ (q, t) # post" "conversation_id q = conversation_id r"
      "\<forall>(q', t') \<in> set post. conversation_id q' \<noteq> conversation_id r"
      "ct = \<lparr>ct_turn_index = turn_index q, ct_source_offset_ns = arrival_offset_ns q, ct_completion_ns = t\<rparr>"
    using gate_after_completed [OF c(1) assms(3)] by blast
  have q: "arrival_offset_ns q \<le> arrival_offset_ns r" "uint t < 2 ^ 63" using assms(6) l(1,2,4) c(2) by simp_all
  obtain z where z: "scale_deadline_ns ld (arrival_offset_ns q) sel qps = Inr z" "z \<le> x" "uint x \<le> 2 ^ 63"
    using scale_deadline_ordered [OF assms(1) q(1) assms(5) x] by blast
  then have yx: "y \<le> x" using y(1) l(4) by simp
  then have s: "uint (x - y) = uint x - uint y" by (rule iffD1 [OF uint_sub_lem iffD1 [OF word_le_def]])
  moreover have "0 \<le> uint y" by simp
  ultimately have "uint t + uint (x - y) < 2 ^ 63 + 2 ^ 63" using q(2) z(3) by linarith
  then have "uint t + uint (x - y) < 2 ^ 64" by simp
  then have "uint t + uint (x - y) < 2 ^ LENGTH(64)" by simp
  then have "uint (t + (x - y)) = uint t + uint (x - y)" by (rule iffD1 [OF uint_add_lem])
  then have "uint d = uint t + (uint x - uint y)" using y(2) l(4) s by simp
  then show ?thesis using l(1-3) c(2) l(4) x y(1) yx
    by (intro exI [of _ pre] exI [of _ q] exI [of _ t] exI [of _ post] exI [of _ x] exI [of _ y])
      (auto simp: list_all_iff)
qed

section \<open>The selected prefix\<close>

text \<open>All records of a cursor, and the error that ended the reading, if any.\<close>
function cursor_all :: "TraceCursor \<Rightarrow> TraceRecord list \<times> exn option" where
  "cursor_all c =
     (case cursor_next c of
        Inl e \<Rightarrow> ([], Some e)
      | Inr None \<Rightarrow> ([], None)
      | Inr (Some (r, c')) \<Rightarrow> (let (rs, e) = cursor_all c' in (r # rs, e)))"
  by pat_completeness auto
termination
  by (relation "measure (\<lambda>c. unat (record_count (tc_header c) - tc_index c))") (use cursor_next_left in auto)

declare cursor_all.simps [simp del]

text \<open>The records within the limits: a prefix of at most the given number, up to the given offset.\<close>
definition chosen_prefix :: "nat option \<Rightarrow> SelectionLimits \<Rightarrow> TraceRecord list \<Rightarrow> TraceRecord list" where
  "chosen_prefix m limits rs = takeWhile (within_duration limits) (case m of None \<Rightarrow> rs | Some m \<Rightarrow> take m rs)"

definition still_allowed :: "SelectionLimits \<Rightarrow> u64 \<Rightarrow> nat option" where
  "still_allowed limits n = map_option (\<lambda>m. unat m - unat n) (sl_max_requests limits)"

lemma chosen_prefix_0 [simp]: "chosen_prefix (Some 0) limits rs = []"
  by (simp add: chosen_prefix_def)

lemma chosen_prefix_Cons:
  "m \<noteq> Some 0 \<Longrightarrow> chosen_prefix m limits (r # rs) =
    (if within_duration limits r then r # chosen_prefix (map_option (\<lambda>n. n - 1) m) limits rs else [])"
  by (cases m) (auto simp: chosen_prefix_def take_Cons' split: option.splits)

text \<open>What the loop returns, from any point: the length and the last offset of the chosen prefix.\<close>
lemma select_loop_result:
  assumes "cursor_all c = (rs, e)" "unat (sel_count s) \<le> 2 ^ 32"
  shows "select_loop limits s c = Inr t \<longleftrightarrow>
    (let ys = chosen_prefix (still_allowed limits (sel_count s)) limits rs in
     unat (sel_count s) + length ys \<le> 2 ^ 32 \<and>
     (e = None \<or> length ys < length rs \<or> still_allowed limits (sel_count s) = Some (length ys)) \<and>
     t = \<lparr>sel_count = of_nat (unat (sel_count s) + length ys),
          final_source_offset_ns = (if ys = [] then final_source_offset_ns s else arrival_offset_ns (last ys))\<rparr>)"
  using assms
proof (induction limits s c arbitrary: rs rule: select_loop.induct)
  case (1 limits s c)
  let ?m = "still_allowed limits (sel_count s)"
  have full: "(case sl_max_requests limits of None \<Rightarrow> False | Some m \<Rightarrow> \<not> sel_count s < m) \<longleftrightarrow> ?m = Some 0"
    by (auto simp: still_allowed_def word_less_nat_alt split: option.splits)
  show ?case
  proof (cases "?m = Some 0")
    case True
    then show ?thesis using full "1.prems"(2) by (subst select_loop.simps) auto
  next
    case m: False
    show ?thesis
    proof (cases "cursor_next c")
      case (Inl x)
      then have "rs = []" "e = Some x" using "1.prems"(1) by (simp_all add: cursor_all.simps [of c])
      then show ?thesis using m full Inl by (subst select_loop.simps) (simp add: chosen_prefix_def split: option.splits)
    next
      case (Inr z)
      show ?thesis
      proof (cases z)
        case None
        then have "rs = []" "e = None" using "1.prems"(1) Inr by (simp_all add: cursor_all.simps [of c])
        then show ?thesis using m full Inr None "1.prems"(2)
          by (subst select_loop.simps) (auto simp: chosen_prefix_def split: option.splits)
      next
        case (Some rc)
        obtain r c' where rc: "rc = (r, c')" by (metis surj_pair)
        obtain rs' where rs': "cursor_all c' = (rs', e)" "rs = r # rs'"
          using "1.prems"(1) Inr Some rc by (auto simp: cursor_all.simps [of c] split: prod.splits)
        let ?s = "\<lparr>sel_count = sel_count s + 1, final_source_offset_ns = arrival_offset_ns r\<rparr>"
        have up: "unat (sel_count s + 1) = unat (sel_count s) + 1"
          using "1.prems"(2) by (simp add: unat_add_lem [THEN iffD1])
        have big: "sel_count ?s > 2 ^ 32 \<longleftrightarrow> unat (sel_count s) + 1 > 2 ^ 32" by (simp add: word_less_nat_alt up)
        have next_m: "still_allowed limits (sel_count ?s) = map_option (\<lambda>n. n - 1) ?m"
          by (cases "sl_max_requests limits") (simp_all add: still_allowed_def up)
        have step: "select_loop limits s c =
            (if \<not> within_duration limits r then Inr s
             else if sel_count ?s > 2 ^ 32 then Inl (Overflow_error ''selected trace exceeds request ID space'')
             else select_loop limits ?s c')"
          using m full Inr Some rc by (subst select_loop.simps) (simp add: Let_def)
        let ?ys = "chosen_prefix (still_allowed limits (sel_count ?s)) limits rs'"
        show ?thesis
        proof (cases "within_duration limits r \<and> \<not> sel_count ?s > 2 ^ 32")
          case False
          then show ?thesis using "1.prems"(2) chosen_prefix_Cons [OF m, of limits r rs'] big rs'(2)
            by (cases "within_duration limits r") (auto simp: step)
        next
          case True
          have IH: "select_loop limits ?s c' = Inr t \<longleftrightarrow>
              (let ys = ?ys in unat (sel_count ?s) + length ys \<le> 2 ^ 32 \<and>
                (e = None \<or> length ys < length rs' \<or> still_allowed limits (sel_count ?s) = Some (length ys)) \<and>
                t = \<lparr>sel_count = of_nat (unat (sel_count ?s) + length ys),
                  final_source_offset_ns = (if ys = [] then final_source_offset_ns ?s else arrival_offset_ns (last ys))\<rparr>)"
          proof (rule "1.IH" [OF _ Inr Some [unfolded rc] refl _ refl _ rs'(1)])
            show "\<not> (case sl_max_requests limits of None \<Rightarrow> False | Some m \<Rightarrow> \<not> sel_count s < m)" using m full by blast
            show "\<not> \<not> within_duration limits r" "\<not> 2 ^ 32 < sel_count ?s" using True by blast+
            then show "unat (sel_count ?s) \<le> 2 ^ 32" unfolding big by (simp only: Selection.simps up not_less)
          qed
          have more: "?m = Some (Suc k) \<longleftrightarrow> still_allowed limits (sel_count ?s) = Some k" for k
            using m unfolding next_m by (cases ?m) auto
          have ch: "chosen_prefix ?m limits rs = r # ?ys"
            using chosen_prefix_Cons [OF m, of limits r rs'] True by (simp only: rs'(2) next_m if_True)
          have cnt: "unat (sel_count s) + length (r # ?ys) = unat (sel_count ?s) + length ?ys" using up by simp
          have cond: "(e = None \<or> length (r # ?ys) < length rs \<or> ?m = Some (length (r # ?ys))) \<longleftrightarrow>
              (e = None \<or> length ?ys < length rs' \<or> still_allowed limits (sel_count ?s) = Some (length ?ys))"
            using more by (simp only: rs'(2) list.size(4) One_nat_def add_Suc_right add_0_right Suc_less_eq)
          have fin: "(if r # ?ys = [] then final_source_offset_ns s else arrival_offset_ns (last (r # ?ys))) =
              (if ?ys = [] then final_source_offset_ns ?s else arrival_offset_ns (last ?ys))" by simp
          have "select_loop limits s c = select_loop limits ?s c'" using True unfolding step by (simp only: not_True_eq_False if_False)
          then show ?thesis unfolding Let_def ch cnt cond fin using IH [unfolded Let_def] by (simp only:)
        qed
      qed
    qed
  qed
qed

text \<open>
  C33. The selection is the longest prefix of the trace within both limits: it is returned exactly
  when that prefix is not empty, has at most one request per request id, spans some time if it
  has two, and was read without an error; it has the prefix's length and last offset.
\<close>
theorem select_prefix_exact:
  "select_prefix rd limits = Inr sel \<longleftrightarrow>
    (let (rs, e) = cursor_all (cursor rd); m = map_option unat (sl_max_requests limits); ys = chosen_prefix m limits rs in
     ys \<noteq> [] \<and> length ys \<le> 2 ^ 32 \<and> (e = None \<or> length ys < length rs \<or> m = Some (length ys)) \<and>
     \<not> (2 \<le> length ys \<and> arrival_offset_ns (last ys) = 0) \<and>
     sel = \<lparr>sel_count = of_nat (length ys), final_source_offset_ns = arrival_offset_ns (last ys)\<rparr>)"
proof -
  obtain rs e where r: "cursor_all (cursor rd) = (rs, e)" by (metis surj_pair)
  let ?s = "\<lparr>sel_count = 0, final_source_offset_ns = 0\<rparr>" and ?m = "map_option unat (sl_max_requests limits)"
  let ?ys = "chosen_prefix ?m limits rs"
  have m: "still_allowed limits 0 = ?m" by (simp add: still_allowed_def)
  have loop: "select_loop limits ?s (cursor rd) = Inr t \<longleftrightarrow>
      length ?ys \<le> 2 ^ 32 \<and> (e = None \<or> length ?ys < length rs \<or> ?m = Some (length ?ys)) \<and>
      t = \<lparr>sel_count = of_nat (length ?ys), final_source_offset_ns = (if ?ys = [] then 0 else arrival_offset_ns (last ?ys))\<rparr>" for t
    using select_loop_result [OF r, of ?s limits t] by (simp add: m Let_def)
  have count: "unat (of_nat (length ?ys) :: u64) = length ?ys" if "length ?ys \<le> 2 ^ 32"
    using that by (simp add: unat_of_nat take_bit_nat_eq_self)
  have zero: "(of_nat (length ?ys) :: u64) = 0 \<longleftrightarrow> ?ys = []" and two: "(of_nat (length ?ys) :: u64) \<ge> 2 \<longleftrightarrow> 2 \<le> length ?ys"
    if "length ?ys \<le> 2 ^ 32"
  proof -
    show "(of_nat (length ?ys) :: u64) = 0 \<longleftrightarrow> ?ys = []" 
      using count [OF that] by (cases "?ys = []") (simp, metis length_0_conv unsigned_0)
    show "(of_nat (length ?ys) :: u64) \<ge> 2 \<longleftrightarrow> 2 \<le> length ?ys" unfolding word_le_nat_alt count [OF that] by simp
  qed
  have none: "sl_max_requests limits = Some 0 \<Longrightarrow> ?ys = []" by simp
  let ?T = "\<lparr>sel_count = of_nat (length ?ys), final_source_offset_ns = (if ?ys = [] then 0 else arrival_offset_ns (last ?ys))\<rparr>"
  show ?thesis
  proof (cases "length ?ys \<le> 2 ^ 32 \<and> (e = None \<or> length ?ys < length rs \<or> ?m = Some (length ?ys))")
    case False
    then have "\<exists>x. select_loop limits ?s (cursor rd) = Inl x" using loop by (metis sum.exhaust)
    then have "select_prefix rd limits \<noteq> Inr sel" by (auto simp: select_prefix_def)
    then show ?thesis unfolding r Let_def split using False by blast
  next
    case True
    define T where "T = ?T"
    have sl: "select_loop limits ?s (cursor rd) = Inr T" using loop True unfolding T_def by blast
    have T: "sel_count T = 0 \<longleftrightarrow> ?ys = []" "sel_count T \<ge> 2 \<longleftrightarrow> 2 \<le> length ?ys"
      "?ys \<noteq> [] \<Longrightarrow> final_source_offset_ns T = arrival_offset_ns (last ?ys)"
      using zero two True unfolding T_def by simp_all
    have "select_prefix rd limits = Inr sel \<longleftrightarrow>
        sl_max_requests limits \<noteq> Some 0 \<and> ?ys \<noteq> [] \<and> \<not> (2 \<le> length ?ys \<and> arrival_offset_ns (last ?ys) = 0) \<and> sel = T"
    proof (cases "sl_max_requests limits = Some 0 \<or> ?ys = []")
      case True
      then show ?thesis using T(1) by (auto simp: select_prefix_def sl)
    next
      case False
      then show ?thesis unfolding select_prefix_def sl sbind_simps T(1,2) T(3) [OF conjunct2 [OF False [unfolded de_Morgan_disj]]]
        by auto
    qed
    moreover have "?ys \<noteq> [] \<Longrightarrow> T = \<lparr>sel_count = of_nat (length ?ys), final_source_offset_ns = arrival_offset_ns (last ?ys)\<rparr>"
      by (simp add: T_def)
    ultimately show ?thesis unfolding r Let_def split using True none by metis
  qed
qed

section \<open>Examples\<close>

definition demo_selection :: Selection where
  "demo_selection = \<lparr>sel_count = 2, final_source_offset_ns = 10\<rparr>"

lemma below_clock_limit: "(numeral n :: int) \<le> 2 ^ 53 \<Longrightarrow> \<not> fp_less (to_fp double 9223372036854775807) (Finite (numeral n))"
proof -
  assume n: "(numeral n :: int) \<le> 2 ^ 53"
  have "representable double (of_int (numeral n))" using n
    by (intro representable_int) (simp_all add: double_def well_formed_def)
  moreover have "of_int (numeral n) \<le> rat_of_int 9223372036854775807"
    unfolding of_int_le_iff using n by (rule order_trans) simp
  ultimately show ?thesis using to_fp_ge [OF well_formed_double] by (metis of_int_numeral)
qed

lemma demo_deadlines:
  "scale_deadline_ns double 10 demo_selection (Finite 1) = Inr 1000000000"
  "scale_deadline_ns double 5 demo_selection (Finite 1) = Inr 500000000"
  by (simp_all add: scale_deadline_ns_def demo_selection_def fp_of_int_def double_numeral is_finite_def
      round_ties_even_def clock_limit_def below_clock_limit fp_sub_def Let_def)

theorem scale_deadline_ordered_witness:
  "\<exists>x. scale_deadline_ns double 5 demo_selection (Finite 1) = Inr x \<and> x \<le> 1000000000"
  using scale_deadline_ordered [OF well_formed_double _ _ demo_deadlines(1), of 5] by (auto simp: demo_selection_def)

definition demo_turn :: "u32 \<Rightarrow> u64 \<Rightarrow> TraceRecord" where
  "demo_turn n t = \<lparr>arrival_offset_ns = t, context_tokens = 0, generated_tokens = 1, turn_index = n,
     conversation_id = ''chat'', record_prompt = ''hello''\<rparr>"

text \<open>While the turn waits, a request of another conversation that arrived after it completes.\<close>
theorem causal_gate_waits_witness:
  "\<exists>q t post. (q, t) # post = [(demo_turn 0 5, 7), ((demo_turn 0 12)\<lparr>conversation_id := ''d''\<rparr>, 9)] \<and>
     turn_index q + 1 = turn_index (demo_turn 1 10)"
proof -
  have "gate_deadline_ns double (gate_after [(demo_turn 0 5, 7), ((demo_turn 0 12)\<lparr>conversation_id := ''d''\<rparr>, 9)]
      demo_selection (Finite 1)) (demo_turn 1 10) = Inr (Some 500000007)"
    by (simp add: gate_deadline_ns_def gate_after_def new_gate_def gate_complete_def demo_turn_def demo_deadlines)
  from causal_gate_waits [OF well_formed_double this] show ?thesis
    by (auto simp: demo_turn_def demo_selection_def Cons_eq_append_conv)
qed

end
