(* ===== verification/Log_Sketch.thy ===== *)
theory Log_Sketch
  imports Rounding
begin

text \<open>
  \<open>LogSketch\<close> of \<open>src/benchmark/results.cpp\<close>: counts of values in bins of logarithmic width, their
  sum, least and greatest, and percentiles estimated from the bins. The logarithm and the
  exponential of the C mathematics library are the record \<open>Sketch_Math\<close>, a parameter.
\<close>

record Sketch_Math =
  sm_long_double :: Format
  c_logl :: "fp \<Rightarrow> fp"
  c_expl :: "fp \<Rightarrow> fp"
  c_expm1l :: "fp \<Rightarrow> fp"

definition sketch_maximum :: u64 where
  "sketch_maximum = 1000000000000000000"

definition log_gamma :: "Sketch_Math \<Rightarrow> fp" where
  "log_gamma M =
     (let ld = sm_long_double M in fp_div ld (c_logl M (fp_of_int ld (uint sketch_maximum))) (fp_of_int ld 4093))"

text \<open>The logarithm of a number from 1 on is not negative, so the cast is defined.\<close>
definition bin_for :: "Sketch_Math \<Rightarrow> u64 \<Rightarrow> nat" where
  "bin_for M value =
     (if value = 0 then 0
      else if value > sketch_maximum then 4095
      else
        (let ld = sm_long_double M;
             index = fp_add ld (fp_div ld (c_logl M (fp_of_int ld (uint value))) (log_gamma M)) (Finite 1) in
         if fp_le (fp_of_int ld 4095) index then 4094 else nat (fp_truncate index)))"

text \<open>\<open>std::llround\<close>: to the nearest integer, halves away from zero.\<close>
fun llround :: "fp \<Rightarrow> int" where
  "llround (Finite x) = (if x < 0 then - \<lfloor>- x + 1 / 2\<rfloor> else \<lfloor>x + 1 / 2\<rfloor>)"
| "llround a = 0"

record LogSketch =
  bins :: "u64 list"
  sk_count :: u64
  sk_minimum :: u64
  sk_maximum :: u64
  sk_underflow :: u64
  sk_overflow :: u64
  sk_sum :: fp

definition new_sketch :: LogSketch where
  "new_sketch = \<lparr>bins = replicate 4096 0, sk_count = 0, sk_minimum = 0, sk_maximum = 0, sk_underflow = 0,
     sk_overflow = 0, sk_sum = Finite 0\<rparr>"

definition sketch_add :: "Sketch_Math \<Rightarrow> u64 \<Rightarrow> LogSketch \<Rightarrow> LogSketch" where
  "sketch_add M value s =
     (let ld = sm_long_double M; bin = bin_for M value;
          s = s\<lparr>bins := (bins s)[bin := bins s ! bin + 1], sk_count := sk_count s + 1,
                sk_sum := fp_add ld (sk_sum s) (fp_of_int ld (uint value))\<rparr>;
          s = (if sk_count s = 1 then s\<lparr>sk_minimum := value, sk_maximum := value\<rparr>
               else s\<lparr>sk_minimum := min (sk_minimum s) value, sk_maximum := max (sk_maximum s) value\<rparr>);
          s = (if value = 0 then s\<lparr>sk_underflow := sk_underflow s + 1\<rparr> else s) in
      if value > sketch_maximum then s\<lparr>sk_overflow := sk_overflow s + 1\<rparr> else s)"

definition sketch_mean :: "Sketch_Math \<Rightarrow> LogSketch \<Rightarrow> fp option" where
  "sketch_mean M s =
     (if sk_count s = 0 then None
      else Some (fp_convert double (fp_div (sm_long_double M) (sk_sum s) (fp_of_int (sm_long_double M) (uint (sk_count s))))))"

text \<open>What the loop of \<open>quantile\<close> returns at the bin it stops at.\<close>
definition bin_value :: "Sketch_Math \<Rightarrow> nat \<Rightarrow> u64 \<Rightarrow> u64 \<Rightarrow> u64" where
  "bin_value M i least greatest =
     (if i = 0 then 0
      else if i = 4096 - 1 then greatest
      else
        (let ld = sm_long_double M;
             estimate = (of_int (llround (c_expl M (fp_mul ld (fp_of_int ld (int (i - 1))) (log_gamma M)))) :: u64) in
         if estimate < least then least else if greatest < estimate then greatest else estimate))"

fun quantile_loop :: "Sketch_Math \<Rightarrow> u64 list \<Rightarrow> nat \<Rightarrow> u64 \<Rightarrow> u64 \<Rightarrow> u64 \<Rightarrow> u64 \<Rightarrow> u64" where
  "quantile_loop M [] i seen rank least greatest = greatest"
| "quantile_loop M (b # bs) i seen rank least greatest =
     (let seen = seen + b in
      if seen \<ge> max 1 rank then bin_value M i least greatest
      else quantile_loop M bs (i + 1) seen rank least greatest)"

definition sketch_quantile :: "Sketch_Math \<Rightarrow> LogSketch \<Rightarrow> fp \<Rightarrow> u64" where
  "sketch_quantile M s q =
     (if sk_count s = 1 then sk_maximum s
      else
        (let rank = (of_int (fp_truncate (fp_ceiling (fp_mul double q (fp_of_int double (uint (sk_count s)))))) :: u64) in
         quantile_loop M (bins s) 0 0 rank (sk_minimum s) (sk_maximum s)))"

definition sketch_percentile :: "Sketch_Math \<Rightarrow> LogSketch \<Rightarrow> fp \<Rightarrow> u64 option" where
  "sketch_percentile M s q = (if sk_count s = 0 then None else Some (sketch_quantile M s q))"

definition log_sketch_relative_error :: "Sketch_Math \<Rightarrow> fp" where
  "log_sketch_relative_error M = c_expm1l M (log_gamma M)"

section \<open>The statistics kept\<close>

text \<open>
  What is assumed of the format and of the logarithm: the integers that occur are in range, and the
  logarithm of a number from 1 on is a number from 0 on, that of the largest bin at least 1.
\<close>
definition sketch_math_laws :: "Sketch_Math \<Rightarrow> bool" where
  "sketch_math_laws M \<longleftrightarrow> well_formed (sm_long_double M) \<and> 64 \<le> max_exponent (sm_long_double M) \<and>
     (\<forall>x \<ge> 1. \<exists>y \<ge> 0. c_logl M (Finite x) = Finite y) \<and>
     (\<exists>y \<ge> 1. c_logl M (fp_of_int (sm_long_double M) (uint sketch_maximum)) = Finite y)"

lemma fp_of_int_range:
  assumes "well_formed f" "64 \<le> max_exponent f" "1 \<le> k" "k < 2 ^ 64"
  shows "\<exists>w. fp_of_int f k = Finite w \<and> 1 \<le> w"
proof -
  have "representable f (2 powi 0)" "representable f (2 powi 64)"
    using assms(1,2) by (intro representable_powi; simp add: well_formed_def)+
  then have r: "representable f 1" "representable f (2 ^ 64)" by simp_all
  have "rat_of_int k \<le> of_int (2 ^ 64)" unfolding of_int_le_iff using assms(4) by simp
  then have k: "1 \<le> rat_of_int k" "rat_of_int k \<le> 2 ^ 64" using assms(3) by simp_all
  show ?thesis using to_fp_between [OF assms(1) r(1) k(1) r(2) k(2)] by (auto simp: fp_of_int_def)
qed

lemma to_fp_at_least:
  assumes "well_formed f" "representable f w" "w \<le> x"
  shows "to_fp f x = Infinite False \<or> (\<exists>y \<ge> w. to_fp f x = Finite y)"
  using to_fp_ge [OF assms] by (cases "to_fp f x") (auto simp: not_less)

text \<open>The index is at least one, and a bin of the array.\<close>
lemma bin_for_range:
  assumes "sketch_math_laws M" "v \<noteq> 0"
  shows "0 < bin_for M v \<and> bin_for M v < 4096"
proof -
  let ?ld = "sm_long_double M"
  have f: "well_formed ?ld" "64 \<le> max_exponent ?ld" using assms(1) by (simp_all add: sketch_math_laws_def)
  have rep: "representable ?ld (2 powi e)" if "- 12 \<le> e" "e \<le> 12" for e
    using f that by (intro representable_powi) (auto simp: well_formed_def)
  have rep12: "representable ?ld (1 / 4096)" "representable ?ld 4096" "representable ?ld 1"
    using rep [of "- 12"] rep [of 12] rep [of 0] by (simp_all add: power_int_minus field_simps)
  have "0 < uint v" using assms(2) by (simp add: word_neq_0_conv word_less_def)
  then obtain w where w: "fp_of_int ?ld (uint v) = Finite w" "1 \<le> w"
    using fp_of_int_range [OF f, of "uint v"] uint_lt2p [of v] by auto
  obtain y where y: "c_logl M (Finite w) = Finite y" "0 \<le> y"
    using assms(1) w(2) unfolding sketch_math_laws_def by blast
  obtain g where g: "c_logl M (fp_of_int ?ld (uint sketch_maximum)) = Finite g" "1 \<le> g"
    using assms(1) unfolding sketch_math_laws_def by blast
  obtain c where c: "fp_of_int ?ld 4093 = Finite c" "1 \<le> c" "c \<le> 4096"
    using to_fp_between [OF f(1) rep12(3) _ rep12(2), of 4093] by (auto simp: fp_of_int_def)
  have "1 / 4096 \<le> g / c" using c g by (simp add: field_simps)
  then have gamma: "log_gamma M = Infinite False \<or> (\<exists>d > 0. log_gamma M = Finite d)"
    using to_fp_at_least [OF f(1) rep12(1), of "g / c"] c(2)
    by (fastforce simp: log_gamma_def g(1) c(1) Let_def)
  have "fp_div ?ld (Finite y) (log_gamma M) = Infinite False \<or> (\<exists>z \<ge> 0. fp_div ?ld (Finite y) (log_gamma M) = Finite z)"
    using gamma
  proof
    assume "\<exists>d > 0. log_gamma M = Finite d"
    then obtain d where d: "log_gamma M = Finite d" "0 < d" by blast
    then show ?thesis using to_fp_at_least [OF f(1) representable_zero, of "y / d"] y(2) by simp
  qed simp
  then have index: "fp_add ?ld (fp_div ?ld (Finite y) (log_gamma M)) (Finite 1) = Infinite False \<or>
      (\<exists>t \<ge> 1. fp_add ?ld (fp_div ?ld (Finite y) (log_gamma M)) (Finite 1) = Finite t)" (is "?i = _ \<or> _")
  proof
    assume "\<exists>z \<ge> 0. fp_div ?ld (Finite y) (log_gamma M) = Finite z"
    then obtain z where z: "fp_div ?ld (Finite y) (log_gamma M) = Finite z" "0 \<le> z" by blast
    then show ?thesis using to_fp_at_least [OF f(1) rep12(3), of "z + 1"] by simp
  qed simp
  obtain k where k: "fp_of_int ?ld 4095 = Finite k" "k \<le> 4096"
    using to_fp_between [OF f(1) rep12(3) _ rep12(2), of 4095] by (auto simp: fp_of_int_def)
  show ?thesis
  proof (cases "v > sketch_maximum")
    case False
    then have b: "bin_for M v = (if fp_le (Finite k) ?i then 4094 else nat (fp_truncate ?i))"
      using assms(2) by (simp add: bin_for_def Let_def w(1) y(1) k(1))
    show ?thesis
    proof (cases "fp_le (Finite k) ?i")
      case le: False
      then obtain t where t: "?i = Finite t" "1 \<le> t" using index by (auto simp: fp_le_def)
      then have "t < 4096" using le k(2) by simp
      then have "1 \<le> \<lfloor>t\<rfloor>" "\<lfloor>t\<rfloor> < 4096" using t(2) by (simp_all add: floor_less_iff)
      then show ?thesis using t le unfolding b by (auto simp: nat_less_iff)
    qed (simp add: b)
  qed (use assms(2) in \<open>simp add: bin_for_def\<close>)
qed

lemma bin_for_less: "sketch_math_laws M \<Longrightarrow> bin_for M v < 4096"
  using bin_for_range [of M v] by (cases "v = 0") (simp_all add: bin_for_def)

text \<open>A sketch of the values \<open>vs\<close>, fewer than \<open>2 ^ 64\<close>.\<close>
definition sketch_of :: "Sketch_Math \<Rightarrow> u64 list \<Rightarrow> LogSketch" where
  "sketch_of M vs = fold (sketch_add M) vs new_sketch"

lemma sketch_add_fields:
  "sk_count (sketch_add M v s) = sk_count s + 1"
  "bins (sketch_add M v s) = (bins s)[bin_for M v := bins s ! bin_for M v + 1]"
  "sk_minimum (sketch_add M v s) = (if sk_count s = 0 then v else min (sk_minimum s) v)"
  "sk_maximum (sketch_add M v s) = (if sk_count s = 0 then v else max (sk_maximum s) v)"
  by (simp_all add: sketch_add_def Let_def)

lemma sketch_of_snoc: "sketch_of M (vs @ [v]) = sketch_add M v (sketch_of M vs)"
  by (simp add: sketch_of_def)

lemma sketch_of_count: "sk_count (sketch_of M vs) = of_nat (length vs)"
  by (induction vs rule: rev_induct)
    (simp_all add: sketch_of_snoc sketch_add_fields add.commute, simp add: sketch_of_def new_sketch_def)

lemma sketch_of_length: "length (bins (sketch_of M vs)) = 4096"
  by (induction vs rule: rev_induct) (simp_all add: sketch_of_snoc sketch_add_fields, simp add: sketch_of_def new_sketch_def)

lemma sketch_of_extremes:
  assumes "vs \<noteq> []" "length vs < 2 ^ 64"
  shows "sk_minimum (sketch_of M vs) = Min (set vs) \<and> sk_maximum (sketch_of M vs) = Max (set vs)"
  using assms
proof (induction vs rule: rev_induct)
  case (snoc v vs)
  show ?case
  proof (cases "vs = []")
    case True
    then show ?thesis using sketch_of_snoc [of M "[]" v] sketch_of_count [of M "[]"] by (simp add: sketch_add_fields)
  next
    case False
    have "unat (sk_count (sketch_of M vs)) = length vs"
      using snoc.prems by (simp add: sketch_of_count unat_of_nat take_bit_nat_eq_self)
    then have "sk_count (sketch_of M vs) \<noteq> 0" using False by auto
    then show ?thesis using False snoc.IH snoc.prems
      by (simp add: sketch_of_snoc sketch_add_fields min.commute max.commute)
  qed
qed simp

text \<open>Each bin holds the number of values that belong to it.\<close>
lemma sketch_of_bins:
  assumes "sketch_math_laws M" "k < 4096"
  shows "bins (sketch_of M vs) ! k = of_nat (length (filter (\<lambda>v. bin_for M v = k) vs))"
proof (induction vs rule: rev_induct)
  case Nil
  then show ?case using assms(2) by (simp add: sketch_of_def new_sketch_def)
next
  case (snoc v vs)
  then show ?case using assms(2) bin_for_less [OF assms(1), of v] sketch_of_length [of M vs]
    by (simp add: sketch_of_snoc sketch_add_fields nth_list_update)
qed

lemma quantile_loop_bin:
  "quantile_loop M bs i seen rank lo hi = hi \<or>
    (\<exists>j < length bs. quantile_loop M bs i seen rank lo hi = bin_value M (i + j) lo hi \<and>
      seen + sum_list (take (Suc j) bs) \<ge> max 1 rank)"
proof (induction bs arbitrary: i seen)
  case (Cons b bs)
  show ?case
  proof (cases "seen + b \<ge> max 1 rank")
    case True
    then show ?thesis by (intro disjI2 exI [of _ 0]) (simp add: Let_def)
  next
    case False
    then have "quantile_loop M (b # bs) i seen rank lo hi = quantile_loop M bs (i + 1) (seen + b) rank lo hi"
      by (simp only: quantile_loop.simps Let_def if_False)
    then show ?thesis using Cons.IH [of "i + 1" "seen + b"]
      by (metis (no_types, lifting) Suc_less_eq add.assoc add_Suc_right add_Suc_shift length_Cons plus_1_eq_Suc add.commute
          sum_list.Cons take_Suc_Cons)
  qed
qed simp

text \<open>
  C36. Every percentile a sketch reports lies between the least and the greatest value it was given,
  and these are exact.
\<close>
theorem sketch_percentile_within:
  assumes "sketch_math_laws M" "vs \<noteq> []" "length vs < 2 ^ 64"
  shows "\<exists>x. sketch_percentile M (sketch_of M vs) q = Some x \<and> Min (set vs) \<le> x \<and> x \<le> Max (set vs) \<and>
    sk_minimum (sketch_of M vs) = Min (set vs) \<and> sk_maximum (sketch_of M vs) = Max (set vs)"
proof -
  let ?s = "sketch_of M vs"
  note ext = sketch_of_extremes [OF assms(2,3), of M]
  have cnt: "unat (sk_count ?s) = length vs" using assms(3) by (simp add: sketch_of_count unat_of_nat take_bit_nat_eq_self)
  then have nz: "sk_count ?s \<noteq> 0" using assms(2) by auto
  have mm: "Min (set vs) \<le> Max (set vs)" using assms(2) by simp
  have inner: "Min (set vs) \<le> bin_value M j (Min (set vs)) (Max (set vs)) \<and> bin_value M j (Min (set vs)) (Max (set vs)) \<le> Max (set vs)"
    if "j \<noteq> 0" for j using that mm by (auto simp: bin_value_def Let_def)
  have loop: "Min (set vs) \<le> quantile_loop M (bins ?s) 0 0 r (Min (set vs)) (Max (set vs)) \<and>
      quantile_loop M (bins ?s) 0 0 r (Min (set vs)) (Max (set vs)) \<le> Max (set vs)" for r
    using quantile_loop_bin [of M "bins ?s" 0 0 r "Min (set vs)" "Max (set vs)"]
  proof (elim disjE exE conjE)
    fix j
    assume j: "j < length (bins ?s)" "quantile_loop M (bins ?s) 0 0 r (Min (set vs)) (Max (set vs)) = bin_value M (0 + j) (Min (set vs)) (Max (set vs))"
      "max 1 r \<le> 0 + sum_list (take (Suc j) (bins ?s))"
    show ?thesis
    proof (cases "j = 0")
      case True
      have b0: "bins ?s \<noteq> []" using j(1) by auto
      then have "take (Suc 0) (bins ?s) = [bins ?s ! 0]" by (cases "bins ?s") simp_all
      then have "bins ?s ! 0 \<noteq> 0" using j(3) True by auto
      then have "filter (\<lambda>v. bin_for M v = 0) vs \<noteq> []" using sketch_of_bins [OF assms(1), of 0 vs] by auto
      then obtain v where v: "v \<in> set vs" "bin_for M v = 0" by (auto simp: filter_empty_conv)
      then have "v = 0" using bin_for_range [OF assms(1), of v] by auto
      then have "Min (set vs) = 0" using v(1) Min_le [of "set vs" v] by simp
      then show ?thesis using j(2) True by (simp add: bin_value_def)
    next
      case False
      then show ?thesis using inner [of j] j(2) by simp
    qed
  qed (use mm in simp)
  then show ?thesis using nz ext mm by (simp add: sketch_percentile_def sketch_quantile_def Let_def)
qed

definition demo_sketch_math :: Sketch_Math where
  "demo_sketch_math = \<lparr>sm_long_double = double, c_logl = (\<lambda>x. Finite 1), c_expl = (\<lambda>x. Finite 1), c_expm1l = (\<lambda>x. Finite 0)\<rparr>"

theorem sketch_percentile_within_witness:
  "\<exists>x. sketch_percentile demo_sketch_math (sketch_of demo_sketch_math [3, 9, 5]) (Finite 1) = Some x \<and> 3 \<le> x \<and> x \<le> 9"
proof -
  have "sketch_math_laws demo_sketch_math" by (simp add: sketch_math_laws_def demo_sketch_math_def double_def well_formed_def)
  from sketch_percentile_within [OF this, of "[3, 9, 5]" "Finite 1"] show ?thesis by auto
qed

end
