(* ===== verification/Printing.thy ===== *)
theory Printing
  imports Floating
begin

text \<open>
  What the output streams and \<open>std::to_string\<close> write for numbers (decimal notation in the C locale):
  integers, \<open>%g\<close> with a given precision, \<open>%f\<close> with six decimals; and the escapes of a field of a
  CSV file and of a JSON string.
\<close>

section \<open>Integers\<close>

definition digit_char :: "nat \<Rightarrow> char" where
  "digit_char n = char_of (48 + n mod 10)"

fun show_nat :: "nat \<Rightarrow> string" where
  "show_nat n = (if n < 10 then [digit_char n] else show_nat (n div 10) @ [digit_char n])"

declare show_nat.simps [simp del]

definition show_int :: "int \<Rightarrow> string" where
  "show_int n = (if n < 0 then ''-'' @ show_nat (nat (- n)) else show_nat (nat n))"

definition show_word :: "'a::len word \<Rightarrow> string" where
  "show_word w = show_nat (unat w)"

section \<open>Floating point\<close>

text \<open>The exponent of the leading decimal digit of a positive number.\<close>
definition decimal_exponent :: "rat \<Rightarrow> int" where
  "decimal_exponent x =
     (if x \<ge> 1 then int (length (show_nat (nat \<lfloor>x\<rfloor>))) - 1 else - int (length (show_nat (nat (\<lceil>1 / x\<rceil> - 1)))))"

definition strip_zeros :: "string \<Rightarrow> string" where
  "strip_zeros s = rev (dropWhile (\<lambda>c. c = CHR ''0'') (rev s))"

definition with_point :: "string \<Rightarrow> string" where
  "with_point s = (if s = [] then [] else CHR ''.'' # s)"

definition show_exponent :: "int \<Rightarrow> string" where
  "show_exponent e = (if e < 0 then ''e-'' else ''e+'') @ (if \<bar>e\<bar> < 10 then ''0'' else []) @ show_nat (nat \<bar>e\<bar>)"

text \<open>The digits of a number whose leading digit has the exponent \<open>e\<close>.\<close>
definition layout :: "nat \<Rightarrow> int \<Rightarrow> string \<Rightarrow> string" where
  "layout p e ds =
     (if e < -4 \<or> e \<ge> int p then take 1 ds @ with_point (strip_zeros (drop 1 ds)) @ show_exponent e
      else if e < 0 then ''0'' @ with_point (replicate (nat (- e - 1)) (CHR ''0'') @ strip_zeros ds)
      else take (nat e + 1) ds @ with_point (strip_zeros (drop (nat e + 1) ds)))"

definition show_positive :: "nat \<Rightarrow> rat \<Rightarrow> string" where
  "show_positive p x =
     (let e0 = decimal_exponent x;
          m0 = round_half_even (x / 10 powi (e0 - (int p - 1)));
          e = (if m0 = 10 ^ p then e0 + 1 else e0);
          m = nat (if m0 = 10 ^ p then 10 ^ (p - 1) else m0) in
      layout p e (show_nat m))"

text \<open>\<open>%.pg\<close>.\<close>
fun show_general :: "nat \<Rightarrow> fp \<Rightarrow> string" where
  "show_general p (Finite x) =
     (if x = 0 then ''0'' else if x < 0 then ''-'' @ show_positive p (- x) else show_positive p x)"
| "show_general p (Infinite s) = (if s then ''-inf'' else ''inf'')"
| "show_general p NaN = ''nan''"

text \<open>\<open>%f\<close>.\<close>
fun show_fixed :: "fp \<Rightarrow> string" where
  "show_fixed (Finite x) =
     (let m = nat (round_half_even (\<bar>x\<bar> * 10 ^ 6)); fraction = show_nat (m mod 10 ^ 6) in
      (if x < 0 then ''-'' else []) @ show_nat (m div 10 ^ 6) @ ''.'' @ replicate (6 - length fraction) (CHR ''0'') @ fraction)"
| "show_fixed (Infinite s) = (if s then ''-inf'' else ''inf'')"
| "show_fixed NaN = ''nan''"

section \<open>Escapes\<close>

definition plain_char :: "char \<Rightarrow> bool" where
  "plain_char c \<longleftrightarrow> c \<noteq> CHR '','' \<and> c \<noteq> CHR 0x22 \<and> c \<noteq> CHR 0x0D \<and> c \<noteq> CHR 0x0A"

definition csv_field :: "string \<Rightarrow> string" where
  "csv_field text =
     (if list_all plain_char text then text
      else [CHR 0x22] @ concat (map (\<lambda>c. if c = CHR 0x22 then [CHR 0x22, CHR 0x22] else [c]) text) @ [CHR 0x22])"

definition hex_char :: "nat \<Rightarrow> char" where
  "hex_char n = char_of (if n < 10 then 48 + n else 87 + n)"

definition json_char :: "char \<Rightarrow> string" where
  "json_char c =
     (if c = CHR 0x22 then [CHR 0x5C, CHR 0x22]
      else if c = CHR 0x5C then [CHR 0x5C, CHR 0x5C]
      else if c = CHR 0x0A then [CHR 0x5C, CHR ''n'']
      else if c = CHR 0x0D then [CHR 0x5C, CHR ''r'']
      else if c = CHR 0x09 then [CHR 0x5C, CHR ''t'']
      else if (of_char c :: nat) < 32
      then [CHR 0x5C, CHR ''u'', CHR ''0'', CHR ''0'', hex_char (of_char c div 16), hex_char (of_char c mod 16)]
      else [c])"

definition json_string :: "string \<Rightarrow> string" where
  "json_string text = [CHR 0x22] @ concat (map json_char text) @ [CHR 0x22]"

fun join :: "string \<Rightarrow> string list \<Rightarrow> string" where
  "join sep [] = []"
| "join sep [x] = x"
| "join sep (x # y # ys) = x @ sep @ join sep (y # ys)"

section \<open>Numbers are plain\<close>

lemma of_digit_char: "of_char (digit_char n) = 48 + n mod (10::nat)"
  by (simp add: digit_char_def take_bit_nat_eq_self)

lemma plain_code: "of_char c \<notin> {44, 34, 13, 10 :: nat} \<Longrightarrow> plain_char c"
  by (auto simp: plain_char_def)

lemma digit_plain [simp]: "plain_char (digit_char n)"
  by (rule plain_code) (simp add: of_digit_char)

lemma show_nat_plain [simp]: "list_all plain_char (show_nat n)"
  by (induction n rule: show_nat.induct) (subst show_nat.simps, simp)

lemma show_int_plain [simp]: "list_all plain_char (show_int n)"
  by (simp add: show_int_def plain_char_def)

lemma show_word_plain [simp]: "list_all plain_char (show_word w)"
  by (simp add: show_word_def)

lemma list_all_part:
  "list_all P xs \<Longrightarrow> list_all P (take n xs)" "list_all P xs \<Longrightarrow> list_all P (drop n xs)"
  "list_all P xs \<Longrightarrow> list_all P (strip_zeros xs)" for P :: "char \<Rightarrow> bool"
  by (auto simp: list_all_iff strip_zeros_def dest: in_set_takeD in_set_dropD set_dropWhileD)

lemma with_point_plain: "list_all plain_char s \<Longrightarrow> list_all plain_char (with_point s)"
  by (simp add: with_point_def plain_char_def)

lemma zero_plain: "plain_char (CHR ''0'')"
  by (simp add: plain_char_def)

lemma show_exponent_plain: "list_all plain_char (show_exponent e)"
  by (simp add: show_exponent_def plain_char_def)

lemma layout_plain: "list_all plain_char ds \<Longrightarrow> list_all plain_char (layout p e ds)"
proof -
  assume ds: "list_all plain_char ds"
  have "list_all plain_char (replicate k (CHR ''0''))" for k by (simp add: list_all_iff zero_plain)
  then show ?thesis using ds unfolding layout_def
    by (simp add: list_all_part with_point_plain show_exponent_plain zero_plain)
qed

lemma show_positive_plain [simp]: "list_all plain_char (show_positive p x)"
  unfolding show_positive_def Let_def by (intro layout_plain show_nat_plain)

lemma show_general_plain [simp]: "list_all plain_char (show_general p x)"
  by (cases x) (simp_all, simp_all add: plain_char_def)

section \<open>Reading a row back\<close>

text \<open>A field in quotes after its opening quote: its text and what follows the closing quote.\<close>
fun read_quoted :: "string \<Rightarrow> string \<times> string" where
  "read_quoted [] = ([], [])"
| "read_quoted (c # cs) =
     (if c \<noteq> CHR 0x22 then (c # fst (read_quoted cs), snd (read_quoted cs))
      else case cs of
        [] \<Rightarrow> ([], [])
      | d # ds \<Rightarrow> if d = CHR 0x22 then (CHR 0x22 # fst (read_quoted ds), snd (read_quoted ds)) else ([], cs))"

definition read_field :: "string \<Rightarrow> string \<times> string" where
  "read_field s =
     (case s of
        [] \<Rightarrow> ([], [])
      | c # cs \<Rightarrow> if c = CHR 0x22 then read_quoted cs else (takeWhile plain_char s, dropWhile plain_char s))"

lemma read_quoted_shorter: "length (snd (read_quoted s)) \<le> length s"
proof (induction s rule: read_quoted.induct)
  case (2 c cs)
  show ?case
  proof (cases "c = CHR 0x22")
    case False
    then show ?thesis using 2 by simp
  next
    case True
    show ?thesis
    proof (cases cs)
      case (Cons d ds)
      then show ?thesis using 2 True by (cases "d = CHR 0x22") fastforce+
    qed (simp add: True)
  qed
qed simp

lemma read_field_shorter: "length (snd (read_field s)) \<le> length s"
  using read_quoted_shorter by (auto simp: read_field_def le_SucI length_dropWhile_le split: list.splits)

text \<open>A row as RFC 4180 has it, without the end of the line.\<close>
function read_row :: "string \<Rightarrow> string list" where
  "read_row s =
     (case snd (read_field s) of
        [] \<Rightarrow> [fst (read_field s)]
      | c # rest \<Rightarrow> if c = CHR '','' then fst (read_field s) # read_row rest else [fst (read_field s)])"
  by auto
termination
proof (relation "measure length")
  fix s c rest
  assume "snd (read_field s) = c # rest"
  then show "(rest, s) \<in> measure length" using read_field_shorter [of s] by simp
qed simp

declare read_row.simps [simp del]

definition ends_field :: "string \<Rightarrow> bool" where
  "ends_field rest \<longleftrightarrow> rest = [] \<or> \<not> plain_char (hd rest) \<and> hd rest \<noteq> CHR 0x22"

lemma read_quoted_escaped:
  assumes "rest = [] \<or> hd rest \<noteq> CHR 0x22"
  shows "read_quoted (concat (map (\<lambda>c. if c = CHR 0x22 then [CHR 0x22, CHR 0x22] else [c]) s) @ CHR 0x22 # rest) = (s, rest)"
  using assms by (induction s) (auto split: list.splits)

lemma read_csv_field:
  assumes "ends_field rest"
  shows "read_field (csv_field s @ rest) = (s, rest)"
proof (cases "list_all plain_char s")
  case True
  have w: "takeWhile plain_char (s @ rest) = s \<and> dropWhile plain_char (s @ rest) = rest"
    using True assms by (cases rest) (auto simp: ends_field_def list_all_iff takeWhile_append dropWhile_append)
  show ?thesis
  proof (cases "s @ rest")
    case (Cons c cs)
    have "c \<noteq> CHR 0x22" using True assms Cons
      by (cases s) (auto simp: ends_field_def plain_char_def)
    then show ?thesis using True w by (simp add: csv_field_def read_field_def Cons)
  qed (simp add: csv_field_def read_field_def)
next
  case False
  then show ?thesis using assms read_quoted_escaped [of rest s]
    by (auto simp: csv_field_def read_field_def ends_field_def)
qed

lemma read_row_fields: "read_row (join '','' (map csv_field (f # fs))) = f # fs"
proof (induction fs arbitrary: f)
  case Nil
  have "read_field (csv_field f) = (f, [])" using read_csv_field [of "[]" f] by (simp add: ends_field_def)
  then show ?case by (subst read_row.simps) simp
next
  case (Cons g gs)
  let ?rest = "CHR '','' # join '','' (map csv_field (g # gs))"
  have "ends_field ?rest" by (simp add: ends_field_def plain_char_def)
  then have "read_field (csv_field f @ ?rest) = (f, ?rest)" by (rule read_csv_field)
  then have "read_row (csv_field f @ ?rest) = f # read_row (join '','' (map csv_field (g # gs)))"
    by (subst read_row.simps) simp
  then show ?case using Cons by simp
qed

end
