(* ===== verification/Results.thy ===== *)
theory Results
  imports Log_Sketch Printing Decision_Timing
begin

text \<open>
  \<open>AtomicResults\<close> of \<open>src/benchmark/results.{hpp,cpp}\<close>: the row written for each request, the
  counters and sketches kept, and the summary written at the end. Files are strings; whether an
  access to the file system succeeds is an argument.
\<close>

section \<open>Records\<close>

record RunMetadata =
  policy_name :: string
  policy_source_sha256 :: string
  policy_header_sha256 :: string
  compiler_id :: string
  compiler_version :: string
  build_type :: string
  quickserve_revision :: string
  llama_revision :: string
  model_path :: string
  trace_path :: string
  trace_source_sha256 :: string
  trace_record_count :: u64
  trace_first_timestamp_ns :: u64 \<comment> \<open>signed\<close>
  trace_last_timestamp_ns :: u64 \<comment> \<open>signed\<close>
  selected_requests :: u64
  selected_source_duration_ns :: u64
  md_max_requests :: "u64 option"
  trace_duration_limit_ns :: "u64 option"
  scheduled_duration_ns :: u64
  last_scheduled_deadline_ns :: u64
  md_target_qps :: fp
  offered_request_qps :: "fp option"
  md_output_mode :: string
  context_size :: u32
  md_batch_capacity :: u32
  md_max_sequences :: u32
  md_token_budget :: u32
  prefix_cache_capacity :: u32

record RequestMetrics =
  rm_request_id :: u32
  rm_conversation_id :: string
  rm_turn_index :: u32
  rm_source_offset_ns :: u64
  scheduled_arrival_ns :: u64
  actual_arrival_ns :: u64
  arrival_lag_ns :: u64 \<comment> \<open>signed\<close>
  rm_input_tokens :: u32
  rm_cached_input_tokens :: u32
  executed_input_tokens :: u32
  requested_output_tokens :: u32
  generated_output_tokens :: u32
  queue_delay_ns :: "u64 option"
  ttft_ns :: "u64 option"
  prefill_ns :: "u64 option"
  decode_span_ns :: "u64 option"
  tpot_ns :: "u64 option"
  e2e_latency_ns :: "u64 option"
  normalized_latency_ns_per_token :: "fp option"
  terminal_error :: string
  disposition :: string
  eog_observed :: bool
  rm_output_mode :: string

record BucketSummary =
  bs_count :: u64
  bs_success :: u64
  bs_failure :: u64
  bs_rejection :: u64
  e2e_sum :: fp
  ttft_sum :: fp
  e2e_count :: u64
  ttft_count :: u64

definition new_bucket :: BucketSummary where
  "new_bucket = \<lparr>bs_count = 0, bs_success = 0, bs_failure = 0, bs_rejection = 0, e2e_sum = Finite 0,
     ttft_sum = Finite 0, e2e_count = 0, ttft_count = 0\<rparr>"

record AtomicResults =
  rs_requests :: string
  rs_summary :: string
  rs_metadata :: "RunMetadata option" \<comment> \<open>\<open>None\<close> before \<open>begin\<close>\<close>
  arrival_lag :: LogSketch
  queue_delay :: LogSketch
  ttft :: LogSketch
  tpot :: LogSketch
  e2e :: LogSketch
  input_tokens :: u64
  cached_input_tokens :: u64
  output_tokens :: u64
  first_arrival_ns :: u64
  last_success_terminal_ns :: u64
  has_arrival :: bool
  input_buckets :: "u64 list"
  output_buckets :: "u64 list"
  input_bucket_summaries :: "BucketSummary list"
  output_bucket_summaries :: "BucketSummary list"
  observed :: u64
  successful :: u64
  failed :: u64
  rejected :: u64
  admission_rejections :: u64
  eog_shortened :: u64
  fairness_sum :: fp
  fairness_square_sum :: fp
  fairness_count :: u64
  count_last_time :: u64
  last_active :: u64
  last_queued :: u64
  active_integral :: fp
  queued_integral :: fp
  peak_active :: u64
  peak_queued :: u64
  batch_count :: u64
  pure_prefill_batches :: u64
  pure_decode_batches :: u64
  mixed_batches :: u64
  failed_batches :: u64
  batch_prefill_tokens :: u64
  batch_decode_items :: u64
  prefill_batch_count :: u64
  minimum_prefill_tokens :: u32
  maximum_prefill_tokens :: u32
  batch_duration_sum :: fp
  pure_prefill_duration_sum :: fp
  pure_decode_duration_sum :: fp
  mixed_duration_sum :: fp
  scheduler_decision_timing :: SchedulerDecisionTiming
  peak_resident_memory_bytes :: "u64 option"
  begun :: bool
  finished :: bool

definition new_results :: AtomicResults where
  "new_results = \<lparr>rs_requests = [], rs_summary = [], rs_metadata = None, arrival_lag = new_sketch,
     queue_delay = new_sketch, ttft = new_sketch, tpot = new_sketch, e2e = new_sketch, input_tokens = 0,
     cached_input_tokens = 0, output_tokens = 0, first_arrival_ns = 0, last_success_terminal_ns = 0,
     has_arrival = False, input_buckets = replicate 4 0, output_buckets = replicate 4 0,
     input_bucket_summaries = replicate 4 new_bucket, output_bucket_summaries = replicate 4 new_bucket,
     observed = 0, successful = 0, failed = 0, rejected = 0, admission_rejections = 0, eog_shortened = 0,
     fairness_sum = Finite 0, fairness_square_sum = Finite 0, fairness_count = 0, count_last_time = 0,
     last_active = 0, last_queued = 0, active_integral = Finite 0, queued_integral = Finite 0, peak_active = 0,
     peak_queued = 0, batch_count = 0, pure_prefill_batches = 0, pure_decode_batches = 0, mixed_batches = 0,
     failed_batches = 0, batch_prefill_tokens = 0, batch_decode_items = 0, prefill_batch_count = 0,
     minimum_prefill_tokens = 0, maximum_prefill_tokens = 0, batch_duration_sum = Finite 0,
     pure_prefill_duration_sum = Finite 0, pure_decode_duration_sum = Finite 0, mixed_duration_sum = Finite 0,
     scheduler_decision_timing = \<lparr>decision_count = 0, mean_decision_time_ns = None, p95_decision_time_ns = None,
       p99_decision_time_ns = None\<rparr>,
     peak_resident_memory_bytes = None, begun = False, finished = False\<rparr>"

section \<open>Rows\<close>

definition crlf :: string where
  "crlf = [CHR 0x0D, CHR 0x0A]"

definition request_columns :: "string list" where
  "request_columns = [''request_id'', ''conversation_id'', ''turn_index'', ''source_offset_ns'', ''scheduled_arrival_ns'',
     ''actual_arrival_ns'', ''arrival_lag_ns'', ''input_tokens'', ''cached_input_tokens'', ''executed_input_tokens'',
     ''requested_output_tokens'', ''generated_output_tokens'', ''queue_delay_ns'', ''ttft_ns'', ''prefill_ns'',
     ''decode_span_ns'', ''tpot_ns'', ''e2e_latency_ns'', ''normalized_latency_ns_per_token'', ''terminal_error'',
     ''terminal_disposition'', ''eog_observed'', ''output_mode'']"

definition optional_number :: "('a \<Rightarrow> string) \<Rightarrow> 'a option \<Rightarrow> string" where
  "optional_number show_value value = (case value of None \<Rightarrow> [] | Some v \<Rightarrow> show_value v)"

definition show_u64 :: "u64 \<Rightarrow> string" where "show_u64 = show_word"
definition show_u32 :: "u32 \<Rightarrow> string" where "show_u32 = show_word"

definition request_row :: "RequestMetrics \<Rightarrow> string" where
  "request_row m =
     join '','' [show_u32 (rm_request_id m), csv_field (rm_conversation_id m), show_u32 (rm_turn_index m),
       show_u64 (rm_source_offset_ns m), show_u64 (scheduled_arrival_ns m), show_u64 (actual_arrival_ns m),
       show_int (sint (arrival_lag_ns m)), show_u32 (rm_input_tokens m), show_u32 (rm_cached_input_tokens m),
       show_u32 (executed_input_tokens m), show_u32 (requested_output_tokens m), show_u32 (generated_output_tokens m),
       optional_number show_u64 (queue_delay_ns m), optional_number show_u64 (ttft_ns m),
       optional_number show_u64 (prefill_ns m), optional_number show_u64 (decode_span_ns m),
       optional_number show_u64 (tpot_ns m), optional_number show_u64 (e2e_latency_ns m),
       optional_number (show_general 6) (normalized_latency_ns_per_token m), csv_field (terminal_error m),
       csv_field (disposition m), (if eog_observed m then ''true'' else ''false''), csv_field (rm_output_mode m)]"

text \<open>\<open>begin\<close>: whether the destination exists, the directory is created, the file is opened.\<close>
definition results_begin :: "bool \<Rightarrow> bool \<Rightarrow> bool \<Rightarrow> RunMetadata \<Rightarrow> AtomicResults \<Rightarrow> exn + AtomicResults" where
  "results_begin exists_already created opened metadata a =
     (if begun a then Inl (Logic_error ''results already begun'')
      else if exists_already then Inl (Invalid_argument ''output directory already exists'')
      else if \<not> created then Inl (Runtime_error ''cannot create temporary output directory'')
      else if \<not> opened then Inl (Runtime_error ''cannot create requests.csv'')
      else Inr (a\<lparr>rs_requests := join '','' request_columns @ crlf, rs_metadata := Some metadata, begun := True\<rparr>))"

section \<open>A request\<close>

definition add_long :: "Sketch_Math \<Rightarrow> fp \<Rightarrow> u64 \<Rightarrow> fp" where
  "add_long M acc value = fp_add (sm_long_double M) acc (fp_of_int (sm_long_double M) (uint value))"

definition add_some :: "Sketch_Math \<Rightarrow> u64 option \<Rightarrow> LogSketch \<Rightarrow> LogSketch" where
  "add_some M value s = (case value of None \<Rightarrow> s | Some v \<Rightarrow> sketch_add M v s)"

definition is_success :: "RequestMetrics \<Rightarrow> bool" where
  "is_success m \<longleftrightarrow> disposition m = ''success''"

definition is_rejection :: "RequestMetrics \<Rightarrow> bool" where
  "is_rejection m \<longleftrightarrow> disposition m = ''admission_rejection''"

definition input_bucket :: "RequestMetrics \<Rightarrow> nat" where
  "input_bucket m = (if rm_input_tokens m \<le> 512 then 0 else if rm_input_tokens m \<le> 2048 then 1
     else if rm_input_tokens m \<le> 8192 then 2 else 3)"

definition output_bucket :: "RequestMetrics \<Rightarrow> nat" where
  "output_bucket m = (if requested_output_tokens m \<le> 32 then 0 else if requested_output_tokens m \<le> 128 then 1
     else if requested_output_tokens m \<le> 512 then 2 else 3)"

definition summarise :: "Sketch_Math \<Rightarrow> RequestMetrics \<Rightarrow> BucketSummary \<Rightarrow> BucketSummary" where
  "summarise M m b =
     (let b = b\<lparr>bs_count := bs_count b + 1\<rparr>;
          b = (if is_success m then b\<lparr>bs_success := bs_success b + 1\<rparr>
               else if is_rejection m then b\<lparr>bs_rejection := bs_rejection b + 1\<rparr>
               else b\<lparr>bs_failure := bs_failure b + 1\<rparr>);
          b = (case e2e_latency_ns m of None \<Rightarrow> b
               | Some t \<Rightarrow> b\<lparr>e2e_sum := add_long M (e2e_sum b) t, e2e_count := e2e_count b + 1\<rparr>) in
      case ttft_ns m of None \<Rightarrow> b
      | Some t \<Rightarrow> b\<lparr>ttft_sum := add_long M (ttft_sum b) t, ttft_count := ttft_count b + 1\<rparr>)"

definition observe_tokens :: "Sketch_Math \<Rightarrow> RequestMetrics \<Rightarrow> AtomicResults \<Rightarrow> AtomicResults" where
  "observe_tokens M m a =
     (let a = a\<lparr>observed := observed a + 1,
                arrival_lag := sketch_add M (of_int (max 0 (sint (arrival_lag_ns m)))) (arrival_lag a),
                queue_delay := add_some M (queue_delay_ns m) (queue_delay a),
                ttft := add_some M (ttft_ns m) (ttft a), tpot := add_some M (tpot_ns m) (tpot a),
                input_tokens := input_tokens a + u64_of_u32 (executed_input_tokens m),
                cached_input_tokens := cached_input_tokens a + u64_of_u32 (rm_cached_input_tokens m),
                output_tokens := output_tokens a + u64_of_u32 (generated_output_tokens m)\<rparr> in
      if \<not> has_arrival a then a\<lparr>first_arrival_ns := actual_arrival_ns m, has_arrival := True\<rparr>
      else a\<lparr>first_arrival_ns := min (first_arrival_ns a) (actual_arrival_ns m)\<rparr>)"

definition observe_buckets :: "Sketch_Math \<Rightarrow> RequestMetrics \<Rightarrow> AtomicResults \<Rightarrow> AtomicResults" where
  "observe_buckets M m a =
     (let i = input_bucket m; k = output_bucket m in
      a\<lparr>input_buckets := (input_buckets a)[i := input_buckets a ! i + 1],
        output_buckets := (output_buckets a)[k := output_buckets a ! k + 1],
        input_bucket_summaries := (input_bucket_summaries a)[i := summarise M m (input_bucket_summaries a ! i)],
        output_bucket_summaries := (output_bucket_summaries a)[k := summarise M m (output_bucket_summaries a ! k)]\<rparr>)"

definition observe_outcome :: "Sketch_Math \<Rightarrow> RequestMetrics \<Rightarrow> AtomicResults \<Rightarrow> AtomicResults" where
  "observe_outcome M m a =
     (let a = (if is_success m then a\<lparr>successful := successful a + 1\<rparr>
               else if is_rejection m
               then a\<lparr>rejected := rejected a + 1, admission_rejections := admission_rejections a + 1\<rparr>
               else a\<lparr>failed := failed a + 1\<rparr>);
          a = (if rm_output_mode m = ''natural'' \<and> eog_observed m \<and> generated_output_tokens m < requested_output_tokens m
               then a\<lparr>eog_shortened := eog_shortened a + 1\<rparr> else a);
          a = a\<lparr>e2e := add_some M (e2e_latency_ns m) (e2e a)\<rparr> in
      case e2e_latency_ns m of None \<Rightarrow> a
      | Some t \<Rightarrow>
          if is_success m
          then a\<lparr>last_success_terminal_ns := max (last_success_terminal_ns a) (actual_arrival_ns m + t)\<rparr> else a)"

definition observe_fairness :: "Sketch_Math \<Rightarrow> RequestMetrics \<Rightarrow> AtomicResults \<Rightarrow> AtomicResults" where
  "observe_fairness M m a =
     (case normalized_latency_ns_per_token m of None \<Rightarrow> a
      | Some x \<Rightarrow>
          if is_success m \<and> fp_less (Finite 0) x then
            (let ld = sm_long_double M; score = fp_div ld (Finite 1) (fp_convert ld x) in
             a\<lparr>fairness_sum := fp_add ld (fairness_sum a) score,
               fairness_square_sum := fp_add ld (fairness_square_sum a) (fp_mul ld score score),
               fairness_count := fairness_count a + 1\<rparr>)
          else a)"

text \<open>\<open>good\<close>: the stream took the row.\<close>
definition observe :: "Sketch_Math \<Rightarrow> bool \<Rightarrow> RequestMetrics \<Rightarrow> AtomicResults \<Rightarrow> bool \<times> AtomicResults" where
  "observe M good m a =
     (if \<not> good then (False, a)
      else (True, observe_fairness M m (observe_outcome M m (observe_buckets M m (observe_tokens M m
              (a\<lparr>rs_requests := rs_requests a @ request_row m @ crlf\<rparr>))))))"

section \<open>Batches and samples\<close>

definition observe_batch :: "Sketch_Math \<Rightarrow> u32 \<Rightarrow> u32 \<Rightarrow> u64 \<Rightarrow> bool \<Rightarrow> AtomicResults \<Rightarrow> bool \<times> AtomicResults" where
  "observe_batch M prefill_tokens decode_items duration_ns success a =
     (let a = a\<lparr>batch_count := batch_count a + 1\<rparr>;
          a = (if \<not> success then a\<lparr>failed_batches := failed_batches a + 1\<rparr> else a);
          a = a\<lparr>batch_prefill_tokens := batch_prefill_tokens a + u64_of_u32 prefill_tokens,
                batch_decode_items := batch_decode_items a + u64_of_u32 decode_items,
                batch_duration_sum := add_long M (batch_duration_sum a) duration_ns\<rparr>;
          a = (if prefill_tokens \<noteq> 0 then
                 (let a = a\<lparr>prefill_batch_count := prefill_batch_count a + 1\<rparr> in
                  if prefill_batch_count a = 1
                  then a\<lparr>minimum_prefill_tokens := prefill_tokens, maximum_prefill_tokens := prefill_tokens\<rparr>
                  else a\<lparr>minimum_prefill_tokens := min (minimum_prefill_tokens a) prefill_tokens,
                         maximum_prefill_tokens := max (maximum_prefill_tokens a) prefill_tokens\<rparr>)
               else a) in
      (True,
       if prefill_tokens \<noteq> 0 \<and> decode_items \<noteq> 0
       then a\<lparr>mixed_batches := mixed_batches a + 1, mixed_duration_sum := add_long M (mixed_duration_sum a) duration_ns\<rparr>
       else if prefill_tokens \<noteq> 0
       then a\<lparr>pure_prefill_batches := pure_prefill_batches a + 1,
              pure_prefill_duration_sum := add_long M (pure_prefill_duration_sum a) duration_ns\<rparr>
       else if decode_items \<noteq> 0
       then a\<lparr>pure_decode_batches := pure_decode_batches a + 1,
              pure_decode_duration_sum := add_long M (pure_decode_duration_sum a) duration_ns\<rparr>
       else a))"

definition sample_counts :: "Sketch_Math \<Rightarrow> u64 \<Rightarrow> u64 \<Rightarrow> u64 \<Rightarrow> AtomicResults \<Rightarrow> exn + AtomicResults" where
  "sample_counts M now_ns active queued a =
     (if now_ns < count_last_time a then Inl (Invalid_argument ''count sample time decreased'')
      else
        (let ld = sm_long_double M; elapsed = fp_of_int ld (uint (now_ns - count_last_time a)) in
         Inr (a\<lparr>active_integral := fp_add ld (active_integral a) (fp_mul ld (fp_of_int ld (uint (last_active a))) elapsed),
                queued_integral := fp_add ld (queued_integral a) (fp_mul ld (fp_of_int ld (uint (last_queued a))) elapsed),
                count_last_time := now_ns, last_active := active, last_queued := queued,
                peak_active := max (peak_active a) active, peak_queued := max (peak_queued a) queued\<rparr>)))"

definition set_scheduler_decision_timing :: "SchedulerDecisionTiming \<Rightarrow> AtomicResults \<Rightarrow> exn + AtomicResults" where
  "set_scheduler_decision_timing timing a =
     (if \<not> begun a \<or> finished a then Inl (Logic_error ''results are not open'')
      else Inr (a\<lparr>scheduler_decision_timing := timing\<rparr>))"

definition set_peak_resident_memory_bytes :: "u64 \<Rightarrow> AtomicResults \<Rightarrow> exn + AtomicResults" where
  "set_peak_resident_memory_bytes bytes a =
     (if \<not> begun a \<or> finished a then Inl (Logic_error ''results are not open'')
      else Inr (a\<lparr>peak_resident_memory_bytes := Some bytes\<rparr>))"

end
