(* ===== verification/Results_Summary.thy ===== *)
theory Results_Summary
  imports Results
begin

text \<open>
  \<open>AtomicResults::finish\<close>: the summary of a run as JSON. The numbers are printed as the streams
  and \<open>std::to_string\<close> print them (theory \<open>Printing\<close>).
\<close>

definition json_field :: "string \<Rightarrow> string \<Rightarrow> string" where
  "json_field name value = json_string name @ '':'' @ value"

definition json_object :: "string list \<Rightarrow> string" where
  "json_object fs = ''{'' @ join '','' fs @ ''}''"

definition number_or_null :: "('a \<Rightarrow> string) \<Rightarrow> 'a option \<Rightarrow> string" where
  "number_or_null show_value v = (case v of None \<Rightarrow> ''null'' | Some x \<Rightarrow> show_value x)"

text \<open>The lambda \<open>nullable\<close>: a long double, printed as a double with 17 digits.\<close>
definition nullable :: "fp \<Rightarrow> bool \<Rightarrow> string" where
  "nullable value valid = (if \<not> valid then ''null'' else show_general 17 (fp_convert double value))"

definition mean_or_null :: "Sketch_Math \<Rightarrow> fp \<Rightarrow> u64 \<Rightarrow> string" where
  "mean_or_null M acc n =
     nullable (fp_div (sm_long_double M) acc (fp_of_int (sm_long_double M) (uint (max 1 n)))) (n \<noteq> 0)"

definition per_second :: "u64 \<Rightarrow> u64 \<Rightarrow> fp" where
  "per_second n duration_ns =
     fp_div double (fp_mul double (fp_of_int double (uint n)) (fp_of_int double 1000000000)) (fp_of_int double (uint duration_ns))"

definition rate_or_null :: "u64 \<Rightarrow> u64 \<Rightarrow> string" where
  "rate_or_null n wall = (if wall = 0 then ''null'' else show_fixed (per_second n wall))"

definition emit_sketch :: "Sketch_Math \<Rightarrow> string \<Rightarrow> LogSketch \<Rightarrow> string" where
  "emit_sketch M name s =
     json_field name (json_object
       [json_field ''mean_ns'' (number_or_null show_fixed (sketch_mean M s)),
        json_field ''p50_ns'' (number_or_null show_u64 (sketch_percentile M s (to_fp double (50 / 100)))),
        json_field ''p90_ns'' (number_or_null show_u64 (sketch_percentile M s (to_fp double (90 / 100)))),
        json_field ''p95_ns'' (number_or_null show_u64 (sketch_percentile M s (to_fp double (95 / 100)))),
        json_field ''p99_ns'' (number_or_null show_u64 (sketch_percentile M s (to_fp double (99 / 100)))),
        json_field ''max_ns'' (if sk_count s \<noteq> 0 then show_u64 (sk_maximum s) else ''null''),
        json_field ''sketch_relative_error'' (show_general 20 (log_sketch_relative_error M)),
        json_field ''sketch_min_ns'' ''1'',
        json_field ''sketch_max_ns'' ''1000000000000000000'',
        json_field ''underflow_count'' (show_u64 (sk_underflow s)),
        json_field ''overflow_count'' (show_u64 (sk_overflow s))])"

definition bucket_mean :: "Sketch_Math \<Rightarrow> fp \<Rightarrow> u64 \<Rightarrow> string" where
  "bucket_mean M acc n =
     (if n \<noteq> 0 then show_fixed (fp_convert double (fp_div (sm_long_double M) acc (fp_of_int (sm_long_double M) (uint n))))
      else ''null'')"

definition emit_buckets :: "Sketch_Math \<Rightarrow> string \<Rightarrow> BucketSummary list \<Rightarrow> string list \<Rightarrow> string" where
  "emit_buckets M name buckets names =
     json_field name (json_object (map (\<lambda>(n, b). json_field n (json_object
       [json_field ''count'' (show_u64 (bs_count b)), json_field ''success'' (show_u64 (bs_success b)),
        json_field ''failure'' (show_u64 (bs_failure b)), json_field ''rejection'' (show_u64 (bs_rejection b)),
        json_field ''mean_e2e_ns'' (bucket_mean M (e2e_sum b) (e2e_count b)),
        json_field ''mean_ttft_ns'' (bucket_mean M (ttft_sum b) (ttft_count b))])) (zip names buckets)))"

definition fairness :: "Sketch_Math \<Rightarrow> AtomicResults \<Rightarrow> fp" where
  "fairness M a =
     (let ld = sm_long_double M in
      if fairness_count a = 0 \<or> fp_eq (fairness_square_sum a) (Finite 0) then Finite 0
      else fp_div ld (fp_mul ld (fairness_sum a) (fairness_sum a))
             (fp_mul ld (fp_of_int ld (uint (fairness_count a))) (fairness_square_sum a)))"

definition identity_fields :: "RunMetadata \<Rightarrow> string list" where
  "identity_fields m =
     [json_field ''policy_identity'' (json_object
        [json_field ''name'' (json_string (policy_name m)),
         json_field ''source_sha256'' (json_string (policy_source_sha256 m)),
         json_field ''header_sha256'' (json_string (policy_header_sha256 m))]),
      json_field ''build'' (json_object
        [json_field ''compiler_id'' (json_string (compiler_id m)),
         json_field ''compiler_version'' (json_string (compiler_version m)),
         json_field ''build_type'' (json_string (build_type m)),
         json_field ''quickserve_revision'' (json_string (quickserve_revision m)),
         json_field ''llama_revision'' (json_string (llama_revision m))]),
      json_field ''trace_path'' (json_string (trace_path m)),
      json_field ''model_path'' (json_string (model_path m)),
      json_field ''trace_source_sha256'' (json_string (trace_source_sha256 m)),
      json_field ''trace_header'' (json_object
        [json_field ''record_count'' (show_u64 (trace_record_count m)),
         json_field ''first_timestamp_ns'' (show_int (sint (trace_first_timestamp_ns m))),
         json_field ''last_timestamp_ns'' (show_int (sint (trace_last_timestamp_ns m)))]),
      json_field ''selected_requests'' (show_u64 (selected_requests m)),
      json_field ''selected_source_duration_ns'' (show_u64 (selected_source_duration_ns m)),
      json_field ''max_requests'' (number_or_null show_u64 (md_max_requests m)),
      json_field ''trace_duration_limit_ns'' (number_or_null show_u64 (trace_duration_limit_ns m)),
      json_field ''scheduled_duration_ns'' (show_u64 (scheduled_duration_ns m)),
      json_field ''last_scheduled_deadline_ns'' (show_u64 (last_scheduled_deadline_ns m)),
      json_field ''target_qps'' (show_general 6 (md_target_qps m)),
      json_field ''output_mode'' (json_string (md_output_mode m)),
      json_field ''environment'' (json_object
        [json_field ''context_size'' (show_u32 (context_size m)),
         json_field ''batch_capacity'' (show_u32 (md_batch_capacity m)),
         json_field ''max_sequences'' (show_u32 (md_max_sequences m)),
         json_field ''token_budget'' (show_u32 (md_token_budget m)),
         json_field ''prefix_cache_capacity'' (show_u32 (prefix_cache_capacity m))])]"

definition request_fields :: "Sketch_Math \<Rightarrow> RunMetadata \<Rightarrow> u64 \<Rightarrow> u64 \<Rightarrow> AtomicResults \<Rightarrow> string list" where
  "request_fields M m peak_rss_bytes wall a =
     [json_field ''counts'' (json_object
        [json_field ''observed'' (show_u64 (observed a)), json_field ''successful'' (show_u64 (successful a)),
         json_field ''failed'' (show_u64 (failed a)), json_field ''rejected'' (show_u64 (rejected a)),
         json_field ''admission_rejections'' (show_u64 (admission_rejections a)),
         json_field ''eog_shortened'' (show_u64 (eog_shortened a))]),
      json_field ''wall_duration_ns'' (show_u64 wall),
      json_field ''peak_resident_memory_bytes'' (show_u64 peak_rss_bytes),
      json_field ''executed_input_tokens'' (show_u64 (input_tokens a)),
      json_field ''cached_input_tokens'' (show_u64 (cached_input_tokens a)),
      json_field ''generated_output_tokens'' (show_u64 (output_tokens a)),
      json_field ''offered_request_qps'' (number_or_null show_fixed (offered_request_qps m)),
      json_field ''achieved_request_qps''
        (if successful a \<noteq> 0 \<and> last_success_terminal_ns a > first_arrival_ns a
         then show_fixed (per_second (successful a) (last_success_terminal_ns a - first_arrival_ns a)) else ''null''),
      json_field ''failure_request_rate'' (rate_or_null (failed a) wall),
      json_field ''rejection_request_rate'' (rate_or_null (rejected a) wall),
      json_field ''input_token_throughput'' (rate_or_null (input_tokens a) wall),
      json_field ''output_token_throughput'' (rate_or_null (output_tokens a) wall),
      json_field ''total_token_throughput'' (rate_or_null (input_tokens a + output_tokens a) wall),
      json_field ''mean_active_requests'' (mean_or_null M (active_integral a) wall),
      json_field ''mean_queued_requests'' (mean_or_null M (queued_integral a) wall),
      json_field ''peak_active_requests'' (show_u64 (peak_active a)),
      json_field ''peak_queued_requests'' (show_u64 (peak_queued a)),
      json_field ''final_active_requests'' (show_u64 (last_active a)),
      json_field ''final_queued_requests'' (show_u64 (last_queued a)),
      json_field ''jain_fairness''
        (nullable (fairness M a) (fairness_count a \<noteq> 0 \<and> \<not> fp_eq (fairness_square_sum a) (Finite 0)))]"

definition scheduler_field :: "AtomicResults \<Rightarrow> string" where
  "scheduler_field a =
     (let t = scheduler_decision_timing a in
      json_field ''scheduler'' (json_object
        [json_field ''decision_count'' (show_u64 (decision_count t)),
         json_field ''mean_decision_time_ns'' (number_or_null (\<lambda>x. nullable x True) (mean_decision_time_ns t)),
         json_field ''p95_decision_time_ns'' (number_or_null show_u64 (p95_decision_time_ns t)),
         json_field ''p99_decision_time_ns'' (number_or_null show_u64 (p99_decision_time_ns t))]))"

definition batches_field :: "Sketch_Math \<Rightarrow> AtomicResults \<Rightarrow> string" where
  "batches_field M a =
     json_field ''batches'' (json_object
       [json_field ''total'' (show_u64 (batch_count a)),
        json_field ''pure_prefill'' (show_u64 (pure_prefill_batches a)),
        json_field ''pure_decode'' (show_u64 (pure_decode_batches a)),
        json_field ''mixed'' (show_u64 (mixed_batches a)),
        json_field ''failed'' (show_u64 (failed_batches a)),
        json_field ''prefill_tokens'' (show_u64 (batch_prefill_tokens a)),
        json_field ''decode_items'' (show_u64 (batch_decode_items a)),
        json_field ''prefill_tokens_per_batch'' (json_object
          [json_field ''mean'' (mean_or_null M (fp_of_int (sm_long_double M) (uint (batch_prefill_tokens a))) (prefill_batch_count a)),
           json_field ''min'' (if prefill_batch_count a \<noteq> 0 then show_u32 (minimum_prefill_tokens a) else ''null''),
           json_field ''max'' (if prefill_batch_count a \<noteq> 0 then show_u32 (maximum_prefill_tokens a) else ''null'')]),
        json_field ''mean_duration_ns'' (json_object
          [json_field ''all'' (mean_or_null M (batch_duration_sum a) (batch_count a)),
           json_field ''pure_prefill'' (mean_or_null M (pure_prefill_duration_sum a) (pure_prefill_batches a)),
           json_field ''pure_decode'' (mean_or_null M (pure_decode_duration_sum a) (pure_decode_batches a)),
           json_field ''mixed'' (mean_or_null M (mixed_duration_sum a) (mixed_batches a))])])"

definition summary_text :: "Sketch_Math \<Rightarrow> RunMetadata \<Rightarrow> u64 \<Rightarrow> u64 \<Rightarrow> AtomicResults \<Rightarrow> string" where
  "summary_text M m peak_rss_bytes wall a =
     json_object (identity_fields m @ request_fields M m peak_rss_bytes wall a @
       [scheduler_field a, batches_field M a, emit_sketch M ''arrival_lag'' (arrival_lag a),
        emit_sketch M ''queue_delay'' (queue_delay a), emit_sketch M ''ttft'' (ttft a), emit_sketch M ''tpot'' (tpot a),
        emit_sketch M ''e2e_latency'' (e2e a),
        emit_buckets M ''input_buckets'' (input_bucket_summaries a) [''1_512'', ''513_2048'', ''2049_8192'', ''8193_inf''],
        emit_buckets M ''output_buckets'' (output_bucket_summaries a) [''1_32'', ''33_128'', ''129_512'', ''513_inf'']]) @
     [CHR 0x0A]"

text \<open>The outcomes of the accesses to the file system, and the peak memory the system reports.\<close>
record FileOutcomes =
  rows_flushed :: bool
  rows_closed :: bool
  summary_created :: bool
  summary_written :: bool
  summary_closed :: bool
  publishes :: "exn + unit"
  peak_memory :: "exn + u64"

definition results_finish :: "Sketch_Math \<Rightarrow> FileOutcomes \<Rightarrow> u64 \<Rightarrow> AtomicResults \<Rightarrow> (exn + unit) \<times> AtomicResults" where
  "results_finish M io wall a =
     (if \<not> begun a \<or> finished a then (Inl (Logic_error ''results are not open''), a)
      else
        (case sample_counts M wall (last_active a) (last_queued a) a of
           Inl e \<Rightarrow> (Inl e, a)
         | Inr a \<Rightarrow>
             if \<not> rows_flushed io then (Inl (Runtime_error ''failed writing requests.csv''), a)
             else if \<not> rows_closed io then (Inl (Runtime_error ''failed closing requests.csv''), a)
             else if \<not> summary_created io then (Inl (Runtime_error ''cannot create summary.json''), a)
             else
               (case (case peak_resident_memory_bytes a of Some n \<Rightarrow> Inr n | None \<Rightarrow> peak_memory io) of
                  Inl e \<Rightarrow> (Inl e, a)
                | Inr peak \<Rightarrow>
                    (let a = a\<lparr>rs_summary := summary_text M (the (rs_metadata a)) peak wall a\<rparr> in
                     if \<not> summary_written io then (Inl (Runtime_error ''failed writing summary.json''), a)
                     else if \<not> summary_closed io then (Inl (Runtime_error ''failed closing summary.json''), a)
                     else (case publishes io of
                             Inl e \<Rightarrow> (Inl e, a)
                           | Inr _ \<Rightarrow> (Inr (), a\<lparr>finished := True\<rparr>))))))"

end
