(* ===== verification/Results_Props.thy ===== *)
theory Results_Props
  imports Results_Summary "HOL-Library.Sublist"
begin

text \<open>
  The properties of the results: through any use the counters account for every request and batch,
  and a row reads back as the values it was written from.
\<close>

section \<open>Rows\<close>

lemma csv_field_plain: "list_all plain_char s \<Longrightarrow> csv_field s = s"
  by (simp add: csv_field_def)

lemma optional_plain: "(\<And>x. list_all plain_char (f x)) \<Longrightarrow> list_all plain_char (optional_number f v)"
  by (simp add: optional_number_def split: option.split)

text \<open>The values of a row, in the order of the columns.\<close>
definition request_values :: "RequestMetrics \<Rightarrow> string list" where
  "request_values m =
     [show_u32 (rm_request_id m), rm_conversation_id m, show_u32 (rm_turn_index m),
       show_u64 (rm_source_offset_ns m), show_u64 (scheduled_arrival_ns m), show_u64 (actual_arrival_ns m),
       show_int (sint (arrival_lag_ns m)), show_u32 (rm_input_tokens m), show_u32 (rm_cached_input_tokens m),
       show_u32 (executed_input_tokens m), show_u32 (requested_output_tokens m), show_u32 (generated_output_tokens m),
       optional_number show_u64 (queue_delay_ns m), optional_number show_u64 (ttft_ns m),
       optional_number show_u64 (prefill_ns m), optional_number show_u64 (decode_span_ns m),
       optional_number show_u64 (tpot_ns m), optional_number show_u64 (e2e_latency_ns m),
       optional_number (show_general 6) (normalized_latency_ns_per_token m), terminal_error m,
       disposition m, (if eog_observed m then ''true'' else ''false''), rm_output_mode m]"

text \<open>
  C35. A row of \<open>requests.csv\<close> read as RFC 4180 says gives back exactly the values it was written
  from, one for each column of the header, whatever bytes the conversation id and the other
  texts contain.
\<close>
theorem request_row_round_trip:
  "read_row (request_row m) = request_values m \<and> length (request_values m) = length request_columns"
proof -
  have p: "csv_field (show_u32 a) = show_u32 a" "csv_field (show_u64 b) = show_u64 b" "csv_field (show_int c) = show_int c"
    "csv_field (optional_number show_u64 d) = optional_number show_u64 d"
    "csv_field (optional_number (show_general 6) e) = optional_number (show_general 6) e" for a b c d e
    by (intro csv_field_plain optional_plain; simp add: show_u32_def show_u64_def)+
  have t: "csv_field (if eog_observed m then ''true'' else ''false'') = (if eog_observed m then ''true'' else ''false'')"
    by (simp add: csv_field_def plain_char_def)
  have "request_row m = join '','' (map csv_field (request_values m))"
    unfolding request_row_def request_values_def list.map p t ..
  moreover have "request_values m \<noteq> []" by (simp add: request_values_def)
  ultimately have "read_row (request_row m) = request_values m"
    by (metis read_row_fields list.exhaust)
  then show ?thesis by (simp add: request_values_def request_columns_def)
qed

section \<open>Accounts\<close>

datatype results_event =
    Observes bool RequestMetrics
  | Batches u32 u32 u64 bool
  | Samples u64 u64 u64
  | Begins bool bool bool RunMetadata
  | Times_decisions SchedulerDecisionTiming
  | Measures_memory u64
  | Finishes FileOutcomes u64

text \<open>A call that throws before it changes anything leaves the results as they were.\<close>
definition or_same :: "AtomicResults \<Rightarrow> exn + AtomicResults \<Rightarrow> AtomicResults" where
  "or_same a r = (case r of Inl e \<Rightarrow> a | Inr b \<Rightarrow> b)"

fun results_step :: "Sketch_Math \<Rightarrow> results_event \<Rightarrow> AtomicResults \<Rightarrow> AtomicResults" where
  "results_step M (Observes good m) a = snd (observe M good m a)"
| "results_step M (Batches p d t s) a = snd (observe_batch M p d t s a)"
| "results_step M (Samples t x y) a = or_same a (sample_counts M t x y a)"
| "results_step M (Begins e c f m) a = or_same a (results_begin e c f m a)"
| "results_step M (Times_decisions t) a = or_same a (set_scheduler_decision_timing t a)"
| "results_step M (Measures_memory n) a = or_same a (set_peak_resident_memory_bytes n a)"
| "results_step M (Finishes io w) a = snd (results_finish M io w a)"

definition buckets_account :: "u64 list \<Rightarrow> BucketSummary list \<Rightarrow> AtomicResults \<Rightarrow> bool" where
  "buckets_account ns bs a \<longleftrightarrow> length ns = 4 \<and> map bs_count bs = ns \<and> sum_list ns = observed a \<and>
     sum_list (map bs_success bs) = successful a \<and> sum_list (map bs_failure bs) = failed a \<and>
     sum_list (map bs_rejection bs) = rejected a"

definition accounted :: "AtomicResults \<Rightarrow> bool" where
  "accounted a \<longleftrightarrow> observed a = successful a + failed a + rejected a \<and> admission_rejections a = rejected a \<and>
     buckets_account (input_buckets a) (input_bucket_summaries a) a \<and>
     buckets_account (output_buckets a) (output_bucket_summaries a) a \<and> sk_count (arrival_lag a) = observed a"

lemma sum_list_bump: "i < length xs \<Longrightarrow> sum_list (xs[i := xs ! i + d]) = sum_list xs + (d :: u64)"
  by (induction xs arbitrary: i) (auto simp: nth_Cons add_ac split: nat.splits)

lemma buckets_less [simp]: "input_bucket m < 4" "output_bucket m < 4"
  by (simp_all add: input_bucket_def output_bucket_def)

lemma summarise_counts [simp]:
  "bs_count (summarise M m b) = bs_count b + 1"
  "bs_success (summarise M m b) = bs_success b + (if is_success m then 1 else 0)"
  "bs_failure (summarise M m b) = bs_failure b + (if is_success m \<or> is_rejection m then 0 else 1)"
  "bs_rejection (summarise M m b) = bs_rejection b + (if \<not> is_success m \<and> is_rejection m then 1 else 0)"
  by (auto simp: summarise_def Let_def split: option.split)

lemma sum_map_bump:
  assumes "i < length bs" "\<And>b. f (g b) = f b + (d :: u64)"
  shows "sum_list (map f (bs[i := g (bs ! i)])) = sum_list (map f bs) + d"
  using sum_list_bump [of i "map f bs" d] assms by (simp add: map_update)

lemma buckets_bump:
  assumes a: "buckets_account ns bs a" and i: "i < 4"
    and b: "observed b = observed a + 1" "successful b = successful a + (if is_success m then 1 else 0)"
      "failed b = failed a + (if is_success m \<or> is_rejection m then 0 else 1)"
      "rejected b = rejected a + (if \<not> is_success m \<and> is_rejection m then 1 else 0)"
  shows "buckets_account (ns[i := ns ! i + 1]) (bs[i := summarise M m (bs ! i)]) b"
proof -
  have l: "length ns = 4" "map bs_count bs = ns" using a by (simp_all add: buckets_account_def)
  then have lb: "i < length bs" using i by (metis length_map)
  have c: "map bs_count (bs[i := summarise M m (bs ! i)]) = ns[i := ns ! i + 1]"
    using lb l(2) by (auto simp: map_update)
  show ?thesis
    using a i l sum_list_bump [of i ns 1]
      sum_map_bump [OF lb, of bs_success "summarise M m"] sum_map_bump [OF lb, of bs_failure "summarise M m"]
      sum_map_bump [OF lb, of bs_rejection "summarise M m"]
    unfolding buckets_account_def c b by simp
qed

lemma sketch_add_count: "sk_count (sketch_add M v s) = sk_count s + 1"
  by (simp add: sketch_add_def Let_def)

lemmas account_steps = observe_tokens_def observe_buckets_def observe_outcome_def observe_fairness_def Let_def

text \<open>An answer the model ended before its limit, where it was allowed to.\<close>
definition shortened :: "RequestMetrics \<Rightarrow> bool" where
  "shortened m \<longleftrightarrow> rm_output_mode m = ''natural'' \<and> eog_observed m \<and> generated_output_tokens m < requested_output_tokens m"

lemma tokens_account:
  "observed (observe_tokens M m a) = observed a + 1" "successful (observe_tokens M m a) = successful a"
  "failed (observe_tokens M m a) = failed a" "rejected (observe_tokens M m a) = rejected a"
  "admission_rejections (observe_tokens M m a) = admission_rejections a"
  "input_buckets (observe_tokens M m a) = input_buckets a" "output_buckets (observe_tokens M m a) = output_buckets a"
  "input_bucket_summaries (observe_tokens M m a) = input_bucket_summaries a"
  "output_bucket_summaries (observe_tokens M m a) = output_bucket_summaries a"
  "sk_count (arrival_lag (observe_tokens M m a)) = sk_count (arrival_lag a) + 1"
  "eog_shortened (observe_tokens M m a) = eog_shortened a"
  "input_tokens (observe_tokens M m a) = input_tokens a + u64_of_u32 (executed_input_tokens m)"
  "cached_input_tokens (observe_tokens M m a) = cached_input_tokens a + u64_of_u32 (rm_cached_input_tokens m)"
  "output_tokens (observe_tokens M m a) = output_tokens a + u64_of_u32 (generated_output_tokens m)"
  by (simp_all add: account_steps sketch_add_count)

lemma outcome_account:
  "observed (observe_outcome M m a) = observed a"
  "successful (observe_outcome M m a) = successful a + (if is_success m then 1 else 0)"
  "failed (observe_outcome M m a) = failed a + (if is_success m \<or> is_rejection m then 0 else 1)"
  "rejected (observe_outcome M m a) = rejected a + (if \<not> is_success m \<and> is_rejection m then 1 else 0)"
  "admission_rejections (observe_outcome M m a) =
     admission_rejections a + (if \<not> is_success m \<and> is_rejection m then 1 else 0)"
  "input_buckets (observe_outcome M m a) = input_buckets a" "output_buckets (observe_outcome M m a) = output_buckets a"
  "input_bucket_summaries (observe_outcome M m a) = input_bucket_summaries a"
  "output_bucket_summaries (observe_outcome M m a) = output_bucket_summaries a"
  "arrival_lag (observe_outcome M m a) = arrival_lag a"
  "eog_shortened (observe_outcome M m a) = eog_shortened a + (if shortened m then 1 else 0)"
  "input_tokens (observe_outcome M m a) = input_tokens a"
  "cached_input_tokens (observe_outcome M m a) = cached_input_tokens a"
  "output_tokens (observe_outcome M m a) = output_tokens a"
  by (simp_all add: account_steps shortened_def split: option.split)

lemma fairness_account:
  "observed (observe_fairness M m a) = observed a" "successful (observe_fairness M m a) = successful a"
  "failed (observe_fairness M m a) = failed a" "rejected (observe_fairness M m a) = rejected a"
  "admission_rejections (observe_fairness M m a) = admission_rejections a"
  "input_buckets (observe_fairness M m a) = input_buckets a" "output_buckets (observe_fairness M m a) = output_buckets a"
  "input_bucket_summaries (observe_fairness M m a) = input_bucket_summaries a"
  "output_bucket_summaries (observe_fairness M m a) = output_bucket_summaries a"
  "arrival_lag (observe_fairness M m a) = arrival_lag a"
  "eog_shortened (observe_fairness M m a) = eog_shortened a" "input_tokens (observe_fairness M m a) = input_tokens a"
  "cached_input_tokens (observe_fairness M m a) = cached_input_tokens a"
  "output_tokens (observe_fairness M m a) = output_tokens a"
  by (simp_all add: account_steps split: option.split)

lemma observe_fields:
  fixes m :: RequestMetrics and M :: Sketch_Math and a :: AtomicResults
  defines "b \<equiv> snd (observe M True m a)"
  shows "observed b = observed a + 1" "successful b = successful a + (if is_success m then 1 else 0)"
    "failed b = failed a + (if is_success m \<or> is_rejection m then 0 else 1)"
    "rejected b = rejected a + (if \<not> is_success m \<and> is_rejection m then 1 else 0)"
    "admission_rejections b = admission_rejections a + (if \<not> is_success m \<and> is_rejection m then 1 else 0)"
    "sk_count (arrival_lag b) = sk_count (arrival_lag a) + 1"
    "input_buckets b = (input_buckets a)[input_bucket m := input_buckets a ! input_bucket m + 1]"
    "output_buckets b = (output_buckets a)[output_bucket m := output_buckets a ! output_bucket m + 1]"
    "input_bucket_summaries b = (input_bucket_summaries a)[input_bucket m := summarise M m (input_bucket_summaries a ! input_bucket m)]"
    "output_bucket_summaries b = (output_bucket_summaries a)[output_bucket m := summarise M m (output_bucket_summaries a ! output_bucket m)]"
    "eog_shortened b = eog_shortened a + (if shortened m then 1 else 0)"
    "input_tokens b = input_tokens a + u64_of_u32 (executed_input_tokens m)"
    "cached_input_tokens b = cached_input_tokens a + u64_of_u32 (rm_cached_input_tokens m)"
    "output_tokens b = output_tokens a + u64_of_u32 (generated_output_tokens m)"
proof -
  define a0 where "a0 = a\<lparr>rs_requests := rs_requests a @ request_row m @ crlf\<rparr>"
  define a1 where "a1 = observe_tokens M m a0"
  define a2 where "a2 = observe_buckets M m a1"
  have b: "b = observe_fairness M m (observe_outcome M m a2)"
    by (simp add: b_def observe_def a0_def a1_def a2_def)
  have b2: "observed a2 = observed a1" "successful a2 = successful a1" "failed a2 = failed a1" "rejected a2 = rejected a1"
    "admission_rejections a2 = admission_rejections a1" "arrival_lag a2 = arrival_lag a1"
    "eog_shortened a2 = eog_shortened a1" "input_tokens a2 = input_tokens a1"
    "cached_input_tokens a2 = cached_input_tokens a1" "output_tokens a2 = output_tokens a1"
    "input_buckets a2 = (input_buckets a1)[input_bucket m := input_buckets a1 ! input_bucket m + 1]"
    "output_buckets a2 = (output_buckets a1)[output_bucket m := output_buckets a1 ! output_bucket m + 1]"
    "input_bucket_summaries a2 = (input_bucket_summaries a1)[input_bucket m := summarise M m (input_bucket_summaries a1 ! input_bucket m)]"
    "output_bucket_summaries a2 = (output_bucket_summaries a1)[output_bucket m := summarise M m (output_bucket_summaries a1 ! output_bucket m)]"
    by (simp_all add: a2_def observe_buckets_def Let_def)
  have a0: "observed a0 = observed a" "successful a0 = successful a" "failed a0 = failed a" "rejected a0 = rejected a"
    "admission_rejections a0 = admission_rejections a" "arrival_lag a0 = arrival_lag a"
    "eog_shortened a0 = eog_shortened a" "input_tokens a0 = input_tokens a"
    "cached_input_tokens a0 = cached_input_tokens a" "output_tokens a0 = output_tokens a"
    "input_buckets a0 = input_buckets a" "output_buckets a0 = output_buckets a"
    "input_bucket_summaries a0 = input_bucket_summaries a" "output_bucket_summaries a0 = output_bucket_summaries a"
    by (simp_all add: a0_def)
  note steps = b fairness_account outcome_account b2 a1_def tokens_account a0
  show "observed b = observed a + 1" "successful b = successful a + (if is_success m then 1 else 0)"
    "failed b = failed a + (if is_success m \<or> is_rejection m then 0 else 1)"
    "rejected b = rejected a + (if \<not> is_success m \<and> is_rejection m then 1 else 0)"
    "admission_rejections b = admission_rejections a + (if \<not> is_success m \<and> is_rejection m then 1 else 0)"
    "sk_count (arrival_lag b) = sk_count (arrival_lag a) + 1"
    "input_buckets b = (input_buckets a)[input_bucket m := input_buckets a ! input_bucket m + 1]"
    "output_buckets b = (output_buckets a)[output_bucket m := output_buckets a ! output_bucket m + 1]"
    "input_bucket_summaries b = (input_bucket_summaries a)[input_bucket m := summarise M m (input_bucket_summaries a ! input_bucket m)]"
    "output_bucket_summaries b = (output_bucket_summaries a)[output_bucket m := summarise M m (output_bucket_summaries a ! output_bucket m)]"
    "eog_shortened b = eog_shortened a + (if shortened m then 1 else 0)"
    "input_tokens b = input_tokens a + u64_of_u32 (executed_input_tokens m)"
    "cached_input_tokens b = cached_input_tokens a + u64_of_u32 (rm_cached_input_tokens m)"
    "output_tokens b = output_tokens a + u64_of_u32 (generated_output_tokens m)"
    by (simp_all only: steps)
qed

lemma observe_account:
  assumes "accounted a"
  shows "accounted (snd (observe M True m a))"
proof -
  note n = observe_fields [of M m a]
  have "buckets_account (input_buckets (snd (observe M True m a))) (input_bucket_summaries (snd (observe M True m a)))
      (snd (observe M True m a))"
    "buckets_account (output_buckets (snd (observe M True m a))) (output_bucket_summaries (snd (observe M True m a)))
      (snd (observe M True m a))"
    using buckets_bump [OF _ buckets_less(1) n(1-4)] buckets_bump [OF _ buckets_less(2) n(1-4)] assms
    unfolding n(7-10) accounted_def by simp_all
  then show ?thesis
    unfolding accounted_def using assms n(1-6) by (simp add: accounted_def)
qed

text \<open>Operations that leave the accounts alone.\<close>
definition same_account :: "AtomicResults \<Rightarrow> AtomicResults \<Rightarrow> bool" where
  "same_account a b \<longleftrightarrow> observed b = observed a \<and> successful b = successful a \<and> failed b = failed a \<and>
     rejected b = rejected a \<and> admission_rejections b = admission_rejections a \<and>
     input_buckets b = input_buckets a \<and> output_buckets b = output_buckets a \<and>
     input_bucket_summaries b = input_bucket_summaries a \<and> output_bucket_summaries b = output_bucket_summaries a \<and>
     arrival_lag b = arrival_lag a \<and> eog_shortened b = eog_shortened a \<and> input_tokens b = input_tokens a \<and>
     cached_input_tokens b = cached_input_tokens a \<and> output_tokens b = output_tokens a"

lemma same_accounted: "same_account a b \<Longrightarrow> accounted a \<Longrightarrow> accounted b"
  by (simp add: same_account_def accounted_def buckets_account_def)

lemma same_account_refl [simp]: "same_account a a"
  by (simp add: same_account_def)

lemma or_same_cases: "same_account a (or_same a (Inl e))" "or_same a (Inr b) = b"
  by (simp_all add: or_same_def)

lemma samples_same: "same_account a (or_same a (sample_counts M t x y a))"
  by (simp add: sample_counts_def or_same_cases Let_def) (simp add: same_account_def)

lemma begin_same: "same_account a (or_same a (results_begin e c f m a))"
  by (simp add: results_begin_def or_same_cases) (simp add: same_account_def)

lemma timing_same: "same_account a (or_same a (set_scheduler_decision_timing t a))"
  by (simp add: set_scheduler_decision_timing_def or_same_cases) (simp add: same_account_def)

lemma memory_same: "same_account a (or_same a (set_peak_resident_memory_bytes n a))"
  by (simp add: set_peak_resident_memory_bytes_def or_same_cases) (simp add: same_account_def)

lemma batch_same: "same_account a (snd (observe_batch M p d t ok_batch a))"
proof -
  define b where "b = (let a = a\<lparr>batch_count := batch_count a + 1\<rparr>;
     a = (if \<not> ok_batch then a\<lparr>failed_batches := failed_batches a + 1\<rparr> else a) in
     a\<lparr>batch_prefill_tokens := batch_prefill_tokens a + u64_of_u32 p,
       batch_decode_items := batch_decode_items a + u64_of_u32 d,
       batch_duration_sum := add_long M (batch_duration_sum a) t\<rparr>)"
  have "same_account a b" by (simp add: b_def Let_def same_account_def)
  then show ?thesis by (simp add: observe_batch_def Let_def b_def same_account_def)
qed

lemma finish_same: "same_account a (snd (results_finish M io wall a))"
proof (cases "\<not> begun a \<or> finished a")
  case True
  then show ?thesis by (auto simp: results_finish_def)
next
  case False
  show ?thesis
  proof (cases "sample_counts M wall (last_active a) (last_queued a) a")
    case (Inl e)
    then show ?thesis using False by (simp add: results_finish_def)
  next
    case (Inr b)
    then have ab: "same_account a b"
      using samples_same [of a M wall "last_active a" "last_queued a"] by (simp add: or_same_cases)
    have kept: "same_account a (b\<lparr>rs_summary := t\<rparr>)" "same_account a (b\<lparr>rs_summary := t, finished := True\<rparr>)" for t
      using ab by (simp_all add: same_account_def)
    show ?thesis using False Inr ab kept
      by (simp add: results_finish_def Let_def split: option.split sum.split)
  qed
qed

lemma step_same:
  assumes "\<forall>m. e \<noteq> Observes True m"
  shows "same_account a (results_step M e a)"
  using assms
  by (cases e) (auto simp: batch_same samples_same begin_same timing_same memory_same finish_same observe_def)

text \<open>The requests recorded: those whose row the stream took.\<close>
definition recorded :: "results_event list \<Rightarrow> RequestMetrics list" where
  "recorded es = concat (map (\<lambda>e. case e of Observes good m \<Rightarrow> (if good then [m] else []) | _ \<Rightarrow> []) es)"

definition is_failure :: "RequestMetrics \<Rightarrow> bool" where
  "is_failure m \<longleftrightarrow> \<not> is_success m \<and> \<not> is_rejection m"

definition counts_match :: "RequestMetrics list \<Rightarrow> AtomicResults \<Rightarrow> bool" where
  "counts_match ms a \<longleftrightarrow> observed a = of_nat (length ms) \<and> successful a = of_nat (length (filter is_success ms)) \<and>
     rejected a = of_nat (length (filter is_rejection ms)) \<and> failed a = of_nat (length (filter is_failure ms)) \<and>
     input_buckets a = map (\<lambda>k. of_nat (length (filter (\<lambda>m. input_bucket m = k) ms))) [0..<4] \<and>
     output_buckets a = map (\<lambda>k. of_nat (length (filter (\<lambda>m. output_bucket m = k) ms))) [0..<4] \<and>
     eog_shortened a = of_nat (length (filter shortened ms)) \<and>
     input_tokens a = sum_list (map (\<lambda>m. u64_of_u32 (executed_input_tokens m)) ms) \<and>
     cached_input_tokens a = sum_list (map (\<lambda>m. u64_of_u32 (rm_cached_input_tokens m)) ms) \<and>
     output_tokens a = sum_list (map (\<lambda>m. u64_of_u32 (generated_output_tokens m)) ms)"

lemma not_both: "is_success m \<Longrightarrow> is_rejection m \<Longrightarrow> False"
  by (simp add: is_success_def is_rejection_def)

lemma bucket_counts_snoc:
  assumes "f m < (4 :: nat)"
  shows "map (\<lambda>k. of_nat (length (filter (\<lambda>m. f m = k) (ms @ [m]))) :: u64) [0..<4] =
    (map (\<lambda>k. of_nat (length (filter (\<lambda>m. f m = k) ms))) [0..<4])
      [f m := map (\<lambda>k. of_nat (length (filter (\<lambda>m. f m = k) ms))) [0..<4] ! f m + 1]"
  using assms by (auto simp: list_eq_iff_nth_eq nth_list_update)

lemma observe_matches:
  assumes "counts_match ms a"
  shows "counts_match (ms @ [m]) (snd (observe M True m a))"
proof -
  note n = observe_fields [of M m a]
  have b: "input_buckets (snd (observe M True m a)) =
      map (\<lambda>k. of_nat (length (filter (\<lambda>m. input_bucket m = k) (ms @ [m])))) [0..<4]"
    "output_buckets (snd (observe M True m a)) =
      map (\<lambda>k. of_nat (length (filter (\<lambda>m. output_bucket m = k) (ms @ [m])))) [0..<4]"
    using assms unfolding n(7,8) counts_match_def bucket_counts_snoc [where f = input_bucket, OF buckets_less(1)] bucket_counts_snoc [where f = output_bucket, OF buckets_less(2)]
    by simp_all
  show ?thesis
    using assms not_both [of m] n(1-4,11-14) unfolding counts_match_def b by (auto simp: is_failure_def)
qed

lemma same_matches: "same_account a b \<Longrightarrow> counts_match ms a \<Longrightarrow> counts_match ms b"
  by (simp add: same_account_def counts_match_def)

lemma new_matches: "counts_match [] new_results" "accounted new_results"
  by (simp_all add: counts_match_def accounted_def buckets_account_def new_results_def new_sketch_def new_bucket_def
      numeral_eq_Suc upt_rec)

lemma recorded_snoc: "recorded (es @ [e]) = recorded es @ recorded [e]"
  by (simp add: recorded_def)

section \<open>What the summary says\<close>

definition quoted :: "string \<Rightarrow> string" where
  "quoted key = CHR 0x22 # key @ [CHR 0x22]"

definition entry :: "string \<Rightarrow> u64 \<Rightarrow> string" where
  "entry key n = quoted key @ '':'' @ show_u64 n"

definition number :: "(RequestMetrics \<Rightarrow> bool) \<Rightarrow> RequestMetrics list \<Rightarrow> u64" where
  "number P ms = of_nat (length (filter P ms))"

text \<open>The parts of the summary that count requests and tokens, as they have to be printed.\<close>
definition printed_counts :: "RequestMetrics list \<Rightarrow> string list" where
  "printed_counts ms =
     [quoted ''counts'' @ '':{'' @ entry ''observed'' (of_nat (length ms)) @ '','' @
        entry ''successful'' (number is_success ms) @ '','' @ entry ''failed'' (number is_failure ms) @ '','' @
        entry ''rejected'' (number is_rejection ms) @ '','' @ entry ''admission_rejections'' (number is_rejection ms) @ '','' @
        entry ''eog_shortened'' (number shortened ms) @ ''}'',
      entry ''executed_input_tokens'' (sum_list (map (\<lambda>m. u64_of_u32 (executed_input_tokens m)) ms)),
      entry ''cached_input_tokens'' (sum_list (map (\<lambda>m. u64_of_u32 (rm_cached_input_tokens m)) ms)),
      entry ''generated_output_tokens'' (sum_list (map (\<lambda>m. u64_of_u32 (generated_output_tokens m)) ms))]"

lemma sublist_inside: "sublist x y \<Longrightarrow> sublist x (a @ y @ b)"
  using sublist_order.order_trans [OF _ sublist_appendI] by blast

lemma sublist_join: "x \<in> set xs \<Longrightarrow> sublist x (join sep xs)"
proof (induction sep xs rule: join.induct)
  case (3 sep y z zs)
  then consider "x = y" | "sublist x (join sep (z # zs))" by auto
  then show ?case
  proof cases
    case 1
    then show ?thesis using sublist_inside [of x y "[]" "sep @ join sep (z # zs)"] by simp
  next
    case 2
    then show ?thesis using sublist_inside [of x "join sep (z # zs)" "y @ sep" "[]"] by simp
  qed
qed auto

lemma summary_has: "x \<in> set (request_fields M md peak wall a) \<Longrightarrow> sublist x (summary_text M md peak wall a)"
proof -
  assume x: "x \<in> set (request_fields M md peak wall a)"
  let ?fs = "identity_fields md @ request_fields M md peak wall a @
       [scheduler_field a, batches_field M a, emit_sketch M ''arrival_lag'' (arrival_lag a),
        emit_sketch M ''queue_delay'' (queue_delay a), emit_sketch M ''ttft'' (ttft a), emit_sketch M ''tpot'' (tpot a),
        emit_sketch M ''e2e_latency'' (e2e a),
        emit_buckets M ''input_buckets'' (input_bucket_summaries a) [''1_512'', ''513_2048'', ''2049_8192'', ''8193_inf''],
        emit_buckets M ''output_buckets'' (output_bucket_summaries a) [''1_32'', ''33_128'', ''129_512'', ''513_inf'']]"
  have "sublist x (join '','' ?fs)" using x by (intro sublist_join) simp
  then show ?thesis unfolding summary_text_def json_object_def append_assoc by (rule sublist_inside)
qed

lemma json_names:
  "json_string ''counts'' = quoted ''counts''" "json_string ''observed'' = quoted ''observed''"
  "json_string ''successful'' = quoted ''successful''" "json_string ''failed'' = quoted ''failed''"
  "json_string ''rejected'' = quoted ''rejected''" "json_string ''admission_rejections'' = quoted ''admission_rejections''"
  "json_string ''eog_shortened'' = quoted ''eog_shortened''"
  "json_string ''executed_input_tokens'' = quoted ''executed_input_tokens''"
  "json_string ''cached_input_tokens'' = quoted ''cached_input_tokens''"
  "json_string ''generated_output_tokens'' = quoted ''generated_output_tokens''"
  by (simp_all add: json_string_def json_char_def quoted_def)

lemma summary_prints:
  assumes "counts_match ms a" "accounted a"
  shows "list_all (\<lambda>x. sublist x (summary_text M md peak wall a)) (printed_counts ms)"
proof -
  have n: "observed a = of_nat (length ms)" "successful a = number is_success ms" "failed a = number is_failure ms"
    "rejected a = number is_rejection ms" "admission_rejections a = number is_rejection ms"
    "eog_shortened a = number shortened ms"
    "input_tokens a = sum_list (map (\<lambda>m. u64_of_u32 (executed_input_tokens m)) ms)"
    "cached_input_tokens a = sum_list (map (\<lambda>m. u64_of_u32 (rm_cached_input_tokens m)) ms)"
    "output_tokens a = sum_list (map (\<lambda>m. u64_of_u32 (generated_output_tokens m)) ms)"
    using assms by (simp_all add: counts_match_def accounted_def number_def)
  have "set (printed_counts ms) \<subseteq> set (request_fields M md peak wall a)"
    by (simp add: printed_counts_def request_fields_def n json_field_def json_object_def json_names entry_def)
  then show ?thesis using summary_has by (auto simp: list_all_iff)
qed

lemma finish_writes:
  assumes "fst (results_finish M io wall a) = Inr ()"
  shows "\<exists>b md peak. same_account a b \<and> rs_summary (snd (results_finish M io wall a)) = summary_text M md peak wall b"
proof -
  have started: "\<not> (\<not> begun a \<or> finished a)"
  proof
    assume "\<not> begun a \<or> finished a"
    then show False using assms by (simp only: results_finish_def if_True fst_conv sum.simps)
  qed
  obtain b where b: "sample_counts M wall (last_active a) (last_queued a) a = Inr b"
    using assms started by (cases "sample_counts M wall (last_active a) (last_queued a) a") (simp_all add: results_finish_def)
  then have ab: "same_account a b" using samples_same [of a M wall "last_active a" "last_queued a"] by (simp add: or_same_cases)
  have "\<exists>md peak. rs_summary (snd (results_finish M io wall a)) = summary_text M md peak wall b"
    using assms started b by (auto simp: results_finish_def Let_def split: if_splits option.splits sum.splits)
  then show ?thesis using ab by blast
qed

text \<open>
  C34. Through any use of the results, whatever calls fail, the counters of requests and tokens are
  those of the requests recorded (modulo \<open>2^64\<close>): successes, failures and admission rejections
  partition the requests, the answers cut short by the end of generation are counted in natural
  mode only, the input and the output buckets partition the requests too and agree with their
  summaries, and the arrival-lag sketch has seen every request once. And when the results are
  finished successfully, the summary written has these numbers under their names: the object of
  counts and the three totals of tokens.
\<close>
theorem results_account:
  fixes M :: Sketch_Math and es :: "results_event list"
  defines "a \<equiv> fold (results_step M) es new_results"
  shows "accounted a \<and> counts_match (recorded es) a \<and>
    (fst (results_finish M io wall a) = Inr () \<longrightarrow>
      list_all (\<lambda>x. sublist x (rs_summary (snd (results_finish M io wall a)))) (printed_counts (recorded es)))"
proof -
  have inv: "accounted (fold (results_step M) es new_results) \<and> counts_match (recorded es) (fold (results_step M) es new_results)"
    for es
  proof (induction es rule: rev_induct)
    case Nil
    show ?case by (simp add: new_matches recorded_def)
  next
    case (snoc e es)
    define a where "a = fold (results_step M) es new_results"
    note [simp] = a_def [symmetric]
    have IH: "accounted a" "counts_match (recorded es) a" using snoc by simp_all
    show ?case
    proof (cases "\<exists>m. e = Observes True m")
      case True
      then obtain m where "e = Observes True m" ..
      then show ?thesis
        using observe_account [OF IH(1)] observe_matches [OF IH(2)] by (simp add: recorded_snoc) (simp add: recorded_def)
    next
      case False
      then have "same_account a (results_step M e a)" by (intro step_same) auto
      moreover have "recorded [e] = []" using False by (cases e) (auto simp: recorded_def)
      ultimately show ?thesis
        using IH same_accounted same_matches by (auto simp: recorded_snoc)
    qed
  qed
  show ?thesis
  proof (intro conjI impI)
    show "accounted a" "counts_match (recorded es) a" using inv by (simp_all add: a_def)
    assume "fst (results_finish M io wall a) = Inr ()"
    then obtain b md peak where b: "same_account a b"
      "rs_summary (snd (results_finish M io wall a)) = summary_text M md peak wall b" using finish_writes by blast
    show "list_all (\<lambda>x. sublist x (rs_summary (snd (results_finish M io wall a)))) (printed_counts (recorded es))"
      unfolding b(2) by (rule summary_prints) (use b(1) inv same_matches same_accounted in \<open>auto simp: a_def\<close>)
  qed
qed

lemma tokens_frame:
  "begun (observe_tokens M m a) = begun a"
  "finished (observe_tokens M m a) = finished a"
  "count_last_time (observe_tokens M m a) = count_last_time a"
  "peak_resident_memory_bytes (observe_tokens M m a) = peak_resident_memory_bytes a"
  by (simp_all add: account_steps split: option.split)

lemma buckets_frame:
  "begun (observe_buckets M m a) = begun a"
  "finished (observe_buckets M m a) = finished a"
  "count_last_time (observe_buckets M m a) = count_last_time a"
  "peak_resident_memory_bytes (observe_buckets M m a) = peak_resident_memory_bytes a"
  by (simp_all add: account_steps split: option.split)

lemma outcome_frame:
  "begun (observe_outcome M m a) = begun a"
  "finished (observe_outcome M m a) = finished a"
  "count_last_time (observe_outcome M m a) = count_last_time a"
  "peak_resident_memory_bytes (observe_outcome M m a) = peak_resident_memory_bytes a"
  by (simp_all add: account_steps split: option.split)

lemma fairness_frame:
  "begun (observe_fairness M m a) = begun a"
  "finished (observe_fairness M m a) = finished a"
  "count_last_time (observe_fairness M m a) = count_last_time a"
  "peak_resident_memory_bytes (observe_fairness M m a) = peak_resident_memory_bytes a"
  by (simp_all add: account_steps split: option.split)

lemma observe_frame:
  "begun (snd (observe M True m a)) = begun a \<and> finished (snd (observe M True m a)) = finished a \<and>
   count_last_time (snd (observe M True m a)) = count_last_time a \<and>
   peak_resident_memory_bytes (snd (observe M True m a)) = peak_resident_memory_bytes a"
  by (simp add: observe_def tokens_frame buckets_frame outcome_frame fairness_frame)

definition demo_answer :: RequestMetrics where
  "demo_answer = \<lparr>rm_request_id = 0, rm_conversation_id = [], rm_turn_index = 0, rm_source_offset_ns = 0,
     scheduled_arrival_ns = 0, actual_arrival_ns = 0, arrival_lag_ns = 0, rm_input_tokens = 7, rm_cached_input_tokens = 3,
     executed_input_tokens = 4, requested_output_tokens = 5, generated_output_tokens = 2, queue_delay_ns = None,
     ttft_ns = None, prefill_ns = None, decode_span_ns = None, tpot_ns = None, e2e_latency_ns = None,
     normalized_latency_ns_per_token = None, terminal_error = [], disposition = ''success'', eog_observed = True,
     rm_output_mode = ''natural''\<rparr>"

definition demo_refusal :: RequestMetrics where
  "demo_refusal = demo_answer\<lparr>disposition := ''admission_rejection'', eog_observed := False, rm_cached_input_tokens := 0,
     executed_input_tokens := 0, generated_output_tokens := 0\<rparr>"

definition demo_outcomes :: FileOutcomes where
  "demo_outcomes = \<lparr>rows_flushed = True, rows_closed = True, summary_created = True, summary_written = True,
     summary_closed = True, publishes = Inr (), peak_memory = Inr 1\<rparr>"

definition demo_events :: "RunMetadata \<Rightarrow> results_event list" where
  "demo_events metadata = [Begins False True True metadata, Observes True demo_answer, Observes True demo_refusal]"

theorem results_account_witness:
  "\<forall>M metadata. \<exists>summary. results_finish M demo_outcomes 9 (fold (results_step M) (demo_events metadata) new_results) = summary \<and>
    fst summary = Inr () \<and>
    sublist (quoted ''counts'' @ '':{'' @ entry ''observed'' 2 @ '','' @ entry ''successful'' 1 @ '','' @ entry ''failed'' 0 @
      '','' @ entry ''rejected'' 1 @ '','' @ entry ''admission_rejections'' 1 @ '','' @ entry ''eog_shortened'' 1 @ ''}'')
      (rs_summary (snd summary))"
proof (intro allI)
  fix M :: Sketch_Math and metadata :: RunMetadata
  let ?a = "fold (results_step M) (demo_events metadata) new_results"
  define b where "b = new_results\<lparr>rs_requests := join '','' request_columns @ crlf, rs_metadata := Some metadata, begun := True\<rparr>"
  have b: "begun b" "\<not> finished b" "count_last_time b = 0" "peak_resident_memory_bytes b = None"
    by (simp_all add: b_def new_results_def)
  have "\<not> begun new_results" by (simp add: new_results_def)
  then have "results_begin False True True metadata new_results = Inr b" by (simp add: results_begin_def b_def)
  then have a: "?a = snd (observe M True demo_refusal (snd (observe M True demo_answer b)))"
    by (simp add: demo_events_def or_same_def)
  have f: "begun ?a" "\<not> finished ?a" "count_last_time ?a = 0" "peak_resident_memory_bytes ?a = None"
    unfolding a using b by (simp_all add: observe_frame)
  have finishes: "fst (results_finish M demo_outcomes 9 ?a) = Inr ()"
    using f by (simp add: results_finish_def sample_counts_def demo_outcomes_def Let_def)
  have r: "recorded (demo_events metadata) = [demo_answer, demo_refusal]" by (simp add: demo_events_def recorded_def)
  have n: "is_success demo_answer" "\<not> is_success demo_refusal" "is_rejection demo_refusal" "\<not> is_rejection demo_answer"
    "shortened demo_answer" "\<not> shortened demo_refusal"
    by (simp_all add: is_success_def is_rejection_def shortened_def demo_answer_def demo_refusal_def word_less_nat_alt)
  have "list_all (\<lambda>x. sublist x (rs_summary (snd (results_finish M demo_outcomes 9 ?a)))) (printed_counts (recorded (demo_events metadata)))"
    using results_account [of M "demo_events metadata" demo_outcomes 9] finishes by blast
  then have "sublist (quoted ''counts'' @ '':{'' @ entry ''observed'' 2 @ '','' @ entry ''successful'' 1 @ '','' @ entry ''failed'' 0 @
      '','' @ entry ''rejected'' 1 @ '','' @ entry ''admission_rejections'' 1 @ '','' @ entry ''eog_shortened'' 1 @ ''}'')
      (rs_summary (snd (results_finish M demo_outcomes 9 ?a)))"
    by (simp add: r printed_counts_def number_def is_failure_def n)
  then show "\<exists>summary. results_finish M demo_outcomes 9 ?a = summary \<and> fst summary = Inr () \<and>
    sublist (quoted ''counts'' @ '':{'' @ entry ''observed'' 2 @ '','' @ entry ''successful'' 1 @ '','' @ entry ''failed'' 0 @
      '','' @ entry ''rejected'' 1 @ '','' @ entry ''admission_rejections'' 1 @ '','' @ entry ''eog_shortened'' 1 @ ''}'')
      (rs_summary (snd summary))"
    using finishes by blast
qed

end
