(* ===== verification/Number_Parsing.thy ===== *)
theory Number_Parsing
  imports Rounding Trace_Text Printing
begin

text \<open>
  \<open>std::stod\<close>, \<open>std::stoull\<close> and \<open>std::stoul\<close>: the longest prefix of the text that is a number, as C
  describes for \<open>strtod\<close> and \<open>strtoull\<close>, its value, and how many characters were used. A string
  is read up to its first null character.
\<close>

section \<open>Prefixes\<close>

definition is_space :: "char \<Rightarrow> bool" where
  "is_space c \<longleftrightarrow> c = CHR '' '' \<or> (of_char c :: nat) \<in> {9, 10, 11, 12, 13}"

definition lower :: "char \<Rightarrow> char" where
  "lower c = (if (of_char c :: nat) \<in> {65..90} then char_of ((of_char c :: nat) + 32) else c)"

definition is_hex :: "char \<Rightarrow> bool" where
  "is_hex c \<longleftrightarrow> is_digit c \<or> (of_char (lower c) :: nat) \<in> {97..102}"

definition hex_value :: "char \<Rightarrow> int" where
  "hex_value c = (if is_digit c then digit_value c else of_char (lower c) - 87)"

text \<open>The value of digits in a base.\<close>
definition digits_value :: "(char \<Rightarrow> int) \<Rightarrow> int \<Rightarrow> string \<Rightarrow> int" where
  "digits_value value base s = foldl (\<lambda>v c. v * base + value c) 0 s"

text \<open>An optional sign: whether it is a minus, and the rest.\<close>
definition take_sign :: "string \<Rightarrow> bool \<times> string" where
  "take_sign s = (case s of c # cs \<Rightarrow> if c = CHR ''-'' then (True, cs) else if c = CHR ''+'' then (False, cs) else (False, s)
     | [] \<Rightarrow> (False, s))"

text \<open>An exponent after the given letter; without digits there is none.\<close>
definition take_exponent :: "char \<Rightarrow> string \<Rightarrow> int \<times> string" where
  "take_exponent letter s =
     (case s of
        [] \<Rightarrow> (0, s)
      | c # cs \<Rightarrow>
          (let (minus, r) = take_sign cs; ds = takeWhile is_digit r; e = digits_value digit_value 10 ds in
           if lower c = letter \<and> ds \<noteq> [] then (if minus then - e else e, dropWhile is_digit r) else (0, s)))"

text \<open>The digits before and after an optional point, if there are any digits.\<close>
definition take_mantissa :: "(char \<Rightarrow> bool) \<Rightarrow> string \<Rightarrow> (string \<times> string \<times> string) option" where
  "take_mantissa digit s =
     (let whole = takeWhile digit s; r = dropWhile digit s;
          (part, r) = (case r of c # cs \<Rightarrow> if c = CHR ''.'' then (takeWhile digit cs, dropWhile digit cs) else ([], r)
                       | [] \<Rightarrow> ([], r)) in
      if whole = [] \<and> part = [] then None else Some (whole, part, r))"

definition starts :: "string \<Rightarrow> string \<Rightarrow> bool" where
  "starts p s \<longleftrightarrow> map lower (take (length p) s) = p"

text \<open>The characters in parentheses that may follow \<open>nan\<close>.\<close>
definition nan_tail :: "string \<Rightarrow> string" where
  "nan_tail s =
     (case s of c # cs \<Rightarrow>
        (let word_char = (\<lambda>c. is_digit c \<or> c = CHR ''_'' \<or> (of_char (lower c) :: nat) \<in> {97..122});
             r = dropWhile word_char cs in
         if c = CHR ''('' \<and> r \<noteq> [] \<and> hd r = CHR '')'' then tl r else s)
      | [] \<Rightarrow> s)"

text \<open>The exact value of a prefix that is a number, and the rest.\<close>
definition number_prefix :: "string \<Rightarrow> (fp \<times> string) option" where
  "number_prefix s =
     (if starts ''infinity'' s then Some (Infinite False, drop 8 s)
      else if starts ''inf'' s then Some (Infinite False, drop 3 s)
      else if starts ''nan'' s then Some (NaN, nan_tail (drop 3 s))
      else
        (case (if starts ''0x'' s then take_mantissa is_hex (drop 2 s) else None) of
           Some (whole, part, r) \<Rightarrow>
             (let (e, r) = take_exponent (CHR ''p'') r in
              Some (Finite (of_int (digits_value hex_value 16 (whole @ part)) * 2 powi (e - 4 * int (length part))), r))
         | None \<Rightarrow>
             (case take_mantissa is_digit s of
                None \<Rightarrow> None
              | Some (whole, part, r) \<Rightarrow>
                  (let (e, r) = take_exponent (CHR ''e'') r in
                   Some (Finite (of_int (digits_value digit_value 10 (whole @ part)) * 10 powi (e - int (length part))), r)))))"

section \<open>Conversions\<close>

definition c_str :: "string \<Rightarrow> string" where
  "c_str s = takeWhile (\<lambda>c. c \<noteq> CHR 0x00) s"

text \<open>
  The value and the number of characters used. Whether a number too small to be normal counts as
  out of range is left to the implementation by C; it is the argument \<open>underflows\<close>.
\<close>
definition stod :: "(rat \<Rightarrow> bool) \<Rightarrow> string \<Rightarrow> exn + fp \<times> nat" where
  "stod underflows s =
     (let text = c_str s; (minus, r) = take_sign (dropWhile is_space text) in
      case number_prefix r of
        None \<Rightarrow> Inl (Invalid_argument ''stod'')
      | Some (exact, rest) \<Rightarrow>
          (let value = fp_convert double exact; used = length text - length rest in
           if (case exact of
                 Finite x \<Rightarrow> \<not> is_finite value \<or> (x \<noteq> 0 \<and> \<bar>x\<bar> < 2 powi (-1022) \<and> underflows x)
               | _ \<Rightarrow> False)
           then Inl (Out_of_range ''stod'')
           else Inr (if minus then fp_neg value else value, used)))"

text \<open>\<open>std::stoull\<close> and \<open>std::stoul\<close> (64 bits), which accept a minus sign and negate.\<close>
definition stoull_text :: "string \<Rightarrow> string \<Rightarrow> exn + u64 \<times> nat" where
  "stoull_text name s =
     (let text = c_str s; (minus, r) = take_sign (dropWhile is_space text); ds = takeWhile is_digit r;
          v = digits_value digit_value 10 ds in
      if ds = [] then Inl (Invalid_argument name)
      else if v > 2 ^ 64 - 1 then Inl (Out_of_range name)
      else Inr (if minus then - of_int v else of_int v, length text - length (dropWhile is_digit r)))"

section \<open>Lines\<close>

text \<open>\<open>while (std::getline(stream, part, d))\<close>: the parts between delimiters, no empty one at the end.\<close>
function split_by :: "char \<Rightarrow> string \<Rightarrow> string list" where
  "split_by d s =
     (if s = [] then []
      else let part = takeWhile (\<lambda>c. c \<noteq> d) s in part # split_by d (drop (length part + 1) s))"
  by pat_completeness auto
termination
  by (relation "measure (\<lambda>(d, s). length s)") auto

declare split_by.simps [simp del]

lemma split_by_Nil [simp]: "split_by d [] = []"
  by (simp add: split_by.simps)

lemma takeWhile_part: "d \<notin> set p \<Longrightarrow> takeWhile (\<lambda>c. c \<noteq> d) (p @ d # s) = p"
  by (induction p) auto

lemma split_by_part: "d \<notin> set p \<Longrightarrow> split_by d (p @ d # s) = p # split_by d s"
  by (subst split_by.simps) (simp add: takeWhile_part Let_def)

lemma split_by_last: "d \<notin> set p \<Longrightarrow> p \<noteq> [] \<Longrightarrow> split_by d p = [p]"
proof -
  assume d: "d \<notin> set p" and p: "p \<noteq> []"
  have "takeWhile (\<lambda>c. c \<noteq> d) p = p" unfolding takeWhile_eq_all_conv using d by blast
  then show ?thesis using p split_by.simps [of d p] by (simp only: Let_def if_False) simp
qed

lemma split_by_lines: "(\<And>p. p \<in> set ps \<Longrightarrow> d \<notin> set p) \<Longrightarrow> split_by d (concat (map (\<lambda>p. p @ [d]) ps)) = ps"
  by (induction ps) (auto simp: split_by_part)

section \<open>Reading back integers\<close>

lemma digit_value_le: "is_digit c \<Longrightarrow> digit_value c \<le> 9"
proof -
  assume "is_digit c"
  then have "(of_char c :: nat) \<le> 57" by (simp add: is_digit_def)
  then have "int (of_char c) \<le> int 57" by (simp only: of_nat_le_iff)
  then show ?thesis unfolding of_nat_of_char by (simp add: digit_value_def)
qed

lemma digit_char_is_digit [simp]: "is_digit (digit_char n)"
  by (simp add: is_digit_def of_digit_char)

lemma digit_char_value: "digit_value (digit_char n) = int (n mod 10)"
proof -
  have "int (of_char (digit_char n)) = int (48 + n mod 10)" by (simp only: of_digit_char)
  then show ?thesis unfolding of_nat_of_char by (simp add: digit_value_def)
qed

lemma show_nat_digits [simp]: "list_all is_digit (show_nat n)"
  by (induction n rule: show_nat.induct) (subst show_nat.simps, simp)

lemma show_nat_not_Nil [simp]: "show_nat n \<noteq> []"
  by (subst show_nat.simps) simp

lemma show_nat_value: "digits_value digit_value 10 (show_nat n) = int n"
proof (induction n rule: show_nat.induct)
  case (1 n)
  show ?case
  proof (cases "n < 10")
    case True
    then show ?thesis by (simp add: show_nat.simps [of n] digits_value_def digit_char_value)
  next
    case False
    have "digits_value digit_value 10 (show_nat n) = digits_value digit_value 10 (show_nat (n div 10)) * 10 + int (n mod 10)"
      using False by (subst show_nat.simps) (simp add: digits_value_def digit_char_value)
    also have "\<dots> = int (n div 10) * 10 + int (n mod 10)" using 1 False by simp
    also have "\<dots> = int n" by presburger
    finally show ?thesis .
  qed
qed

lemma is_digit_not_space: "is_digit c \<Longrightarrow> \<not> is_space c"
  by (auto simp: is_digit_def is_space_def)

lemma digits_no_sign: "ds \<noteq> [] \<Longrightarrow> list_all is_digit ds \<Longrightarrow> take_sign (ds @ s) = (False, ds @ s)"
  by (cases ds) (auto simp: take_sign_def is_digit_def)

lemma digits_no_space: "ds \<noteq> [] \<Longrightarrow> list_all is_digit ds \<Longrightarrow> dropWhile is_space (ds @ s) = ds @ s"
  by (cases ds) (auto simp: is_digit_not_space)

lemma digits_not_null: "list_all is_digit ds \<Longrightarrow> c_str ds = ds"
  unfolding c_str_def by (rule takeWhile_eq_all_conv [THEN iffD2]) (auto simp: list_all_iff is_digit_def)

lemma take_digits: "list_all is_digit ds \<Longrightarrow> takeWhile is_digit ds = ds \<and> dropWhile is_digit ds = []"
  by (simp add: list_all_iff takeWhile_eq_all_conv dropWhile_eq_Nil_conv)

text \<open>A number written by \<open>std::to_string\<close> is read back.\<close>
lemma stoull_show: "n < 2 ^ 64 \<Longrightarrow> stoull_text name (show_nat n) = Inr (of_nat n, length (show_nat n))"
  using digits_no_sign [of "show_nat n" "[]"] digits_no_space [of "show_nat n" "[]"]
  by (simp add: stoull_text_def digits_not_null take_digits show_nat_value)

end
