(* ===== verification/ProxQP_Profile.thy ===== *)
theory ProxQP_Profile
  imports ProxQP Number_Parsing
begin

text \<open>
  The profile file of the ProxQP policy (\<open>load_proxqp_policy_configuration\<close> and \<open>create\<close> of
  \<open>src/policies/proxqp_scheduler.cpp\<close>). The file is its text, \<open>None\<close> if it cannot be opened;
  \<open>underflows\<close> is the argument of \<open>stod\<close>; \<open>wrapped\<close> is what the cast of \<open>2^63\<close> to a
  signed 64-bit integer gives, which C++ leaves undefined.
\<close>

section \<open>Values\<close>

type_synonym profile_values = "(string \<times> string) list"

definition profile_number :: "(rat \<Rightarrow> bool) \<Rightarrow> profile_values \<Rightarrow> string \<Rightarrow> exn + fp" where
  "profile_number underflows v key =
     (case map_of v key of
        None \<Rightarrow> Inl (Invalid_argument (''missing profile key: '' @ key))
      | Some s \<Rightarrow>
          sbind (stod underflows s) (\<lambda>(result, used).
            if used \<noteq> length s \<or> \<not> is_finite result then Inl (Invalid_argument (''invalid profile value: '' @ key))
            else Inr result))"

definition profile_u32 :: "(rat \<Rightarrow> bool) \<Rightarrow> profile_values \<Rightarrow> string \<Rightarrow> exn + u32" where
  "profile_u32 underflows v key =
     sbind (profile_number underflows v key) (\<lambda>result.
       if fp_less result (Finite 0) \<or> fp_less (Finite 4294967295) result \<or> \<not> fp_eq result (fp_floor result)
       then Inl (Invalid_argument (''invalid profile integer: '' @ key))
       else Inr (of_int (fp_truncate result)))"

definition profile_duration :: "(rat \<Rightarrow> bool) \<Rightarrow> int \<Rightarrow> profile_values \<Rightarrow> string \<Rightarrow> exn + duration" where
  "profile_duration underflows wrapped v key =
     sbind (profile_number underflows v key) (\<lambda>value.
       if fp_le value (Finite 0) \<or> fp_less (fp_of_int double (2 ^ 63 - 1)) value
       then Inl (Invalid_argument (''invalid profile duration: '' @ key))
       else Inr (if fp_truncate value \<ge> 2 ^ 63 then wrapped else fp_truncate value))"

text \<open>One line: \<open>values\<close> is a \<open>std::map\<close>, in which only whether a key is there matters below.\<close>
definition profile_line :: "string \<Rightarrow> profile_values \<Rightarrow> exn + profile_values" where
  "profile_line line v =
     (if line = [] \<or> hd line = CHR ''#'' then Inr v
      else
        (let key = takeWhile (\<lambda>c. c \<noteq> CHR ''='') line; n = length key in
         if n = length line \<or> n = 0 \<or> n + 1 = length line then Inl (Invalid_argument ''malformed ProxQP profile line'')
         else if map_of v key \<noteq> None then Inl (Invalid_argument (''duplicate ProxQP profile key: '' @ key))
         else Inr (v @ [(key, drop (n + 1) line)])))"

fun profile_lines :: "string list \<Rightarrow> profile_values \<Rightarrow> exn + profile_values" where
  "profile_lines [] v = Inr v"
| "profile_lines (line # lines) v = sbind (profile_line line v) (profile_lines lines)"

section \<open>The configuration\<close>

record ProxQPPolicyConfiguration =
  pc_profile :: ProxQPRuntimeProfile
  pc_config :: ProxQPSchedulerConfig

definition scalar_keys :: "string list" where
  "scalar_keys = [''schema_version'', ''calibration_id'', ''ttft_target_ns'', ''tpot_target_ns'', ''window_ns'',
     ''runtime_weight'', ''rho_prefill'', ''rho_decode'', ''boundary_buffer_z'', ''boundary_weight'', ''tier_count'']"

definition tier_fields :: "string list" where
  "tier_fields = [''context_min'', ''context_max'', ''tau_base_ns'', ''tau_prefill_ns_per_token'',
     ''tau_decode_ns_per_item'', ''runtime_margin_ns'', ''runtime_scale_ns'', ''token_capacity'', ''sequence_capacity'']"

definition tier_key :: "nat \<Rightarrow> string \<Rightarrow> string" where
  "tier_key i field = ''tier.'' @ show_nat i @ ''.'' @ field"

definition load_tier :: "(rat \<Rightarrow> bool) \<Rightarrow> profile_values \<Rightarrow> nat \<Rightarrow> exn + ProxQPRuntimeTier" where
  "load_tier underflows v i =
     (let number = (\<lambda>f. profile_number underflows v (tier_key i f)); u32 = (\<lambda>f. profile_u32 underflows v (tier_key i f)) in
      sbind (u32 ''context_min'') (\<lambda>lo.
      sbind (u32 ''context_max'') (\<lambda>hi.
      sbind (number ''tau_base_ns'') (\<lambda>base.
      sbind (number ''tau_prefill_ns_per_token'') (\<lambda>prefill.
      sbind (number ''tau_decode_ns_per_item'') (\<lambda>decode.
      sbind (number ''runtime_margin_ns'') (\<lambda>margin.
      sbind (number ''runtime_scale_ns'') (\<lambda>scale.
      sbind (u32 ''token_capacity'') (\<lambda>tokens.
      sbind (u32 ''sequence_capacity'') (\<lambda>sequences.
        Inr \<lparr>context_min = lo, context_max = hi, tau_base_ns = base, tau_prefill_ns_per_token = prefill,
          tau_decode_ns_per_item = decode, runtime_margin_ns = margin, runtime_scale_ns = scale,
          token_capacity = tokens, sequence_capacity = sequences\<rparr>))))))))))"

fun load_tiers :: "(rat \<Rightarrow> bool) \<Rightarrow> profile_values \<Rightarrow> nat \<Rightarrow> nat \<Rightarrow> exn + ProxQPRuntimeTier list" where
  "load_tiers underflows v i 0 = Inr []"
| "load_tiers underflows v i (Suc left) =
     sbind (load_tier underflows v i) (\<lambda>t. sbind (load_tiers underflows v (i + 1) left) (\<lambda>ts. Inr (t # ts)))"

definition allowed_keys :: "nat \<Rightarrow> string list" where
  "allowed_keys n = scalar_keys @ concat (map (\<lambda>i. map (tier_key i) tier_fields) [0..<n])"

text \<open>The keys of a \<open>std::map\<close> come in the order of their bytes.\<close>
fun string_less :: "string \<Rightarrow> string \<Rightarrow> bool" where
  "string_less s [] = False"
| "string_less [] (b # bs) = True"
| "string_less (a # as) (b # bs) \<longleftrightarrow> (of_char a :: nat) < of_char b \<or> (a = b \<and> string_less as bs)"

definition least_key :: "string list \<Rightarrow> string" where
  "least_key ks = foldl (\<lambda>m k. if string_less k m then k else m) (hd ks) ks"

definition load_scalars :: "(rat \<Rightarrow> bool) \<Rightarrow> int \<Rightarrow> profile_values \<Rightarrow> exn + ProxQPPolicyConfiguration" where
  "load_scalars underflows wrapped v =
     (let number = profile_number underflows v; span = profile_duration underflows wrapped v in
      sbind (profile_u32 underflows v ''schema_version'') (\<lambda>version.
      sbind (case map_of v ''calibration_id'' of
               None \<Rightarrow> Inl (Invalid_argument ''missing profile key: calibration_id'')
             | Some i \<Rightarrow> if i = [] then Inl (Invalid_argument ''missing profile key: calibration_id'') else Inr i) (\<lambda>ident.
      sbind (span ''ttft_target_ns'') (\<lambda>ttft.
      sbind (span ''tpot_target_ns'') (\<lambda>tpot.
      sbind (span ''window_ns'') (\<lambda>win.
      sbind (number ''runtime_weight'') (\<lambda>weight.
      sbind (number ''rho_prefill'') (\<lambda>rp.
      sbind (number ''rho_decode'') (\<lambda>rd.
      sbind (number ''boundary_buffer_z'') (\<lambda>buffer.
      sbind (number ''boundary_weight'') (\<lambda>boundary.
        Inr \<lparr>pc_profile = \<lparr>schema_version = version, calibration_id = ident, tiers = []\<rparr>,
          pc_config = default_proxqp_config\<lparr>pq_ttft_target := ttft, pq_tpot_target := tpot, pq_window := win,
            runtime_weight := weight, rho_prefill := rp, rho_decode := rd, boundary_buffer_z := buffer,
            boundary_weight := boundary\<rparr>\<rparr>)))))))))))"

definition load_proxqp_policy_configuration ::
  "(rat \<Rightarrow> bool) \<Rightarrow> int \<Rightarrow> string \<Rightarrow> string option \<Rightarrow> exn + ProxQPPolicyConfiguration" where
  "load_proxqp_policy_configuration underflows wrapped path input =
     (case input of
        None \<Rightarrow> Inl (Invalid_argument (''cannot open ProxQP policy profile: '' @ path))
      | Some text \<Rightarrow>
          sbind (profile_lines (split_by newline text) []) (\<lambda>v.
          sbind (profile_u32 underflows v ''tier_count'') (\<lambda>n.
          sbind (load_scalars underflows wrapped v) (\<lambda>result.
          sbind (load_tiers underflows v 0 (unat n)) (\<lambda>ts.
            (let unknown = filter (\<lambda>k. k \<notin> set (allowed_keys (unat n))) (map fst v) in
             if unknown \<noteq> [] then Inl (Invalid_argument (''unknown ProxQP profile key: '' @ least_key unknown))
             else Inr (result\<lparr>pc_profile := (pc_profile result)\<lparr>tiers := ts\<rparr>\<rparr>)))))))"

definition create_proxqp :: "(rat \<Rightarrow> bool) \<Rightarrow> int \<Rightarrow> bool \<Rightarrow> ModelProfile \<Rightarrow> HardwareProfile \<Rightarrow> string \<Rightarrow> string option \<Rightarrow> 'w \<Rightarrow>
    exn + 'w ProxQPScheduler" where
  "create_proxqp underflows wrapped garbage model hardware path input w =
     (if path = [] then Inl (Invalid_argument ''ProxQP scheduler requires --policy-config'')
      else
        sbind (load_proxqp_policy_configuration underflows wrapped path input) (\<lambda>loaded.
          (let ts = tiers (pc_profile loaded) in
           if ts = [] \<or> u64_of_u32 (context_max (last ts)) \<noteq> context_capacity model
           then Inl (Invalid_argument ''ProxQP profile context capacity does not match model'')
           else if \<exists>t\<in>set ts. u64_of_u32 (token_capacity t) \<noteq> batch_capacity model \<or>
                             u64_of_u32 (sequence_capacity t) \<noteq> max_sequences model
           then Inl (Invalid_argument ''ProxQP profile batch capacities do not match model'')
           else new_proxqp garbage model hardware (pc_profile loaded) (pc_config loaded) w)))"

end
