(* ===== verification/Measurements.thy ===== *)
theory Measurements
  imports Number_Parsing
begin

text \<open>
  The cache of measurements of the optimisation experiments
  (\<open>experiments/slo_optimization_testing/backend_cache.{hpp,cpp}\<close>): a file of comma-separated rows
  that is read whole and rewritten whole. The file is its text; what an attempt to take the lock
  gives and whether writing succeeds are arguments.
\<close>

section \<open>Rows\<close>

record Measurement =
  ms_key :: string
  observation_id :: string
  run_id :: string
  ms_timestamp_ns :: u64
  ms_prefill_tokens :: u32
  ms_decode_items :: u32
  ms_context_tokens :: u32
  ms_duration_ns :: u64
  ms_monotonic_ns :: u64
  execution_position :: u32
  sequence_count :: u32

definition cache_header :: string where
  "cache_header = ''key,observation_id,run_id,timestamp_ns,prefill_tokens,decode_items,context_tokens,duration_ns,monotonic_ns,execution_position,sequence_count''"

text \<open>\<open>row\<close> without the newline it ends with.\<close>
definition cache_row :: "Measurement \<Rightarrow> string" where
  "cache_row m =
     join '','' [ms_key m, observation_id m, run_id m, show_word (ms_timestamp_ns m), show_word (ms_prefill_tokens m),
       show_word (ms_decode_items m), show_word (ms_context_tokens m), show_word (ms_duration_ns m),
       show_word (ms_monotonic_ns m), show_word (execution_position m), show_word (sequence_count m)]"

definition number_field :: "string \<Rightarrow> exn + u64" where
  "number_field s = sbind (stoull_text ''stoull'' s) (\<lambda>(v, used). Inr v)"

text \<open>Any exception of a conversion becomes the same error, so their order does not show.\<close>
definition parse_fields :: "string list \<Rightarrow> (exn + u64) list \<Rightarrow> exn + Measurement" where
  "parse_fields f ns =
     (case ns of
        [Inr t, Inr p, Inr d, Inr c, Inr dur, Inr steady, Inr pos, Inr seqs] \<Rightarrow>
          Inr \<lparr>ms_key = f ! 0, observation_id = f ! 1, run_id = f ! 2, ms_timestamp_ns = t, ms_prefill_tokens = ucast p,
            ms_decode_items = ucast d, ms_context_tokens = ucast c, ms_duration_ns = dur, ms_monotonic_ns = steady,
            execution_position = ucast pos, sequence_count = ucast seqs\<rparr>
      | _ \<Rightarrow> Inl (Runtime_error ''corrupt cache value''))"

fun load_rows :: "string list \<Rightarrow> exn + Measurement list" where
  "load_rows [] = Inr []"
| "load_rows (line # lines) =
     (if line = cache_header then load_rows lines
      else
        (let f = split_by (CHR '','') line in
         if length f \<noteq> 11 then Inl (Runtime_error ''corrupt cache row'')
         else
           sbind (parse_fields f (map number_field (drop 3 f))) (\<lambda>m.
           sbind (load_rows lines) (\<lambda>ms. Inr (m # ms)))))"

text \<open>A file that cannot be opened reads as empty.\<close>
definition cache_load :: "string option \<Rightarrow> exn + Measurement list" where
  "cache_load file_text = (case file_text of None \<Rightarrow> Inr [] | Some text \<Rightarrow> load_rows (split_by newline text))"

section \<open>Appending\<close>

definition cache_text :: "Measurement list \<Rightarrow> string" where
  "cache_text ms = concat (map (\<lambda>line. line @ [newline]) (cache_header # map cache_row ms))"

text \<open>
  The lock directory is created at the first of 502 attempts that finds it free; an attempt may
  also throw, when the directory cannot be created at all.
\<close>
fun acquire_lock :: "(nat \<Rightarrow> exn + bool) \<Rightarrow> nat \<Rightarrow> nat \<Rightarrow> exn + nat" where
  "acquire_lock attempt tries 0 =
     sbind (attempt tries) (\<lambda>made. if made then Inr tries else Inl (Runtime_error ''cache lock timeout''))"
| "acquire_lock attempt tries (Suc left) =
     sbind (attempt tries) (\<lambda>made. if made then Inr tries else acquire_lock attempt (tries + 1) left)"

record Cache_Outcomes =
  directories_created :: "exn + unit"
  temporary_opened :: bool
  temporary_written :: bool
  renamed :: "exn + unit"

definition cache_append ::
  "(nat \<Rightarrow> exn + bool) \<Rightarrow> Cache_Outcomes \<Rightarrow> Measurement \<Rightarrow> string option \<Rightarrow> (exn + bool) \<times> string option" where
  "cache_append attempt io m file_text =
     (case acquire_lock attempt 0 501 of
        Inl e \<Rightarrow> (Inl e, file_text)
      | Inr _ \<Rightarrow>
          (case cache_load file_text of
             Inl e \<Rightarrow> (Inl e, file_text)
           | Inr existing \<Rightarrow>
               if \<exists>x\<in>set existing. ms_key x = ms_key m \<and> observation_id x = observation_id m then (Inr False, file_text)
               else
                 (case directories_created io of
                    Inl e \<Rightarrow> (Inl e, file_text)
                  | Inr _ \<Rightarrow>
                      if \<not> temporary_opened io then (Inl (Runtime_error ''cannot open cache temporary''), file_text)
                      else if \<not> temporary_written io then (Inl (Runtime_error ''cannot write cache temporary''), file_text)
                      else
                        (case renamed io of
                           Inl e \<Rightarrow> (Inl e, file_text)
                         | Inr _ \<Rightarrow> (Inr True, Some (cache_text (existing @ [m])))))))"

section \<open>What is appended is loaded\<close>

text \<open>Texts that survive: the code writes them without quoting.\<close>
definition storable :: "Measurement \<Rightarrow> bool" where
  "storable m \<longleftrightarrow> list_all (\<lambda>s. CHR '','' \<notin> set s \<and> newline \<notin> set s) [ms_key m, observation_id m, run_id m]"

lemma show_nat_chars: "\<not> is_digit c \<Longrightarrow> c \<notin> set (show_nat n)"
  using show_nat_digits [of n] unfolding list_all_iff by blast

lemma show_word_chars [simp]: "CHR '','' \<notin> set (show_word w)" "newline \<notin> set (show_word w)" "show_word w \<noteq> []"
  by (simp_all add: show_word_def show_nat_chars is_digit_def)

lemma number_field_show: "number_field (show_word (w :: u64)) = Inr w"
proof -
  have "unat w < 2 ^ LENGTH(64)" by (rule unsigned_less)
  then show ?thesis using stoull_show [of "unat w" "''stoull''"] by (simp add: number_field_def show_word_def)
qed

lemma number_field_show32: "number_field (show_word (w :: u32)) = Inr (ucast w)"
proof -
  have "unat w < 2 ^ LENGTH(32)" by (rule unsigned_less)
  then have "unat w < 2 ^ 64" by simp
  then show ?thesis
    using stoull_show [of "unat w" "''stoull''"] by (simp add: number_field_def show_word_def)
qed

lemma narrow_wide [simp]: "ucast (ucast (w :: u32) :: u64) = w"
  by transfer simp

lemma split_join:
  "ps \<noteq> [] \<Longrightarrow> (\<And>p. p \<in> set ps \<Longrightarrow> CHR '','' \<notin> set p) \<Longrightarrow> last ps \<noteq> [] \<Longrightarrow> split_by (CHR '','') (join '','' ps) = ps"
proof (induction ps)
  case (Cons p ps)
  show ?case
  proof (cases ps)
    case Nil
    then show ?thesis using Cons.prems split_by_last [of "CHR '',''" p] by simp
  next
    case (Cons q qs)
    then have "join '','' (p # ps) = p @ CHR '','' # join '','' ps" by simp
    then show ?thesis using Cons.IH Cons Cons.prems split_by_part [of "CHR '',''" p] by simp
  qed
qed simp

lemma split_row:
  "storable m \<Longrightarrow> split_by (CHR '','') (cache_row m) =
     [ms_key m, observation_id m, run_id m, show_word (ms_timestamp_ns m), show_word (ms_prefill_tokens m),
       show_word (ms_decode_items m), show_word (ms_context_tokens m), show_word (ms_duration_ns m),
       show_word (ms_monotonic_ns m), show_word (execution_position m), show_word (sequence_count m)]"
  unfolding cache_row_def by (rule split_join) (auto simp: storable_def)

lemma split_header: "length (split_by (CHR '','') cache_header) = 11 \<and> hd (split_by (CHR '','') cache_header) = ''key'' \<and>
    split_by (CHR '','') cache_header ! 3 = ''timestamp_ns''"
  unfolding cache_header_def by (simp add: split_by.simps)

lemma row_not_header: "storable m \<Longrightarrow> cache_row m \<noteq> cache_header"
proof
  assume m: "storable m" "cache_row m = cache_header"
  then have "show_word (ms_timestamp_ns m) = ''timestamp_ns''" using split_row [OF m(1)] split_header by simp
  moreover have "CHR ''t'' \<notin> set (show_word (ms_timestamp_ns m))" by (simp add: show_word_def show_nat_chars is_digit_def)
  ultimately show False by simp
qed

lemma load_row:
  assumes "storable m"
  shows "load_rows (cache_row m # lines) = sbind (load_rows lines) (\<lambda>ms. Inr (m # ms))"
proof -
  have "parse_fields (split_by (CHR '','') (cache_row m)) (map number_field (drop 3 (split_by (CHR '','') (cache_row m)))) = Inr m"
    unfolding split_row [OF assms] by (cases m) (simp add: number_field_show number_field_show32 parse_fields_def)
  then show ?thesis using row_not_header [OF assms] by (simp add: split_row [OF assms])
qed

lemma load_stored: "list_all storable ms \<Longrightarrow> load_rows (map cache_row ms) = Inr ms"
  by (induction ms) (simp_all add: load_row del: load_rows.simps(2))

lemma row_no_newline: "storable m \<Longrightarrow> newline \<notin> set (cache_row m)"
  by (simp add: cache_row_def storable_def)

lemma load_cache_text:
  assumes "list_all storable ms"
  shows "cache_load (Some (cache_text ms)) = Inr ms"
proof -
  have "newline \<notin> set p" if "p \<in> set (cache_header # map cache_row ms)" for p
    using that assms row_no_newline by (auto simp: list_all_iff cache_header_def)
  then have "split_by newline (cache_text ms) = cache_header # map cache_row ms"
    unfolding cache_text_def by (rule split_by_lines)
  then show ?thesis using load_stored [OF assms] by (simp add: cache_load_def)
qed

text \<open>
  After a successful append to a cache that holds storable rows, loading it gives the old
  measurements followed by the new one; a measurement whose key and observation are in the cache
  is not added again, and any failure leaves the file as it was.
\<close>
lemma append_then_load:
  assumes "list_all storable ms" "storable m" "cache_load file_text = Inr ms" "cache_append attempt io m file_text = (r, file_text')"
  shows "(r = Inr True \<longrightarrow> cache_load file_text' = Inr (ms @ [m]) \<and>
            (\<forall>x\<in>set ms. \<not> (ms_key x = ms_key m \<and> observation_id x = observation_id m))) \<and>
         (r \<noteq> Inr True \<longrightarrow> file_text' = file_text)"
proof -
  have "cache_load (Some (cache_text (ms @ [m]))) = Inr (ms @ [m])" using assms(1,2) by (intro load_cache_text) simp
  then show ?thesis using assms(3,4) by (auto simp: cache_append_def split: sum.splits if_splits)
qed

lemma append_then_load_witness:
  "let m = \<lparr>ms_key = ''k'', observation_id = ''o'', run_id = ''r'', ms_timestamp_ns = 1, ms_prefill_tokens = 2,
       ms_decode_items = 3, ms_context_tokens = 4, ms_duration_ns = 5, ms_monotonic_ns = 6, execution_position = 7,
       sequence_count = 8\<rparr>;
     io = \<lparr>directories_created = Inr (), temporary_opened = True, temporary_written = True, renamed = Inr ()\<rparr> in
   cache_load (snd (cache_append (\<lambda>n. Inr (n = 3)) io m None)) = Inr [m]"
proof -
  define m where "m = \<lparr>ms_key = ''k'', observation_id = ''o'', run_id = ''r'', ms_timestamp_ns = 1, ms_prefill_tokens = 2,
       ms_decode_items = 3, ms_context_tokens = 4, ms_duration_ns = 5, ms_monotonic_ns = 6, execution_position = 7,
       sequence_count = 8\<rparr>"
  define io where "io = \<lparr>directories_created = Inr (), temporary_opened = True, temporary_written = True, renamed = Inr ()\<rparr>"
  have "storable m" by (simp add: m_def storable_def)
  moreover have c: "cache_append (\<lambda>n. Inr (n = 3)) io m None = (Inr True, Some (cache_text [m]))"
    by (simp add: cache_append_def io_def cache_load_def eval_nat_numeral)
  ultimately have "cache_load (Some (cache_text [m])) = Inr ([] @ [m])"
    using append_then_load [of "[]" m None "\<lambda>n. Inr (n = 3)" io "Inr True" "Some (cache_text [m])"] by (simp add: cache_load_def)
  then show ?thesis using c by (simp add: Let_def flip: m_def io_def)
qed

end
