(* ===== verification/Experiment.thy ===== *)
theory Experiment
  imports ProxQP
begin

text \<open>
  The problem instances and scores of the optimisation experiments
  (\<open>experiments/slo_optimization_testing/experiment.{hpp,cpp}\<close>). Arithmetic is that of \<open>double\<close>;
  \<open>pow\<close> is the function of the parameter \<open>N\<close>.
\<close>

section \<open>Records\<close>

record ProblemInstance =
  pi_id :: u64
  pi_token_budget :: fp
  pi_sequence_capacity :: fp
  prefill_available :: fp
  decode_available :: fp
  chunk_size :: fp
  memory_available :: fp
  memory_base :: fp
  memory_prefill :: fp
  memory_decode :: fp
  runtime_base :: fp
  runtime_prefill :: fp
  runtime_decode :: fp
  ttft_headroom :: fp
  tpot_headroom :: fp
  ttft_scale :: fp
  tpot_scale :: fp
  batch_duration_scale :: fp
  fixed_margin_z :: fp
  risk_buffer_z :: fp
  risk_weight :: fp
  uncertainty_kappa :: fp
  uncertainty_base :: fp
  uncertainty_prefill :: fp
  uncertainty_decode :: fp
  covariance_kappa :: fp
  covariance_factor_constant :: "fp list"
  covariance_factor_prefill :: "fp list"
  covariance_factor_decode :: "fp list"
  covariance_residual :: fp
  reward_prefill :: fp
  reward_decode :: fp
  pi_runtime_weight :: fp
  pi_rho_prefill :: fp
  pi_rho_decode :: fp
  pi_previous_prefill :: fp
  pi_previous_decode :: fp

abbreviation dec :: "rat \<Rightarrow> fp" where "dec \<equiv> to_fp double" \<comment> \<open>a literal\<close>

definition default_instance :: ProblemInstance where
  "default_instance = \<lparr>pi_id = 0, pi_token_budget = Finite 512, pi_sequence_capacity = Finite 64,
     prefill_available = Finite 512, decode_available = Finite 64, chunk_size = Finite 128, memory_available = Finite 1,
     memory_base = Finite 0, memory_prefill = dec (5 / 10000), memory_decode = dec (2 / 1000), runtime_base = dec (5 / 100),
     runtime_prefill = dec (1 / 1000), runtime_decode = dec (1 / 100), ttft_headroom = Finite 1, tpot_headroom = Finite 1,
     ttft_scale = dec (1 / 10), tpot_scale = dec (1 / 10), batch_duration_scale = Finite 1, fixed_margin_z = dec (2 / 10),
     risk_buffer_z = Finite 1, risk_weight = dec (25 / 100), uncertainty_kappa = Finite 2, uncertainty_base = dec (5 / 1000),
     uncertainty_prefill = dec (1 / 10000), uncertainty_decode = dec (1 / 1000), covariance_kappa = Finite 2,
     covariance_factor_constant = [dec (5 / 1000), Finite 0, Finite 0, Finite 0],
     covariance_factor_prefill = [Finite 0, dec (1 / 10000), Finite 0, Finite 0],
     covariance_factor_decode = [Finite 0, Finite 0, dec (1 / 1000), Finite 0], covariance_residual = dec (5 / 1000),
     reward_prefill = Finite 1, reward_decode = Finite 1, pi_runtime_weight = dec (1 / 10), pi_rho_prefill = dec (2 / 10),
     pi_rho_decode = dec (2 / 10), pi_previous_prefill = Finite 0, pi_previous_decode = Finite 0\<rparr>"

record ContinuousSolution =
  cs_p :: fp
  cs_d :: fp

record ExpCandidate =
  prefill_tokens :: u32
  decode_items :: u32
  conservative_runtime_ns :: fp
  memory_bytes :: u64

record TimedObservation =
  to_timestamp_ns :: u64
  to_value_ns :: fp

record PrefillRequest =
  pr_id :: u32
  pr_arrival_ns :: u64
  remaining_tokens :: u32
  allocated_tokens :: u32

record DecodeRequest =
  de_id :: u32
  de_last_token_ns :: u64

record Snapshot =
  sn_now_ns :: u64
  sn_window_ns :: u64
  sn_ttft_target_ns :: fp
  sn_tpot_target_ns :: fp
  historical_ttft :: "TimedObservation list"
  historical_tpot :: "TimedObservation list"
  sn_prefills :: "PrefillRequest list"
  sn_decodes :: "DecodeRequest list"
  sn_previous_prefill :: fp
  sn_previous_decode :: fp

record OneStepScore =
  ttft_p99_ns :: fp
  tpot_p99_ns :: fp
  sc_objective :: fp
  ttft_satisfied :: bool
  tpot_satisfied :: bool
  completed_ttft :: nat
  censored_ttft :: nat
  completed_tpot :: nat
  censored_tpot :: nat

definition of_u64 :: "u64 \<Rightarrow> fp" where "of_u64 n = fp_of_int double (uint n)"
definition of_u32 :: "u32 \<Rightarrow> fp" where "of_u32 n = fp_of_int double (uint n)"

definition same_numbers :: "fp list \<Rightarrow> fp list \<Rightarrow> bool" where
  "same_numbers xs ys \<longleftrightarrow> list_all2 fp_eq xs ys"

definition instance_eq :: "ProblemInstance \<Rightarrow> ProblemInstance \<Rightarrow> bool" where
  "instance_eq a b \<longleftrightarrow> pi_id a = pi_id b \<and>
     same_numbers
       ([pi_token_budget a, pi_sequence_capacity a, prefill_available a, decode_available a, chunk_size a, memory_available a,
          memory_base a, memory_prefill a, memory_decode a, runtime_base a, runtime_prefill a, runtime_decode a,
          ttft_headroom a, tpot_headroom a, ttft_scale a, tpot_scale a, batch_duration_scale a, fixed_margin_z a,
          risk_buffer_z a, risk_weight a, uncertainty_kappa a, uncertainty_base a, uncertainty_prefill a,
          uncertainty_decode a, covariance_kappa a])
       ([pi_token_budget b, pi_sequence_capacity b, prefill_available b, decode_available b, chunk_size b, memory_available b,
          memory_base b, memory_prefill b, memory_decode b, runtime_base b, runtime_prefill b, runtime_decode b,
          ttft_headroom b, tpot_headroom b, ttft_scale b, tpot_scale b, batch_duration_scale b, fixed_margin_z b,
          risk_buffer_z b, risk_weight b, uncertainty_kappa b, uncertainty_base b, uncertainty_prefill b,
          uncertainty_decode b, covariance_kappa b]) \<and>
     same_numbers (covariance_factor_constant a) (covariance_factor_constant b) \<and>
     same_numbers (covariance_factor_prefill a) (covariance_factor_prefill b) \<and>
     same_numbers (covariance_factor_decode a) (covariance_factor_decode b) \<and>
     same_numbers
       [covariance_residual a, reward_prefill a, reward_decode a, pi_runtime_weight a, pi_rho_prefill a, pi_rho_decode a,
         pi_previous_prefill a, pi_previous_decode a]
       [covariance_residual b, reward_prefill b, reward_decode b, pi_runtime_weight b, pi_rho_prefill b, pi_rho_decode b,
         pi_previous_prefill b, pi_previous_decode b]"

section \<open>Percentiles and headroom\<close>

definition rank_at :: "fp \<Rightarrow> nat \<Rightarrow> nat" where
  "rank_at q n = max 1 (nat (fp_truncate (fp_ceiling (dmul q (fp_of_int double (int n)))))) - 1"

definition nearest_rank_at :: "fp list \<Rightarrow> fp \<Rightarrow> fp" where
  "nearest_rank_at values quantile =
     (if values = [] then Finite 0
      else stable_sort fp_less values ! rank_at (fp_clamp quantile (Finite 0) (Finite 1)) (length values))"

definition in_window :: "u64 \<Rightarrow> u64 \<Rightarrow> TimedObservation list \<Rightarrow> fp list" where
  "in_window window moment history = map to_value_ns (filter (\<lambda>v. to_timestamp_ns v + window \<ge> moment) history)"

definition sn_percentile :: "Snapshot \<Rightarrow> bool \<Rightarrow> fp \<Rightarrow> fp" where
  "sn_percentile s ttft delay =
     (let fixed = in_window (sn_window_ns s) (sn_now_ns s) (if ttft then historical_ttft s else historical_tpot s);
          ages = (if ttft then map (\<lambda>r. of_u64 (sn_now_ns s - pr_arrival_ns r)) (sn_prefills s)
                  else map (\<lambda>r. of_u64 (sn_now_ns s - de_last_token_ns r)) (sn_decodes s)) in
      nearest_rank_at (fixed @ map (\<lambda>age. dadd age delay) ages) (dec (99 / 100)))"

fun halve :: "(fp \<Rightarrow> bool) \<Rightarrow> nat \<Rightarrow> fp \<Rightarrow> fp \<Rightarrow> fp" where
  "halve meets 0 low high = low"
| "halve meets (Suc k) low high =
     (let mid = dmul (Finite (1 / 2)) (dadd low high) in
      if meets mid then halve meets k mid high else halve meets k low mid)"

definition sliding_window_headroom :: "Snapshot \<Rightarrow> bool \<Rightarrow> fp" where
  "sliding_window_headroom s ttft =
     (let target = (if ttft then sn_ttft_target_ns s else sn_tpot_target_ns s) in
      if fp_less target (sn_percentile s ttft (Finite 0)) then Finite 0
      else halve (\<lambda>d. fp_le (sn_percentile s ttft d) target) 80 (Finite 0) (fp_max (Finite 1) target))"

definition standardized_runtime_slack :: "fp \<Rightarrow> fp \<Rightarrow> fp \<Rightarrow> exn + fp" where
  "standardized_runtime_slack runtime head scale =
     (if \<not> fp_less (Finite 0) scale then Inl (Invalid_argument ''standardization scale must be positive'')
      else Inr (ddiv (dsub runtime head) scale))"

section \<open>Projection\<close>

definition projection_distance :: "ContinuousSolution \<Rightarrow> fp \<Rightarrow> fp \<Rightarrow> ExpCandidate \<Rightarrow> fp" where
  "projection_distance target tb sc c =
     (let dp = ddiv (dsub (of_u32 (prefill_tokens c)) (cs_p target)) tb;
          dd = ddiv (dsub (of_u32 (decode_items c)) (cs_d target)) sc in
      dadd (dmul dp dp) (dmul dd dd))"

text \<open>Comparison of tuples: component by component, equal where neither is less.\<close>
definition nearer :: "ContinuousSolution \<Rightarrow> fp \<Rightarrow> fp \<Rightarrow> ExpCandidate \<Rightarrow> ExpCandidate \<Rightarrow> bool" where
  "nearer target tb sc a b \<longleftrightarrow>
     (let da = projection_distance target tb sc a; db = projection_distance target tb sc b;
          ra = conservative_runtime_ns a; rb = conservative_runtime_ns b;
          na = - uint (prefill_tokens a + decode_items a); nb = - uint (prefill_tokens b + decode_items b) in
      if fp_less da db then True else if fp_less db da then False
      else if fp_less ra rb then True else if fp_less rb ra then False
      else if na \<noteq> nb then na < nb
      else if prefill_tokens a \<noteq> prefill_tokens b then prefill_tokens a < prefill_tokens b
      else decode_items a < decode_items b)"

text \<open>\<open>std::min_element\<close>: the first of the smallest.\<close>
definition project_nearest :: "ContinuousSolution \<Rightarrow> ExpCandidate list \<Rightarrow> fp \<Rightarrow> fp \<Rightarrow> ExpCandidate option" where
  "project_nearest target candidates tb sc =
     (case candidates of [] \<Rightarrow> None
      | c # cs \<Rightarrow> Some (foldl (\<lambda>m y. if nearer target tb sc y m then y else m) c cs))"

section \<open>Scores\<close>

text \<open>Each prefill in turn takes what is left: how many complete, how many do not.\<close>
fun serve_prefills :: "u32 \<Rightarrow> PrefillRequest list \<Rightarrow> nat \<times> nat" where
  "serve_prefills remaining [] = (0, 0)"
| "serve_prefills remaining (r # rs) =
     (let served = min remaining (allocated_tokens r); (done, censored) = serve_prefills (remaining - served) rs in
      if served \<ge> remaining_tokens r then (done + 1, censored) else (done, censored + 1))"

fun serve_decodes :: "u32 \<Rightarrow> DecodeRequest list \<Rightarrow> nat \<times> nat" where
  "serve_decodes remaining [] = (0, 0)"
| "serve_decodes remaining (r # rs) =
     (if remaining \<noteq> 0 then (case serve_decodes (remaining - 1) rs of (done, censored) \<Rightarrow> (done + 1, censored))
      else (case serve_decodes remaining rs of (done, censored) \<Rightarrow> (done, censored + 1)))"

definition step_objective :: "Numerics \<Rightarrow> fp \<Rightarrow> fp \<Rightarrow> fp \<Rightarrow> fp \<Rightarrow> fp \<Rightarrow> fp \<Rightarrow> fp \<Rightarrow> fp \<Rightarrow> fp \<Rightarrow> fp \<Rightarrow> fp \<Rightarrow> fp \<Rightarrow> fp \<Rightarrow> fp" where
  "step_objective N gp gd wt rp rd batch_scale tb sc previous_p previous_d p d runtime =
     dadd (dadd (dadd (dsub (ddiv (dmul (fp_neg gp) p) tb) (ddiv (dmul gd d) sc)) (ddiv (dmul wt runtime) batch_scale))
           (dmul (dmul (Finite (1 / 2)) rp) (c_pow N (ddiv (dsub p previous_p) tb) (Finite 2))))
         (dmul (dmul (Finite (1 / 2)) rd) (c_pow N (ddiv (dsub d previous_d) sc) (Finite 2)))"

definition score_one_step ::
  "Numerics \<Rightarrow> Snapshot \<Rightarrow> ExpCandidate \<Rightarrow> u64 \<Rightarrow> fp \<Rightarrow> fp \<Rightarrow> fp \<Rightarrow> fp \<Rightarrow> fp \<Rightarrow> fp \<Rightarrow> fp \<Rightarrow> fp \<Rightarrow> OneStepScore" where
  "score_one_step N s c duration_ns tb sc gp gd wt rp rd batch_scale =
     (let finish = sn_now_ns s + duration_ns;
          ttft = in_window (sn_window_ns s) finish (historical_ttft s) @ map (\<lambda>r. of_u64 (finish - pr_arrival_ns r)) (sn_prefills s);
          tpot = in_window (sn_window_ns s) finish (historical_tpot s) @ map (\<lambda>r. of_u64 (finish - de_last_token_ns r)) (sn_decodes s);
          (ct, nt) = serve_prefills (prefill_tokens c) (sn_prefills s); (cd, nd) = serve_decodes (decode_items c) (sn_decodes s);
          pt = nearest_rank_at ttft (dec (99 / 100)); pd = nearest_rank_at tpot (dec (99 / 100)) in
      \<lparr>ttft_p99_ns = pt, tpot_p99_ns = pd,
       sc_objective = step_objective N gp gd wt rp rd batch_scale tb sc (sn_previous_prefill s) (sn_previous_decode s)
         (of_u32 (prefill_tokens c)) (of_u32 (decode_items c)) (of_u64 duration_ns),
       ttft_satisfied = fp_le pt (sn_ttft_target_ns s), tpot_satisfied = fp_le pd (sn_tpot_target_ns s),
       completed_ttft = ct, censored_ttft = nt, completed_tpot = cd, censored_tpot = nd\<rparr>)"

definition qp_objective :: "Numerics \<Rightarrow> ProblemInstance \<Rightarrow> fp \<Rightarrow> fp \<Rightarrow> fp \<Rightarrow> fp" where
  "qp_objective N i p d runtime =
     dadd (dadd (dadd (dsub (ddiv (dmul (fp_neg (reward_prefill i)) p) (pi_token_budget i))
                            (ddiv (dmul (reward_decode i) d) (pi_sequence_capacity i)))
                      (ddiv (dmul (pi_runtime_weight i) runtime) (batch_duration_scale i)))
           (dmul (dmul (Finite (1 / 2)) (pi_rho_prefill i))
              (c_pow N (ddiv (dsub p (pi_previous_prefill i)) (pi_token_budget i)) (Finite 2))))
         (dmul (dmul (Finite (1 / 2)) (pi_rho_decode i))
            (c_pow N (ddiv (dsub d (pi_previous_decode i)) (pi_sequence_capacity i)) (Finite 2)))"

definition resource_feasible :: "ProblemInstance \<Rightarrow> fp \<Rightarrow> fp \<Rightarrow> fp \<Rightarrow> bool" where
  "resource_feasible i p d runtime \<longleftrightarrow>
     (let eps = dec (1 / 10 ^ 8) in
      fp_le (fp_neg eps) p \<and> fp_le (fp_neg eps) d \<and> fp_le p (dadd (prefill_available i) eps) \<and>
      fp_le d (dadd (decode_available i) eps) \<and> fp_le (dadd p d) (dadd (pi_token_budget i) eps) \<and>
      fp_le (dadd d (ddiv p (chunk_size i))) (dadd (pi_sequence_capacity i) eps) \<and>
      fp_le (dadd (dadd (memory_base i) (dmul (memory_prefill i) p)) (dmul (memory_decode i) d))
        (dadd (memory_available i) eps) \<and>
      fp_le runtime (dadd (fp_min (ttft_headroom i) (tpot_headroom i)) eps))"

end
