(* ===== verification/Profile_Export.thy ===== *)
theory Profile_Export
  imports ProxQP_Profile Measurements Experiment
begin

text \<open>
  The command line and the \<open>export-profile\<close> mode of the optimisation experiments
  (\<open>experiments/slo_optimization_testing/main.cpp\<close>): from cached measurements to the profile file that
  the ProxQP policy loads. The linear algebra of Eigen is the record \<open>Eigen\<close> of parameters.
\<close>

unbundle bit_operations_syntax

section \<open>Options\<close>

type_synonym options = "string \<Rightarrow> string option"

fun args :: "string list \<Rightarrow> options \<Rightarrow> exn + options" where
  "args [] out = Inr out"
| "args [k] out = Inl (Invalid_argument ''expected --key value'')"
| "args (k # v # rest) out =
     (if take 2 k \<noteq> ''--'' then Inl (Invalid_argument ''expected --key value'') else args rest (out(drop 2 k \<mapsto> v)))"

definition need :: "options \<Rightarrow> string \<Rightarrow> exn + string" where
  "need a k = (case a k of None \<Rightarrow> Inl (Invalid_argument (''missing --'' @ k)) | Some v \<Rightarrow> Inr v)"

definition number_option :: "options \<Rightarrow> string \<Rightarrow> u64 \<Rightarrow> exn + u64" where
  "number_option a k d = (case a k of None \<Rightarrow> Inr d | Some v \<Rightarrow> number_field v)"

definition real_option :: "(rat \<Rightarrow> bool) \<Rightarrow> options \<Rightarrow> string \<Rightarrow> fp \<Rightarrow> exn + fp" where
  "real_option underflows a k fallback =
     (case a k of None \<Rightarrow> Inr fallback | Some v \<Rightarrow> sbind (stod underflows v) (\<lambda>(x, used). Inr x))"

fun all_numbers :: "string list \<Rightarrow> exn + u32 list" where
  "all_numbers [] = Inr []"
| "all_numbers (part # parts) =
     sbind (stoull_text ''stoul'' part) (\<lambda>(v, used). sbind (all_numbers parts) (\<lambda>vs. Inr (ucast v # vs)))"

definition number_list :: "options \<Rightarrow> string \<Rightarrow> string \<Rightarrow> u32 \<Rightarrow> exn + u32 list" where
  "number_list a list_key single_key fallback =
     (let value = (case a list_key of Some v \<Rightarrow> v
                   | None \<Rightarrow> (case a single_key of Some v \<Rightarrow> v | None \<Rightarrow> show_word fallback)) in
      all_numbers (split_by (CHR '','') value))"

section \<open>Identities\<close>

fun show_hex :: "nat \<Rightarrow> string" where
  "show_hex n = (if n < 16 then [hex_char n] else show_hex (n div 16) @ [hex_char (n mod 16)])"

declare show_hex.simps [simp del]

definition fingerprint_step :: "u64 \<Rightarrow> char \<Rightarrow> u64" where
  "fingerprint_step h c = (h XOR of_char c) * 1099511628211"

definition file_fingerprint :: "string option \<Rightarrow> exn + string" where
  "file_fingerprint file_text =
     (case file_text of
        None \<Rightarrow> Inl (Runtime_error ''cannot hash model'')
      | Some s \<Rightarrow> Inr (show_hex (unat (foldl fingerprint_step 1469598103934665603 s))))"

definition begins_with :: "string \<Rightarrow> string \<Rightarrow> bool" where
  "begins_with p s \<longleftrightarrow> take (length p) s = p"

definition cohort_identity :: "string \<Rightarrow> string" where
  "cohort_identity key =
     foldl (\<lambda>result part.
         if list_ex (\<lambda>p. begins_with p part) [''p='', ''d='', ''ctx='', ''seq='', ''kv='']
         then result
         else (if result = [] then [] else result @ ''|'') @ part)
       [] (split_by (CHR ''|'') key)"

fun contains :: "string \<Rightarrow> string \<Rightarrow> bool" where
  "contains p [] \<longleftrightarrow> p = []"
| "contains p (c # cs) \<longleftrightarrow> begins_with p (c # cs) \<or> contains p cs"

record BuildIds =
  collector_id :: string
  llama_rev :: string
  slo_build_type :: string
  qs_rev :: string

definition compatible_cohorts :: "BuildIds \<Rightarrow> string list \<Rightarrow> string list" where
  "compatible_cohorts b cohorts =
     (let now_built = filter (\<lambda>c. contains (''collector='' @ collector_id b) c \<and> contains (''llama='' @ llama_rev b) c \<and>
                          contains (''build='' @ slo_build_type b) c) cohorts in
      if now_built = [] \<and> length cohorts = 1 then cohorts else now_built)"

section \<open>Fitting\<close>

record Eigen =
  squared_norm :: "fp list \<Rightarrow> fp"
  qr_rank :: "fp list list \<Rightarrow> nat"
  qr_solve :: "fp list list \<Rightarrow> fp list \<Rightarrow> fp list"
  mat_vec :: "fp list list \<Rightarrow> fp list \<Rightarrow> fp list"
  e_sqrt :: "fp \<Rightarrow> fp"

definition vec_sub :: "fp list \<Rightarrow> fp list \<Rightarrow> fp list" where
  "vec_sub a b = map2 dsub a b"

definition fit_columns :: "nat \<Rightarrow> nat list" where
  "fit_columns columns_mask = filter (\<lambda>c. bit columns_mask c) [0..<3]"

text \<open>The fitted values at their columns, zero elsewhere.\<close>
definition place :: "nat list \<Rightarrow> fp list \<Rightarrow> fp list" where
  "place columns fitted = foldl (\<lambda>v k. v[columns ! k := fitted ! k]) (replicate 3 (Finite 0)) [0..<length columns]"

definition fit_step :: "Eigen \<Rightarrow> fp list list \<Rightarrow> fp list \<Rightarrow> fp list \<times> fp \<Rightarrow> nat \<Rightarrow> fp list \<times> fp" where
  "fit_step E x y = (\<lambda>(best, best_error) columns_mask.
     let columns = fit_columns columns_mask; active = map (\<lambda>row. map (\<lambda>c. row ! c) columns) x in
     if qr_rank E active \<noteq> length columns then (best, best_error)
     else
       (let fitted = qr_solve E active y in
        if list_ex (\<lambda>v. \<not> is_finite v \<or> fp_less v (Finite 0)) fitted then (best, best_error)
        else
          (let candidate = place columns fitted; error = squared_norm E (vec_sub y (mat_vec E x candidate)) in
           if fp_less error best_error then (candidate, error) else (best, best_error))))"

definition nonnegative_fit :: "Eigen \<Rightarrow> fp list list \<Rightarrow> fp list \<Rightarrow> fp list" where
  "nonnegative_fit E x y = fst (foldl (fit_step E x y) (replicate 3 (Finite 0), squared_norm E y) [1..<8])"

record FittedTier =
  ft_context :: u32
  ft_beta :: "fp list"
  ft_margin :: fp
  ft_scale :: fp

definition fit_tier :: "Eigen \<Rightarrow> fp \<Rightarrow> u32 \<Rightarrow> Measurement list \<Rightarrow> Measurement list \<Rightarrow> exn + FittedTier" where
  "fit_tier E quantile ctx training calibration =
     (if length training < 3 \<or> calibration = []
      then Inl (Runtime_error ''insufficient profile observations for context tier'')
      else
        (let x = map (\<lambda>m. [Finite 1, of_u32 (ms_prefill_tokens m), of_u32 (ms_decode_items m)]) training;
             y = map (\<lambda>m. of_u64 (ms_duration_ns m)) training in
         if qr_rank E x \<noteq> 3 then Inl (Runtime_error ''profile regression design is rank deficient'')
         else
           (let beta = nonnegative_fit E x y in
            if list_ex (\<lambda>v. \<not> is_finite v) beta \<or> fp_le (beta ! 0) (Finite 0)
            then Inl (Runtime_error ''profile regression produced invalid coefficients'')
            else
              (let residual = vec_sub y (mat_vec E x beta);
                   errors = map (\<lambda>m. dsub (dsub (dsub (of_u64 (ms_duration_ns m)) (beta ! 0))
                              (dmul (beta ! 1) (of_u32 (ms_prefill_tokens m))))
                              (dmul (beta ! 2) (of_u32 (ms_decode_items m)))) calibration in
               Inr \<lparr>ft_context = ctx, ft_beta = beta,
                 ft_margin = fp_max (Finite 0) (nearest_rank_at errors quantile),
                 ft_scale = fp_max (Finite 1)
                   (e_sqrt E (ddiv (squared_norm E residual) (fp_of_int double (int (length residual)))))\<rparr>))))"

fun fit_tiers :: "Eigen \<Rightarrow> fp \<Rightarrow> Measurement list \<Rightarrow> Measurement list \<Rightarrow> u32 list \<Rightarrow> exn + FittedTier list" where
  "fit_tiers E quantile training calibration [] = Inr []"
| "fit_tiers E quantile training calibration (ctx # rest) =
     sbind (fit_tier E quantile ctx (filter (\<lambda>m. ms_context_tokens m = ctx) training)
              (filter (\<lambda>m. ms_context_tokens m = ctx) calibration))
       (\<lambda>t. sbind (fit_tiers E quantile training calibration rest) (\<lambda>ts. Inr (t # ts)))"

section \<open>The export\<close>

text \<open>Sorted by run and observation, within a key.\<close>
definition observation_before :: "Measurement \<Rightarrow> Measurement \<Rightarrow> bool" where
  "observation_before l r \<longleftrightarrow>
     string_less (run_id l) (run_id r) \<or> (run_id l = run_id r \<and> string_less (observation_id l) (observation_id r))"

definition sorted_distinct :: "string list \<Rightarrow> string list" where
  "sorted_distinct ks = stable_sort string_less (remdups ks)"

text \<open>The measurements of each key, in the order of the keys.\<close>
definition cells :: "Measurement list \<Rightarrow> Measurement list list" where
  "cells rows =
     map (\<lambda>k. stable_sort observation_before (filter (\<lambda>m. ms_key m = k) rows)) (sorted_distinct (map ms_key rows))"

definition part_of :: "(nat \<Rightarrow> bool) \<Rightarrow> Measurement list list \<Rightarrow> Measurement list" where
  "part_of chosen cs = concat (map (\<lambda>c. map ((!) c) (filter (\<lambda>i. chosen (i mod 10)) [0..<length c])) cs)"

definition contexts_of :: "Measurement list \<Rightarrow> u32 list" where
  "contexts_of ms = stable_sort (<) (remdups (map ms_context_tokens ms))"

definition context_slope :: "Numerics \<Rightarrow> FittedTier list \<Rightarrow> fp" where
  "context_slope N fitted =
     (if length fitted \<le> 1 then Finite 0
      else
        (let n = fp_of_int double (int (length fitted));
             mean_context = ddiv (foldl (\<lambda>s t. dadd s (of_u32 (ft_context t))) (Finite 0) fitted) n;
             mean_base = ddiv (foldl (\<lambda>s t. dadd s (ft_beta t ! 0)) (Finite 0) fitted) n;
             covariance = foldl (\<lambda>s t. dadd s (dmul (dsub (of_u32 (ft_context t)) mean_context) (dsub (ft_beta t ! 0) mean_base)))
                            (Finite 0) fitted;
             variance = foldl (\<lambda>s t. dadd s (c_pow N (dsub (of_u32 (ft_context t)) mean_context) (Finite 2))) (Finite 0) fitted in
         fp_max (Finite 0) (ddiv covariance variance)))"

record ExportedTier =
  et_context_min :: u32
  et_context_max :: u32
  et_base :: fp
  et_prefill :: fp
  et_decode :: fp
  et_margin :: fp
  et_scale :: fp

record ExportedProfile =
  ep_calibration_id :: string
  ep_ttft_target :: u64
  ep_tpot_target :: u64
  ep_window :: u64
  ep_runtime_weight :: fp
  ep_rho_prefill :: fp
  ep_rho_decode :: fp
  ep_buffer_z :: fp
  ep_boundary_weight :: fp
  ep_tiers :: "ExportedTier list"
  ep_token_capacity :: u64
  ep_sequence_capacity :: u64

text \<open>\<open>least\<close> is the context after the one of the tier before.\<close>
fun exported_tiers :: "fp \<Rightarrow> u64 \<Rightarrow> u32 \<Rightarrow> FittedTier list \<Rightarrow> ExportedTier list" where
  "exported_tiers slope capacity least [] = []"
| "exported_tiers slope capacity least (t # ts) =
     (let maximum = (if ts = [] then ucast capacity else ft_context t) in
      \<lparr>et_context_min = least, et_context_max = maximum,
       et_base = dadd (ft_beta t ! 0) (dmul slope (of_u32 (maximum - ft_context t))), et_prefill = ft_beta t ! 1,
       et_decode = ft_beta t ! 2, et_margin = ft_margin t, et_scale = ft_scale t\<rparr>
      # exported_tiers slope capacity (ft_context t + 1) ts)"

definition setting :: "string \<Rightarrow> string \<Rightarrow> string" where
  "setting k v = k @ ''='' @ v @ [newline]"

definition double_text :: "fp \<Rightarrow> string" where
  "double_text = show_general 17"

definition scalar_settings :: "ExportedProfile \<Rightarrow> (string \<times> string) list" where
  "scalar_settings p =
     [(''schema_version'', ''1''), (''calibration_id'', ep_calibration_id p),
      (''ttft_target_ns'', show_word (ep_ttft_target p)), (''tpot_target_ns'', show_word (ep_tpot_target p)),
      (''window_ns'', show_word (ep_window p)), (''runtime_weight'', double_text (ep_runtime_weight p)),
      (''rho_prefill'', double_text (ep_rho_prefill p)), (''rho_decode'', double_text (ep_rho_decode p)),
      (''boundary_buffer_z'', double_text (ep_buffer_z p)), (''boundary_weight'', double_text (ep_boundary_weight p)),
      (''tier_count'', show_nat (length (ep_tiers p)))]"

definition tier_settings :: "ExportedProfile \<Rightarrow> nat \<Rightarrow> ExportedTier \<Rightarrow> (string \<times> string) list" where
  "tier_settings p i t =
     [(tier_key i ''context_min'', show_word (et_context_min t)), (tier_key i ''context_max'', show_word (et_context_max t)),
      (tier_key i ''tau_base_ns'', double_text (et_base t)),
      (tier_key i ''tau_prefill_ns_per_token'', double_text (et_prefill t)),
      (tier_key i ''tau_decode_ns_per_item'', double_text (et_decode t)),
      (tier_key i ''runtime_margin_ns'', double_text (et_margin t)),
      (tier_key i ''runtime_scale_ns'', double_text (et_scale t)),
      (tier_key i ''token_capacity'', show_word (ep_token_capacity p)),
      (tier_key i ''sequence_capacity'', show_word (ep_sequence_capacity p))]"

definition all_settings :: "ExportedProfile \<Rightarrow> (string \<times> string) list" where
  "all_settings p = scalar_settings p @ concat (map (\<lambda>i. tier_settings p i (ep_tiers p ! i)) [0..<length (ep_tiers p)])"

definition profile_text :: "ExportedProfile \<Rightarrow> string" where
  "profile_text p = concat (map (\<lambda>(k, v). setting k v) (all_settings p))"

text \<open>The fitted tiers of the cohort of the current build.\<close>
definition fitted_profile :: "(rat \<Rightarrow> bool) \<Rightarrow> Eigen \<Rightarrow> BuildIds \<Rightarrow> options \<Rightarrow> string option \<Rightarrow> exn + FittedTier list" where
  "fitted_profile underflows E b a cache =
     sbind (cache_load cache) (\<lambda>rows.
       if rows = [] then Inl (Runtime_error ''profile export cache is empty'')
       else
         (let cohorts = sorted_distinct (map (\<lambda>m. cohort_identity (ms_key m)) rows);
              compatible = compatible_cohorts b cohorts in
          if length compatible \<noteq> 1
          then Inl (Runtime_error (''profile export requires exactly one current-build cache cohort; found '' @
                 show_nat (length compatible) @ '' among '' @ show_nat (length cohorts)))
          else
            (let cs = cells (filter (\<lambda>m. cohort_identity (ms_key m) = hd compatible) rows) in
             if \<exists>c\<in>set cs. length c < 10
             then Inl (Runtime_error ''profile export needs at least 10 repetitions per cell'')
             else
               (let training = part_of (\<lambda>k. k < 6) cs; calibration = part_of (\<lambda>k. 6 \<le> k \<and> k < 8) cs in
                sbind (real_option underflows a ''upper-bound-quantile'' (dec (98 / 100))) (\<lambda>quantile.
                  if \<not> (fp_less (Finite 0) quantile \<and> fp_le quantile (Finite 1))
                  then Inl (Invalid_argument ''upper-bound-quantile must be in (0,1]'')
                  else fit_tiers E quantile training calibration (contexts_of training))))))"

definition describe_profile :: "(rat \<Rightarrow> bool) \<Rightarrow> Numerics \<Rightarrow> BuildIds \<Rightarrow> u64 \<Rightarrow> options \<Rightarrow> FittedTier list \<Rightarrow> u64 \<Rightarrow> exn + ExportedProfile" where
  "describe_profile underflows N b wall_ns a fitted capacity =
     sbind (number_option a ''ttft-target-ns'' 2000000000) (\<lambda>ttft.
     sbind (number_option a ''tpot-target-ns'' 200000000) (\<lambda>tpot.
     sbind (number_option a ''window-ns'' 60000000000) (\<lambda>win.
     sbind (real_option underflows a ''runtime-weight'' (dec (1 / 10))) (\<lambda>weight.
     sbind (real_option underflows a ''rho-prefill'' (dec (2 / 10))) (\<lambda>rp.
     sbind (real_option underflows a ''rho-decode'' (dec (2 / 10))) (\<lambda>rd.
     sbind (real_option underflows a ''boundary-buffer-z'' (Finite 1)) (\<lambda>buffer.
     sbind (real_option underflows a ''boundary-weight'' (dec (25 / 100))) (\<lambda>boundary.
     sbind (number_option a ''token-capacity'' 512) (\<lambda>tokens.
     sbind (number_option a ''sequence-capacity'' 4) (\<lambda>sequences.
       Inr \<lparr>ep_calibration_id = qs_rev b @ ''-'' @ show_word wall_ns, ep_ttft_target = ttft, ep_tpot_target = tpot,
         ep_window = win, ep_runtime_weight = weight, ep_rho_prefill = rp, ep_rho_decode = rd, ep_buffer_z = buffer,
         ep_boundary_weight = boundary, ep_tiers = exported_tiers (context_slope N fitted) capacity 0 fitted,
         ep_token_capacity = tokens, ep_sequence_capacity = sequences\<rparr>))))))))))"

text \<open>The profile whose \<open>profile_text\<close> becomes the output, if everything succeeds.\<close>
definition export_profile ::
  "(rat \<Rightarrow> bool) \<Rightarrow> Numerics \<Rightarrow> Eigen \<Rightarrow> BuildIds \<Rightarrow> u64 \<Rightarrow> options \<Rightarrow> (string \<Rightarrow> string option) \<Rightarrow> bool \<Rightarrow> bool \<Rightarrow>
    exn + ExportedProfile" where
  "export_profile underflows N E b wall_ns a files opened written =
     sbind (need a ''cache'') (\<lambda>cache.
     sbind (fitted_profile underflows E b a (files cache)) (\<lambda>fitted.
       if fitted = [] then Inl (Runtime_error ''profile contains no context tiers'')
       else
         (let last_context = u64_of_u32 (ft_context (last fitted)) in
          sbind (number_option a ''context-capacity'' last_context) (\<lambda>capacity.
            if capacity < last_context \<or> capacity > 4294967295
            then Inl (Invalid_argument ''context-capacity does not cover measured tiers'')
            else if capacity > last_context \<and> length fitted < 2
            then Inl (Runtime_error ''cannot extrapolate context runtime from one tier'')
            else
              sbind (need a ''output'') (\<lambda>path.
                if \<not> opened then Inl (Runtime_error ''cannot open profile temporary file'')
                else
                  sbind (describe_profile underflows N b wall_ns a fitted capacity) (\<lambda>p.
                    if \<not> written then Inl (Runtime_error ''cannot write profile'') else Inr p))))))"

end
