(* ===== verification/Decimal.thy ===== *)
theory Decimal
  imports Number_Parsing
begin

text \<open>
  Printing a \<open>double\<close> with 17 significant digits and reading it with \<open>std::stod\<close> gives it back: the
  decimal number is closer to it than half the distance to its neighbours.
\<close>

section \<open>Digits\<close>

lemma digits_value_append:
  "digits_value v b (s @ t) = digits_value v b s * b ^ length t + digits_value v b t"
proof (induction t rule: rev_induct)
  case (snoc c t)
  have "digits_value v b (s @ t @ [c]) = digits_value v b (s @ t) * b + v c" by (simp add: digits_value_def)
  moreover have "digits_value v b (t @ [c]) = digits_value v b t * b + v c" by (simp add: digits_value_def)
  ultimately show ?case using snoc by (simp add: algebra_simps)
qed (simp add: digits_value_def)

abbreviation decimal :: "string \<Rightarrow> int" where
  "decimal \<equiv> digits_value digit_value 10"

lemma decimal_zeros [simp]: "decimal (replicate k (CHR ''0'')) = 0"
  by (induction k) (simp_all add: digits_value_def digit_value_def)

lemma decimal_bounds: "list_all is_digit s \<Longrightarrow> 0 \<le> decimal s \<and> decimal s < 10 ^ length s"
proof (induction s rule: rev_induct)
  case (snoc c s)
  then have "0 \<le> digit_value c" "digit_value c \<le> 9"
    by (simp_all add: digit_value_nonneg digit_value_le)
  then show ?case using snoc by (simp add: digits_value_append) (simp add: digits_value_def)
qed (simp add: digits_value_def)

lemma show_nat_length: "n < 10 ^ length (show_nat n) \<and> (n > 0 \<longrightarrow> 10 ^ (length (show_nat n) - 1) \<le> n)"
proof (induction n rule: show_nat.induct)
  case (1 n)
  show ?case
  proof (cases "n < 10")
    case True
    then show ?thesis by (simp add: show_nat.simps [of n])
  next
    case False
    let ?k = "length (show_nat (n div 10))"
    have "n div 10 < 10 ^ ?k" "10 ^ (?k - 1) \<le> n div 10" using 1 False by (auto simp: div_greater_zero_iff)
    then have "n < 10 ^ ?k * 10" "10 ^ (?k - 1) * 10 \<le> n" by linarith+
    moreover have "?k > 0" by simp
    ultimately show ?thesis using False
      by (subst (1 2) show_nat.simps) (simp add: mult.commute power_eq_if)
  qed
qed

lemma show_nat_length_eq: "10 ^ (p - 1) \<le> n \<Longrightarrow> n < 10 ^ p \<Longrightarrow> 0 < p \<Longrightarrow> length (show_nat n) = p"
proof -
  assume n: "10 ^ (p - 1) \<le> n" "n < 10 ^ p" and p: "0 < p"
  let ?k = "length (show_nat n)"
  have "(0::nat) < 10 ^ (p - 1)" by simp
  then have pos: "n > 0" using n(1) by linarith
  have "(10::nat) ^ (p - 1) < 10 ^ ?k" "(10::nat) ^ (?k - 1) < 10 ^ p"
    using show_nat_length [of n] n pos by (meson le_less_trans less_le_trans le_trans)+
  then have "p - 1 < ?k" "?k - 1 < p" by (simp_all add: power_strict_increasing_iff)
  then show "?k = p" using p by linarith
qed

section \<open>The leading exponent\<close>

lemma show_nat_rat:
  assumes "0 < n"
  shows "of_nat n + 1 \<le> (10::rat) ^ length (show_nat n)" "(10::rat) ^ (length (show_nat n) - 1) \<le> of_nat n"
proof -
  let ?k = "length (show_nat n)"
  have "n + 1 \<le> 10 ^ ?k" "10 ^ (?k - 1) \<le> n" using show_nat_length [of n] assms by auto
  then have "(of_nat (n + 1) :: rat) \<le> of_nat (10 ^ ?k)" "(of_nat (10 ^ (?k - 1)) :: rat) \<le> of_nat n"
    by (simp_all only: of_nat_le_iff)
  then show "of_nat n + 1 \<le> (10::rat) ^ ?k" "(10::rat) ^ (?k - 1) \<le> of_nat n"
    by (simp_all only: of_nat_power of_nat_numeral of_nat_add of_nat_1)
qed

lemma ten_powi_pos [simp]: "0 < (10::rat) powi e"
  by simp

lemma ten_powi_add: "(10::rat) powi (a + b) = 10 powi a * 10 powi b"
  by (simp add: power_int_add)

lemma inverse_swap:
  assumes "0 < (x::rat)" "0 < y"
  shows "1 / x \<le> y \<Longrightarrow> 1 / y \<le> x" "y < 1 / x \<Longrightarrow> x < 1 / y"
  using assms by (simp_all add: field_simps)

lemma decimal_exponent_bounds:
  assumes "0 < x"
  shows "10 powi decimal_exponent x \<le> x \<and> x < 10 powi (decimal_exponent x + 1)"
proof (cases "x \<ge> 1")
  case True
  define n where "n = nat \<lfloor>x\<rfloor>"
  have n: "of_nat n \<le> x" "x < of_nat n + 1" "n > 0"
    using True by (simp_all add: n_def le_floor_iff of_nat_nat) linarith+
  let ?k = "length (show_nat n)"
  have k: "?k > 0" by simp
  have r: "of_nat n + 1 \<le> (10::rat) ^ ?k" "(10::rat) ^ (?k - 1) \<le> of_nat n"
    using show_nat_rat [OF n(3)] by simp_all
  have b: "x < 10 ^ ?k" "10 ^ (?k - 1) \<le> x" using n r by linarith+
  have "10 powi (int ?k - 1) = (10::rat) ^ (?k - 1)" using k by (simp add: power_int_def nat_diff_distrib)
  then show ?thesis using True b by (simp add: decimal_exponent_def n_def)
next
  case False
  define n where "n = nat (\<lceil>1 / x\<rceil> - 1)"
  have "1 / x > 1" using False assms by simp
  then have n: "of_nat n < 1 / x" "1 / x \<le> of_nat n + 1" "n > 0"
    unfolding n_def by (simp_all add: of_nat_nat) linarith+
  let ?k = "length (show_nat n)"
  have k: "?k > 0" by simp
  have r: "of_nat n + 1 \<le> (10::rat) ^ ?k" "(10::rat) ^ (?k - 1) \<le> of_nat n"
    using show_nat_rat [OF n(3)] by simp_all
  have b: "1 / x \<le> 10 ^ ?k" "10 ^ (?k - 1) < 1 / x" using n r by linarith+
  have "- int ?k + 1 = - int (?k - 1)" using k by linarith
  then have "10 powi (- int ?k) = 1 / (10::rat) ^ ?k" "10 powi (- int ?k + 1) = 1 / (10::rat) ^ (?k - 1)"
    by (simp_all only: power_int_minus power_int_of_nat divide_inverse mult_1_left)
  moreover have "1 / 10 ^ ?k \<le> x" using inverse_swap(1) [OF assms _ b(1)] by simp
  moreover have "x < 1 / 10 ^ (?k - 1)" using inverse_swap(2) [OF assms _ b(2)] by simp
  ultimately show ?thesis using False by (simp add: decimal_exponent_def n_def [symmetric])
qed

lemma round_half_even_near: "\<bar>of_int (round_half_even x) - x\<bar> \<le> 1 / 2"
proof -
  have f: "of_int \<lfloor>x\<rfloor> \<le> x" "x < of_int \<lfloor>x\<rfloor> + 1" by linarith+
  show ?thesis
  proof (cases "x - of_int \<lfloor>x\<rfloor> < 1 / 2 \<or> (x - of_int \<lfloor>x\<rfloor> = 1 / 2 \<and> even \<lfloor>x\<rfloor>)")
    case True
    then have "round_half_even x = \<lfloor>x\<rfloor>" by (simp only: round_half_even_def Let_def if_True)
    then show ?thesis using True f by (simp only: abs_le_iff) linarith
  next
    case False
    then have "round_half_even x = \<lfloor>x\<rfloor> + 1" by (simp only: round_half_even_def Let_def if_False)
    moreover have "1 / 2 \<le> x - of_int \<lfloor>x\<rfloor>" using False by linarith
    ultimately show ?thesis using f by (simp only: abs_le_iff of_int_add of_int_1) linarith
  qed
qed

text \<open>What is printed: the digits, where the point goes, and how close the number is.\<close>
lemma show_positive_digits:
  assumes "0 < x" "0 < p"
  obtains e m where "show_positive p x = layout p e (show_nat m)" "length (show_nat m) = p" "m > 0"
    "\<bar>of_nat m * 10 powi (e - (int p - 1)) - x\<bar> \<le> 1 / 2 * 10 powi (decimal_exponent x - (int p - 1))"
proof -
  define e0 where "e0 = decimal_exponent x"
  define u :: rat where "u = 10 powi (e0 - (int p - 1))"
  define m0 where "m0 = round_half_even (x / u)"
  have u: "0 < u" by (simp add: u_def)
  have q: "int p - 1 = int (p - 1)" using assms(2) by linarith
  have lo: "10 powi e0 = u * 10 ^ (p - 1)"
  proof -
    have "10 powi e0 = u * 10 powi (int p - 1)" unfolding u_def ten_powi_add [symmetric] by simp
    then show ?thesis unfolding q power_int_of_nat .
  qed
  have "(10::rat) powi (e0 + 1) = 10 powi e0 * 10" by (simp add: ten_powi_add)
  also have "\<dots> = u * (10 ^ (p - 1) * 10)" unfolding lo by simp
  also have "(10::rat) ^ (p - 1) * 10 = 10 ^ p" using assms(2) by (cases p) simp_all
  finally have hi: "10 powi (e0 + 1) = u * 10 ^ p" .
  have z: "of_int (10 ^ (p - 1)) \<le> x / u" "x / u \<le> of_int (10 ^ p)"
    using decimal_exponent_bounds [OF assms(1)] u unfolding e0_def [symmetric] lo hi
    by (simp_all add: field_simps)
  have m: "10 ^ (p - 1) \<le> m0" "m0 \<le> 10 ^ p"
    unfolding m0_def by (rule round_half_even_ge [OF z(1)], rule round_half_even_le [OF z(2)])
  have "of_int m0 * u - x = (of_int m0 - x / u) * u" using u by (simp add: field_simps)
  then have "\<bar>of_int m0 * u - x\<bar> = \<bar>of_int m0 - x / u\<bar> * u" using u by (simp add: abs_mult)
  also have "\<dots> \<le> 1 / 2 * u"
    using u round_half_even_near [of "x / u"] by (intro mult_right_mono) (simp_all add: m0_def)
  finally have near: "\<bar>of_int m0 * u - x\<bar> \<le> 1 / 2 * u" .
  define e where "e = (if m0 = 10 ^ p then e0 + 1 else e0)"
  define n where "n = nat (if m0 = 10 ^ p then 10 ^ (p - 1) else m0)"
  have "show_positive p x = layout p e (show_nat n)"
    unfolding show_positive_def Let_def e_def n_def m0_def u_def e0_def ..
  moreover have n: "10 ^ (p - 1) \<le> n" "n < 10 ^ p"
    using m assms(2) by (auto simp: n_def nat_less_iff nat_le_iff le_nat_iff power_strict_increasing_iff nat_power_eq)
  moreover have "of_nat n * 10 powi (e - (int p - 1)) = of_int m0 * u"
  proof (cases "m0 = 10 ^ p")
    case True
    have "(10::rat) powi (e - (int p - 1)) = 10 * u"
      using True by (simp add: e_def u_def ten_powi_add [of 1, symmetric, simplified] algebra_simps)
    moreover have "of_nat n = (10::rat) ^ (p - 1)" using True by (simp add: n_def nat_power_eq)
    moreover have "of_int m0 = (10::rat) ^ (p - 1) * 10" using True assms(2) by (cases p) simp_all
    ultimately show ?thesis by simp
  next
    case False
    then show ?thesis using m(1) by (simp add: n_def e_def u_def of_nat_nat order_trans [OF zero_le_power m(1)])
  qed
  ultimately show thesis
    using that [of e n] near show_nat_length_eq [OF n assms(2)] less_le_trans [of 0 "10 ^ (p - 1)" n]
    by (simp add: u_def e0_def)
qed

section \<open>Reading a printed number\<close>

lemma digit_of_code: "is_digit c \<longleftrightarrow> (of_char c :: nat) \<in> {48..57}"
  by (simp add: is_digit_def)

lemma strip_zeros_value:
  "\<exists>k. s = strip_zeros s @ replicate k (CHR ''0'')"
proof -
  have "s = rev (dropWhile (\<lambda>c. c = CHR ''0'') (rev s)) @ rev (takeWhile (\<lambda>c. c = CHR ''0'') (rev s))"
    by (metis rev_append rev_rev_ident takeWhile_dropWhile_id)
  moreover have "rev (takeWhile (\<lambda>c. c = CHR ''0'') (rev s)) = replicate (length (takeWhile (\<lambda>c. c = CHR ''0'') (rev s))) (CHR ''0'')"
    by (rule replicate_eqI) (auto dest: set_takeWhileD)
  ultimately show ?thesis unfolding strip_zeros_def by metis
qed

lemma strip_zeros_digits: "list_all is_digit s \<Longrightarrow> list_all is_digit (strip_zeros s)"
  by (metis list_all_append strip_zeros_value)

text \<open>A fraction without its trailing zeros has the same value.\<close>
lemma fraction_value:
  "of_int (decimal (w @ strip_zeros s)) * 10 powi (c - int (length (strip_zeros s))) =
   (of_int (decimal (w @ s)) * 10 powi (c - int (length s)) :: rat)"
proof -
  obtain k where k: "s = strip_zeros s @ replicate k (CHR ''0'')" using strip_zeros_value by blast
  have "decimal (w @ s) = decimal (w @ strip_zeros s) * 10 ^ k"
    by (subst k) (simp only: append_assoc [symmetric] digits_value_append [of _ _ "w @ strip_zeros s"] decimal_zeros
        length_replicate add_0_right)
  moreover have l: "int (length s) = int (length (strip_zeros s)) + int k"
    using arg_cong [OF k, of length] by simp
  moreover have "(10::rat) powi (c - int (length (strip_zeros s))) = 10 ^ k * 10 powi (c - int (length s))"
  proof -
    have "(10::rat) ^ k * 10 powi (c - int (length s)) = 10 powi (int k + (c - int (length s)))"
      by (simp only: ten_powi_add power_int_of_nat)
    then show ?thesis using l by simp
  qed
  ultimately show ?thesis by simp
qed

lemma span_digits:
  assumes "list_all is_digit w" "t = [] \<or> \<not> is_digit (hd t)"
  shows "takeWhile is_digit (w @ t) = w" "dropWhile is_digit (w @ t) = t"
proof -
  have w: "\<forall>c\<in>set w. is_digit c" using assms(1) by (simp add: list_all_iff)
  have t: "takeWhile is_digit t = []" "dropWhile is_digit t = t" using assms(2) by (cases t; simp)+
  show "takeWhile is_digit (w @ t) = w" "dropWhile is_digit (w @ t) = t"
    using w t by (simp_all add: takeWhile_append2 dropWhile_append2)
qed

lemma not_digit_point [simp]: "\<not> is_digit (CHR ''.'')" "\<not> is_digit (CHR ''e'')" "\<not> is_digit (CHR ''-'')" "\<not> is_digit (CHR ''+'')"
  by (simp_all add: is_digit_def)

text \<open>What may follow the digits: nothing or an exponent.\<close>
lemma printed_mantissa:
  assumes w: "list_all is_digit w" "w \<noteq> []" and f: "list_all is_digit f"
    and t: "t = [] \<or> (\<not> is_digit (hd t) \<and> hd t \<noteq> CHR ''.'')"
  shows "take_mantissa is_digit (w @ with_point f @ t) = Some (w, f, t)"
proof (cases "f = []")
  case True
  have "take_mantissa is_digit (w @ t) = Some (w, [], t)"
    using t w(2) by (cases t) (auto simp: take_mantissa_def Let_def span_digits [OF w(1)] take_digits [OF w(1)])
  then show ?thesis using True by (simp add: with_point_def)
next
  case False
  have "take_mantissa is_digit (w @ CHR ''.'' # f @ t) = Some (w, f, t)"
    using span_digits [OF w(1), of "CHR ''.'' # f @ t"] span_digits [OF f, of t] t w(2)
    by (auto simp: take_mantissa_def Let_def)
  then show ?thesis using False by (simp add: with_point_def)
qed

lemma take_exponent_Nil [simp]: "take_exponent c [] = (0, [])"
  by (simp add: take_exponent_def)

lemma take_printed_exponent: "take_exponent (CHR ''e'') (show_exponent x) = (x, [])"
proof -
  define ds where "ds = (if \<bar>x\<bar> < 10 then ''0'' else []) @ show_nat (nat \<bar>x\<bar>)"
  have d: "list_all is_digit ds" "ds \<noteq> []" by (auto simp: ds_def is_digit_def)
  have v: "decimal ds = \<bar>x\<bar>"
    by (simp add: ds_def digits_value_append show_nat_value) (simp add: digits_value_def digit_value_def)
  have s: "show_exponent x = CHR ''e'' # (if x < 0 then CHR ''-'' else CHR ''+'') # ds"
    by (simp add: show_exponent_def ds_def)
  have "lower (CHR ''e'') = CHR ''e''" by (simp add: lower_def)
  then show ?thesis unfolding s take_exponent_def
    using d(2) v by (simp add: take_sign_def Let_def take_digits [OF d(1)])
qed

lemma exponent_start: "hd (show_exponent x) = CHR ''e''" "show_exponent x \<noteq> []"
  by (simp_all add: show_exponent_def)

lemma lower_digit [simp]: "is_digit c \<Longrightarrow> lower c = c"
  by (simp add: lower_def is_digit_def)

lemma starts_word: "\<not> is_digit a \<Longrightarrow> is_digit c \<Longrightarrow> \<not> starts (a # as) (c # cs)"
  by (auto simp: starts_def)

text \<open>The tails of printed numbers: nothing, or an exponent.\<close>
definition printed_tail :: "int \<Rightarrow> string \<Rightarrow> bool" where
  "printed_tail e t \<longleftrightarrow> (t = [] \<and> e = 0) \<or> t = show_exponent e"

lemma printed_not_hex:
  assumes "list_all is_digit w" "w \<noteq> []" "list_all is_digit f" "printed_tail e t"
  shows "\<not> starts ''0x'' (w @ with_point f @ t)"
proof -
  obtain c cs where w: "w = c # cs" using assms(2) by (cases w) auto
  have "lower b \<noteq> CHR ''x''" if b: "is_digit b \<or> b = CHR ''.'' \<or> b = CHR ''e''" for b
    using b by (auto simp: lower_def is_digit_def)
  moreover have "cs @ with_point f @ t = [] \<or> (is_digit (hd (cs @ with_point f @ t)) \<or> hd (cs @ with_point f @ t) = CHR ''.'' \<or>
      hd (cs @ with_point f @ t) = CHR ''e'')"
    using assms unfolding w printed_tail_def by (cases cs) (auto simp: with_point_def exponent_start)
  ultimately show ?thesis unfolding w starts_def
    by (cases "cs @ with_point f @ t") (auto simp: numeral_2_eq_2)
qed

lemma number_prefix_printed:
  assumes w: "list_all is_digit w" "w \<noteq> []" and f: "list_all is_digit f" and t: "printed_tail e t"
  shows "number_prefix (w @ with_point f @ t) =
    Some (Finite (of_int (decimal (w @ f)) * 10 powi (e - int (length f))), [])"
proof -
  obtain c cs where c: "w = c # cs" "is_digit c" using w by (cases w) simp_all
  have words: "\<not> starts ''infinity'' (w @ with_point f @ t)" "\<not> starts ''inf'' (w @ with_point f @ t)"
    "\<not> starts ''nan'' (w @ with_point f @ t)"
    using starts_word [OF _ c(2)] unfolding c(1) by (simp_all add: is_digit_def)
  have "t = [] \<or> (\<not> is_digit (hd t) \<and> hd t \<noteq> CHR ''.'')" using t by (auto simp: printed_tail_def exponent_start)
  note m = printed_mantissa [OF w f this]
  have "take_exponent (CHR ''e'') t = (e, [])" using t by (auto simp: printed_tail_def take_printed_exponent)
  then show ?thesis unfolding number_prefix_def using words printed_not_hex [OF w f t] m by simp
qed

lemma printed_characters:
  assumes "list_all is_digit w" "list_all is_digit f" "printed_tail e t"
  shows "c_str (w @ with_point f @ t) = w @ with_point f @ t"
proof -
  have d: "is_digit c \<Longrightarrow> c \<noteq> CHR 0x00" for c by (auto simp: is_digit_def)
  have "CHR 0x00 \<notin> set (show_nat n)" for n
    using show_nat_digits [of n] d unfolding list_all_iff by blast
  then have "\<forall>c\<in>set t. c \<noteq> CHR 0x00" using assms(3) by (auto simp: printed_tail_def show_exponent_def split: if_splits)
  then show ?thesis unfolding c_str_def
    using assms(1,2) d by (intro takeWhile_eq_all_conv [THEN iffD2]) (auto simp: with_point_def list_all_iff)
qed

text \<open>Each layout of a number has this form, with the value of all its digits.\<close>
lemma layout_form:
  assumes ds: "list_all is_digit ds" "length ds = p" "0 < p"
  obtains w f e' t where "layout p e ds = w @ with_point f @ t" "list_all is_digit w" "w \<noteq> []" "list_all is_digit f"
    "printed_tail e' t"
    "of_int (decimal (w @ f)) * 10 powi (e' - int (length f)) = (of_int (decimal ds) * 10 powi (e - (int p - 1)) :: rat)"
proof -
  have part: "list_all is_digit (take n ds)" "list_all is_digit (drop n ds)" for n
    using ds(1) by (metis append_take_drop_id list_all_append)+
  have cut: "of_int (decimal (take n ds @ strip_zeros (drop n ds))) * 10 powi (c - int (length (strip_zeros (drop n ds)))) =
      (of_int (decimal ds) * 10 powi (c - (int p - int n)) :: rat)" if "n \<le> p" for n c
    using fraction_value [of "take n ds" "drop n ds" c] that ds(2) by (simp add: of_nat_diff)
  consider (scientific) "e < -4 \<or> e \<ge> int p" | (small) "\<not> (e < -4 \<or> e \<ge> int p)" "e < 0"
    | (plain) "\<not> (e < -4 \<or> e \<ge> int p)" "\<not> e < 0" by blast
  then show thesis
  proof cases
    case scientific
    have "layout p e ds = take 1 ds @ with_point (strip_zeros (drop 1 ds)) @ show_exponent e"
      using scientific by (simp only: layout_def if_True)
    moreover have "take 1 ds \<noteq> []" using ds by (cases ds) simp_all
    ultimately show thesis
      using that [of "take 1 ds" "strip_zeros (drop 1 ds)" "show_exponent e" e] part cut [of 1 e] ds(3)
      by (simp add: printed_tail_def strip_zeros_digits)
  next
    case small
    have "layout p e ds = ''0'' @ with_point (replicate (nat (- e - 1)) (CHR ''0'') @ strip_zeros ds) @ []"
      using small by (simp only: layout_def if_True if_False append_Nil2)
    moreover have "decimal (''0'' @ replicate k (CHR ''0'') @ s) = decimal s" for k s
      using digits_value_append [of digit_value 10 "replicate (Suc k) (CHR ''0'')" s] by (simp add: decimal_zeros [of "Suc k", simplified])
    moreover have "(0::int) - int (length (replicate (nat (- e - 1)) (CHR ''0'') @ strip_zeros ds)) = (e + 1) - int (length (strip_zeros ds))"
      using small by simp
    moreover have "of_int (decimal (strip_zeros ds)) * 10 powi ((e + 1) - int (length (strip_zeros ds))) =
        (of_int (decimal ds) * 10 powi (e - (int p - 1)) :: rat)"
      using fraction_value [of "[]" ds "e + 1"] ds(2) by (simp add: algebra_simps)
    moreover have "list_all is_digit (replicate n (CHR ''0''))" for n by (simp add: list_all_iff is_digit_def)
    ultimately show thesis
      using that [of "''0''" "replicate (nat (- e - 1)) (CHR ''0'') @ strip_zeros ds" "[]" 0] ds(1)
      by (simp add: printed_tail_def strip_zeros_digits is_digit_def)
  next
    case plain
    have "layout p e ds = take (nat e + 1) ds @ with_point (strip_zeros (drop (nat e + 1) ds)) @ []"
      using plain by (simp only: layout_def if_False append_Nil2)
    moreover have "take (nat e + 1) ds \<noteq> []" using ds by (cases ds) simp_all
    ultimately show thesis
      using that [of "take (nat e + 1) ds" "strip_zeros (drop (nat e + 1) ds)" "[]" 0] part cut [of "nat e + 1" 0] plain
      by (simp add: printed_tail_def strip_zeros_digits algebra_simps)
  qed
qed

section \<open>Nearest values\<close>

lemma own_unit:
  assumes "well_formed f" "representable f x" "x \<noteq> 0"
  obtains k where "x = of_int k * 2 powi unit_exponent f x"
proof -
  have "\<exists>k. \<bar>x\<bar> = of_int k * 2 powi unit_exponent f x \<or> x = of_int k * 2 powi unit_exponent f x"
    using representable_unit [OF assms] by (meson order_antisym)
  then obtain k where k: "\<bar>x\<bar> = of_int k * 2 powi unit_exponent f x \<or> x = of_int k * 2 powi unit_exponent f x" by blast
  show thesis
  proof (cases "x = of_int k * 2 powi unit_exponent f x")
    case False
    then have "x = of_int (- k) * 2 powi unit_exponent f x" using k by (cases "x < 0") simp_all
    then show thesis by (rule that)
  qed (rule that)
qed

lemma unit_multiple:
  assumes "a \<le> b"
  obtains k where "(2::rat) powi b = of_int k * 2 powi a"
proof
  show "(2::rat) powi b = of_int (2 ^ nat (b - a)) * 2 powi a"
    using assms powi_split [of "b - a" a] by (simp add: power_int_nonneg_exp)
qed

lemma multiples_apart:
  assumes "of_int a * u < of_int b * (u::rat)" "0 < u"
  shows "of_int a * u + u \<le> of_int b * u"
proof -
  have "a < b" using assms by (simp add: mult_less_cancel_right)
  then have "(of_int (a + 1) :: rat) \<le> of_int b" by simp
  then have "of_int (a + 1) * u \<le> of_int b * u" using assms(2) by (intro mult_right_mono) simp_all
  then show ?thesis by (simp add: algebra_simps)
qed

lemma round_near_multiple:
  assumes "x = of_int k * 2 powi unit_exponent f y" "\<bar>y - x\<bar> < 2 powi (unit_exponent f y - 1)" "y \<noteq> 0"
  shows "round_rat f y = x"
proof -
  let ?u = "2 powi unit_exponent f y :: rat"
  have "(2::rat) powi (unit_exponent f y - 1) = ?u / 2" by (simp add: power_int_diff)
  then have "\<bar>y / ?u - of_int k\<bar> * ?u < ?u / 2"
    using assms(1,2) by (simp add: abs_mult [symmetric] field_simps flip: abs_mult_pos)
  then have "\<bar>y / ?u - of_int k\<bar> < 1 / 2" by (simp add: field_simps)
  then have "\<bar>of_int (round_half_even (y / ?u)) - (of_int k :: rat)\<bar> < 1"
    using round_half_even_near [of "y / ?u"] by linarith
  then have "round_half_even (y / ?u) = k" by linarith
  then show ?thesis using assms(1,3) by (simp add: round_rat_def Let_def)
qed

text \<open>Closer than half the distance to the neighbours; a power of two has a nearer one below.\<close>
lemma round_nearest:
  assumes f: "well_formed f" "representable f x" "0 < x"
    and near: "\<bar>y - x\<bar> < 2 powi (magnitude x - int (precision f))"
    and power: "x = 2 powi magnitude x \<Longrightarrow> \<bar>y - x\<bar> < 2 powi (magnitude x - int (precision f) - 1)"
  shows "round_rat f y = x"
proof -
  let ?m = "magnitude x" and ?p = "int (precision f)"
  have p: "1 \<le> ?p" using f(1) by (simp add: well_formed_def)
  have x: "2 powi ?m \<le> x" "x < 2 powi (?m + 1)" using magnitude_bounds [of x] f(3) by simp_all
  obtain k where k: "x = of_int k * 2 powi unit_exponent f x" using own_unit [OF f(1,2)] f(3) by (metis less_irrefl)
  have ue: "unit_exponent f x \<le> ?m"
  proof (rule ccontr)
    assume "\<not> ?thesis"
    then have "(2::rat) powi (?m + 1) \<le> 2 powi unit_exponent f x" by (intro powi_mono) simp
    then have "x < 2 powi unit_exponent f x" using x(2) by linarith
    moreover have "0 < k" using k f(3) by (metis less_irrefl not_less_iff_gr_or_eq of_int_0_less_iff zero_less_mult_pos2 powi_pos)
    moreover have "1 * 2 powi unit_exponent f x \<le> of_int k * (2 powi unit_exponent f x :: rat)"
      using \<open>0 < k\<close> by (intro mult_right_mono) simp_all
    ultimately show False using k by simp
  qed
  have ux: "?m - ?p + 1 \<le> unit_exponent f x" by (simp add: unit_exponent_def)
  have half: "(2::rat) powi (?m - ?p) \<le> 2 powi (?m - 1)" using p by (intro powi_mono) simp
  have twice: "(2::rat) powi ?m = 2 * 2 powi (?m - 1)" by (simp add: power_int_diff)
  have y: "2 powi (?m - 1) < y" using near half x(1) twice by linarith
  then have y0: "0 < y" using powi_pos [of "?m - 1"] by linarith
  have yb: "2 powi magnitude y \<le> y" "y < 2 powi (magnitude y + 1)" using magnitude_bounds [of y] y0 by simp_all
  have low: "?m - 1 \<le> magnitude y" using y yb(2) by (metis less_trans powi_less_iff zless_add1_eq not_less less_le)
  have high: "magnitude y \<le> ?m"
  proof (rule ccontr)
    assume "\<not> ?thesis"
    then have "(2::rat) powi (?m + 1) \<le> 2 powi magnitude y" by (intro powi_mono) simp
    then have y1: "2 powi (?m + 1) \<le> y" using yb(1) by linarith
    obtain j where "(2::rat) powi (?m + 1) = of_int j * 2 powi unit_exponent f x"
      using unit_multiple [of "unit_exponent f x" "?m + 1"] ue by auto
    then have "x + 2 powi unit_exponent f x \<le> 2 powi (?m + 1)"
      using multiples_apart [of k "2 powi unit_exponent f x" j] x(2) k by simp
    moreover have "(2::rat) powi (?m - ?p) \<le> 2 powi unit_exponent f x" using ux by (intro powi_mono) simp
    ultimately show False using y1 near by linarith
  qed
  have uy: "unit_exponent f y \<le> unit_exponent f x" using high by (simp add: unit_exponent_def)
  obtain i where "(2::rat) powi unit_exponent f x = of_int i * 2 powi unit_exponent f y" using unit_multiple [OF uy] .
  then have kx: "x = of_int (k * i) * 2 powi unit_exponent f y" using k by (simp add: mult.assoc)
  show ?thesis
  proof (rule round_near_multiple [OF kx])
    show "y \<noteq> 0" using y0 by simp
    show "\<bar>y - x\<bar> < 2 powi (unit_exponent f y - 1)"
    proof (cases "magnitude y = ?m")
      case True
      have "(2::rat) powi (?m - ?p) \<le> 2 powi (unit_exponent f y - 1)" using True by (intro powi_mono) (simp add: unit_exponent_def)
      then show ?thesis using near by linarith
    next
      case False
      then have my: "magnitude y = ?m - 1" using low high by linarith
      then have ylt: "y < 2 powi ?m" using yb(2) by simp
      have "x = 2 powi ?m"
      proof (rule ccontr)
        assume "x \<noteq> 2 powi ?m"
        then have lt: "2 powi ?m < x" using x(1) by linarith
        obtain j where "(2::rat) powi ?m = of_int j * 2 powi unit_exponent f x" using unit_multiple [OF ue] .
        then have "2 powi ?m + 2 powi unit_exponent f x \<le> x"
          using multiples_apart [of j "2 powi unit_exponent f x" k] lt k by simp
        moreover have "(2::rat) powi (?m - ?p) \<le> 2 powi unit_exponent f x" using ux by (intro powi_mono) simp
        ultimately show False using near ylt by linarith
      qed
      then have "\<bar>y - x\<bar> < 2 powi (?m - ?p - 1)" by (rule power)
      moreover have "(2::rat) powi (?m - ?p - 1) \<le> 2 powi (unit_exponent f y - 1)"
        using my by (intro powi_mono) (simp add: unit_exponent_def)
      ultimately show ?thesis by linarith
    qed
  qed
qed

section \<open>The round trip\<close>

lemma representable_abs: "representable f x \<Longrightarrow> representable f \<bar>x\<bar>"
proof -
  assume r: "representable f x"
  then obtain k e where k: "x = of_int k * 2 powi e" "\<bar>k\<bar> \<le> 2 ^ precision f" "2 - max_exponent f - int (precision f) \<le> e"
    unfolding representable_def by blast
  have "\<bar>x\<bar> = of_int \<bar>k\<bar> * 2 powi e" by (simp add: k(1) abs_mult)
  then show ?thesis using r k(2,3) unfolding representable_def by (metis abs_abs)
qed

text \<open>The text of a positive number is a number prefix with a value that rounds back to it.\<close>
lemma show_positive_reads:
  assumes x: "representable double x" "2 powi (- 1021) \<le> x"
  obtains w f e t y where "show_positive 17 x = w @ with_point f @ t" "list_all is_digit w" "w \<noteq> []" "list_all is_digit f"
    "printed_tail e t" "number_prefix (show_positive 17 x) = Some (Finite y, [])" "to_fp double y = Finite x"
    "2 powi (- 1022) \<le> y"
proof -
  have pos: "0 < x" using x(2) powi_pos [of "- 1021"] by linarith
  obtain e m where em: "show_positive 17 x = layout 17 e (show_nat m)" "length (show_nat m) = 17" "m > 0"
    "\<bar>of_nat m * 10 powi (e - 16) - x\<bar> \<le> 1 / 2 * 10 powi (decimal_exponent x - 16)"
    using show_positive_digits [OF pos, of 17] by auto
  have "0 < (17::nat)" by simp
  from layout_form [OF show_nat_digits em(2) this, of e]
  obtain w f e' t where form: "layout 17 e (show_nat m) = w @ with_point f @ t" "list_all is_digit w" "w \<noteq> []"
    "list_all is_digit f" "printed_tail e' t"
    "of_int (decimal (w @ f)) * 10 powi (e' - int (length f)) = (of_int (decimal (show_nat m)) * 10 powi (e - (int 17 - 1)) :: rat)"
    .
  define y :: rat where "y = of_nat m * 10 powi (e - 16)"
  have n: "number_prefix (show_positive 17 x) = Some (Finite y, [])"
    unfolding em(1) form(1) number_prefix_printed [OF form(2-5)] form(6) y_def show_nat_value by simp
  have ten: "(10::rat) powi (decimal_exponent x - 16) = 10 powi decimal_exponent x / 10 ^ 16"
    by (simp add: power_int_diff)
  have near: "\<bar>y - x\<bar> \<le> x / (2 * 10 ^ 16)"
  proof -
    have "\<bar>y - x\<bar> \<le> 1 / 2 * (10 powi decimal_exponent x / 10 ^ 16)" using em(4) unfolding y_def ten .
    also have "\<dots> \<le> 1 / 2 * (x / 10 ^ 16)"
      using decimal_exponent_bounds [OF pos] by (intro mult_left_mono divide_right_mono) simp_all
    finally show ?thesis by simp
  qed
  have mx: "x < 2 powi (magnitude x + 1)" using magnitude_bounds [of x] pos by simp
  have p53: "(2::rat) powi (magnitude x - 53) = 2 powi magnitude x / 2 ^ 53"
    "(2::rat) powi (magnitude x - 53 - 1) = 2 powi magnitude x / 2 ^ 54" "(2::rat) powi (magnitude x + 1) = 2 powi magnitude x * 2"
    by (simp_all add: power_int_diff power_int_add)
  have mpos: "0 < (2::rat) powi magnitude x" by simp
  have "round_rat double y = x"
  proof (rule round_nearest [OF well_formed_double x(1) pos])
    show "\<bar>y - x\<bar> < 2 powi (magnitude x - int (precision double))"
    proof -
      have "x / (2 * 10 ^ 16) < 2 powi magnitude x * 2 / (2 * 10 ^ 16)" using mx unfolding p53(3) by (simp add: divide_strict_right_mono)
      also have "\<dots> \<le> 2 powi magnitude x / 2 ^ 53" using mpos by simp
      finally show ?thesis using near p53 by (simp add: double_def)
    qed
  next
    assume "x = 2 powi magnitude x"
    then have "x / (2 * 10 ^ 16) < 2 powi magnitude x / 2 ^ 54" using pos by simp
    then show "\<bar>y - x\<bar> < 2 powi (magnitude x - int (precision double) - 1)" using near p53 by (simp add: double_def)
  qed
  moreover have "\<bar>x\<bar> < 2 powi (max_exponent double + 1)" using x(1) by (simp add: representable_def)
  ultimately have "to_fp double y = Finite x" by (simp add: to_fp_def)
  moreover have "2 powi (- 1022) \<le> y"
  proof -
    have "(2::rat) powi (- 1022) = 2 powi (- 1021) / 2" by (simp add: power_int_diff flip: power_int_diff)
    moreover have "x / (2 * 10 ^ 16) \<le> x / 2" using pos by simp
    ultimately show ?thesis using near x(2) by linarith
  qed
  ultimately show thesis using that [of w f t e' y] form n unfolding em(1) by blast
qed

lemma c_str_minus: "c_str (CHR ''-'' # s) = CHR ''-'' # c_str s"
  by (simp add: c_str_def)

text \<open>
  A \<open>double\<close> that is zero or not close to the subnormal numbers, printed with 17 significant
  digits, is read back by \<open>std::stod\<close> exactly and with all its characters, whatever the
  implementation does on underflow.
\<close>
lemma stod_show_general:
  assumes "representable double x" "x = 0 \<or> 2 powi (- 1021) \<le> \<bar>x\<bar>"
  shows "stod underflows (show_general 17 (Finite x)) = Inr (Finite x, length (show_general 17 (Finite x)))"
proof (cases "x = 0")
  case True
  have "is_digit (CHR ''0'')" by (simp add: is_digit_def)
  then have "number_prefix ''0'' = Some (Finite 0, [])"
    using number_prefix_printed [of "''0''" "[]" 0 "[]"] by (simp add: printed_tail_def with_point_def digits_value_def digit_value_def)
  then show ?thesis using True
    by (simp add: stod_def c_str_def is_space_def take_sign_def)
next
  case False
  define z where "z = \<bar>x\<bar>"
  have a: "representable double z" "2 powi (- 1021) \<le> z"
    using assms False representable_abs by (auto simp: z_def)
  from show_positive_reads [OF a]
  obtain w f e t y where s: "show_positive 17 z = w @ with_point f @ t" "list_all is_digit w" "w \<noteq> []" "list_all is_digit f"
    "printed_tail e t" "number_prefix (show_positive 17 z) = Some (Finite y, [])" "to_fp double y = Finite z"
    "2 powi (- 1022) \<le> y" .
  have y: "0 < y" using s(8) powi_pos [of "- 1022"] by linarith
  have c: "c_str (show_positive 17 z) = show_positive 17 z" unfolding s(1) using s(2,4,5) by (rule printed_characters)
  have sign: "take_sign (show_positive 17 z) = (False, show_positive 17 z)"
    "dropWhile is_space (show_positive 17 z) = show_positive 17 z"
    unfolding s(1) using digits_no_sign [OF s(3,2)] digits_no_space [OF s(3,2)] by simp_all
  have minus: "take_sign (CHR ''-'' # r) = (True, r)" "dropWhile is_space (CHR ''-'' # r) = CHR ''-'' # r" for r
    by (simp_all add: take_sign_def is_space_def)
  have u: "\<not> \<bar>y\<bar> < 2 powi (- 1022)" using y s(8) by (simp only: abs_of_pos not_less)
  have both: "stod underflows (sign @ show_positive 17 z) =
      Inr (if sign = [] then Finite z else Finite (- z), length (sign @ show_positive 17 z))"
    if "sign = [] \<or> sign = ''-''" for sign
    using that u by (elim disjE) (simp_all only: stod_def append_Nil append_Cons c_str_minus c Let_def minus sign prod.case
        s(6,7) option.case fp.case fp_convert.simps is_finite_simps if_True if_False simp_thms fp_neg.simps list.simps
        list.size diff_zero)
  show ?thesis
  proof (cases "x < 0")
    case True
    then have "show_general 17 (Finite x) = ''-'' @ show_positive 17 z" "x = - z" by (simp_all add: z_def)
    then show ?thesis using both [of "''-''"] by simp
  next
    case nonneg: False
    then have "show_general 17 (Finite x) = [] @ show_positive 17 z" "x = z" using False by (simp_all add: z_def)
    then show ?thesis using both [of "[]"] by simp
  qed
qed

lemma stod_show_general_witness:
  "stod (\<lambda>_. True) (show_general 17 (Finite (1 / 4))) = Inr (Finite (1 / 4), length (show_general 17 (Finite (1 / 4))))"
proof (rule stod_show_general)
  show "representable double (1 / 4)"
    unfolding representable_def
    by (intro conjI exI [of _ 1] exI [of _ "- 2"]) (simp_all add: double_def power_int_def power2_eq_square)
  have "(2::rat) powi (- 1021) \<le> 2 powi (- 2)" by (rule powi_mono) simp
  then show "1 / 4 = (0::rat) \<or> 2 powi (- 1021) \<le> \<bar>1 / 4 :: rat\<bar>" by (simp add: power_int_def power2_eq_square)
qed

end
