(* ===== verification/Profile_Props.thy ===== *)
theory Profile_Props
  imports Profile_Export Decimal ProxQP_Props
begin

text \<open>
  The profile that the experiments export is the one the policy loads: its text is accepted and
  gives back every number, and the tiers fit together.
\<close>

section \<open>Reading numbers back\<close>

lemma stod_show_nat:
  assumes "int n \<le> 2 ^ 53"
  shows "stod underflows (show_nat n) = Inr (Finite (of_nat n), length (show_nat n))"
proof -
  let ?s = "show_nat n"
  have d: "list_all is_digit ?s" "?s \<noteq> []" by simp_all
  have p: "number_prefix ?s = Some (Finite (of_nat n), [])"
    using number_prefix_printed [OF d, of "[]" 0 "[]"] by (simp add: printed_tail_def with_point_def show_nat_value)
  have v: "to_fp double (of_nat n) = Finite (of_nat n)" using double_int [of "int n"] assms by simp
  have u: "\<not> (rat_of_nat n \<noteq> 0 \<and> \<bar>rat_of_nat n\<bar> < 2 powi (- 1022) \<and> underflows (of_nat n))"
  proof (cases "n = 0")
    case False
    then have "(1::rat) \<le> of_nat n" by simp
    moreover have "(2::rat) powi (- 1022) \<le> 2 powi 0" by (rule powi_mono) simp
    ultimately show ?thesis by simp
  qed simp
  have sign: "take_sign ?s = (False, ?s)" "dropWhile is_space ?s = ?s"
    using digits_no_sign [OF d(2,1), of "[]"] digits_no_space [OF d(2,1), of "[]"] by simp_all
  show ?thesis
    using u by (simp only: stod_def digits_not_null [OF d(1)] Let_def sign prod.case p v option.case fp.case fp_convert.simps
        is_finite_simps if_False simp_thms list.size diff_zero)
qed

definition printable :: "fp \<Rightarrow> bool" where
  "printable x \<longleftrightarrow> (\<exists>q. x = Finite q \<and> representable double q \<and> (q = 0 \<or> 2 powi (- 1021) \<le> \<bar>q\<bar>))"

lemma number_read:
  assumes "map_of v key = Some (double_text x)" "printable x"
  shows "profile_number underflows v key = Inr x"
proof -
  obtain q where q: "x = Finite q" "representable double q" "q = 0 \<or> 2 powi (- 1021) \<le> \<bar>q\<bar>"
    using assms(2) by (auto simp: printable_def)
  show ?thesis
    using assms(1) stod_show_general [OF q(2,3), of underflows]
    by (simp add: profile_number_def double_text_def q(1) del: show_general.simps)
qed

lemma integer_read:
  assumes "map_of v key = Some (show_nat n)" "int n \<le> 2 ^ 53"
  shows "profile_number underflows v key = Inr (Finite (of_nat n))"
  using assms stod_show_nat [OF assms(2)] by (simp add: profile_number_def)

lemma u32_read:
  assumes "map_of v key = Some (show_nat n)" "n < 2 ^ 32"
  shows "profile_u32 underflows v key = Inr (of_nat n)"
proof -
  have "int n < 2 ^ 32" using assms(2) by (metis of_nat_less_iff of_nat_numeral of_nat_power)
  then have "int n \<le> 2 ^ 53" by simp
  note r = integer_read [OF assms(1) this]
  have "n \<le> 4294967295" using assms(2) by simp
  then have "rat_of_nat n \<le> of_nat 4294967295" by (simp only: of_nat_le_iff)
  then show ?thesis using r by (simp add: profile_u32_def)
qed

lemma duration_read:
  assumes "map_of v key = Some (show_nat n)" "0 < n" "int n \<le> 2 ^ 53"
  shows "profile_duration underflows wrapped v key = Inr (int n)"
proof -
  note r = integer_read [OF assms(1,3)]
  have rep: "representable double (of_nat n)"
    using to_fp_representable [OF well_formed_double double_int [of "int n"]] assms(3) by simp
  have "of_nat n \<le> rat_of_int (2 ^ 63 - 1)"
    using assms(3) of_int_le_iff [of "int n" "2 ^ 63 - 1", where 'a = rat] by simp
  then have big: "\<not> fp_less (fp_of_int double (2 ^ 63 - 1)) (Finite (of_nat n))"
    unfolding fp_of_int_def by (rule to_fp_ge [OF well_formed_double rep])
  have "\<not> fp_le (Finite (of_nat n)) (Finite 0)" using assms(2) by (simp add: fp_le_def)
  moreover have "fp_truncate (Finite (of_nat n)) = int n" by simp
  ultimately show ?thesis using r big assms(3) by (simp add: profile_duration_def)
qed

section \<open>Lines\<close>

definition good_setting :: "string \<times> string \<Rightarrow> bool" where
  "good_setting = (\<lambda>(k, v). k \<noteq> [] \<and> CHR ''='' \<notin> set k \<and> hd k \<noteq> CHR ''#'' \<and> newline \<notin> set k \<and> v \<noteq> [] \<and> newline \<notin> set v)"

lemma profile_line_setting:
  assumes "good_setting (k, v)" "k \<notin> fst ` set w"
  shows "profile_line (k @ CHR ''='' # v) w = Inr (w @ [(k, v)])"
proof -
  have t: "takeWhile (\<lambda>c. c \<noteq> CHR ''='') (k @ CHR ''='' # v) = k"
    using assms(1) by (intro takeWhile_part) (simp add: good_setting_def)
  have n: "map_of w k = None" using assms(2) by (simp add: map_of_eq_None_iff)
  show ?thesis using assms(1) n unfolding profile_line_def t Let_def
    by (cases k) (auto simp: good_setting_def)
qed

lemma profile_lines_settings:
  "list_all good_setting es \<Longrightarrow> distinct (map fst (w @ es)) \<Longrightarrow>
    profile_lines (map (\<lambda>(k, v). k @ CHR ''='' # v) es) w = Inr (w @ es)"
proof (induction es arbitrary: w)
  case (Cons e es)
  obtain k v where e: "e = (k, v)" by (cases e)
  have "k \<notin> fst ` set w" using Cons.prems(2) by (auto simp: e)
  then have "profile_line (k @ CHR ''='' # v) w = Inr (w @ [(k, v)])"
    using Cons.prems(1) by (intro profile_line_setting) (simp_all add: e)
  then show ?case using Cons.IH [of "w @ [e]"] Cons.prems by (simp add: e)
qed simp

lemma settings_lines:
  assumes "list_all good_setting es"
  shows "split_by newline (concat (map (\<lambda>(k, v). setting k v) es)) = map (\<lambda>(k, v). k @ CHR ''='' # v) es"
proof -
  have eq: "concat (map (\<lambda>(k, v). setting k v) es) = concat (map (\<lambda>p. p @ [newline]) (map (\<lambda>(k, v). k @ CHR ''='' # v) es))"
    by (simp add: comp_def setting_def case_prod_unfold)
  have "newline \<notin> set l" if "l \<in> set (map (\<lambda>(k, v). k @ CHR ''='' # v) es)" for l
    using that assms by (auto simp: list_all_iff good_setting_def)
  then show ?thesis unfolding eq by (rule split_by_lines)
qed

section \<open>Keys\<close>

lemma tier_key_inject: "tier_key i f = tier_key j g \<longleftrightarrow> i = j \<and> f = g"
proof
  assume k: "tier_key i f = tier_key j g"
  then have e: "show_nat i @ CHR ''.'' # f = show_nat j @ CHR ''.'' # g" by (simp add: tier_key_def)
  have s: "takeWhile is_digit (show_nat n @ CHR ''.'' # h) = show_nat n" for n h
    using span_digits [OF show_nat_digits, of "CHR ''.'' # h"] by simp
  have "show_nat i = show_nat j" using arg_cong [OF e, of "takeWhile is_digit"] unfolding s .
  then have "int i = int j" by (metis show_nat_value)
  then show "i = j \<and> f = g" using e by simp
qed simp

lemma tier_key_not_scalar: "tier_key i f \<notin> set scalar_keys"
  by (simp add: tier_key_def scalar_keys_def)

lemma setting_keys:
  "map fst (scalar_settings p) = scalar_keys" "map fst (tier_settings p i t) = map (tier_key i) tier_fields"
  by (simp_all add: scalar_settings_def scalar_keys_def tier_settings_def tier_fields_def)

lemma all_setting_keys: "map fst (all_settings p) = allowed_keys (length (ep_tiers p))"
  by (simp add: all_settings_def allowed_keys_def setting_keys map_concat comp_def)

lemma allowed_distinct: "distinct (allowed_keys n)"
proof -
  have s: "distinct scalar_keys" by (simp add: scalar_keys_def)
  have f: "distinct tier_fields" by (simp add: tier_fields_def)
  have "distinct (concat (map (\<lambda>i. map (tier_key i) tier_fields) [0..<n]))"
  proof (induction n)
    case (Suc n)
    then show ?case using f by (auto simp: distinct_map inj_on_def tier_key_inject)
  qed simp
  moreover have "set scalar_keys \<inter> set (concat (map (\<lambda>i. map (tier_key i) tier_fields) [0..<n])) = {}"
    using tier_key_not_scalar by auto
  ultimately show ?thesis using s by (simp add: allowed_keys_def)
qed

lemma setting_value: "(k, v) \<in> set (all_settings p) \<Longrightarrow> map_of (all_settings p) k = Some v"
  using allowed_distinct [of "length (ep_tiers p)"] by (simp add: all_setting_keys map_of_eq_Some_iff)

lemma show_positive_not_Nil: "0 < p \<Longrightarrow> show_positive p x \<noteq> []"
  by (auto simp: show_positive_def Let_def layout_def split: if_splits)

lemma show_general_not_Nil: "0 < p \<Longrightarrow> show_general p x \<noteq> []"
  by (cases x) (simp_all add: show_positive_not_Nil)

section \<open>The round trip\<close>

definition printable_profile :: "ExportedProfile \<Rightarrow> bool" where
  "printable_profile p \<longleftrightarrow>
     ep_calibration_id p \<noteq> [] \<and> newline \<notin> set (ep_calibration_id p) \<and>
     list_all (\<lambda>n. 0 < n \<and> uint n \<le> 2 ^ 53) [ep_ttft_target p, ep_tpot_target p, ep_window p] \<and>
     list_all printable [ep_runtime_weight p, ep_rho_prefill p, ep_rho_decode p, ep_buffer_z p, ep_boundary_weight p] \<and>
     list_all (\<lambda>t. list_all printable [et_base t, et_prefill t, et_decode t, et_margin t, et_scale t]) (ep_tiers p) \<and>
     ep_token_capacity p < 4294967296 \<and> ep_sequence_capacity p < 4294967296 \<and> length (ep_tiers p) < 2 ^ 32"

definition loaded_tier :: "ExportedProfile \<Rightarrow> ExportedTier \<Rightarrow> ProxQPRuntimeTier" where
  "loaded_tier p t = \<lparr>context_min = et_context_min t, context_max = et_context_max t, tau_base_ns = et_base t,
     tau_prefill_ns_per_token = et_prefill t, tau_decode_ns_per_item = et_decode t, runtime_margin_ns = et_margin t,
     runtime_scale_ns = et_scale t, token_capacity = ucast (ep_token_capacity p),
     sequence_capacity = ucast (ep_sequence_capacity p)\<rparr>"

definition loaded_configuration :: "ExportedProfile \<Rightarrow> ProxQPPolicyConfiguration" where
  "loaded_configuration p =
     \<lparr>pc_profile = \<lparr>schema_version = 1, calibration_id = ep_calibration_id p, tiers = map (loaded_tier p) (ep_tiers p)\<rparr>,
      pc_config = default_proxqp_config\<lparr>pq_ttft_target := uint (ep_ttft_target p), pq_tpot_target := uint (ep_tpot_target p),
        pq_window := uint (ep_window p), runtime_weight := ep_runtime_weight p, rho_prefill := ep_rho_prefill p,
        rho_decode := ep_rho_decode p, boundary_buffer_z := ep_buffer_z p, boundary_weight := ep_boundary_weight p\<rparr>\<rparr>"

lemma in_scalars: "e \<in> set (scalar_settings p) \<Longrightarrow> e \<in> set (all_settings p)"
  by (simp add: all_settings_def)

lemma in_tiers: "i < length (ep_tiers p) \<Longrightarrow> e \<in> set (tier_settings p i (ep_tiers p ! i)) \<Longrightarrow> e \<in> set (all_settings p)"
  by (auto simp: all_settings_def)

lemma word_read:
  assumes "(k, show_word w) \<in> set (all_settings p)"
  shows "unat w < 2 ^ 32 \<Longrightarrow> profile_u32 underflows (all_settings p) k = Inr (of_nat (unat w))"
    and "0 < w \<Longrightarrow> uint w \<le> 2 ^ 53 \<Longrightarrow> profile_duration underflows wrapped (all_settings p) k = Inr (uint w)"
proof -
  have m: "map_of (all_settings p) k = Some (show_nat (unat w))" using setting_value [OF assms] by (simp add: show_word_def)
  show "unat w < 2 ^ 32 \<Longrightarrow> profile_u32 underflows (all_settings p) k = Inr (of_nat (unat w))" by (rule u32_read [OF m])
  assume "0 < w" "uint w \<le> 2 ^ 53"
  then show "profile_duration underflows wrapped (all_settings p) k = Inr (uint w)"
    using duration_read [OF m] by (simp add: unat_gt_0 word_neq_0_conv)
qed

lemma double_read:
  "(k, double_text x) \<in> set (all_settings p) \<Longrightarrow> printable x \<Longrightarrow> profile_number underflows (all_settings p) k = Inr x"
  by (rule number_read [OF setting_value])

lemma load_exported_scalars:
  assumes "printable_profile p"
  shows "load_scalars underflows wrapped (all_settings p) =
    Inr ((loaded_configuration p)\<lparr>pc_profile := (pc_profile (loaded_configuration p))\<lparr>tiers := []\<rparr>\<rparr>)"
proof -
  have s: "e \<in> set (scalar_settings p) \<Longrightarrow> e \<in> set (all_settings p)" for e by (rule in_scalars)
  have one: "show_nat 1 = ''1''" by (subst show_nat.simps) (simp add: digit_char_def char_of_def bit_0)
  have "map_of (all_settings p) ''schema_version'' = Some ''1''"
    by (intro setting_value s) (simp add: scalar_settings_def)
  then have v: "profile_u32 underflows (all_settings p) ''schema_version'' = Inr 1"
    using u32_read [of "all_settings p" "''schema_version''" 1 underflows] unfolding one by simp
  have i: "map_of (all_settings p) ''calibration_id'' = Some (ep_calibration_id p)"
    by (intro setting_value s) (simp add: scalar_settings_def)
  have d: "profile_duration underflows wrapped (all_settings p) ''ttft_target_ns'' = Inr (uint (ep_ttft_target p))"
    "profile_duration underflows wrapped (all_settings p) ''tpot_target_ns'' = Inr (uint (ep_tpot_target p))"
    "profile_duration underflows wrapped (all_settings p) ''window_ns'' = Inr (uint (ep_window p))"
    using assms by (auto simp: printable_profile_def scalar_settings_def intro!: word_read(2) s)
  have n: "profile_number underflows (all_settings p) ''runtime_weight'' = Inr (ep_runtime_weight p)"
    "profile_number underflows (all_settings p) ''rho_prefill'' = Inr (ep_rho_prefill p)"
    "profile_number underflows (all_settings p) ''rho_decode'' = Inr (ep_rho_decode p)"
    "profile_number underflows (all_settings p) ''boundary_buffer_z'' = Inr (ep_buffer_z p)"
    "profile_number underflows (all_settings p) ''boundary_weight'' = Inr (ep_boundary_weight p)"
    using assms by (auto simp: printable_profile_def scalar_settings_def intro!: double_read s)
  show ?thesis using assms
    by (simp add: load_scalars_def Let_def v i d n loaded_configuration_def printable_profile_def)
qed

lemma ucast_of_unat: "(of_nat (unat w) :: u32) = ucast (w :: u64)"
  by (simp add: unsigned_def)

lemma load_exported_tier:
  assumes "printable_profile p" "i < length (ep_tiers p)"
  shows "load_tier underflows (all_settings p) i = Inr (loaded_tier p (ep_tiers p ! i))"
proof -
  let ?t = "ep_tiers p ! i" and ?v = "all_settings p"
  have s: "e \<in> set (tier_settings p i ?t) \<Longrightarrow> e \<in> set ?v" for e by (rule in_tiers [OF assms(2)])
  have small: "unat w < 2 ^ 32" for w :: u32
  proof -
    have "unat w < 2 ^ LENGTH(32)" by (rule unsigned_less)
    then show ?thesis by simp
  qed
  have caps: "unat (ep_token_capacity p) < 2 ^ 32" "unat (ep_sequence_capacity p) < 2 ^ 32"
    using assms(1) by (simp_all add: printable_profile_def word_less_nat_alt)
  have u: "profile_u32 underflows ?v (tier_key i ''context_min'') = Inr (et_context_min ?t)"
    "profile_u32 underflows ?v (tier_key i ''context_max'') = Inr (et_context_max ?t)"
    using word_read(1) [OF s small, of "tier_key i ''context_min''" "et_context_min ?t"]
      word_read(1) [OF s small, of "tier_key i ''context_max''" "et_context_max ?t"]
    by (simp_all add: tier_settings_def)
  have c: "profile_u32 underflows ?v (tier_key i ''token_capacity'') = Inr (ucast (ep_token_capacity p))"
    "profile_u32 underflows ?v (tier_key i ''sequence_capacity'') = Inr (ucast (ep_sequence_capacity p))"
    using word_read(1) [OF s caps(1), of "tier_key i ''token_capacity''"]
      word_read(1) [OF s caps(2), of "tier_key i ''sequence_capacity''"]
    by (simp_all add: tier_settings_def ucast_of_unat)
  have pr: "list_all printable [et_base ?t, et_prefill ?t, et_decode ?t, et_margin ?t, et_scale ?t]"
    using assms by (simp add: printable_profile_def list_all_length)
  have n: "profile_number underflows ?v (tier_key i ''tau_base_ns'') = Inr (et_base ?t)"
    "profile_number underflows ?v (tier_key i ''tau_prefill_ns_per_token'') = Inr (et_prefill ?t)"
    "profile_number underflows ?v (tier_key i ''tau_decode_ns_per_item'') = Inr (et_decode ?t)"
    "profile_number underflows ?v (tier_key i ''runtime_margin_ns'') = Inr (et_margin ?t)"
    "profile_number underflows ?v (tier_key i ''runtime_scale_ns'') = Inr (et_scale ?t)"
    using pr by (auto simp: tier_settings_def intro!: double_read s)
  show ?thesis by (simp add: load_tier_def Let_def u c n loaded_tier_def)
qed

lemma load_exported_tiers:
  assumes "printable_profile p" "i + left = length (ep_tiers p)"
  shows "load_tiers underflows (all_settings p) i left = Inr (map (loaded_tier p) (drop i (ep_tiers p)))"
  using assms(2)
proof (induction left arbitrary: i)
  case (Suc left)
  have "drop i (ep_tiers p) = ep_tiers p ! i # drop (i + 1) (ep_tiers p)" using Suc.prems Cons_nth_drop_Suc [of i "ep_tiers p"] by simp
  then show ?case using load_exported_tier [OF assms(1), of i] Suc by simp
qed simp

lemma settings_good:
  assumes "printable_profile p"
  shows "list_all good_setting (all_settings p)"
proof -
  have words: "newline \<notin> set (show_word w)" "show_word w \<noteq> []" "newline \<notin> set (show_nat n)" for w :: "'a::len word" and n
    by (simp_all add: show_nat_chars is_digit_def)
  have plain: "newline \<notin> set s" if "list_all plain_char s" for s
    using that by (auto simp: list_all_iff plain_char_def)
  have d: "newline \<notin> set (double_text x)" "double_text x \<noteq> []" for x
  proof -
    show "newline \<notin> set (double_text x)" unfolding double_text_def by (intro plain show_general_plain)
    show "double_text x \<noteq> []" unfolding double_text_def by (rule show_general_not_Nil) simp
  qed
  have key: "CHR ''='' \<notin> set (tier_key i f) \<and> newline \<notin> set (tier_key i f) \<and> tier_key i f \<noteq> [] \<and> hd (tier_key i f) \<noteq> CHR ''#''"
    if "f \<in> set tier_fields" for i f
    using that by (auto simp: tier_key_def tier_fields_def show_nat_chars is_digit_def)
  have "list_all good_setting (scalar_settings p)"
    using assms by (simp add: scalar_settings_def good_setting_def words d printable_profile_def)
  moreover have "list_all good_setting (tier_settings p i t)" for i t
    using key [of _ i] by (simp add: tier_settings_def good_setting_def words d tier_fields_def)
  ultimately show ?thesis by (auto simp: all_settings_def list_all_iff)
qed

text \<open>
  A profile written by the experiments is read by the policy as it was meant: every double is
  read back exactly, every tier is there, no key is missing, unknown or double.
\<close>
lemma exported_profile_loads:
  assumes "printable_profile p"
  shows "load_proxqp_policy_configuration underflows wrapped path (Some (profile_text p)) = Inr (loaded_configuration p)"
proof -
  let ?v = "all_settings p" and ?n = "length (ep_tiers p)"
  have "distinct (map fst ([] @ ?v))" using allowed_distinct by (simp add: all_setting_keys)
  then have l: "profile_lines (split_by newline (profile_text p)) [] = Inr ?v"
    using profile_lines_settings [OF settings_good [OF assms], of "[]"]
    by (simp add: profile_text_def settings_lines [OF settings_good [OF assms]])
  have n32: "?n < 2 ^ 32" using assms by (simp add: printable_profile_def)
  have "map_of ?v ''tier_count'' = Some (show_nat ?n)"
    by (intro setting_value in_scalars) (simp add: scalar_settings_def)
  then have c: "profile_u32 underflows ?v ''tier_count'' = Inr (of_nat ?n)" using n32 by (rule u32_read)
  have un: "unat (of_nat ?n :: u32) = ?n" using n32 by (rule unat_of_nat_u32)
  have t: "load_tiers underflows ?v 0 ?n = Inr (map (loaded_tier p) (ep_tiers p))"
    using load_exported_tiers [OF assms, of 0 ?n] by simp
  have k: "filter (\<lambda>k. k \<notin> set (allowed_keys ?n)) (map fst ?v) = []" by (simp add: all_setting_keys)
  show ?thesis
    by (simp add: load_proxqp_policy_configuration_def l c un load_exported_scalars [OF assms] t k)
      (simp add: loaded_configuration_def)
qed

section \<open>The tiers fit together\<close>

text \<open>What is relied on of Eigen: a solution has an entry for every column.\<close>
definition eigen_solves :: "Eigen \<Rightarrow> bool" where
  "eigen_solves E \<longleftrightarrow> (\<forall>a y. a \<noteq> [] \<longrightarrow> length (qr_solve E a y) = length (hd a))"

definition nonnegative :: "fp \<Rightarrow> bool" where
  "nonnegative v \<longleftrightarrow> is_finite v \<and> \<not> fp_less v (Finite 0)"

lemma place_nonnegative:
  assumes "list_all nonnegative fitted" "length columns \<le> length fitted"
  shows "length (place columns fitted) = 3 \<and> list_all nonnegative (place columns fitted)"
proof -
  have inner: "length (foldl (\<lambda>v k. v[columns ! k := fitted ! k]) v ks) = length v \<and>
      (list_all nonnegative v \<longrightarrow> list_all nonnegative (foldl (\<lambda>v k. v[columns ! k := fitted ! k]) v ks))"
    if "set ks \<subseteq> {..<length fitted}" for v ks
    using that
  proof (induction ks arbitrary: v)
    case (Cons k ks)
    have "nonnegative (fitted ! k)" using Cons.prems assms(1) by (simp add: list_all_length)
    moreover have "list_all nonnegative (v[columns ! k := fitted ! k])" if "list_all nonnegative v"
      using that calculation by (auto simp: list_all_iff dest!: subsetD [OF set_update_subset_insert])
    ultimately show ?case using Cons.IH [of "v[columns ! k := fitted ! k]"] Cons.prems by auto
  qed simp
  have "set [0..<length columns] \<subseteq> {..<length fitted}" using assms(2) by auto
  then show ?thesis
    using inner [of "[0..<length columns]" "replicate 3 (Finite 0)"] by (simp add: place_def list_all_iff nonnegative_def)
qed

lemma fit_step_nonnegative:
  assumes "eigen_solves E" "x \<noteq> []" "length b = 3" "list_all nonnegative b"
  shows "length (fst (fit_step E x y (b, e) m)) = 3 \<and> list_all nonnegative (fst (fit_step E x y (b, e) m))"
proof -
  let ?a = "map (\<lambda>row. map (\<lambda>c. row ! c) (fit_columns m)) x"
  have l: "length (qr_solve E ?a y) = length (fit_columns m)" using assms(1,2) by (simp add: eigen_solves_def hd_map)
  have p: "length (place (fit_columns m) (qr_solve E ?a y)) = 3 \<and> list_all nonnegative (place (fit_columns m) (qr_solve E ?a y))"
    if "\<not> list_ex (\<lambda>v. \<not> is_finite v \<or> fp_less v (Finite 0)) (qr_solve E ?a y)"
    using that l by (intro place_nonnegative) (auto simp: list_all_iff list_ex_iff nonnegative_def)
  show ?thesis using assms(3,4) p by (simp add: fit_step_def Let_def)
qed

text \<open>
  Whatever the linear algebra returns, the fitted runtime has three coefficients that are
  finite and not negative.
\<close>
lemma nonnegative_fit_nonnegative:
  assumes "eigen_solves E" "x \<noteq> []"
  shows "length (nonnegative_fit E x y) = 3 \<and> list_all nonnegative (nonnegative_fit E x y)"
proof -
  have steps: "length (fst (foldl (fit_step E x y) (b, e) ms)) = 3 \<and> list_all nonnegative (fst (foldl (fit_step E x y) (b, e) ms))"
    if "length b = 3" "list_all nonnegative b" for b e ms
    using that
  proof (induction ms arbitrary: b e)
    case (Cons m ms)
    obtain b' e' where s: "fit_step E x y (b, e) m = (b', e')" by (cases "fit_step E x y (b, e) m")
    show ?case using Cons.IH [of b' e'] fit_step_nonnegative [OF assms Cons.prems, of y e m] by (simp add: s)
  qed simp
  show ?thesis unfolding nonnegative_fit_def
    by (rule steps) (simp_all add: list_all_iff nonnegative_def is_finite_def)
qed

end
