(* ===== verification/Instances.thy ===== *)
theory Instances
  imports Experiment
begin

text \<open>
  \<open>generate_instances\<close> of \<open>experiments/slo_optimization_testing/experiment.cpp\<close>, with the generator
  \<open>std::mt19937_64\<close> it draws from: the last 312 words of its recurrence, the oldest first.
\<close>

unbundle bit_operations_syntax

section \<open>The generator\<close>

definition mt_seed_step :: "u64 \<Rightarrow> nat \<Rightarrow> u64" where
  "mt_seed_step x i = 6364136223846793005 * (x XOR drop_bit 62 x) + of_nat i"

fun mt_seed_from :: "u64 \<Rightarrow> nat \<Rightarrow> nat \<Rightarrow> u64 list" where
  "mt_seed_from x i 0 = []"
| "mt_seed_from x i (Suc left) = (let y = mt_seed_step x i in y # mt_seed_from y (i + 1) left)"

definition mt19937_64 :: "u64 \<Rightarrow> u64 list" where
  "mt19937_64 seed = seed # mt_seed_from seed 1 311"

definition mt_twist :: "u64 list \<Rightarrow> u64" where
  "mt_twist xs =
     (let y = (hd xs AND 0xFFFFFFFF80000000) OR (xs ! 1 AND 0x7FFFFFFF) in
      (xs ! 156) XOR drop_bit 1 y XOR (if bit y 0 then 0xB5026F5AA96619E9 else 0))"

definition mt_temper :: "u64 \<Rightarrow> u64" where
  "mt_temper x =
     (let z = x XOR (drop_bit 29 x AND 0x5555555555555555);
          z = z XOR (push_bit 17 z AND 0x71D67FFFEDA60000);
          z = z XOR (push_bit 37 z AND 0xFFF7EEE000000000) in
      z XOR drop_bit 43 z)"

definition mt_next :: "u64 list \<Rightarrow> u64 \<times> u64 list" where
  "mt_next xs = (let x = mt_twist xs in (mt_temper x, tl xs @ [x]))"

text \<open>
  \<open>std::generate_canonical\<close>: one word over \<open>2^64\<close>, and the largest number below 1 when that
  rounds to 1.
\<close>
definition canonical :: "u64 \<Rightarrow> fp" where
  "canonical w =
     (let r = ddiv (fp_of_int double (uint w)) (Finite (2 ^ 64)) in
      if fp_le (Finite 1) r then Finite (1 - 1 / 2 ^ 53) else r)"

text \<open>\<open>std::uniform_real_distribution\<close> from 0 to 1: \<open>r * (1 - 0) + 0\<close>.\<close>
definition draw_unit :: "u64 list \<Rightarrow> fp \<times> u64 list" where
  "draw_unit g = (let (w, g) = mt_next g in (dadd (dmul (canonical w) (Finite 1)) (Finite 0), g))"

section \<open>The instances\<close>

definition fill_instance :: "u64 \<Rightarrow> nat \<Rightarrow> u64 list \<Rightarrow> ProblemInstance \<times> u64 list" where
  "fill_instance seed n g =
     (let i = of_nat n :: u64; pressure = of_int (uint ((i + seed) mod 3)) :: rat; mix = (i div 3 + seed) mod 3;
          tightness = of_int (uint ((i div 9 + seed) mod 3)) :: rat;
          loose = Finite (2 - tightness); level = dadd (Finite 1) (Finite pressure); p = default_instance;
          head = dadd (dec (35 / 100)) (dmul (dec (18 / 100)) loose);
          (u1, g) = draw_unit g; (u2, g) = draw_unit g; (u3, g) = draw_unit g; (u4, g) = draw_unit g in
      (p\<lparr>pi_id := i, reward_prefill := dmul level (dec (if mix = 0 then 18 / 10 else 8 / 10)),
         reward_decode := dmul level (dec (if mix = 2 then 18 / 10 else 8 / 10)),
         ttft_headroom := head, tpot_headroom := head, ttft_scale := dec (1 / 10), tpot_scale := dec (1 / 10),
         fixed_margin_z := dec (2 / 10), memory_available := dadd (dec (55 / 100)) (dmul (dec (2 / 10)) loose),
         uncertainty_base := dadd (dec (2 / 1000)) (dmul (dec (1 / 100)) (Finite pressure)),
         pi_previous_prefill := dmul u1 (pi_token_budget p), pi_previous_decode := dmul u2 (pi_sequence_capacity p),
         prefill_available := dadd (Finite 64) (fp_floor (dmul u3 (Finite 448))),
         decode_available := dadd (Finite 4) (fp_floor (dmul u4 (Finite 60)))\<rparr>, g))"

fun instances_from :: "u64 \<Rightarrow> nat \<Rightarrow> nat \<Rightarrow> u64 list \<Rightarrow> ProblemInstance list" where
  "instances_from seed n 0 g = []"
| "instances_from seed n (Suc left) g =
     (let (p, g) = fill_instance seed n g in p # instances_from seed (n + 1) left g)"

definition generate_instances :: "u64 \<Rightarrow> nat \<Rightarrow> ProblemInstance list" where
  "generate_instances seed n = instances_from seed 0 n (mt19937_64 seed)"

end
