(* ===== verification/Experiment_Props.thy ===== *)
theory Experiment_Props
  imports Instances Rounding ProxQP_Props
begin

text \<open>
  The properties of the experiments' arithmetic: the generated instances are within their bounds,
  the headroom is the one of the production policy, the projection is a minimum and a score
  accounts for every request.
\<close>

section \<open>Instances\<close>

lemma double_one: "representable double 1"
  using double_small to_fp_representable [OF well_formed_double] by blast

lemma double_minus_one: "to_fp double (- 1) = Finite (- 1)"
  using double_int [of "- 1"] by simp

lemma canonical_unit: "\<exists>u. canonical w = Finite u \<and> 0 \<le> u \<and> u < 1"
proof -
  have rep64: "representable double (2 ^ 64)"
    using representable_powi [of double 64] by (simp add: double_def well_formed_def)
  have "uint w < 2 ^ LENGTH(64)" by (rule unsigned_less)
  then have "rat_of_int (uint w) \<le> of_int (2 ^ 64)" by (simp only: of_int_le_iff) simp
  then have w: "rat_of_int (uint w) \<le> 2 ^ 64" by simp
  have w0: "0 \<le> rat_of_int (uint w)" by (simp only: of_int_0_le_iff uint_ge_0)
  obtain x where x: "fp_of_int double (uint w) = Finite x" "0 \<le> x" "x \<le> 2 ^ 64"
    using to_fp_between [OF well_formed_double representable_zero w0 rep64 w] by (auto simp: fp_of_int_def)
  obtain r where r: "to_fp double (x / 2 ^ 64) = Finite r" "0 \<le> r" "r \<le> 1"
    using to_fp_between [OF well_formed_double representable_zero _ double_one, of "x / 2 ^ 64"] x(2,3) by auto
  then have "ddiv (fp_of_int double (uint w)) (Finite (2 ^ 64)) = Finite r" by (simp add: x(1))
  then have c: "canonical w = (if 1 \<le> r then Finite (1 - 1 / 2 ^ 53) else Finite r)"
    by (auto simp: canonical_def Let_def fp_le_def)
  show ?thesis
  proof (cases "1 \<le> r")
    case True
    then show ?thesis using c by (intro exI [of _ "1 - 1 / 2 ^ 53"]) simp
  next
    case False
    then show ?thesis using c r(2) by (intro exI [of _ r]) simp
  qed
qed

lemma times_one: "\<exists>v. dmul (Finite u) (Finite 1) = Finite v \<and> 0 \<le> v \<and> v \<le> 1" if "0 \<le> u" "u < 1"
  using to_fp_between [OF well_formed_double representable_zero _ double_one, of u] that by auto

lemma draw_unit_bounds:
  assumes "draw_unit g = (x, g')"
  shows "\<exists>u. x = Finite u \<and> 0 \<le> u \<and> u \<le> 1"
proof -
  obtain w where w: "x = dadd (dmul (canonical w) (Finite 1)) (Finite 0)"
    using assms by (auto simp: draw_unit_def split: prod.splits)
  obtain u where u: "canonical w = Finite u" "0 \<le> u" "u < 1" using canonical_unit by blast
  obtain v where v: "dmul (Finite u) (Finite 1) = Finite v" "0 \<le> v" "v \<le> 1" using times_one [OF u(2,3)] by blast
  have "\<exists>y. to_fp double v = Finite y \<and> 0 \<le> y \<and> y \<le> 1"
    using to_fp_between [OF well_formed_double representable_zero v(2) double_one v(3)] .
  then show ?thesis by (simp add: w u(1) v(1) del: fp_mul.simps)
qed

lemma double_bound: "representable double (numeral n)" if "(numeral n :: int) \<le> 2 ^ 53"
  using to_fp_representable [OF well_formed_double double_numeral [OF that]] .

text \<open>A draw scaled by a small number, and the integer below it.\<close>
lemma scaled_draw:
  assumes "0 \<le> u" "u \<le> 1" "representable double c" "0 \<le> c"
  obtains y where "dmul (Finite u) (Finite c) = Finite y" "0 \<le> y" "y \<le> c"
  using to_fp_between [OF well_formed_double representable_zero _ assms(3), of "u * c"] assms
    mult_right_mono [of u 1 c] by auto

lemma floored_draw:
  assumes "0 \<le> u" "u \<le> 1" "representable double (of_int m)" "0 \<le> m" "0 \<le> a" "a + m \<le> 2 ^ 53"
  obtains k where "dadd (Finite (of_int a)) (fp_floor (dmul (Finite u) (Finite (of_int m)))) = Finite (of_int k)"
    "a \<le> k" "k \<le> a + m"
proof -
  obtain y where y: "dmul (Finite u) (Finite (of_int m)) = Finite y" "0 \<le> y" "y \<le> of_int m"
    using scaled_draw [OF assms(1-3)] assms(4) by auto
  have f: "0 \<le> \<lfloor>y\<rfloor>" "\<lfloor>y\<rfloor> \<le> m" using y(2) floor_mono [OF y(3)] by simp_all
  have "to_fp double (of_int (a + \<lfloor>y\<rfloor>)) = Finite (of_int (a + \<lfloor>y\<rfloor>))"
    using f assms(5,6) by (intro double_int) simp
  then show thesis using that [of "a + \<lfloor>y\<rfloor>"] f by (simp add: y(1) del: fp_mul.simps)
qed

definition within_bounds :: "ProblemInstance \<Rightarrow> bool" where
  "within_bounds p \<longleftrightarrow>
     (\<exists>k. prefill_available p = Finite (of_int k) \<and> 64 \<le> k \<and> k \<le> 512) \<and>
     (\<exists>k. decode_available p = Finite (of_int k) \<and> 4 \<le> k \<and> k \<le> 64) \<and>
     (\<exists>y. pi_previous_prefill p = Finite y \<and> 0 \<le> y \<and> y \<le> 512) \<and>
     (\<exists>y. pi_previous_decode p = Finite y \<and> 0 \<le> y \<and> y \<le> 64) \<and>
     pi_token_budget p = Finite 512 \<and> pi_sequence_capacity p = Finite 64 \<and> ttft_headroom p = tpot_headroom p"

lemma fill_instance_bounds:
  assumes "fill_instance seed n g = (p, g')"
  shows "within_bounds p" "pi_id p = of_nat n"
proof -
  obtain u1 g1 where d1: "draw_unit g = (u1, g1)" by (cases "draw_unit g")
  obtain u2 g2 where d2: "draw_unit g1 = (u2, g2)" by (cases "draw_unit g1")
  obtain u3 g3 where d3: "draw_unit g2 = (u3, g3)" by (cases "draw_unit g2")
  obtain u4 g4 where d4: "draw_unit g3 = (u4, g4)" by (cases "draw_unit g3")
  obtain x1 where x1: "u1 = Finite x1" "0 \<le> x1" "x1 \<le> 1" using draw_unit_bounds [OF d1] by blast
  obtain x2 where x2: "u2 = Finite x2" "0 \<le> x2" "x2 \<le> 1" using draw_unit_bounds [OF d2] by blast
  obtain x3 where x3: "u3 = Finite x3" "0 \<le> x3" "x3 \<le> 1" using draw_unit_bounds [OF d3] by blast
  obtain x4 where x4: "u4 = Finite x4" "0 \<le> x4" "x4 \<le> 1" using draw_unit_bounds [OF d4] by blast
  have rep: "representable double 512" "representable double 64" "representable double (of_int 448)" "representable double (of_int 60)"
    by (simp_all add: double_bound)
  obtain y1 where y1: "dmul u1 (Finite 512) = Finite y1" "0 \<le> y1" "y1 \<le> 512"
    using scaled_draw [OF x1(2,3) rep(1)] x1(1) by auto
  obtain y2 where y2: "dmul u2 (Finite 64) = Finite y2" "0 \<le> y2" "y2 \<le> 64"
    using scaled_draw [OF x2(2,3) rep(2)] x2(1) by auto
  obtain k3 where k3: "dadd (Finite 64) (fp_floor (dmul u3 (Finite 448))) = Finite (of_int k3)" "64 \<le> k3" "k3 \<le> 512"
    using floored_draw [OF x3(2,3) rep(3), of 64] x3(1) by auto
  obtain k4 where k4: "dadd (Finite 4) (fp_floor (dmul u4 (Finite 60))) = Finite (of_int k4)" "4 \<le> k4" "k4 \<le> 64"
    using floored_draw [OF x4(2,3) rep(4), of 4] x4(1) by auto
  define q where "q = fst (fill_instance seed n g)"
  have q: "p = q" using assms by (simp add: q_def)
  have f: "pi_id q = of_nat n" "prefill_available q = dadd (Finite 64) (fp_floor (dmul u3 (Finite 448)))"
    "decode_available q = dadd (Finite 4) (fp_floor (dmul u4 (Finite 60)))"
    "pi_previous_prefill q = dmul u1 (Finite 512)" "pi_previous_decode q = dmul u2 (Finite 64)"
    "pi_token_budget q = Finite 512" "pi_sequence_capacity q = Finite 64" "ttft_headroom q = tpot_headroom q"
    by (simp_all add: q_def fill_instance_def Let_def d1 d2 d3 d4 default_instance_def)
  show "within_bounds p" "pi_id p = of_nat n"
    unfolding q within_bounds_def f k3(1) k4(1) y1(1) y2(1) using y1 y2 k3 k4 by auto
qed

lemma instances_from_bounds:
  "length (instances_from seed n left g) = left \<and>
    (\<forall>k<left. within_bounds (instances_from seed n left g ! k) \<and> pi_id (instances_from seed n left g ! k) = of_nat (n + k))"
proof (induction left arbitrary: n g)
  case (Suc left)
  obtain p g' where p: "fill_instance seed n g = (p, g')" by (cases "fill_instance seed n g")
  show ?case using Suc.IH [of "n + 1" g'] fill_instance_bounds [OF p] by (auto simp: p nth_Cons split: nat.split)
qed simp

text \<open>
  For every seed the generated instances are as many as asked for, numbered in order, and each
  is within the bounds of the experiment: what can be prefilled and decoded is an integer between
  its two limits, and what was served before is between zero and the capacity.
\<close>
lemma generated_instances_within:
  "length (generate_instances seed n) = n \<and>
   list_all within_bounds (generate_instances seed n) \<and> map pi_id (generate_instances seed n) = map of_nat [0..<n]"
  using instances_from_bounds [of seed 0 n "mt19937_64 seed"]
  by (auto simp: generate_instances_def list_all_length intro!: nth_equalityI)

section \<open>Headroom\<close>

text \<open>The moment the policy decides, as a snapshot of the experiments.\<close>
definition snapshot_of :: "policy_view \<Rightarrow> 'w ProxQPScheduler \<Rightarrow> Snapshot" where
  "snapshot_of v p =
     (let obs = map (\<lambda>ob. \<lparr>to_timestamp_ns = of_int (ob_at ob), to_value_ns = ob_value_ns ob\<rparr>) in
      \<lparr>sn_now_ns = of_int (pv_now v), sn_window_ns = of_int (pq_window (px_config p)),
       sn_ttft_target_ns = in_ns (pq_ttft_target (px_config p)), sn_tpot_target_ns = in_ns (pq_tpot_target (px_config p)),
       historical_ttft = obs (ttft_window p), historical_tpot = obs (tpot_window p),
       sn_prefills = map (\<lambda>r. \<lparr>pr_id = 0, pr_arrival_ns = of_int (arrival_time r), remaining_tokens = 0, allocated_tokens = 0\<rparr>)
         (filter (\<lambda>r. \<not> first_token_recorded r) (pv_requests v)),
       sn_decodes = map (\<lambda>r. \<lparr>de_id = 0, de_last_token_ns = of_int (last_token_time r)\<rparr>)
         (filter (\<lambda>r. stage r = DecodeStage \<and> first_token_recorded r) (pv_requests v)),
       sn_previous_prefill = Finite 0, sn_previous_decode = Finite 0\<rparr>)"

definition times_ordered :: "policy_view \<Rightarrow> 'w ProxQPScheduler \<Rightarrow> bool" where
  "times_ordered v p \<longleftrightarrow> 0 \<le> pq_window (px_config p) \<and> pv_now v + pq_window (px_config p) < 2 ^ 64 \<and> 0 \<le> pv_now v \<and>
     (\<forall>ob\<in>set (ttft_window p @ tpot_window p). 0 \<le> ob_at ob \<and> ob_at ob \<le> pv_now v) \<and>
     (\<forall>r\<in>set (pv_requests v). 0 \<le> arrival_time r \<and> arrival_time r \<le> pv_now v \<and>
        0 \<le> last_token_time r \<and> last_token_time r \<le> pv_now v)"

lemma uint_time: "0 \<le> t \<Longrightarrow> t < 2 ^ 64 \<Longrightarrow> uint (of_int t :: u64) = t"
  by (simp add: unsigned_of_int take_bit_int_eq_self_iff)

lemma age_of:
  assumes "0 \<le> t" "t \<le> n" "n < 2 ^ 64"
  shows "of_u64 (of_int n - of_int t) = in_ns (n - t)"
proof -
  have "(of_int n - of_int t :: u64) = of_int (n - t)" by simp
  then show ?thesis using assms uint_time [of "n - t"] by (simp only: of_u64_def in_ns_def)
qed

lemma window_agrees:
  assumes "times_ordered v p"
  shows "in_window (sn_window_ns (snapshot_of v p)) (sn_now_ns (snapshot_of v p))
      (if ttft then historical_ttft (snapshot_of v p) else historical_tpot (snapshot_of v p)) = fixed_values ttft v p"
proof -
  let ?w = "pq_window (px_config p)" and ?now = "pv_now v"
  have keep: "(of_int (ob_at ob) + of_int ?w \<ge> (of_int ?now :: u64)) \<longleftrightarrow> ob_at ob + ?w \<ge> ?now"
    if "ob \<in> set (ttft_window p @ tpot_window p)" for ob
  proof -
    have t: "0 \<le> ob_at ob" "ob_at ob \<le> ?now" using assms that by (simp_all add: times_ordered_def del: set_append)
    have "uint (of_int (ob_at ob) + of_int ?w :: u64) = ob_at ob + ?w"
      using t assms uint_time [of "ob_at ob + ?w"] by (simp only: times_ordered_def of_int_add [symmetric]) simp
    then show ?thesis using assms uint_time [of ?now] by (simp add: times_ordered_def word_le_def)
  qed
  have obs: "in_window (of_int ?w) (of_int ?now) (map (\<lambda>ob. \<lparr>to_timestamp_ns = of_int (ob_at ob), to_value_ns = ob_value_ns ob\<rparr>) obs) =
      map ob_value_ns (filter (\<lambda>ob. ob_at ob + ?w \<ge> ?now) obs)"
    if "set obs \<subseteq> set (ttft_window p @ tpot_window p)" for obs
    using that by (induction obs) (auto simp: in_window_def keep)
  show ?thesis by (simp add: snapshot_of_def Let_def fixed_values_def obs)
qed

lemma ages_agree:
  assumes "times_ordered v p"
  shows "(if ttft then map (\<lambda>r. of_u64 (sn_now_ns (snapshot_of v p) - pr_arrival_ns r)) (sn_prefills (snapshot_of v p))
          else map (\<lambda>r. of_u64 (sn_now_ns (snapshot_of v p) - de_last_token_ns r)) (sn_decodes (snapshot_of v p))) =
         waiting_ages ttft v"
proof -
  let ?now = "pv_now v"
  have n: "?now < 2 ^ 64" using assms by (simp add: times_ordered_def)
  have ages: "of_u64 (of_int ?now - of_int (arrival_time r)) = in_ns (?now - arrival_time r)"
    "of_u64 (of_int ?now - of_int (last_token_time r)) = in_ns (?now - last_token_time r)" if "r \<in> set (pv_requests v)" for r
    using assms that n by (auto simp: times_ordered_def intro!: age_of)
  have "map (\<lambda>r. of_u64 (of_int ?now - of_int (arrival_time r))) (filter (\<lambda>r. \<not> first_token_recorded r) rs) =
        List.map_filter (\<lambda>r. if \<not> first_token_recorded r then Some (in_ns (?now - arrival_time r)) else None) rs"
    "map (\<lambda>r. of_u64 (of_int ?now - of_int (last_token_time r))) (filter (\<lambda>r. stage r = DecodeStage \<and> first_token_recorded r) rs) =
        List.map_filter (\<lambda>r. if stage r = DecodeStage \<and> first_token_recorded r then Some (in_ns (?now - last_token_time r)) else None) rs"
    if "set rs \<subseteq> set (pv_requests v)" for rs
    using that by (induction rs) (auto simp: ages List.map_filter_simps)
  then show ?thesis by (cases ttft) (simp_all add: snapshot_of_def Let_def waiting_ages_def comp_def cong: if_cong)
qed

lemma rank_at_99: "rank_at (fp_clamp (dec (99 / 100)) (Finite 0) (Finite 1)) n = rank_of n"
proof -
  have "\<not> fp_less (dec (99 / 100)) (Finite 0)" "\<not> fp_less (Finite 1) (dec (99 / 100))"
    using to_fp_ge [OF well_formed_double representable_zero, of "99 / 100"] to_fp_le [OF well_formed_double double_one, of "99 / 100"]
    by simp_all
  then show ?thesis by (simp add: fp_clamp_def rank_at_def rank_of_def)
qed

lemma percentiles_agree:
  "times_ordered v p \<Longrightarrow> sn_percentile (snapshot_of v p) ttft delay = percentile ttft v p delay"
  unfolding sn_percentile_def percentile_def Let_def nearest_rank_at_def nearest_rank_def rank_at_99 window_agrees ages_agree ..

lemma halve_bisect: "halve meets k low high = bisect meets k low high"
proof -
  have "dmul (Finite (1 / 2)) a = ddiv a (Finite 2)" for a by (cases a) simp_all
  then show ?thesis by (induction k arbitrary: low high) (simp_all add: Let_def)
qed

text \<open>
  The experiments' headroom is the one the production policy computes, when something is
  waiting and the target is at least a nanosecond: both programs measure the same quantity,
  although one halves by multiplying and clamps the quantile.
\<close>
lemma experiment_headroom_is_policys:
  assumes "times_ordered v p" "waiting_ages ttft v \<noteq> []"
    and "fp_le (Finite 1) (in_ns (latency_goal ttft (px_config p)))"
  shows "sliding_window_headroom (snapshot_of v p) ttft = headroom ttft v p"
proof -
  let ?goal = "in_ns (if ttft then pq_ttft_target (px_config p) else pq_tpot_target (px_config p))"
  have t: "(if ttft then sn_ttft_target_ns (snapshot_of v p) else sn_tpot_target_ns (snapshot_of v p)) = ?goal"
    by (simp add: snapshot_of_def Let_def)
  have "fp_max (Finite 1) ?goal = ?goal"
    using assms(3) by (cases ?goal) (auto simp: fp_max_def fp_le_def latency_goal_def split: if_splits)
  then show ?thesis
    unfolding sliding_window_headroom_def headroom_def Let_def t percentiles_agree [OF assms(1)] halve_bisect
    using assms(2) by simp
qed

section \<open>Projection\<close>

text \<open>Lexicographic comparison: by the first order, and by the rest where that is undecided.\<close>
definition lex :: "('a \<Rightarrow> 'a \<Rightarrow> bool) \<Rightarrow> ('a \<Rightarrow> 'a \<Rightarrow> bool) \<Rightarrow> 'a \<Rightarrow> 'a \<Rightarrow> bool" where
  "lex lt rest a b \<longleftrightarrow> (if lt a b then True else if lt b a then False else rest a b)"

definition weak :: "('a \<Rightarrow> bool) \<Rightarrow> ('a \<Rightarrow> 'a \<Rightarrow> bool) \<Rightarrow> bool" where
  "weak dom_ok lt \<longleftrightarrow> (\<forall>a b c. dom_ok a \<longrightarrow> dom_ok b \<longrightarrow> dom_ok c \<longrightarrow> (lt a b \<longrightarrow> \<not> lt b a) \<and> (lt a c \<longrightarrow> lt a b \<or> lt b c))"

lemma weakD: "weak dom_ok lt \<Longrightarrow> dom_ok a \<Longrightarrow> dom_ok b \<Longrightarrow> lt a b \<Longrightarrow> \<not> lt b a"
  "weak dom_ok lt \<Longrightarrow> dom_ok a \<Longrightarrow> dom_ok b \<Longrightarrow> dom_ok c \<Longrightarrow> lt a c \<Longrightarrow> lt a b \<or> lt b c"
  unfolding weak_def by blast+

lemma weak_lex:
  assumes "weak dom_ok lt" "weak dom_ok rest"
  shows "weak dom_ok (lex lt rest)"
  unfolding weak_def
proof (intro allI impI conjI)
  fix a b c assume k: "dom_ok a" "dom_ok b" "dom_ok c"
  show "\<not> lex lt rest b a" if "lex lt rest a b"
    using that weakD(1) [OF assms(1) k(1,2)] weakD(1) [OF assms(2) k(1,2)] by (auto simp: lex_def split: if_splits)
  show "lex lt rest a b \<or> lex lt rest b c" if ac: "lex lt rest a c"
  proof (cases "lt a b \<or> lt b c")
    case True
    then show ?thesis by (auto simp: lex_def)
  next
    case False
    then have "\<not> lt a c" using weakD(2) [OF assms(1) k] by blast
    then have r: "\<not> lt c a" "rest a c" using ac by (auto simp: lex_def split: if_splits)
    show ?thesis
    proof (cases "lt b a \<or> lt c b")
      case True
      then have "lt c a" using weakD(2) [OF assms(1) k(2,3,1)] weakD(2) [OF assms(1) k(3,1,2)] False by blast
      then show ?thesis using r by simp
    next
      case no: False
      then show ?thesis using False weakD(2) [OF assms(2) k] r(2) by (auto simp: lex_def)
    qed
  qed
qed

lemma weak_fp: "(\<And>a. dom_ok a \<Longrightarrow> f a \<noteq> NaN) \<Longrightarrow> weak dom_ok (\<lambda>a b. fp_less (f a) (f b))"
  unfolding weak_def
proof (intro allI impI conjI)
  fix a b c assume n: "\<And>a. dom_ok a \<Longrightarrow> f a \<noteq> NaN" and k: "dom_ok a" "dom_ok b" "dom_ok c"
  note nn = n [OF k(1)] n [OF k(2)] n [OF k(3)]
  show "\<not> fp_less (f b) (f a)" if "fp_less (f a) (f b)" using that nn by (cases "f a"; cases "f b") auto
  show "fp_less (f a) (f b) \<or> fp_less (f b) (f c)" if "fp_less (f a) (f c)"
    using that nn by (cases "f a"; cases "f b"; cases "f c") auto
qed

lemma weak_linorder: "weak dom_ok (\<lambda>a b. f a < (f b :: 'b :: linorder))"
  unfolding weak_def by (metis less_asym less_trans not_less_iff_gr_or_eq)

lemma nearer_lex:
  "nearer target tb sc =
     lex (\<lambda>a b. fp_less (projection_distance target tb sc a) (projection_distance target tb sc b))
       (lex (\<lambda>a b. fp_less (conservative_runtime_ns a) (conservative_runtime_ns b))
         (lex (\<lambda>a b. - uint (prefill_tokens a + decode_items a) < - uint (prefill_tokens b + decode_items b))
           (lex (\<lambda>a b. prefill_tokens a < prefill_tokens b) (\<lambda>a b. decode_items a < decode_items b))))"
  by (intro ext) (auto simp: nearer_def lex_def Let_def)

text \<open>The first of the smallest is not after any element.\<close>
lemma min_fold:
  assumes w: "weak dom_ok lt" and k: "dom_ok m" "list_all dom_ok ys"
  defines "r \<equiv> foldl (\<lambda>m y. if lt y m then y else m) m ys"
  shows "r \<in> insert m (set ys) \<and> (\<forall>x\<in>insert m (set ys). \<not> lt x r)"
  unfolding r_def using k
proof (induction ys arbitrary: m)
  case Nil
  then show ?case using weakD(1) [OF w, of m m] by auto
next
  case (Cons y ys)
  define m' where "m' = (if lt y m then y else m)"
  define r where "r = foldl (\<lambda>m y. if lt y m then y else m) m' ys"
  have k: "dom_ok m" "dom_ok y" "dom_ok m'" "list_all dom_ok ys" using Cons.prems by (simp_all add: m'_def)
  have IH: "r \<in> insert m' (set ys)" "\<And>x. x \<in> insert m' (set ys) \<Longrightarrow> \<not> lt x r"
    using Cons.IH [OF k(3,4)] unfolding r_def by blast+
  have kr: "dom_ok r" using IH(1) k by (auto simp: list_all_iff)
  have other: "\<not> lt z r" if "z = m \<or> z = y" for z
  proof
    assume "lt z r"
    then have "lt z m' \<or> lt m' r" using weakD(2) [OF w _ k(3) kr] that k by blast
    then have "lt z m'" using IH(2) by blast
    then show False using that weakD(1) [OF w k(2,1)] weakD(1) [OF w k(1,1)] weakD(1) [OF w k(2,2)]
      by (auto simp: m'_def split: if_splits)
  qed
  have "foldl (\<lambda>m y. if lt y m then y else m) m (y # ys) = r" by (simp add: r_def m'_def)
  then show ?case using IH other by (auto simp: m'_def split: if_splits)
qed

text \<open>
  Projecting a continuous solution to a non-empty list of candidates gives one of them, and
  none comes before it in the order of distance, runtime, size and tokens; in particular none is
  nearer. It fails only on an empty list.
\<close>
lemma project_nearest_minimal:
  assumes "\<And>c. c \<in> set cs \<Longrightarrow> projection_distance target tb sc c \<noteq> NaN \<and> conservative_runtime_ns c \<noteq> NaN"
  shows "(case project_nearest target cs tb sc of
      None \<Rightarrow> cs = []
    | Some r \<Rightarrow> r \<in> set cs \<and> (\<forall>c\<in>set cs. \<not> nearer target tb sc c r \<and>
        \<not> fp_less (projection_distance target tb sc c) (projection_distance target tb sc r)))"
proof (cases cs)
  case (Cons c rest)
  let ?fine = "\<lambda>c. projection_distance target tb sc c \<noteq> NaN \<and> conservative_runtime_ns c \<noteq> NaN"
  have w: "weak ?fine (nearer target tb sc)"
    unfolding nearer_lex by (intro weak_lex weak_fp weak_linorder) auto
  have k: "?fine c" "list_all ?fine rest" using assms Cons by (auto simp: list_all_iff)
  have near: "fp_less (projection_distance target tb sc a) (projection_distance target tb sc b) \<Longrightarrow> nearer target tb sc a b" for a b
    by (simp add: nearer_def)
  show ?thesis using min_fold [OF w k] near Cons by (auto simp: project_nearest_def)
qed (simp add: project_nearest_def)

section \<open>Scores\<close>

lemma serve_decodes_count:
  "serve_decodes n rs = (min (unat n) (length rs), length rs - unat n)"
proof (induction rs arbitrary: n)
  case (Cons r rs)
  show ?case
  proof (cases "n = 0")
    case False
    then have u: "unat (n - 1) = unat n - 1" "unat n \<noteq> 0" by (simp_all add: unat_minus_one unat_eq_0)
    then show ?thesis using False Cons [of "n - 1"] by (auto split: prod.split)
  qed (simp add: Cons)
qed simp

lemma serve_prefills_count: "fst (serve_prefills n rs) + snd (serve_prefills n rs) = length rs"
  by (induction rs arbitrary: n) (auto simp: Let_def case_prod_unfold)

text \<open>Whether each prefill completes when all that can be is given in order.\<close>
fun prefills_done :: "nat \<Rightarrow> PrefillRequest list \<Rightarrow> bool list" where
  "prefills_done left [] = []"
| "prefills_done left (r # rs) =
     (let served = min left (unat (allocated_tokens r)) in (unat (remaining_tokens r) \<le> served) # prefills_done (left - served) rs)"

lemma serve_prefills_done: "fst (serve_prefills n rs) = length (filter id (prefills_done (unat n) rs))"
proof (induction rs arbitrary: n)
  case (Cons r rs)
  define a where "a = allocated_tokens r"
  have m: "unat (min n a) = min (unat n) (unat a)" by (simp add: min_def word_le_nat_alt)
  have "min n a \<le> n" by simp
  then have d: "unat (n - min n a) = unat n - min (unat n) (unat a)" using m by (simp only: unat_sub)
  show ?case using Cons [of "n - min n a"]
    by (simp add: Let_def a_def [symmetric] d m case_prod_unfold word_le_nat_alt)
qed simp

text \<open>
  A score accounts for every waiting request once: as many decodes complete as there are
  decode items, the prefills that complete are those the tokens reach in order, and all others are
  censored.
\<close>
lemma score_accounts:
  "let s' = score_one_step N s c duration_ns tb sc gp gd wt rp rd batch_scale in
     completed_ttft s' = length (filter id (prefills_done (unat (prefill_tokens c)) (sn_prefills s))) \<and>
     completed_ttft s' + censored_ttft s' = length (sn_prefills s) \<and>
     completed_tpot s' = min (unat (decode_items c)) (length (sn_decodes s)) \<and>
     completed_tpot s' + censored_tpot s' = length (sn_decodes s)"
  using serve_prefills_count [of "prefill_tokens c" "sn_prefills s"]
  by (simp add: score_one_step_def Let_def serve_decodes_count serve_prefills_done case_prod_unfold)

section \<open>Witnesses\<close>

lemma new_proxqp_window: "new_proxqp garbage m hw profile c w = Inr p \<Longrightarrow> tpot_window p = []"
  by (auto simp: new_proxqp_def Let_def split: if_splits)

lemmas demo_tpot_window = new_proxqp_window [OF demo_proxqp_new]

lemma experiment_headroom_is_policys_witness:
  "sliding_window_headroom (snapshot_of demo_view demo_proxqp) True = headroom True demo_view demo_proxqp"
proof (rule experiment_headroom_is_policys)
  show "times_ordered demo_view demo_proxqp"
    by (simp add: times_ordered_def demo_tpot_window demo_view_def new_request_def demo_proxqp_fields demo_proxqp_config_def default_proxqp_config_def)
  show "waiting_ages True demo_view \<noteq> []"
    by (simp add: waiting_ages_def demo_view_def new_request_def List.map_filter_simps)
  show "fp_le (Finite 1) (in_ns (latency_goal True (px_config demo_proxqp)))"
    by (simp add: latency_goal_def demo_proxqp_fields demo_proxqp_config_def default_proxqp_config_def in_ns_def fp_of_int_def
        double_numeral fp_le_def)
qed

definition demo_candidate :: "u32 \<Rightarrow> u32 \<Rightarrow> ExpCandidate" where
  "demo_candidate p d = \<lparr>prefill_tokens = p, decode_items = d, conservative_runtime_ns = Finite 1, memory_bytes = 0\<rparr>"

lemma project_nearest_minimal_witness:
  "\<exists>r. project_nearest \<lparr>cs_p = Finite 2, cs_d = Finite 0\<rparr> [demo_candidate 1 0, demo_candidate 2 0] (Finite 1) (Finite 1) = Some r \<and>
     \<not> fp_less (projection_distance \<lparr>cs_p = Finite 2, cs_d = Finite 0\<rparr> (Finite 1) (Finite 1) (demo_candidate 2 0))
        (projection_distance \<lparr>cs_p = Finite 2, cs_d = Finite 0\<rparr> (Finite 1) (Finite 1) r)"
proof -
  let ?t = "\<lparr>cs_p = Finite 2, cs_d = Finite 0\<rparr>"
  have d: "projection_distance ?t (Finite 1) (Finite 1) c \<noteq> NaN \<and> conservative_runtime_ns c \<noteq> NaN"
    if "c \<in> set [demo_candidate 1 0, demo_candidate 2 0]" for c
    using that by (auto simp: projection_distance_def demo_candidate_def of_u32_def fp_of_int_def double_numeral fp_sub_def
        double_minus_one)
  from project_nearest_minimal [of "[demo_candidate 1 0, demo_candidate 2 0]" ?t "Finite 1" "Finite 1", OF d]
  show ?thesis by (auto split: option.splits)
qed

end
