(* ===== verification/Solvers.thy ===== *)
theory Solvers
  imports Experiment Printing
begin

text \<open>
  The optimisation problems the experiments hand to two solvers
  (\<open>experiments/slo_optimization_testing/solvers.cpp\<close>) and what they record of them. The libraries
  ProxQP and Clarabel, the clock and \<open>sqrt\<close> are the record \<open>Solver_World\<close> of parameters: what each
  run of a solver returns and how long its phases took.
\<close>

section \<open>Problems\<close>

definition qp_data :: "ProblemInstance \<Rightarrow> QP" where
  "qp_data i =
     (let z = Finite 0; one = Finite 1; minus = Finite (- 1); tb = pi_token_budget i; sc = pi_sequence_capacity i;
          tp = ddiv (runtime_prefill i) (ttft_scale i); td = ddiv (runtime_decode i) (ttft_scale i);
          pp = ddiv (runtime_prefill i) (tpot_scale i); pd = ddiv (runtime_decode i) (tpot_scale i);
          ut = dsub (dsub (ddiv (ttft_headroom i) (ttft_scale i)) (ddiv (runtime_base i) (ttft_scale i))) (fixed_margin_z i);
          up = dsub (dsub (ddiv (tpot_headroom i) (tpot_scale i)) (ddiv (runtime_base i) (tpot_scale i))) (fixed_margin_z i);
          buffer = fp_neg (risk_buffer_z i) in
      \<lparr>qp_h = [[ddiv (pi_rho_prefill i) (dmul tb tb), z, z, z], [z, ddiv (pi_rho_decode i) (dmul sc sc), z, z],
               [z, z, risk_weight i, z], [z, z, z, risk_weight i]],
       qp_g = [dsub (dadd (ddiv (fp_neg (reward_prefill i)) tb)
                       (ddiv (dmul (pi_runtime_weight i) (runtime_prefill i)) (batch_duration_scale i)))
                 (ddiv (dmul (pi_rho_prefill i) (pi_previous_prefill i)) (dmul tb tb)),
               dsub (dadd (ddiv (fp_neg (reward_decode i)) sc)
                       (ddiv (dmul (pi_runtime_weight i) (runtime_decode i)) (batch_duration_scale i)))
                 (ddiv (dmul (pi_rho_decode i) (pi_previous_decode i)) (dmul sc sc)), z, z],
       qp_c = [[minus, z, z, z], [z, minus, z, z], [one, z, z, z], [z, one, z, z], [one, one, z, z],
               [ddiv one (chunk_size i), one, z, z], [memory_prefill i, memory_decode i, z, z],
               [tp, td, z, z], [pp, pd, z, z], [tp, td, minus, z], [pp, pd, z, minus], [z, z, minus, z], [z, z, z, minus]],
       qp_lower = [fp_neg (prefill_available i), fp_neg (decode_available i), z, z, z, z, z, z, z,
                   buffer, buffer, buffer, buffer],
       qp_upper = [z, z, prefill_available i, decode_available i, tb, sc, dsub (memory_available i) (memory_base i),
                   ut, up, dsub ut (risk_buffer_z i), dsub up (risk_buffer_z i), z, z]\<rparr>)"

datatype UncertaintyModel = None_model | Diagonal | Covariance

text \<open>\<open>min 1/2 x'Px + q'x\<close> with \<open>b - Ax\<close> in a product of cones: nonnegative rows, then a second-order cone.\<close>
record ConicProgram =
  cp_P :: "fp list list"
  cp_q :: "fp list"
  cp_A :: "fp list list"
  cp_b :: "fp list"
  cp_linear_rows :: nat
  cp_soc_rows :: nat

text \<open>The rows on \<open>p\<close> and \<open>d\<close> that all programs share, each with \<open>k\<close> further columns.\<close>
definition resource_rows :: "ProblemInstance \<Rightarrow> nat \<Rightarrow> fp list list" where
  "resource_rows i k =
     (let z = Finite 0; one = Finite 1; minus = Finite (- 1) in
      map (\<lambda>r. r @ replicate k z)
        [[minus, z], [z, minus], [one, z], [z, one], [one, one], [ddiv one (chunk_size i), one],
         [memory_prefill i, memory_decode i]])"

definition resource_bounds :: "ProblemInstance \<Rightarrow> fp list" where
  "resource_bounds i =
     [Finite 0, Finite 0, prefill_available i, decode_available i, pi_token_budget i, pi_sequence_capacity i,
      dsub (memory_available i) (memory_base i)]"

text \<open>A square matrix with the given diagonal.\<close>
definition diagonal_matrix :: "fp list \<Rightarrow> fp list list" where
  "diagonal_matrix ds = map (\<lambda>k. (replicate (length ds) (Finite 0))[k := ds ! k]) [0..<length ds]"

definition plain_program :: "ProblemInstance \<Rightarrow> ConicProgram" where
  "plain_program i =
     (let z = Finite 0; minus = Finite (- 1); tb = pi_token_budget i; sc = pi_sequence_capacity i;
          tp = ddiv (runtime_prefill i) (ttft_scale i); td = ddiv (runtime_decode i) (ttft_scale i);
          pp = ddiv (runtime_prefill i) (tpot_scale i); pd = ddiv (runtime_decode i) (tpot_scale i);
          b7 = dsub (dsub (ddiv (ttft_headroom i) (ttft_scale i)) (ddiv (runtime_base i) (ttft_scale i))) (fixed_margin_z i);
          b8 = dsub (dsub (ddiv (tpot_headroom i) (tpot_scale i)) (ddiv (runtime_base i) (tpot_scale i))) (fixed_margin_z i) in
      \<lparr>cp_P = diagonal_matrix [ddiv (pi_rho_prefill i) (dmul tb tb), ddiv (pi_rho_decode i) (dmul sc sc),
                risk_weight i, risk_weight i],
       cp_q = [dadd (dsub (ddiv (fp_neg (reward_prefill i)) tb)
                       (ddiv (dmul (pi_rho_prefill i) (pi_previous_prefill i)) (dmul tb tb)))
                 (ddiv (dmul (pi_runtime_weight i) (runtime_prefill i)) (batch_duration_scale i)),
               dadd (dsub (ddiv (fp_neg (reward_decode i)) sc)
                       (ddiv (dmul (pi_rho_decode i) (pi_previous_decode i)) (dmul sc sc)))
                 (ddiv (dmul (pi_runtime_weight i) (runtime_decode i)) (batch_duration_scale i)), z, z],
       cp_A = resource_rows i 2 @
              [[tp, td, z, z], [pp, pd, z, z], [tp, td, minus, z], [pp, pd, z, minus], [z, z, minus, z], [z, z, z, minus]],
       cp_b = resource_bounds i @ [b7, b8, dsub b7 (risk_buffer_z i), dsub b8 (risk_buffer_z i), z, z],
       cp_linear_rows = 13, cp_soc_rows = 0\<rparr>)"

text \<open>The variables are \<open>p, d, t_z, r, u_T, u_D\<close>; \<open>scale\<close> is the geometric mean of the two scales.\<close>
definition robust_program :: "fp \<Rightarrow> bool \<Rightarrow> ProblemInstance \<Rightarrow> ConicProgram" where
  "robust_program scale covariance i =
     (let z = Finite 0; minus = Finite (- 1); tb = pi_token_budget i; sc = pi_sequence_capacity i;
          st = ddiv scale (ttft_scale i); sp = ddiv scale (tpot_scale i);
          ht = ddiv (ttft_headroom i) (ttft_scale i); hp = ddiv (tpot_headroom i) (tpot_scale i) in
      \<lparr>cp_P = diagonal_matrix [ddiv (pi_rho_prefill i) (dmul tb tb), ddiv (pi_rho_decode i) (dmul sc sc),
                z, z, risk_weight i, risk_weight i],
       cp_q = [dsub (ddiv (fp_neg (reward_prefill i)) tb)
                 (ddiv (dmul (pi_rho_prefill i) (pi_previous_prefill i)) (dmul tb tb)),
               dsub (ddiv (fp_neg (reward_decode i)) sc)
                 (ddiv (dmul (pi_rho_decode i) (pi_previous_decode i)) (dmul sc sc)),
               ddiv (dmul (pi_runtime_weight i) scale) (batch_duration_scale i), z, z, z],
       cp_A = resource_rows i 4 @
              [[z, z, st, z, z, z], [z, z, sp, z, z, z],
               [ddiv (runtime_prefill i) scale, ddiv (runtime_decode i) scale, minus,
                (if covariance then covariance_kappa i else uncertainty_kappa i), z, z],
               [z, z, z, minus, z, z], [z, z, st, z, minus, z], [z, z, sp, z, z, minus],
               [z, z, z, z, minus, z], [z, z, z, z, z, minus], [z, z, z, minus, z, z]] @
              (if covariance
               then map (\<lambda>k. [ddiv (fp_neg (covariance_factor_prefill i ! k)) scale,
                              ddiv (fp_neg (covariance_factor_decode i ! k)) scale, z, z, z, z]) [0..<4] @
                    [replicate 6 z]
               else [replicate 6 z, [ddiv (fp_neg (uncertainty_prefill i)) scale, z, z, z, z, z],
                     [z, ddiv (fp_neg (uncertainty_decode i)) scale, z, z, z, z]]),
       cp_b = resource_bounds i @
              [ht, hp, ddiv (fp_neg (runtime_base i)) scale, z, dsub ht (risk_buffer_z i), dsub hp (risk_buffer_z i), z, z, z] @
              (if covariance
               then map (\<lambda>k. ddiv (covariance_factor_constant i ! k) scale) [0..<4] @ [ddiv (covariance_residual i) scale]
               else [ddiv (uncertainty_base i) scale, z, z]),
       cp_linear_rows = 15, cp_soc_rows = (if covariance then 6 else 4)\<rparr>)"

section \<open>Solving\<close>

datatype SolverStatus = Solved | AlmostSolved | PrimalInfeasible | DualInfeasible | MaxIterations | MaxTime
  | NumericalError | InsufficientProgress | OtherStatus

definition clarabel_status :: "SolverStatus \<Rightarrow> string" where
  "clarabel_status s =
     (case s of Solved \<Rightarrow> ''solved'' | AlmostSolved \<Rightarrow> ''almost_solved'' | PrimalInfeasible \<Rightarrow> ''primal_infeasible''
      | DualInfeasible \<Rightarrow> ''dual_infeasible'' | MaxIterations \<Rightarrow> ''max_iterations'' | MaxTime \<Rightarrow> ''max_time''
      | NumericalError \<Rightarrow> ''numerical_error'' | InsufficientProgress \<Rightarrow> ''insufficient_progress'' | OtherStatus \<Rightarrow> ''other'')"

text \<open>What one run of a solver from scratch gives; \<open>'s\<close> is its status.\<close>
record 's ColdRun =
  cr_setup_ns :: fp
  cr_solve_ns :: fp
  cr_status :: 's
  cr_p :: fp
  cr_d :: fp
  cr_objective :: fp
  cr_iterations :: u64
  cr_primal_residual :: fp
  cr_dual_residual :: fp

record Solver_World =
  run_proxqp :: "QP \<Rightarrow> nat \<Rightarrow> (bool \<times> int) ColdRun" \<comment> \<open>of the k-th repetition: solved, and the number of the status\<close>
  warm_proxqp :: "QP \<Rightarrow> nat \<Rightarrow> fp \<times> fp" \<comment> \<open>time of the update and of solving\<close>
  run_clarabel :: "ConicProgram \<Rightarrow> nat \<Rightarrow> SolverStatus ColdRun"
  warm_clarabel :: "ConicProgram \<Rightarrow> nat \<Rightarrow> fp \<times> fp"
  build_ns :: fp \<comment> \<open>time of building the matrices\<close>
  c_sqrt :: "fp \<Rightarrow> fp"

record SolveResult =
  sr_success :: bool
  sr_p :: fp
  sr_d :: fp
  sr_objective :: fp
  setup_ns :: fp
  solve_ns :: fp
  total_ns :: fp
  warm_update_ns :: fp
  warm_solve_ns :: fp
  cold_setup_samples :: "fp list"
  cold_solve_samples :: "fp list"
  warm_update_samples :: "fp list"
  warm_solve_samples :: "fp list"
  sr_primal_residual :: fp
  sr_dual_residual :: fp
  sr_iterations :: u64
  sr_status :: string

definition mean :: "fp list \<Rightarrow> fp" where
  "mean v = (if v = [] then Finite 0 else ddiv (foldl dadd (Finite 0) v) (fp_of_int double (int (length v))))"

text \<open>The result of \<open>max 1 repetitions\<close> runs: the samples of all and the outcome of the last.\<close>
definition solve_result :: "('s \<Rightarrow> bool) \<Rightarrow> ('s \<Rightarrow> string) \<Rightarrow> fp \<Rightarrow> (nat \<Rightarrow> 's ColdRun) \<Rightarrow> (nat \<Rightarrow> fp \<times> fp) \<Rightarrow> nat \<Rightarrow> SolveResult" where
  "solve_result success status built cold warm repetitions =
     (let n = max 1 repetitions; colds = map cold [0..<n]; warms = map warm [0..<n]; r = last colds;
          setup = dadd (mean (map cr_setup_ns colds)) built; solve = mean (map cr_solve_ns colds) in
      \<lparr>sr_success = success (cr_status r), sr_p = cr_p r, sr_d = cr_d r, sr_objective = cr_objective r,
       setup_ns = setup, solve_ns = solve, total_ns = dadd setup solve,
       warm_update_ns = mean (map fst warms), warm_solve_ns = mean (map snd warms),
       cold_setup_samples = map cr_setup_ns colds, cold_solve_samples = map cr_solve_ns colds,
       warm_update_samples = map fst warms, warm_solve_samples = map snd warms,
       sr_primal_residual = cr_primal_residual r, sr_dual_residual = cr_dual_residual r,
       sr_iterations = cr_iterations r, sr_status = status (cr_status r)\<rparr>)"

definition clarabel_program :: "Solver_World \<Rightarrow> ProblemInstance \<Rightarrow> UncertaintyModel \<Rightarrow> ConicProgram" where
  "clarabel_program W i model =
     (let scale = c_sqrt W (dmul (ttft_scale i) (tpot_scale i)) in
      case model of None_model \<Rightarrow> plain_program i | Diagonal \<Rightarrow> robust_program scale False i
      | Covariance \<Rightarrow> robust_program scale True i)"

definition clarabel_run :: "Solver_World \<Rightarrow> ProblemInstance \<Rightarrow> UncertaintyModel \<Rightarrow> nat \<Rightarrow> SolveResult" where
  "clarabel_run W i model repetitions =
     (let program = clarabel_program W i model in
      solve_result (\<lambda>s. s = Solved \<or> s = AlmostSolved) clarabel_status (build_ns W)
        (run_clarabel W program) (warm_clarabel W program) repetitions)"

text \<open>Nothing is added to the time of the setup.\<close>
definition solve_proxqp_exp :: "Solver_World \<Rightarrow> ProblemInstance \<Rightarrow> nat \<Rightarrow> SolveResult" where
  "solve_proxqp_exp W i repetitions =
     (let program = qp_data i;
          r = solve_result fst (\<lambda>(solved, number). if solved then ''solved'' else ''failed-'' @ show_int number) (Finite 0)
                (run_proxqp W program) (warm_proxqp W program) repetitions;
          setup = mean (cold_setup_samples r) in
      r\<lparr>setup_ns := setup, total_ns := dadd setup (solve_ns r)\<rparr>)"

definition solve_clarabel_qp :: "Solver_World \<Rightarrow> ProblemInstance \<Rightarrow> nat \<Rightarrow> SolveResult" where
  "solve_clarabel_qp W i r = clarabel_run W i None_model r"

definition solve_clarabel_socp :: "Solver_World \<Rightarrow> ProblemInstance \<Rightarrow> nat \<Rightarrow> SolveResult" where
  "solve_clarabel_socp W i r = clarabel_run W i Diagonal r"

definition solve_clarabel_covariance_socp :: "Solver_World \<Rightarrow> ProblemInstance \<Rightarrow> nat \<Rightarrow> SolveResult" where
  "solve_clarabel_covariance_socp W i r = clarabel_run W i Covariance r"

section \<open>The problems compared\<close>

text \<open>
  Both solvers are given the same problem: the quadratic costs, the constraint rows and their
  upper bounds of the program for ProxQP and of the one for Clarabel are the same numbers, entry by
  entry; only the order of the additions in the linear cost differs.
\<close>
lemma solvers_share_constraints:
  "qp_h (qp_data i) = cp_P (plain_program i) \<and> qp_c (qp_data i) = cp_A (plain_program i) \<and>
   qp_upper (qp_data i) = cp_b (plain_program i)"
  by (simp add: qp_data_def plain_program_def diagonal_matrix_def resource_rows_def resource_bounds_def Let_def
      numeral_eq_Suc upt_rec)

text \<open>A problem of the policy as an instance of the experiments.\<close>
definition instance_of_input :: "ProxQPInput \<Rightarrow> ProblemInstance" where
  "instance_of_input q =
     default_instance\<lparr>pi_token_budget := qi_token_budget q, pi_sequence_capacity := qi_sequence_capacity q,
       prefill_available := qi_prefill_available q, decode_available := qi_decode_available q,
       chunk_size := qi_chunk_size q, memory_available := qi_memory_available q, memory_base := qi_memory_base q,
       memory_prefill := qi_memory_prefill q, memory_decode := qi_memory_decode q,
       runtime_base := dadd (qi_runtime_base_ns q) (qi_runtime_margin_ns q), runtime_prefill := qi_runtime_prefill_ns q,
       runtime_decode := qi_runtime_decode_ns q, ttft_headroom := qi_ttft_headroom_ns q,
       tpot_headroom := qi_tpot_headroom_ns q, ttft_scale := qi_runtime_scale_ns q, tpot_scale := qi_runtime_scale_ns q,
       batch_duration_scale := qi_batch_duration_scale_ns q, fixed_margin_z := Finite 0,
       risk_buffer_z := qi_boundary_buffer_z q, risk_weight := qi_boundary_weight q,
       reward_prefill := qi_reward_prefill q, reward_decode := qi_reward_decode q,
       pi_runtime_weight := qi_runtime_weight q, pi_rho_prefill := qi_rho_prefill q, pi_rho_decode := qi_rho_decode q,
       pi_previous_prefill := qi_previous_prefill q, pi_previous_decode := qi_previous_decode q\<rparr>"

text \<open>
  The policy's quadratic program is the one the experiments evaluated, without its two hard
  limits on the runtime: the costs are the same numbers, and the constraint rows are those of the
  experiments without the rows that keep the runtime below each headroom.
\<close>
lemma policy_program_is_experiments:
  "qp_h (proxqp_program q) = qp_h (qp_data (instance_of_input q)) \<and>
   qp_g (proxqp_program q) = qp_g (qp_data (instance_of_input q)) \<and>
   qp_c (proxqp_program q) = take 7 (qp_c (qp_data (instance_of_input q))) @ drop 9 (qp_c (qp_data (instance_of_input q))) \<and>
   take 7 (qp_upper (proxqp_program q)) = take 7 (qp_upper (qp_data (instance_of_input q)))"
  by (simp add: qp_data_def proxqp_program_def instance_of_input_def Let_def prefill_gradient_def decode_gradient_def)

text \<open>
  Every program handed to Clarabel has consistent dimensions: the cost matrix is square, each
  constraint row has an entry per variable, and the rows are exactly those of the two cones.
\<close>
lemma conic_programs_dimensioned:
  "let c = clarabel_program W i model; n = (if model = None_model then 4 else 6) in
     length (cp_q c) = n \<and> length (cp_P c) = n \<and> list_all (\<lambda>r. length r = n) (cp_P c) \<and>
     list_all (\<lambda>r. length r = n) (cp_A c) \<and> length (cp_A c) = cp_linear_rows c + cp_soc_rows c \<and>
     length (cp_b c) = length (cp_A c)"
  by (cases model)
    (simp_all add: clarabel_program_def plain_program_def robust_program_def diagonal_matrix_def resource_rows_def
      resource_bounds_def Let_def list_all_iff)

end
